(* ===== verification/Prelude.thy ===== *)
theory Prelude
  imports Main "HOL-Library.Sublist"
begin

text \<open>
  Shared ground of the development: the JavaScript \<open>Map\<close> as an insertion-ordered
  association list (iteration order matters for the eviction loops of the nonce store and the
  rate limiter), thrown exceptions as the left side of a sum, the string helpers the sources
  use (decimal printing, \<open>trim\<close>, \<open>startsWith\<close>, character classes), the \<open>kv_store\<close>
  interface that every map-backed store implements, and the \<open>inv_machine\<close> interface that
  lifts a one-step invariant to runs.

  Strings are \<open>char list\<close>: a JavaScript string restricted to code units below 256.
  Times are \<open>int\<close> milliseconds, always an explicit argument (the value \<open>Date.now()\<close>
  returned).
\<close>

named_theorems jsmap_simps \<open>lookup laws of the insertion-ordered map\<close>
named_theorems js_defs \<open>definitions a proof about JavaScript helpers unfolds\<close>

section \<open>Exceptions\<close>

type_synonym 'a throws = "string + 'a"

abbreviation throw :: "string \<Rightarrow> 'a throws" where
  "throw msg \<equiv> Inl msg"

abbreviation returns :: "'a \<Rightarrow> 'a throws" where
  "returns v \<equiv> Inr v"

fun and_then :: "'a throws \<Rightarrow> ('a \<Rightarrow> 'b throws) \<Rightarrow> 'b throws" where
  "and_then (Inl e) f = Inl e"
| "and_then (Inr v) f = f v"

lemma and_then_Inr_iff: "and_then m f = Inr b \<longleftrightarrow> (\<exists>a. m = Inr a \<and> f a = Inr b)"
  by (cases m) auto

fun catch_false :: "bool throws \<Rightarrow> bool" where
  "catch_false (Inl e) = False"
| "catch_false (Inr b) = b"

lemma catch_false_iff: "catch_false r \<longleftrightarrow> r = Inr True"
  by (cases r) auto

section \<open>The JavaScript Map\<close>

type_synonym ('k, 'v) jsmap = "('k \<times> 'v) list"

abbreviation jm_get :: "('k, 'v) jsmap \<Rightarrow> 'k \<Rightarrow> 'v option" where
  "jm_get m k \<equiv> map_of m k"

fun jm_set :: "'k \<Rightarrow> 'v \<Rightarrow> ('k, 'v) jsmap \<Rightarrow> ('k, 'v) jsmap" where
  "jm_set k v [] = [(k, v)]"
| "jm_set k v ((a, b) # m) = (if a = k then (k, v) # m else (a, b) # jm_set k v m)"

definition jm_delete :: "'k \<Rightarrow> ('k, 'v) jsmap \<Rightarrow> ('k, 'v) jsmap" where
  "jm_delete k m = filter (\<lambda>(a, b). a \<noteq> k) m"

definition jm_has :: "('k, 'v) jsmap \<Rightarrow> 'k \<Rightarrow> bool" where
  "jm_has m k = (map_of m k \<noteq> None)"

definition jm_wf :: "('k, 'v) jsmap \<Rightarrow> bool" where
  "jm_wf m = distinct (map fst m)"

definition jm_keep :: "('k \<Rightarrow> 'v \<Rightarrow> bool) \<Rightarrow> ('k, 'v) jsmap \<Rightarrow> ('k, 'v) jsmap" where
  "jm_keep p m = filter (\<lambda>(a, b). p a b) m"

lemma map_of_jm_set [jsmap_simps, simp]: "map_of (jm_set k v m) = (map_of m)(k \<mapsto> v)"
  by (induction k v m rule: jm_set.induct) auto

lemma map_of_jm_delete [jsmap_simps, simp]: "map_of (jm_delete k m) = (map_of m)(k := None)"
  by (induction m) (auto simp: jm_delete_def)

lemma jm_has_iff [jsmap_simps]: "jm_has m k \<longleftrightarrow> k \<in> fst ` set m"
  by (auto simp: jm_has_def map_of_eq_None_iff)

lemma fst_set_jm_set [simp]: "fst ` set (jm_set k v m) = insert k (fst ` set m)"
  by (induction k v m rule: jm_set.induct) auto

lemma in_jm_set: "x \<in> set (jm_set k v m) \<Longrightarrow> x = (k, v) \<or> x \<in> set m"
  by (induction k v m rule: jm_set.induct) (auto split: if_splits)

lemma jm_wf_Nil [simp]: "jm_wf []"
  by (simp add: jm_wf_def)

lemma jm_wf_set [intro, simp]: "jm_wf m \<Longrightarrow> jm_wf (jm_set k v m)"
  unfolding jm_wf_def
proof (induction k v m rule: jm_set.induct)
  case (2 k v a b m)
  then show ?case by (auto simp flip: image_set)
qed simp

lemma jm_wf_filter: "jm_wf m \<Longrightarrow> jm_wf (filter p m)"
  by (simp add: jm_wf_def distinct_map_filter)

lemma jm_wf_delete [intro, simp]: "jm_wf m \<Longrightarrow> jm_wf (jm_delete k m)"
  by (simp add: jm_delete_def jm_wf_filter)

lemma jm_wf_keep [intro, simp]: "jm_wf m \<Longrightarrow> jm_wf (jm_keep p m)"
  by (simp add: jm_keep_def jm_wf_filter)

lemma jm_wf_drop [intro, simp]: "jm_wf m \<Longrightarrow> jm_wf (drop n m)"
  by (simp add: jm_wf_def drop_map [symmetric])

lemma map_of_jm_keep:
  "jm_wf m \<Longrightarrow> map_of (jm_keep p m) k =
     (case map_of m k of None \<Rightarrow> None | Some v \<Rightarrow> if p k v then Some v else None)"
  by (induction m) (auto simp: jm_keep_def jm_wf_def map_of_eq_None_iff
      split: option.splits if_splits dest: map_of_SomeD)

lemma length_jm_set:
  "length (jm_set k v m) = (if k \<in> fst ` set m then length m else Suc (length m))"
  by (induction k v m rule: jm_set.induct) auto

lemma length_jm_keep_le: "length (jm_keep p m) \<le> length m"
  by (simp add: jm_keep_def)

lemma jm_set_new: "k \<notin> fst ` set m \<Longrightarrow> jm_set k v m = m @ [(k, v)]"
  by (induction k v m rule: jm_set.induct) auto

section \<open>The key-value interface\<close>

text \<open>
  What every map-backed store promises its client: a read after a write returns the written
  value, a write leaves other keys alone, and the invariant is kept.
\<close>

locale kv_store =
  fixes lookup :: "'s \<Rightarrow> 'k \<Rightarrow> 'v option"
    and update :: "'k \<Rightarrow> 'v \<Rightarrow> 's \<Rightarrow> 's"
    and remove :: "'k \<Rightarrow> 's \<Rightarrow> 's"
    and wf_store :: "'s \<Rightarrow> bool"
  assumes lookup_update: "lookup (update k v s) = (lookup s)(k \<mapsto> v)"
    and lookup_remove: "lookup (remove k s) = (lookup s)(k := None)"
    and wf_update: "wf_store s \<Longrightarrow> wf_store (update k v s)"
    and wf_remove: "wf_store s \<Longrightarrow> wf_store (remove k s)"
begin

lemma lookup_update_same: "lookup (update k v s) k = Some v"
  by (simp add: lookup_update)

lemma lookup_update_other: "j \<noteq> k \<Longrightarrow> lookup (update k v s) j = lookup s j"
  by (simp add: lookup_update)

lemma lookup_remove_same: "lookup (remove k s) k = None"
  by (simp add: lookup_remove)

lemma update_twice: "lookup (update k v (update k w s)) = lookup (update k v s)"
  by (simp add: lookup_update)

lemma update_commute:
  "j \<noteq> k \<Longrightarrow> lookup (update k v (update j w s)) = lookup (update j w (update k v s))"
  by (simp add: lookup_update fun_upd_twist)

lemma remove_after_update: "lookup (remove k (update k v s)) = lookup (remove k s)"
  by (simp add: lookup_update lookup_remove)

end

interpretation jm: kv_store "map_of" jm_set jm_delete jm_wf
  by unfold_locales auto

section \<open>Machines and invariants\<close>

text \<open>
  A component is a step function on its state; an invariant kept by one step is kept by every
  run. The components interpret this interface with their own operations as the events.
\<close>

locale inv_machine =
  fixes step :: "'s \<Rightarrow> 'e \<Rightarrow> 's"
    and inv :: "'s \<Rightarrow> bool"
  assumes step_inv: "inv s \<Longrightarrow> inv (step s e)"
begin

lemma run_inv: "inv s \<Longrightarrow> inv (foldl step s es)"
  by (induction es arbitrary: s) (auto intro: step_inv)

lemma run_prefix_inv: "inv s \<Longrightarrow> prefix ds es \<Longrightarrow> inv (foldl step s ds)"
  by (rule run_inv)

end

section \<open>Strings\<close>

abbreviation code :: "char \<Rightarrow> nat" where
  "code c \<equiv> of_char c"

definition is_digit :: "char \<Rightarrow> bool" where
  "is_digit c = (48 \<le> code c \<and> code c \<le> 57)"

definition is_upper :: "char \<Rightarrow> bool" where
  "is_upper c = (65 \<le> code c \<and> code c \<le> 90)"

definition is_lower :: "char \<Rightarrow> bool" where
  "is_lower c = (97 \<le> code c \<and> code c \<le> 122)"

definition is_alnum :: "char \<Rightarrow> bool" where
  "is_alnum c = (is_digit c \<or> is_upper c \<or> is_lower c)"

definition is_b64url_char :: "char \<Rightarrow> bool" where
  "is_b64url_char c = (is_alnum c \<or> c = CHR ''_'' \<or> c = CHR ''-'')"

definition is_hex_char :: "char \<Rightarrow> bool" where
  "is_hex_char c = (is_digit c \<or> (97 \<le> code c \<and> code c \<le> 102) \<or> (65 \<le> code c \<and> code c \<le> 70))"

definition is_space :: "char \<Rightarrow> bool" where
  "is_space c = (code c \<in> {9, 10, 11, 12, 13, 32, 160})"

definition js_trim :: "string \<Rightarrow> string" where
  "js_trim s = rev (dropWhile is_space (rev (dropWhile is_space s)))"

definition js_starts_with :: "string \<Rightarrow> string \<Rightarrow> bool" where
  "js_starts_with s p = (take (length p) s = p)"

fun js_includes :: "string \<Rightarrow> string \<Rightarrow> bool" where
  "js_includes [] p = (p = [])"
| "js_includes (c # cs) p = (take (length p) (c # cs) = p \<or> js_includes cs p)"

fun js_replace_all :: "char \<Rightarrow> char \<Rightarrow> string \<Rightarrow> string" where
  "js_replace_all a b s = map (\<lambda>c. if c = a then b else c) s"

definition to_upper :: "char \<Rightarrow> char" where
  "to_upper c = (if is_lower c then char_of (code c - 32) else c)"

lemma js_starts_with_iff: "js_starts_with s p \<longleftrightarrow> prefix p s"
  by (auto simp: js_starts_with_def prefix_def)
     (metis append_take_drop_id)

lemma js_includes_iff: "js_includes s p \<longleftrightarrow> sublist p s"
proof (induction s p rule: js_includes.induct)
  case (2 c cs p)
  have "take (length p) (c # cs) = p \<longleftrightarrow> prefix p (c # cs)"
    using js_starts_with_iff [of "c # cs" p] by (simp add: js_starts_with_def)
  with 2 show ?case by (simp add: sublist_Cons_right)
qed auto

subsection \<open>Decimal numbers\<close>

definition digit_char :: "nat \<Rightarrow> char" where
  "digit_char d = char_of (48 + d)"

fun nat_to_dec :: "nat \<Rightarrow> string" where
  "nat_to_dec n = (if n < 10 then [digit_char n]
     else nat_to_dec (n div 10) @ [digit_char (n mod 10)])"

declare nat_to_dec.simps [simp del]

definition int_to_dec :: "int \<Rightarrow> string" where
  "int_to_dec i = (if i < 0 then CHR ''-'' # nat_to_dec (nat (- i)) else nat_to_dec (nat i))"

definition dec_step :: "nat \<Rightarrow> char \<Rightarrow> nat" where
  "dec_step acc c = 10 * acc + (code c - 48)"

definition dec_to_nat :: "string \<Rightarrow> nat" where
  "dec_to_nat s = foldl dec_step 0 s"

lemma code_digit_char [simp]: "d < 10 \<Longrightarrow> code (digit_char d) = 48 + d"
  by (simp add: digit_char_def)

lemma is_digit_digit_char [simp]: "d < 10 \<Longrightarrow> is_digit (digit_char d)"
  by (simp add: is_digit_def)

lemma dec_to_nat_of_dec [simp]: "dec_to_nat (nat_to_dec n) = n"
proof (induction n rule: nat_to_dec.induct)
  case (1 n)
  show ?case
  proof (cases "n < 10")
    case True
    then show ?thesis by (subst nat_to_dec.simps) (simp add: dec_to_nat_def dec_step_def)
  next
    case False
    with 1 have "foldl dec_step 0 (nat_to_dec (n div 10)) = n div 10"
      by (simp add: dec_to_nat_def)
    with False show ?thesis
      by (subst nat_to_dec.simps) (simp add: dec_to_nat_def dec_step_def)
  qed
qed

lemma nat_to_dec_digits: "list_all is_digit (nat_to_dec n)"
proof (induction n rule: nat_to_dec.induct)
  case (1 n)
  then show ?case by (subst nat_to_dec.simps) (simp add: list_all_append)
qed

lemma nat_to_dec_nonempty [simp]: "nat_to_dec n \<noteq> []"
  by (subst nat_to_dec.simps) simp

lemma nat_to_dec_inj: "nat_to_dec m = nat_to_dec n \<Longrightarrow> m = n"
  by (metis dec_to_nat_of_dec)

lemma minus_not_digit [simp]: "\<not> is_digit (CHR ''-'')"
  by (simp add: is_digit_def)

lemma int_to_dec_inj: "int_to_dec i = int_to_dec j \<Longrightarrow> i = j"
proof -
  assume eq: "int_to_dec i = int_to_dec j"
  have head: "hd (nat_to_dec n) \<noteq> CHR ''-''" for n
    using nat_to_dec_digits [of n] by (cases "nat_to_dec n") auto
  show "i = j"
  proof (cases "i < 0"; cases "j < 0")
    assume "i < 0" "j < 0"
    with eq have "nat (- i) = nat (- j)"
      by (auto simp: int_to_dec_def dest: nat_to_dec_inj)
    with \<open>i < 0\<close> \<open>j < 0\<close> show ?thesis by simp
  next
    assume "i < 0" "\<not> j < 0"
    with eq head [of "nat j"] show ?thesis by (auto simp: int_to_dec_def) (metis list.sel(1))
  next
    assume "\<not> i < 0" "j < 0"
    with eq head [of "nat i"] show ?thesis by (auto simp: int_to_dec_def)
  next
    assume "\<not> i < 0" "\<not> j < 0"
    with eq have "nat i = nat j"
      by (auto simp: int_to_dec_def dest: nat_to_dec_inj)
    with \<open>\<not> i < 0\<close> \<open>\<not> j < 0\<close> show ?thesis by simp
  qed
qed

end
