(* ===== verification/Encoding.thy ===== *)
theory Encoding
  imports Prelude "HOL-Library.Word"
begin

text \<open>
  \<^verbatim>\<open>packages/core/src/encoding.ts\<close>: base64url over the platform's \<open>btoa\<close> and
  \<open>atob\<close>, and the \<open>TextEncoder\<close>. Bytes are \<open>8 word\<close>. The theorems are the round
  trip \<open>b64urlDecode (b64url bs) = bs\<close>, the alphabet of the output, its length (43 characters
  for the 32 bytes of SHA-256, HMAC and HKDF outputs) and the injectivity of UTF-8 encoding.
\<close>

type_synonym byte = "8 word"
type_synonym bytes = "byte list"

section \<open>Bytes and characters\<close>

definition char_of_byte :: "byte \<Rightarrow> char" where
  "char_of_byte b = char_of (unat b)"

definition byte_of_char :: "char \<Rightarrow> byte" where
  "byte_of_char c = word_of_nat (code c)"

lemma unat_byte_less [simp]: "unat (b :: byte) < 256"
  using unsigned_less [of b] by simp

lemma byte_of_char_of_byte [simp]: "byte_of_char (char_of_byte b) = b"
  by (simp add: byte_of_char_def char_of_byte_def)

lemma code_less [simp]: "code c < 256"
  by (rule nat_of_char_less_256)

lemma char_of_byte_of_char [simp]: "char_of_byte (byte_of_char c) = c"
  by (simp add: byte_of_char_def char_of_byte_def unat_of_nat)

section \<open>btoa and atob\<close>

definition b64_char :: "nat \<Rightarrow> char" where
  "b64_char n = (if n < 26 then char_of (65 + n) else if n < 52 then char_of (71 + n)
     else if n < 62 then char_of (n - 4) else if n = 62 then CHR ''+'' else CHR ''/'')"

definition b64_val :: "char \<Rightarrow> nat option" where
  "b64_val c = (if is_upper c then Some (code c - 65) else if is_lower c then Some (code c - 71)
     else if is_digit c then Some (code c + 4) else if c = CHR ''+'' then Some 62
     else if c = CHR ''/'' then Some 63 else None)"

fun b64_groups :: "nat list \<Rightarrow> nat list" where
  "b64_groups [] = []"
| "b64_groups [a] = [a div 4, a mod 4 * 16]"
| "b64_groups [a, b] = [a div 4, a mod 4 * 16 + b div 16, b mod 16 * 4]"
| "b64_groups (a # b # c # r) =
     [a div 4, a mod 4 * 16 + b div 16, b mod 16 * 4 + c div 64, c mod 64] @ b64_groups r"

fun b64_ungroup :: "nat list \<Rightarrow> nat list" where
  "b64_ungroup (p # q # r # s # rest) =
     [p * 4 + q div 16, q mod 16 * 16 + r div 4, r mod 4 * 64 + s] @ b64_ungroup rest"
| "b64_ungroup [p, q, r] = [p * 4 + q div 16, q mod 16 * 16 + r div 4]"
| "b64_ungroup [p, q] = [p * 4 + q div 16]"
| "b64_ungroup _ = []"

definition btoa :: "string \<Rightarrow> string" where
  "btoa s = (let g = b64_groups (map of_char s)
     in map b64_char g @ replicate ((4 - length g mod 4) mod 4) (CHR ''=''))"

text \<open>
  The forgiving decoder of \<open>atob\<close>: ASCII white space is dropped, one or two trailing pad
  characters are removed when the length is a multiple of four, a remaining length of one modulo
  four or a character outside the alphabet raises, and the unused low bits of the last group are
  discarded.
\<close>

definition is_ascii_ws :: "char \<Rightarrow> bool" where
  "is_ascii_ws c = (code c \<in> {9, 10, 12, 13, 32})"

definition strip_pad :: "string \<Rightarrow> string" where
  "strip_pad s = (if length s mod 4 \<noteq> 0 \<or> s = [] then s
     else if last s \<noteq> CHR ''='' then s
     else if butlast s \<noteq> [] \<and> last (butlast s) = CHR ''='' then butlast (butlast s)
     else butlast s)"

definition atob :: "string \<Rightarrow> string throws" where
  "atob s = (let t = strip_pad (filter (\<lambda>c. \<not> is_ascii_ws c) s); vs = map b64_val t
     in if length t mod 4 = 1 \<or> None \<in> set vs then throw ''InvalidCharacterError''
        else returns (map char_of (b64_ungroup (map the vs))))"

section \<open>encoding.ts\<close>

definition b64url :: "bytes \<Rightarrow> string" where
  "b64url buf = filter (\<lambda>c. c \<noteq> CHR ''='')
     (js_replace_all (CHR ''/'') (CHR ''_'')
       (js_replace_all (CHR ''+'') (CHR ''-'') (btoa (map char_of_byte buf))))"

definition b64_unurl :: "string \<Rightarrow> string" where
  "b64_unurl str = js_replace_all (CHR ''_'') (CHR ''/'') (js_replace_all (CHR ''-'') (CHR ''+'') str)"

definition b64_pad :: "string \<Rightarrow> string" where
  "b64_pad padded = padded @ replicate ((4 - length padded mod 4) mod 4) (CHR ''='')"

definition b64url_atob :: "string \<Rightarrow> string throws" where
  "b64url_atob str = atob (b64_pad (b64_unurl str))"

definition b64urlDecode :: "string \<Rightarrow> bytes throws" where
  "b64urlDecode str = and_then (b64url_atob str) (\<lambda>bin. returns (map byte_of_char bin))"

section \<open>TextEncoder\<close>

definition utf8_char :: "char \<Rightarrow> bytes" where
  "utf8_char c = (if code c < 128 then [word_of_nat (code c)]
     else [word_of_nat (192 + code c div 64), word_of_nat (128 + code c mod 64)])"

definition utf8 :: "string \<Rightarrow> bytes" where
  "utf8 s = concat (map utf8_char s)"

definition is_ascii :: "string \<Rightarrow> bool" where
  "is_ascii s = list_all (\<lambda>c. code c < 128) s"

section \<open>Round trip\<close>

lemma b64_val_char [simp]: "n < 64 \<Longrightarrow> b64_val (b64_char n) = Some n"
  by (auto simp: b64_val_def b64_char_def is_upper_def is_lower_def is_digit_def)

lemma b64_val_none [simp]:
  "b64_val (CHR ''='') = None" "b64_val (CHR ''-'') = None" "b64_val (CHR ''_'') = None"
  by (simp_all add: b64_val_def is_upper_def is_lower_def is_digit_def)

lemma b64_char_neq [simp]:
  assumes "n < 64"
  shows "b64_char n \<noteq> CHR ''=''" "b64_char n \<noteq> CHR ''-''" "b64_char n \<noteq> CHR ''_''"
  using b64_val_char [OF assms] by (metis b64_val_none option.distinct(1))+

lemma pad_neq_b64_char [simp]: "n < 64 \<Longrightarrow> CHR ''='' \<noteq> b64_char n"
  by (metis b64_char_neq(1))

lemma b64_char_not_ws [simp]: "n < 64 \<Longrightarrow> \<not> is_ascii_ws (b64_char n)"
  by (auto simp: is_ascii_ws_def b64_char_def)

lemma pad_not_ws [simp]: "\<not> is_ascii_ws (CHR ''='')"
  by (simp add: is_ascii_ws_def)

lemma b64_groups_bound: "\<forall>x \<in> set xs. x < 256 \<Longrightarrow> \<forall>y \<in> set (b64_groups xs). y < 64"
  by (induction xs rule: b64_groups.induct) auto

lemma b64_ungroup_groups: "\<forall>x \<in> set xs. x < 256 \<Longrightarrow> b64_ungroup (b64_groups xs) = xs"
proof (induction xs rule: b64_groups.induct)
  case (2 a)
  then show ?case by simp
next
  case (3 a b)
  have "(a mod 4 * 16 + b div 16) div 16 = a mod 4" "(a mod 4 * 16 + b div 16) mod 16 = b div 16"
    using 3 by auto
  then show ?case by simp
next
  case (4 a b c r)
  have "(a mod 4 * 16 + b div 16) div 16 = a mod 4" "(a mod 4 * 16 + b div 16) mod 16 = b div 16"
    "(b mod 16 * 4 + c div 64) div 4 = b mod 16" "(b mod 16 * 4 + c div 64) mod 4 = c div 64"
    using 4 by auto
  with 4 show ?case by simp
qed simp

lemma length_b64_groups: "length (b64_groups xs) = (4 * length xs + 2) div 3"
proof (induction xs rule: b64_groups.induct)
  case (4 a b c r)
  have "length (b64_groups (a # b # c # r)) = 4 + (4 * length r + 2) div 3" using 4 by simp
  also have "\<dots> = (4 * length (a # b # c # r) + 2) div 3" by (simp add: div_add_self1)
  finally show ?case .
qed auto

lemma length_b64_groups_mod [simp]: "length (b64_groups xs) mod 4 \<noteq> Suc 0"
  by (induction xs rule: b64_groups.induct) auto

definition url_char :: "char \<Rightarrow> char" where
  "url_char c = (if c = CHR ''+'' then CHR ''-'' else if c = CHR ''/'' then CHR ''_'' else c)"

lemma of_char_of_byte [simp]: "code (char_of_byte b) = unat b"
  by (simp add: char_of_byte_def)

lemma b64_groups_bytes_bound: "y \<in> set (b64_groups (map unat (bs :: bytes))) \<Longrightarrow> y < 64"
  using b64_groups_bound [of "map unat bs"] by auto

lemma b64url_alt: "b64url bs = map (\<lambda>n. url_char (b64_char n)) (b64_groups (map unat bs))"
proof -
  let ?g = "b64_groups (map unat bs)"
  have "map of_char (map char_of_byte bs) = map unat bs" by simp
  then have bt: "btoa (map char_of_byte bs)
      = map b64_char ?g @ replicate ((4 - length ?g mod 4) mod 4) (CHR ''='')"
    by (simp add: btoa_def Let_def comp_def)
  have keep: "filter (\<lambda>c. c \<noteq> CHR ''='') (map (\<lambda>n. url_char (b64_char n)) ?g)
      = map (\<lambda>n. url_char (b64_char n)) ?g"
    by (rule filter_True) (auto simp: url_char_def dest!: b64_groups_bytes_bound)
  have rep: "js_replace_all (CHR ''/'') (CHR ''_'') (js_replace_all (CHR ''+'') (CHR ''-'') s) = map url_char s"
    for s by (auto simp: url_char_def)
  have pad: "url_char (CHR ''='') = CHR ''=''" by (simp add: url_char_def)
  show ?thesis unfolding b64url_def rep bt using keep by (simp add: comp_def pad)
qed

lemma strip_pad_b64_pad:
  assumes np: "CHR ''='' \<notin> set t" and len: "length t mod 4 \<noteq> 1"
  shows "strip_pad (b64_pad t) = t"
proof -
  have lastt: "t \<noteq> [] \<Longrightarrow> last t \<noteq> CHR ''=''" using np last_in_set by metis
  have "length t mod 4 < 4" by simp
  with len consider "length t mod 4 = 0" | "length t mod 4 = 2" | "length t mod 4 = 3"
    by linarith
  then show ?thesis
  proof cases
    case 1
    then show ?thesis using lastt by (auto simp: b64_pad_def strip_pad_def)
  next
    case 2
    then have "b64_pad t = t @ [CHR ''='', CHR ''='']" by (simp add: b64_pad_def numeral_2_eq_2)
    moreover from 2 have "(length t + 2) mod 4 = 0" by presburger
    ultimately show ?thesis by (simp add: strip_pad_def butlast_append)
  next
    case 3
    then have "b64_pad t = t @ [CHR ''='']" by (simp add: b64_pad_def)
    moreover from 3 have "(length t + 1) mod 4 = 0" by presburger
    ultimately show ?thesis using lastt by (auto simp: strip_pad_def butlast_append)
  qed
qed

definition unurl_char :: "char \<Rightarrow> char" where
  "unurl_char c = (if c = CHR ''-'' then CHR ''+'' else if c = CHR ''_'' then CHR ''/'' else c)"

lemma unurl_url_char: "c \<noteq> CHR ''-'' \<Longrightarrow> c \<noteq> CHR ''_'' \<Longrightarrow> unurl_char (url_char c) = c"
  by (cases "c = CHR ''+''"; cases "c = CHR ''/''") (simp_all add: url_char_def unurl_char_def)

lemma b64_unurl_map: "b64_unurl s = map unurl_char s"
  by (simp add: b64_unurl_def unurl_char_def)

lemma b64_unurl_b64url: "b64_unurl (b64url bs) = map b64_char (b64_groups (map unat bs))"
proof -
  have "unurl_char (url_char (b64_char n)) = b64_char n" if "n \<in> set (b64_groups (map unat bs))" for n
    using b64_groups_bytes_bound [OF that] by (simp add: unurl_url_char)
  then show ?thesis by (simp add: b64_unurl_map b64url_alt)
qed

lemma b64url_atob_b64url: "b64url_atob (b64url bs) = returns (map char_of_byte bs)"
proof -
  let ?g = "b64_groups (map unat bs)"
  let ?t = "map b64_char ?g"
  have b: "\<And>y. y \<in> set ?g \<Longrightarrow> y < 64" by (rule b64_groups_bytes_bound)
  have ws: "filter (\<lambda>c. \<not> is_ascii_ws c) (b64_pad ?t) = b64_pad ?t"
    using b by (intro filter_True) (auto simp: b64_pad_def)
  have sp: "strip_pad (b64_pad ?t) = ?t"
    by (rule strip_pad_b64_pad) (auto dest!: b)
  have vs: "map b64_val ?t = map Some ?g"
    by (auto dest!: b)
  have "map char_of (b64_ungroup ?g) = map char_of_byte bs"
    by (subst b64_ungroup_groups) (auto simp: char_of_byte_def)
  moreover have "map the (map Some ?g) = ?g" by simp
  ultimately show ?thesis
    unfolding b64url_atob_def b64_unurl_b64url atob_def Let_def ws sp vs by simp
qed

lemma b64urlDecode_b64url [simp]: "b64urlDecode (b64url bs) = returns bs"
  by (simp add: b64urlDecode_def b64url_atob_b64url comp_def)

lemma b64url_inj: "b64url a = b64url b \<Longrightarrow> a = b"
  by (metis b64urlDecode_b64url sum.inject(2))

lemma length_b64url: "length (b64url bs) = (4 * length bs + 2) div 3"
  by (simp add: b64url_alt length_b64_groups)

lemma b64url_alphabet: "list_all is_b64url_char (b64url bs)"
proof -
  have "is_b64url_char (url_char (b64_char n))" if "n < 64" for n
    using that by (auto simp: b64_char_def url_char_def is_b64url_char_def is_alnum_def is_upper_def
        is_lower_def is_digit_def)
  then show ?thesis by (auto simp: b64url_alt list_all_iff dest!: b64_groups_bytes_bound)
qed

section \<open>UTF-8\<close>

lemma utf8_char_prefix_free:
  assumes "utf8_char c @ xs = utf8_char d @ ys"
  shows "c = d \<and> xs = ys"
proof -
  have inj: "m = n" if "word_of_nat m = (word_of_nat n :: byte)" "m < 256" "n < 256" for m n
    using that by (simp add: word_of_nat_eq_iff take_bit_nat_def)
  have small: "code e div 64 < 4" for e :: char
    using code_less [of e] by linarith
  have hd_eq: "hd (utf8_char c) = hd (utf8_char d)"
    using arg_cong [OF assms, of hd] by (simp add: utf8_char_def split: if_splits)
  consider "code c < 128" "code d < 128" | "code c < 128" "\<not> code d < 128"
    | "\<not> code c < 128" "code d < 128" | "\<not> code c < 128" "\<not> code d < 128"
    by blast
  then show ?thesis
  proof cases
    case 1
    with hd_eq have "word_of_nat (code c) = (word_of_nat (code d) :: byte)" by (simp add: utf8_char_def)
    then have "code c = code d" by (rule inj) auto
    with assms 1 show ?thesis by (simp add: utf8_char_def)
  next
    case 2
    with hd_eq have "word_of_nat (code c) = (word_of_nat (192 + code d div 64) :: byte)"
      by (simp add: utf8_char_def)
    then have "code c = 192 + code d div 64" by (rule inj) (use small [of d] in auto)
    with 2 show ?thesis by simp
  next
    case 3
    with hd_eq have "word_of_nat (192 + code c div 64) = (word_of_nat (code d) :: byte)"
      by (simp add: utf8_char_def)
    then have "192 + code c div 64 = code d" by (rule inj) (use small [of c] in auto)
    with 3 show ?thesis by simp
  next
    case 4
    with assms have a: "word_of_nat (192 + code c div 64) = (word_of_nat (192 + code d div 64) :: byte)"
      and b: "word_of_nat (128 + code c mod 64) = (word_of_nat (128 + code d mod 64) :: byte)"
      and "xs = ys"
      by (simp_all add: utf8_char_def)
    from inj [OF a] small [of c] small [of d] have "code c div 64 = code d div 64" by simp
    moreover have "128 + code c mod 64 = 128 + code d mod 64"
      by (rule inj [OF b]) (use mod_less_divisor [of 64 "code c"] mod_less_divisor [of 64 "code d"] in linarith)+
    ultimately have "code c = code d" by (metis add_left_cancel div_mult_mod_eq)
    with \<open>xs = ys\<close> show ?thesis by simp
  qed
qed

lemma utf8_char_nonempty [simp]: "utf8_char c \<noteq> []"
  by (simp add: utf8_char_def)

lemma utf8_inj: "utf8 s = utf8 t \<Longrightarrow> s = t"
proof (induction s arbitrary: t)
  case Nil
  then show ?case by (cases t) (auto simp: utf8_def)
next
  case (Cons c s)
  then obtain d t' where t: "t = d # t'" by (cases t) (auto simp: utf8_def)
  with Cons.prems have "utf8_char c @ utf8 s = utf8_char d @ utf8 t'" by (simp add: utf8_def)
  from utf8_char_prefix_free [OF this] Cons.IH t show ?case by blast
qed

lemma utf8_ascii: "is_ascii s \<Longrightarrow> map char_of_byte (utf8 s) = s"
  by (induction s) (auto simp: utf8_def utf8_char_def is_ascii_def char_of_byte_def unat_of_nat)


text \<open>
  The base64url codec. Decoding an encoded byte string gives it back; the text has only
  characters of the URL-safe alphabet, which the header test accepts, and the length that the size
  limits count.
\<close>
theorem base64url_codec:
  "b64urlDecode (b64url bs) = returns bs \<and> list_all is_b64url_char (b64url bs)
    \<and> length (b64url bs) = (4 * length bs + 2) div 3"
  by (simp add: b64url_alphabet length_b64url)

end
