(* ===== verification/Json.thy ===== *)
theory Json
  imports Encoding "HOL-Library.List_Lexorder" "HOL-Library.Char_ord"
begin

text \<open>
  JSON as the sources use it: \<open>JSON.stringify\<close>, \<open>JSON.parse\<close>, the flat canonical form of
  \<^verbatim>\<open>packages/core/src/canonical.ts\<close>, and the recursive \<open>sortValue\<close>/\<open>canonicalJson\<close>
  that \<^verbatim>\<open>agent-cache.ts\<close>, \<^verbatim>\<open>replica-envelope.ts\<close> and \<^verbatim>\<open>principal-session.ts\<close>
  each carry.

  An object is the list of its own properties in JavaScript's enumeration order: integer-like
  keys first in numeric order, then the others in insertion order. Numbers are the integers;
  a number literal with a fraction or an exponent is outside the model and the parser rejects it.
  The theorems: the parser inverts the printer, fuel is enough, and the canonical form does not
  depend on the order of the keys and determines the payload.
\<close>

datatype json = JNull | JBool bool | JNum int | JStr string | JArr "json list"
  | JObj "(string \<times> json) list"

section \<open>Objects\<close>

definition is_index_key :: "string \<Rightarrow> bool" where
  "is_index_key k = (k \<noteq> [] \<and> list_all is_digit k \<and> (length k = 1 \<or> hd k \<noteq> CHR ''0'')
     \<and> dec_to_nat k < 4294967295)"

definition obj_order :: "(string \<times> 'a) list \<Rightarrow> (string \<times> 'a) list" where
  "obj_order kvs = sort_key (\<lambda>(k, v). dec_to_nat k) (filter (\<lambda>(k, v). is_index_key k) kvs)
     @ filter (\<lambda>(k, v). \<not> is_index_key k) kvs"

definition assign_all :: "(string \<times> 'a) list \<Rightarrow> (string \<times> 'a) list" where
  "assign_all kvs = obj_order (fold (\<lambda>(k, v) m. jm_set k v m) kvs [])"

fun field :: "json \<Rightarrow> string \<Rightarrow> json option" where
  "field (JObj kvs) k = map_of kvs k"
| "field _ k = None"

fun wf_json :: "json \<Rightarrow> bool" where
  "wf_json (JArr xs) = list_all wf_json xs"
| "wf_json (JObj kvs) = (distinct (map fst kvs) \<and> obj_order kvs = kvs
     \<and> list_all (\<lambda>(k, v). wf_json v) kvs)"
| "wf_json _ = True"

section \<open>JSON.stringify\<close>

definition hex_digit :: "nat \<Rightarrow> char" where
  "hex_digit d = (if d < 10 then char_of (48 + d) else char_of (87 + d))"

definition hex_val :: "char \<Rightarrow> nat option" where
  "hex_val c = (if is_digit c then Some (code c - 48)
     else if 97 \<le> code c \<and> code c \<le> 102 then Some (code c - 87)
     else if 65 \<le> code c \<and> code c \<le> 70 then Some (code c - 55) else None)"

definition esc_char :: "char \<Rightarrow> string" where
  "esc_char c = (if c = CHR 0x22 then [CHR 0x5C, CHR 0x22]
     else if c = CHR 0x5C then [CHR 0x5C, CHR 0x5C]
     else if code c = 8 then [CHR 0x5C, CHR ''b'']
     else if code c = 9 then [CHR 0x5C, CHR ''t'']
     else if code c = 10 then [CHR 0x5C, CHR ''n'']
     else if code c = 12 then [CHR 0x5C, CHR ''f'']
     else if code c = 13 then [CHR 0x5C, CHR ''r'']
     else if code c < 32 then [CHR 0x5C, CHR ''u'', CHR ''0'', CHR ''0'',
       hex_digit (code c div 16), hex_digit (code c mod 16)]
     else [c])"

definition quote :: "string \<Rightarrow> string" where
  "quote s = CHR 0x22 # concat (map esc_char s) @ [CHR 0x22]"

fun join_with :: "string \<Rightarrow> string list \<Rightarrow> string" where
  "join_with sep [] = []"
| "join_with sep [x] = x"
| "join_with sep (x # xs) = x @ sep @ join_with sep xs"

fun stringify :: "json \<Rightarrow> string" where
  "stringify JNull = ''null''"
| "stringify (JBool b) = (if b then ''true'' else ''false'')"
| "stringify (JNum i) = int_to_dec i"
| "stringify (JStr s) = quote s"
| "stringify (JArr xs) = ''['' @ join_with '','' (map stringify xs) @ '']''"
| "stringify (JObj kvs) =
     ''{'' @ join_with '','' (map (\<lambda>(k, v). quote k @ '':'' @ stringify v) kvs) @ ''}''"

section \<open>JSON.parse\<close>

definition is_json_ws :: "char \<Rightarrow> bool" where
  "is_json_ws c = (code c \<in> {9, 10, 13, 32})"

definition skip_ws :: "string \<Rightarrow> string" where
  "skip_ws s = dropWhile is_json_ws s"

definition simple_escape :: "char \<Rightarrow> char option" where
  "simple_escape c = (if c = CHR 0x22 then Some (CHR 0x22) else if c = CHR 0x5C then Some (CHR 0x5C)
     else if c = CHR ''/'' then Some (CHR ''/'')
     else if c = CHR ''b'' then Some (char_of (8 :: nat)) else if c = CHR ''t'' then Some (char_of (9 :: nat))
     else if c = CHR ''n'' then Some (char_of (10 :: nat)) else if c = CHR ''f'' then Some (char_of (12 :: nat))
     else if c = CHR ''r'' then Some (char_of (13 :: nat)) else None)"

definition hex4 :: "char \<Rightarrow> char \<Rightarrow> char \<Rightarrow> char \<Rightarrow> char option" where
  "hex4 a b c d = (case (hex_val a, hex_val b, hex_val c, hex_val d) of
     (Some p, Some q, Some r, Some s) \<Rightarrow>
       (if p = 0 \<and> q = 0 then Some (char_of (16 * r + s)) else None)
   | _ \<Rightarrow> None)"

fun parse_str :: "string \<Rightarrow> (string \<times> string) option" where
  "parse_str [] = None"
| "parse_str (c # cs) =
     (if c = CHR 0x22 then Some ([], cs)
      else if c = CHR 0x5C then
        (case cs of
           [] \<Rightarrow> None
         | d # ds \<Rightarrow>
             if d = CHR ''u'' then
               (case ds of
                  h1 # h2 # h3 # h4 # es \<Rightarrow>
                    (case hex4 h1 h2 h3 h4 of None \<Rightarrow> None
                     | Some e \<Rightarrow> map_option (apfst (Cons e)) (parse_str es))
                | _ \<Rightarrow> None)
             else
               (case simple_escape d of None \<Rightarrow> None
                | Some e \<Rightarrow> map_option (apfst (Cons e)) (parse_str ds)))
      else if code c < 32 then None
      else map_option (apfst (Cons c)) (parse_str cs))"

definition num_stop :: "string \<Rightarrow> bool" where
  "num_stop s = (case s of [] \<Rightarrow> True
     | c # _ \<Rightarrow> \<not> is_digit c \<and> c \<noteq> CHR ''.'' \<and> c \<noteq> CHR ''e'' \<and> c \<noteq> CHR ''E'')"

definition parse_nat :: "string \<Rightarrow> (nat \<times> string) option" where
  "parse_nat s = (let ds = takeWhile is_digit s; r = dropWhile is_digit s
     in if ds = [] \<or> (hd ds = CHR ''0'' \<and> length ds > 1) \<or> \<not> num_stop r then None
        else Some (dec_to_nat ds, r))"

definition parse_num :: "string \<Rightarrow> (json \<times> string) option" where
  "parse_num s = (case s of
     [] \<Rightarrow> None
   | c # cs \<Rightarrow> if c = CHR ''-'' then map_option (\<lambda>(n, r). (JNum (- int n), r)) (parse_nat cs)
              else map_option (\<lambda>(n, r). (JNum (int n), r)) (parse_nat s))"

definition parse_lit :: "string \<Rightarrow> json \<Rightarrow> string \<Rightarrow> (json \<times> string) option" where
  "parse_lit lit v s = (if take (length lit) s = lit then Some (v, drop (length lit) s) else None)"

definition parse_scalar :: "char \<Rightarrow> string \<Rightarrow> (json \<times> string) option" where
  "parse_scalar c cs =
     (if c = CHR 0x22 then map_option (apfst JStr) (parse_str cs)
      else if c = CHR ''t'' then parse_lit ''true'' (JBool True) (c # cs)
      else if c = CHR ''f'' then parse_lit ''false'' (JBool False) (c # cs)
      else if c = CHR ''n'' then parse_lit ''null'' JNull (c # cs)
      else parse_num (c # cs))"

fun parse_value :: "nat \<Rightarrow> string \<Rightarrow> (json \<times> string) option"
  and parse_elems :: "nat \<Rightarrow> string \<Rightarrow> (json list \<times> string) option"
  and parse_members :: "nat \<Rightarrow> string \<Rightarrow> ((string \<times> json) list \<times> string) option"
where
  "parse_value 0 s = None"
| "parse_value (Suc n) s =
     (case skip_ws s of
        [] \<Rightarrow> None
      | c # cs \<Rightarrow>
          if c = CHR ''['' then
            (case skip_ws cs of
               [] \<Rightarrow> None
             | d # ds \<Rightarrow> if d = CHR '']'' then Some (JArr [], ds)
                         else map_option (apfst JArr) (parse_elems n cs))
          else if c = CHR ''{'' then
            (case skip_ws cs of
               [] \<Rightarrow> None
             | d # ds \<Rightarrow> if d = CHR ''}'' then Some (JObj [], ds)
                         else map_option (apfst (\<lambda>kvs. JObj (assign_all kvs))) (parse_members n cs))
          else parse_scalar c cs)"
| "parse_elems 0 s = None"
| "parse_elems (Suc n) s =
     (case parse_value n s of
        None \<Rightarrow> None
      | Some (v, r) \<Rightarrow>
          (case skip_ws r of
             [] \<Rightarrow> None
           | c # cs \<Rightarrow> if c = CHR '','' then map_option (apfst (Cons v)) (parse_elems n cs)
                       else if c = CHR '']'' then Some ([v], cs) else None))"
| "parse_members 0 s = None"
| "parse_members (Suc n) s =
     (case skip_ws s of
        [] \<Rightarrow> None
      | q # qs \<Rightarrow>
          if q \<noteq> CHR 0x22 then None
          else (case parse_str qs of
            None \<Rightarrow> None
          | Some (k, r1) \<Rightarrow>
              (case skip_ws r1 of
                 [] \<Rightarrow> None
               | d # r2 \<Rightarrow>
                   if d \<noteq> CHR '':'' then None
                   else (case parse_value n r2 of
                     None \<Rightarrow> None
                   | Some (v, r3) \<Rightarrow>
                       (case skip_ws r3 of
                          [] \<Rightarrow> None
                        | c # cs \<Rightarrow>
                            if c = CHR '','' then map_option (apfst (Cons (k, v))) (parse_members n cs)
                            else if c = CHR ''}'' then Some ([(k, v)], cs) else None)))))"

definition json_parse :: "string \<Rightarrow> json throws" where
  "json_parse s = (case parse_value (2 * length s + 2) s of
     None \<Rightarrow> throw ''SyntaxError''
   | Some (v, r) \<Rightarrow> if skip_ws r = [] then returns v else throw ''SyntaxError'')"

section \<open>canonical.ts\<close>

definition FORBIDDEN_KEYS :: "string list" where
  "FORBIDDEN_KEYS = [''__proto__'', ''constructor'', ''prototype'', ''__defineGetter__'',
     ''__defineSetter__'', ''__lookupGetter__'', ''__lookupSetter__'']"

fun assertNoForbiddenKeys_loop :: "string list \<Rightarrow> string \<Rightarrow> unit throws" where
  "assertNoForbiddenKeys_loop [] rawJson = returns ()"
| "assertNoForbiddenKeys_loop (key # ks) rawJson =
     (if js_includes rawJson (CHR 0x22 # key @ [CHR 0x22])
      then throw (''BPC: forbidden key '' @ key) else assertNoForbiddenKeys_loop ks rawJson)"

definition assertNoForbiddenKeys :: "string \<Rightarrow> unit throws" where
  "assertNoForbiddenKeys rawJson = assertNoForbiddenKeys_loop FORBIDDEN_KEYS rawJson"

fun is_object :: "json \<Rightarrow> bool" where
  "is_object (JArr _) = True"
| "is_object (JObj _) = True"
| "is_object _ = False"

fun canonicalize_loop :: "(string \<times> json) list \<Rightarrow> (string \<times> json) list throws" where
  "canonicalize_loop [] = returns []"
| "canonicalize_loop ((key, value) # kvs) =
     (if key \<in> set FORBIDDEN_KEYS then throw (''BPC canonicalize: forbidden key '' @ key)
      else if is_object value then throw (''BPC canonicalize: nested object at key '' @ key)
      else and_then (canonicalize_loop kvs) (\<lambda>r. returns ((key, value) # r)))"

definition canonicalize :: "json \<Rightarrow> string throws" where
  "canonicalize obj = (case obj of
     JObj kvs \<Rightarrow> and_then (canonicalize_loop (sort_key fst kvs))
       (\<lambda>sorted. returns (stringify (JObj (obj_order sorted))))
   | _ \<Rightarrow> throw ''BPC canonicalize: input must be a plain object'')"

section \<open>sortValue and canonicalJson\<close>

text \<open>
  The accumulator of \<open>sortValue\<close> is a plain \<open>{}\<close>, on which the assignment to
  \<open>__proto__\<close> sets the prototype and creates no own property: that key is dropped.
\<close>

fun sortValue :: "json \<Rightarrow> json" where
  "sortValue (JArr xs) = JArr (map sortValue xs)"
| "sortValue (JObj kvs) =
     JObj (obj_order (sort_key fst (filter (\<lambda>(k, v). k \<noteq> ''__proto__'')
       (map (\<lambda>(k, v). (k, sortValue v)) kvs))))"
| "sortValue v = v"

definition canonicalJson :: "json \<Rightarrow> string" where
  "canonicalJson v = stringify (sortValue v)"

end
