(* ===== verification/Json_Laws.thy ===== *)
theory Json_Laws
  imports Json "HOL-Library.Multiset"
begin

text \<open>
  The laws of the JSON layer: the fuel of the parser is enough (a result reached with any fuel
  is reached with the fuel \<open>json_parse\<close> gives), \<open>json_parse\<close> inverts \<open>stringify\<close> on
  well-formed values, and the canonical forms are order-independent and injective.
\<close>

section \<open>Strings and numbers\<close>

lemma hex_val_digit [simp]: "d < 16 \<Longrightarrow> hex_val (hex_digit d) = Some d"
  by (auto simp: hex_val_def hex_digit_def is_digit_def)

lemma hex_val_0 [simp]: "hex_val (CHR ''0'') = Some 0"
  by (simp add: hex_val_def is_digit_def)

lemma hex4_esc: "code c < 32 \<Longrightarrow>
    hex4 (CHR ''0'') (CHR ''0'') (hex_digit (code c div 16)) (hex_digit (code c mod 16)) = Some c"
  by (simp add: hex4_def)

lemma char_of_codeD: "code c = n \<Longrightarrow> c = char_of n"
  by (metis char_of_char)

lemma parse_str_esc: "parse_str (esc_char c @ xs) = map_option (apfst (Cons c)) (parse_str xs)"
proof -
  consider "c = CHR 0x22" | "c = CHR 0x5C" | "code c \<in> {8, 9, 10, 12, 13}"
    | "code c < 32" "code c \<notin> {8, 9, 10, 12, 13}"
    | "\<not> code c < 32" "c \<noteq> CHR 0x22" "c \<noteq> CHR 0x5C"
    by blast
  then show ?thesis
  proof cases
    case 3
    then show ?thesis
      by (auto simp: esc_char_def simple_escape_def dest!: char_of_codeD)
  next
    case 4
    then have "c \<noteq> CHR 0x22" "c \<noteq> CHR 0x5C" by auto
    with 4 show ?thesis by (simp add: esc_char_def hex4_esc)
  qed (simp_all add: esc_char_def simple_escape_def)
qed

lemma parse_str_quote:
  "parse_str (concat (map esc_char s) @ CHR 0x22 # r) = Some (s, r)"
  by (induction s) (simp_all add: parse_str_esc)

lemma nat_to_dec_hd: "0 < n \<Longrightarrow> hd (nat_to_dec n) \<noteq> CHR ''0''"
proof (induction n rule: nat_to_dec.induct)
  case (1 n)
  show ?case
  proof (cases "n < 10")
    case True
    have "code (digit_char n) \<noteq> code (CHR ''0'')" using 1 True by simp
    then have "digit_char n \<noteq> CHR ''0''" by metis
    then show ?thesis using True by (subst nat_to_dec.simps) simp
  next
    case False
    with 1 show ?thesis by (subst nat_to_dec.simps) (simp add: hd_append)
  qed
qed

lemma nat_to_dec_no_leading_zero:
  "\<not> (hd (nat_to_dec n) = CHR ''0'' \<and> length (nat_to_dec n) > 1)"
proof (cases "n = 0")
  case True
  then show ?thesis by (simp add: nat_to_dec.simps)
next
  case False
  then show ?thesis using nat_to_dec_hd [of n] by simp
qed

lemma span_digits:
  assumes "list_all is_digit ds" and "num_stop r"
  shows "takeWhile is_digit (ds @ r) = ds" "dropWhile is_digit (ds @ r) = r"
  using assms by (cases r; simp add: list_all_iff num_stop_def)+

lemma parse_nat_dec: "num_stop r \<Longrightarrow> parse_nat (nat_to_dec n @ r) = Some (n, r)"
  using nat_to_dec_no_leading_zero [of n]
  by (simp add: parse_nat_def span_digits nat_to_dec_digits Let_def)

lemma nat_to_dec_Cons: "\<exists>c cs. nat_to_dec n = c # cs \<and> is_digit c"
  using nat_to_dec_digits [of n] by (cases "nat_to_dec n") auto

lemma parse_num_dec: "num_stop r \<Longrightarrow> parse_num (int_to_dec i @ r) = Some (JNum i, r)"
proof (cases "i < 0")
  case True
  assume "num_stop r"
  with True show ?thesis by (simp add: parse_num_def int_to_dec_def parse_nat_dec)
next
  case False
  assume r: "num_stop r"
  obtain c cs where c: "nat_to_dec (nat i) = c # cs" "is_digit c" using nat_to_dec_Cons by blast
  then have "c \<noteq> CHR ''-''" by auto
  with False c show ?thesis using parse_nat_dec [OF r, of "nat i"]
    by (simp add: parse_num_def int_to_dec_def)
qed

section \<open>Fuel\<close>

lemma skip_ws_length: "length (skip_ws s) \<le> length s"
  by (simp add: skip_ws_def length_dropWhile_le)

lemma parse_str_length: "parse_str s = Some (x, r) \<Longrightarrow> length r < length s"
  by (induction s arbitrary: x r rule: parse_str.induct)
     (fastforce split: if_splits list.splits option.splits)+

lemma parse_nat_length: "parse_nat s = Some (n, r) \<Longrightarrow> length r < length s"
proof -
  assume a: "parse_nat s = Some (n, r)"
  then have "takeWhile is_digit s \<noteq> []" "r = dropWhile is_digit s"
    by (auto simp: parse_nat_def Let_def split: if_splits)
  then show ?thesis
    by (metis append_Nil length_dropWhile_le le_neq_implies_less takeWhile_dropWhile_id
        append_same_eq length_append add_diff_cancel_right' length_0_conv diff_self_eq_0)
qed

lemma parse_num_length: "parse_num s = Some (v, r) \<Longrightarrow> length r < length s"
  by (auto simp: parse_num_def split: list.splits if_splits dest!: parse_nat_length)

lemma parse_lit_length: "parse_lit lit w (c # cs) = Some (v, r) \<Longrightarrow> lit \<noteq> [] \<Longrightarrow> length r \<le> length cs"
  by (cases lit) (auto simp: parse_lit_def split: if_splits)

lemma parse_scalar_length:
  assumes "parse_scalar c cs = Some (v, r)"
  shows "length r \<le> length cs"
  using assms
  by (auto simp: parse_scalar_def split: if_splits dest!: parse_str_length parse_num_length parse_lit_length)

text \<open>
  A parser is \<open>fuelled\<close> at \<open>m\<close> when every result it reaches with \<open>m\<close> consumes input and is
  also reached with any fuel from twice the number of consumed characters on.
\<close>

definition fuelled :: "(nat \<Rightarrow> string \<Rightarrow> ('a \<times> string) option) \<Rightarrow> nat \<Rightarrow> bool" where
  "fuelled p m = (\<forall>s v r. p m s = Some (v, r) \<longrightarrow>
     length r < length s \<and> (\<forall>n \<ge> 2 * (length s - length r). p n s = Some (v, r)))"

lemma fuelledD:
  assumes "fuelled p m" "p m s = Some (v, r)"
  shows "length r < length s" "2 * (length s - length r) \<le> n \<Longrightarrow> p n s = Some (v, r)"
  using assms unfolding fuelled_def by blast+

lemma fuelled_SucI:
  assumes "\<And>s v r. p (Suc m) s = Some (v, r) \<Longrightarrow> length r < length s \<and>
      (\<forall>k. 2 * (length s - length r) \<le> Suc k \<longrightarrow> p (Suc k) s = Some (v, r))"
  shows "fuelled p (Suc m)"
  unfolding fuelled_def
proof (intro allI impI conjI)
  fix s v r n assume a: "p (Suc m) s = Some (v, r)"
  show l: "length r < length s" using assms [OF a] by blast
  assume "2 * (length s - length r) \<le> n"
  with l assms [OF a] show "p n s = Some (v, r)" by (cases n) auto
qed

lemma parse_value_fuelled:
  assumes E: "fuelled parse_elems m" and M: "fuelled parse_members m"
  shows "fuelled parse_value (Suc m)"
proof (rule fuelled_SucI)
  fix s v r assume a: "parse_value (Suc m) s = Some (v, r)"
  then obtain c cs where s: "skip_ws s = c # cs" by (auto split: list.splits)
  have len: "length cs < length s" using skip_ws_length [of s] s by simp
  let ?goal = "length r < length s \<and>
      (\<forall>k. 2 * (length s - length r) \<le> Suc k \<longrightarrow> parse_value (Suc k) s = Some (v, r))"
  have flat: ?goal if "\<And>k. parse_value (Suc k) s = Some (v, r)" "length r \<le> length cs"
    using that len by auto
  have nested: "length ds \<le> length cs" if "skip_ws cs = d # ds" for d ds
    using skip_ws_length [of cs] that by simp
  consider "c = CHR ''[''" | "c = CHR ''{''" | "c \<noteq> CHR ''[''" "c \<noteq> CHR ''{''" by blast
  then show ?goal
  proof cases
    case 1
    then obtain d ds where d: "skip_ws cs = d # ds" using a s by (auto split: list.splits)
    show ?thesis
    proof (cases "d = CHR '']''")
      case True
      with a s d 1 nested [OF d] show ?thesis by (intro flat) auto
    next
      case False
      with a s d 1 obtain vs where vs: "parse_elems m cs = Some (vs, r)" "v = JArr vs" by auto
      from fuelledD [OF E vs(1)] s d 1 False vs(2) len show ?thesis by auto
    qed
  next
    case 2
    then obtain d ds where d: "skip_ws cs = d # ds" using a s by (auto split: list.splits)
    show ?thesis
    proof (cases "d = CHR ''}''")
      case True
      with a s d 2 nested [OF d] show ?thesis by (intro flat) auto
    next
      case False
      with a s d 2 obtain kvs where kvs: "parse_members m cs = Some (kvs, r)"
        "v = JObj (assign_all kvs)" by auto
      from fuelledD [OF M kvs(1)] s d 2 False kvs(2) len show ?thesis by auto
    qed
  next
    case 3
    with a s show ?thesis by (intro flat) (auto dest: parse_scalar_length)
  qed
qed

lemma parse_elems_fuelled:
  assumes V: "fuelled parse_value m" and E: "fuelled parse_elems m"
  shows "fuelled parse_elems (Suc m)"
proof (rule fuelled_SucI)
  fix s vs r assume a: "parse_elems (Suc m) s = Some (vs, r)"
  then obtain v r1 c cs where v: "parse_value m s = Some (v, r1)" and c: "skip_ws r1 = c # cs"
    by (auto split: option.splits list.splits)
  note pv = fuelledD [OF V v]
  have lc: "length cs < length r1" using skip_ws_length [of r1] c by simp
  show "length r < length s \<and>
      (\<forall>k. 2 * (length s - length r) \<le> Suc k \<longrightarrow> parse_elems (Suc k) s = Some (vs, r))"
  proof (cases "c = CHR '',''")
    case True
    with a v c obtain ws where w: "parse_elems m cs = Some (ws, r)" "vs = v # ws" by auto
    from fuelledD [OF E w(1)] pv lc True c w(2) show ?thesis by auto
  next
    case False
    with a v c have "c = CHR '']''" "vs = [v]" "r = cs" by (auto split: if_splits)
    with pv lc c show ?thesis by auto
  qed
qed

lemma parse_members_fuelled:
  assumes V: "fuelled parse_value m" and M: "fuelled parse_members m"
  shows "fuelled parse_members (Suc m)"
proof (rule fuelled_SucI)
  fix s kvs r assume a: "parse_members (Suc m) s = Some (kvs, r)"
  then obtain qs k r1 r2 v r3 c cs where q: "skip_ws s = CHR 0x22 # qs" "parse_str qs = Some (k, r1)"
    "skip_ws r1 = CHR '':'' # r2" and v: "parse_value m r2 = Some (v, r3)" and c: "skip_ws r3 = c # cs"
    by (auto split: option.splits list.splits if_splits)
  note pv = fuelledD [OF V v]
  have l: "length r2 < length s" "length cs < length r3"
    using skip_ws_length [of s] skip_ws_length [of r1] skip_ws_length [of r3]
      parse_str_length [OF q(2)] q c by auto
  show "length r < length s \<and>
      (\<forall>k. 2 * (length s - length r) \<le> Suc k \<longrightarrow> parse_members (Suc k) s = Some (kvs, r))"
  proof (cases "c = CHR '',''")
    case True
    with a v c q obtain ws where w: "parse_members m cs = Some (ws, r)" "kvs = (k, v) # ws" by auto
    from fuelledD [OF M w(1)] pv l True c w(2) q show ?thesis by auto
  next
    case False
    with a v c q have "c = CHR ''}''" "kvs = [(k, v)]" "r = cs" by (auto split: if_splits)
    with pv l c q show ?thesis by auto
  qed
qed

lemma parsers_fuelled:
  "fuelled parse_value m \<and> fuelled parse_elems m \<and> fuelled parse_members m"
proof (induction m)
  case 0
  then show ?case by (simp add: fuelled_def)
next
  case (Suc m)
  then show ?case by (blast intro: parse_value_fuelled parse_elems_fuelled parse_members_fuelled)
qed

lemma parse_value_fuel_enough:
  assumes "parse_value m s = Some (v, r)"
  shows "parse_value (2 * length s + 2) s = Some (v, r)"
  by (rule fuelledD(2) [OF conjunct1 [OF parsers_fuelled] assms]) simp

section \<open>Round trip\<close>

lemma fold_jm_set_new:
  "distinct (map fst (m @ kvs)) \<Longrightarrow> fold (\<lambda>(k, v) m. jm_set k v m) kvs m = m @ kvs"
proof (induction kvs arbitrary: m)
  case (Cons kv kvs)
  obtain k v where kv: "kv = (k, v)" by (cases kv)
  with Cons.prems have "jm_set k v m = m @ [(k, v)]"
    by (intro jm_set_new) (auto simp: image_iff)
  with kv Cons.IH [of "m @ [(k, v)]"] Cons.prems show ?case by simp
qed simp

lemma assign_all_wf: "distinct (map fst kvs) \<Longrightarrow> obj_order kvs = kvs \<Longrightarrow> assign_all kvs = kvs"
  using fold_jm_set_new [of "[]" kvs] by (simp add: assign_all_def)

lemma digit_head:
  assumes "is_digit c \<or> c = CHR ''-''"
  shows "\<not> is_json_ws c" "c \<noteq> CHR ''[''" "c \<noteq> CHR ''{''" "c \<noteq> CHR 0x22" "c \<noteq> CHR ''t''"
    "c \<noteq> CHR ''f''" "c \<noteq> CHR ''n''" "c \<noteq> CHR '']''" "c \<noteq> CHR ''}''"
  using assms by (auto simp: is_digit_def is_json_ws_def)

lemma int_to_dec_Cons: "\<exists>c cs. int_to_dec i = c # cs \<and> (is_digit c \<or> c = CHR ''-'')"
  using nat_to_dec_Cons [of "nat i"] by (auto simp: int_to_dec_def)

lemma stringify_head:
  "\<exists>c cs. stringify v = c # cs \<and> \<not> is_json_ws c \<and> c \<noteq> CHR '']'' \<and> c \<noteq> CHR ''}''"
proof (cases v)
  case (JNum i)
  obtain c cs where "int_to_dec i = c # cs" "is_digit c \<or> c = CHR ''-''" using int_to_dec_Cons by blast
  with digit_head [of c] JNum show ?thesis by simp
qed (simp_all add: quote_def is_json_ws_def)

lemma skip_ws_stringify [simp]: "skip_ws (stringify v @ r) = stringify v @ r"
  using stringify_head [of v] by (auto simp: skip_ws_def)

lemma skip_ws_punct [simp]:
  "skip_ws (CHR '','' # r) = CHR '','' # r" "skip_ws (CHR '']'' # r) = CHR '']'' # r"
  "skip_ws (CHR ''}'' # r) = CHR ''}'' # r" "skip_ws (CHR '':'' # r) = CHR '':'' # r"
  "skip_ws (CHR 0x22 # r) = CHR 0x22 # r" "skip_ws (CHR ''['' # r) = CHR ''['' # r"
  "skip_ws (CHR ''{'' # r) = CHR ''{'' # r"
  by (simp_all add: skip_ws_def is_json_ws_def)

lemma num_stop_punct [simp]: "num_stop (CHR '','' # r)" "num_stop (CHR '']'' # r)" "num_stop (CHR ''}'' # r)"
  by (simp_all add: num_stop_def is_digit_def)

lemma num_stop_Nil [simp]: "num_stop []"
  by (simp add: num_stop_def)

definition parses_back :: "json \<Rightarrow> bool" where
  "parses_back v = (\<forall>r n. num_stop r \<longrightarrow> 2 * length (stringify v) \<le> n \<longrightarrow>
     parse_value n (stringify v @ r) = Some (v, r))"

lemma stringify_length_pos: "0 < length (stringify v)"
  using stringify_head [of v] by auto

lemma parse_elems_back:
  assumes "xs \<noteq> []" "\<forall>x \<in> set xs. parses_back x"
    and "2 * length (join_with '','' (map stringify xs)) < n"
  shows "parse_elems n (join_with '','' (map stringify xs) @ CHR '']'' # r) = Some (xs, r)"
  using assms
proof (induction xs arbitrary: n rule: induct_list012)
  case (2 x)
  then obtain k where "n = Suc k" by (cases n) auto
  with 2 show ?case by (simp add: parses_back_def)
next
  case (3 x y ys)
  then obtain k where k: "n = Suc k" by (cases n) auto
  let ?t = "join_with '','' (map stringify (y # ys)) @ CHR '']'' # r"
  have "parse_value k (stringify x @ CHR '','' # ?t) = Some (x, CHR '','' # ?t)"
    using 3 k by (simp add: parses_back_def)
  moreover have "parse_elems k ?t = Some (y # ys, r)"
    using 3 k by (intro "3.IH"(2)) auto
  ultimately show ?case using k by simp
qed simp

lemma parse_str_quoted: "parse_str (tl (quote k) @ r) = Some (k, r)"
  using parse_str_quote [of k r] by (simp add: quote_def)

lemma quote_Cons: "quote k = CHR 0x22 # tl (quote k)"
  by (simp add: quote_def)

abbreviation member_text :: "string \<times> json \<Rightarrow> string" where
  "member_text \<equiv> (\<lambda>(k, v). quote k @ '':'' @ stringify v)"

lemma parse_members_back:
  assumes "kvs \<noteq> []" "\<forall>(k, v) \<in> set kvs. parses_back v"
    and "2 * length (join_with '','' (map member_text kvs)) < n"
  shows "parse_members n (join_with '','' (map member_text kvs) @ CHR ''}'' # r) = Some (kvs, r)"
  using assms
proof (induction kvs arbitrary: n rule: induct_list012)
  case (2 kv)
  then obtain j k v where "n = Suc j" "kv = (k, v)" by (cases n; cases kv) auto
  with 2 quote_Cons [of k] parse_str_quoted [of k] show ?case
    by (subst quote_Cons) (simp add: parses_back_def)
next
  case (3 kv kw kvs)
  then obtain j k v where j: "n = Suc j" and kv: "kv = (k, v)" by (cases n; cases kv) auto
  let ?t = "join_with '','' (map member_text (kw # kvs)) @ CHR ''}'' # r"
  have v: "parse_value j (stringify v @ CHR '','' # ?t) = Some (v, CHR '','' # ?t)"
    using 3 j kv by (simp add: parses_back_def)
  have m: "parse_members j ?t = Some (kw # kvs, r)"
    using 3 j by (intro "3.IH"(2)) auto
  have "join_with '','' (map member_text (kv # kw # kvs)) @ CHR ''}'' # r
      = CHR 0x22 # tl (quote k) @ CHR '':'' # stringify v @ CHR '','' # ?t"
    using quote_Cons [of k] kv by simp
  then show ?case using j v m kv by (simp add: parse_str_quoted del: join_with.simps)
qed simp

lemma parse_value_scalar:
  assumes "stringify v = c # cs" "\<not> is_json_ws c" "c \<noteq> CHR ''[''" "c \<noteq> CHR ''{''"
    and "\<And>r. num_stop r \<Longrightarrow> parse_scalar c (cs @ r) = Some (v, r)"
  shows "parses_back v"
  unfolding parses_back_def
proof (intro allI impI)
  fix r n assume "num_stop r" "2 * length (stringify v) \<le> n"
  moreover from this assms(1) obtain k where "n = Suc k" by (cases n) auto
  ultimately show "parse_value n (stringify v @ r) = Some (v, r)"
    using assms by (simp add: skip_ws_def)
qed

lemma parses_back_JNum: "parses_back (JNum i)"
proof -
  obtain c cs where c: "int_to_dec i = c # cs" "is_digit c \<or> c = CHR ''-''"
    using int_to_dec_Cons by blast
  have "parse_scalar c (cs @ r) = Some (JNum i, r)" if "num_stop r" for r
    using parse_num_dec [OF that, of i] c(1) digit_head [OF c(2)] by (simp add: parse_scalar_def)
  then show ?thesis using c digit_head [OF c(2)] by (intro parse_value_scalar [of _ c cs]) auto
qed

lemma parses_back_JStr: "parses_back (JStr s)"
  using quote_Cons [of s] parse_str_quoted [of s]
  by (intro parse_value_scalar [of _ "CHR 0x22" "tl (quote s)"])
     (auto simp: parse_scalar_def is_json_ws_def)

lemma parses_back_JNull: "parses_back JNull"
  by (rule parse_value_scalar) (auto simp: parse_scalar_def parse_lit_def is_json_ws_def)

lemma parses_back_JBool: "parses_back (JBool b)"
proof (cases b)
  case True
  then show ?thesis
    by (intro parse_value_scalar) (auto simp: parse_scalar_def parse_lit_def is_json_ws_def)
next
  case False
  then show ?thesis
    by (intro parse_value_scalar) (auto simp: parse_scalar_def parse_lit_def is_json_ws_def)
qed

lemma parses_back_JArr:
  assumes "\<forall>x \<in> set xs. parses_back x"
  shows "parses_back (JArr xs)"
  unfolding parses_back_def
proof (intro allI impI)
  fix r n assume n: "2 * length (stringify (JArr xs)) \<le> n"
  then obtain k where k: "n = Suc k" by (cases n) auto
  show "parse_value n (stringify (JArr xs) @ r) = Some (JArr xs, r)"
  proof (cases xs)
    case Nil
    with k show ?thesis by simp
  next
    case (Cons y ys)
    obtain c cs where "join_with '','' (map stringify xs) = c # cs" "\<not> is_json_ws c" "c \<noteq> CHR '']''"
      using stringify_head [of y] Cons by (cases ys) auto
    moreover from this have "skip_ws (join_with '','' (map stringify xs) @ CHR '']'' # r)
        = c # cs @ CHR '']'' # r" by (simp add: skip_ws_def)
    moreover have "parse_elems k (join_with '','' (map stringify xs) @ CHR '']'' # r) = Some (xs, r)"
      using assms n k Cons by (intro parse_elems_back) auto
    ultimately show ?thesis using k by simp
  qed
qed

lemma parses_back_JObj:
  assumes "\<forall>(k, v) \<in> set kvs. parses_back v" and wf: "distinct (map fst kvs)" "obj_order kvs = kvs"
  shows "parses_back (JObj kvs)"
  unfolding parses_back_def
proof (intro allI impI)
  fix r n assume n: "2 * length (stringify (JObj kvs)) \<le> n"
  then obtain k where k: "n = Suc k" by (cases n) auto
  show "parse_value n (stringify (JObj kvs) @ r) = Some (JObj kvs, r)"
  proof (cases kvs)
    case Nil
    with k show ?thesis by simp
  next
    case (Cons y ys)
    obtain cs where "join_with '','' (map member_text kvs) = CHR 0x22 # cs"
      using Cons by (cases ys; cases y) (auto simp: quote_def)
    moreover have "parse_members k (join_with '','' (map member_text kvs) @ CHR ''}'' # r) = Some (kvs, r)"
      using assms n k Cons by (intro parse_members_back) auto
    ultimately show ?thesis using k assign_all_wf [OF wf] by simp
  qed
qed

lemma wf_parses_back: "wf_json v \<Longrightarrow> parses_back v"
proof (induction v)
  case (JObj kvs)
  then show ?case
    by (intro parses_back_JObj) (auto simp: list_all_iff)
qed (auto simp: list_all_iff intro: parses_back_JNull parses_back_JBool parses_back_JNum
    parses_back_JStr parses_back_JArr)

lemma json_parse_stringify:
  assumes "wf_json v"
  shows "json_parse (stringify v) = returns v"
proof -
  have "parse_value (2 * length (stringify v)) (stringify v @ []) = Some (v, [])"
    using wf_parses_back [OF assms] num_stop_Nil unfolding parses_back_def by blast
  then have "parse_value (2 * length (stringify v) + 2) (stringify v) = Some (v, [])"
    by (intro parse_value_fuel_enough) simp
  then show ?thesis by (simp add: json_parse_def skip_ws_def del: parse_value.simps)
qed

lemma stringify_inj: "wf_json v \<Longrightarrow> wf_json w \<Longrightarrow> stringify v = stringify w \<Longrightarrow> v = w"
  by (metis json_parse_stringify sum.inject(2))

section \<open>Canonical forms\<close>

lemma set_obj_order [simp]: "set (obj_order kvs) = set kvs"
  by (auto simp: obj_order_def)

lemma mset_obj_order [simp]: "mset (obj_order kvs) = mset kvs"
  by (simp add: obj_order_def mset_filter case_prod_unfold)

lemma distinct_obj_order: "distinct (map fst kvs) \<Longrightarrow> distinct (map fst (obj_order kvs))"
  by (metis mset_map mset_obj_order mset_eq_imp_distinct_iff)

lemma obj_order_idem [simp]: "obj_order (obj_order kvs) = obj_order kvs"
proof -
  let ?I = "\<lambda>(k :: string, v :: 'a). is_index_key k"
  have "filter ?I (obj_order kvs) = sort_key (\<lambda>(k, v). dec_to_nat k) (filter ?I kvs)"
    by (auto simp: obj_order_def filter_sort filter_empty_conv)
  moreover have "filter (\<lambda>(k, v). \<not> is_index_key k) (obj_order kvs) = filter (\<lambda>(k, v). \<not> is_index_key k) kvs"
    by (auto simp: obj_order_def filter_empty_conv)
  ultimately have "obj_order (obj_order kvs)
      = sort_key (\<lambda>(k, v). dec_to_nat k) (sort_key (\<lambda>(k, v). dec_to_nat k) (filter ?I kvs))
        @ filter (\<lambda>(k, v). \<not> is_index_key k) kvs"
    by (subst obj_order_def) (simp only:)
  then show ?thesis by (simp add: obj_order_def [of kvs] sort_key_id_if_sorted)
qed

lemma distinct_sort_fst [simp]: "distinct (map fst (sort_key fst kvs)) \<longleftrightarrow> distinct (map fst kvs)"
  by (metis mset_map mset_sort mset_eq_imp_distinct_iff)

lemma sort_fst_unique:
  assumes "distinct (map fst xs)" "distinct (map fst ys)" "set xs = set ys"
  shows "sort_key fst xs = sort_key fst ys"
  by (rule map_sorted_distinct_set_unique [where f = fst]) (use assms in \<open>auto simp: distinct_map\<close>)

lemma canonicalize_loop_iff:
  "canonicalize_loop kvs = Inr r \<longleftrightarrow>
     r = kvs \<and> (\<forall>(k, v) \<in> set kvs. k \<notin> set FORBIDDEN_KEYS \<and> \<not> is_object v)"
  by (induction kvs arbitrary: r rule: canonicalize_loop.induct) (auto simp: and_then_Inr_iff)

lemma canonicalize_iff:
  "canonicalize obj = Inr s \<longleftrightarrow> (\<exists>kvs. obj = JObj kvs \<and>
     (\<forall>(k, v) \<in> set kvs. k \<notin> set FORBIDDEN_KEYS \<and> \<not> is_object v) \<and>
     s = stringify (JObj (obj_order (sort_key fst kvs))))"
  by (cases obj) (auto simp: canonicalize_def and_then_Inr_iff canonicalize_loop_iff)

lemma wf_canonical:
  assumes "distinct (map fst kvs)" "\<forall>(k, v) \<in> set kvs. \<not> is_object v"
  shows "wf_json (JObj (obj_order (sort_key fst kvs)))"
proof -
  have "wf_json v" if "\<not> is_object v" for v using that by (cases v) auto
  with assms show ?thesis by (auto simp: list_all_iff distinct_obj_order)
qed

lemma json_parse_canonicalize:
  assumes "canonicalize (JObj kvs) = Inr s" "distinct (map fst kvs)"
  shows "json_parse s = returns (JObj (obj_order (sort_key fst kvs)))"
proof -
  from assms(1) have "\<forall>(k, v) \<in> set kvs. \<not> is_object v"
    and s: "s = stringify (JObj (obj_order (sort_key fst kvs)))"
    by (auto simp: canonicalize_iff)
  then show ?thesis using assms(2) by (simp only: s json_parse_stringify wf_canonical)
qed

lemma map_of_canonical_order:
  "distinct (map fst kvs) \<Longrightarrow> map_of (obj_order (sort_key fst kvs)) = map_of kvs"
  by (subst map_of_inject_set) (auto intro: distinct_obj_order)

lemma canonicalize_cong:
  assumes "distinct (map fst xs)" "distinct (map fst ys)" "set xs = set ys"
  shows "canonicalize (JObj xs) = canonicalize (JObj ys)"
  by (simp add: canonicalize_def sort_fst_unique [OF assms])

lemma canonicalize_inj:
  assumes "canonicalize (JObj xs) = Inr s" "canonicalize (JObj ys) = Inr s"
    and "distinct (map fst xs)" "distinct (map fst ys)"
  shows "set xs = set ys"
proof -
  have "JObj (obj_order (sort_key fst xs)) = JObj (obj_order (sort_key fst ys))"
    using assms json_parse_canonicalize by (metis sum.inject(2))
  then show ?thesis by (metis json.inject(5) set_obj_order set_sort)
qed

lemma assertNoForbiddenKeys_loop_iff:
  "assertNoForbiddenKeys_loop ks raw = Inr () \<longleftrightarrow>
     (\<forall>k \<in> set ks. \<not> js_includes raw (CHR 0x22 # k @ [CHR 0x22]))"
  by (induction ks raw rule: assertNoForbiddenKeys_loop.induct) auto

lemma wf_sortValue: "wf_json v \<Longrightarrow> wf_json (sortValue v)"
proof (induction v)
  case (JObj kvs)
  let ?g = "\<lambda>(k :: string, v). (k, sortValue v)"
  have "map fst (map ?g kvs) = map fst kvs" by (induction kvs) auto
  with JObj.prems have "distinct (map fst (map ?g kvs))" by (simp only: wf_json.simps)
  then have "distinct (map fst (filter (\<lambda>(k, v). k \<noteq> ''__proto__'') (map ?g kvs)))"
    by (rule distinct_map_filter)
  moreover have "list_all (\<lambda>(k, v). wf_json v) (map ?g kvs)"
    using JObj by (auto simp: list_all_iff)
  ultimately show ?case by (auto simp: list_all_iff distinct_obj_order)
qed (auto simp: list_all_iff)

lemma json_parse_canonicalJson: "wf_json v \<Longrightarrow> json_parse (canonicalJson v) = returns (sortValue v)"
  by (simp add: canonicalJson_def json_parse_stringify wf_sortValue)

lemma canonicalJson_eq_iff:
  "wf_json v \<Longrightarrow> wf_json w \<Longrightarrow> canonicalJson v = canonicalJson w \<longleftrightarrow> sortValue v = sortValue w"
  by (metis canonicalJson_def stringify_inj wf_sortValue)


text \<open>
  C25. The canonical form. Two flat payloads with distinct keys, whose values are strings, integers,
  booleans and null, have the same canonical text exactly when they have the same fields: key order does
  not matter, and nothing else is confused. Parsing the text gives the payload back, field by field. The
  type \<open>json\<close> has no \<open>undefined\<close>, \<open>NaN\<close> or infinity, which \<open>JSON.stringify\<close> drops or writes as \<open>null\<close>, so that
  they do collide with other payloads, and no fractions.
\<close>
theorem canonical_form:
  assumes "canonicalize (JObj xs) = returns s" "distinct (map fst xs)" "distinct (map fst ys)"
  shows "(canonicalize (JObj ys) = returns s \<longleftrightarrow> set ys = set xs)
    \<and> (\<exists>kvs. json_parse s = returns (JObj kvs) \<and> map_of kvs = map_of xs)"
  using canonicalize_cong [OF assms(3,2)] canonicalize_inj [OF _ assms(1) assms(3,2)] assms(1)
    json_parse_canonicalize [OF assms(1,2)] map_of_canonical_order [OF assms(2)] by auto

lemma canonical_form_witness:
  "canonicalize (JObj [(''b'', JNum 1), (''a'', JStr ''x'')]) = canonicalize (JObj [(''a'', JStr ''x''), (''b'', JNum 1)])"
proof -
  let ?xs = "[(''b'', JNum 1), (''a'', JStr ''x'')]" and ?ys = "[(''a'', JStr ''x''), (''b'', JNum 1)]"
  obtain s where s: "canonicalize (JObj ?xs) = returns s"
    by (simp add: canonicalize_iff FORBIDDEN_KEYS_def)
  have "distinct (map fst ?xs)" "distinct (map fst ?ys)" "set ?ys = set ?xs" by auto
  with canonical_form [OF s] have "canonicalize (JObj ?ys) = returns s" by blast
  with s show ?thesis by metis
qed

end
