(* ===== verification/Core.thy ===== *)
theory Core
  imports Json_Laws
begin

text \<open>
  \<^verbatim>\<open>packages/core/src\<close>: HMAC and HKDF derivation (\<^verbatim>\<open>hmac.ts\<close>), the secret policy
  (\<^verbatim>\<open>secret.ts\<close>), payload signatures and fingerprints (\<^verbatim>\<open>crypto.ts\<close>), nonces
  and identifiers (\<^verbatim>\<open>nonce.ts\<close>) and the redaction of captured metadata
  (\<^verbatim>\<open>runtime-capture.ts\<close>).

  The platform's cryptography (WebCrypto, \<open>node:crypto\<close>) is not code of the repository: it is
  the record \<open>webcrypto\<close>, an argument of every definition that calls it. What a theorem relies
  on (a signature verifies under its own key, digests are 32 bytes, no collision) is a hypothesis
  of that theorem.
\<close>

unbundle bit_operations_syntax

section \<open>The platform's cryptography\<close>

type_synonym key = string

record webcrypto =
  wc_sha256 :: "bytes \<Rightarrow> bytes"
  wc_hmac :: "bytes \<Rightarrow> bytes \<Rightarrow> bytes"
  wc_hkdf :: "bytes \<Rightarrow> bytes \<Rightarrow> bytes \<Rightarrow> bytes"
  wc_sign :: "key \<Rightarrow> bytes \<Rightarrow> bytes"
  wc_verify :: "key \<Rightarrow> bytes \<Rightarrow> bytes \<Rightarrow> bool"
  wc_import :: "json \<Rightarrow> key throws"

section \<open>types.ts\<close>

definition BPC_PROTOCOL_VERSION :: string where
  "BPC_PROTOCOL_VERSION = ''1.0''"

record bpc_config =
  cfg_maxPairs :: int
  cfg_sigWindowMs :: int
  cfg_alertThreshold :: int
  cfg_lockoutCount :: int

definition DEFAULT_CONFIG :: bpc_config where
  "DEFAULT_CONFIG = \<lparr>cfg_maxPairs = 2000, cfg_sigWindowMs = 60000, cfg_alertThreshold = 5,
     cfg_lockoutCount = 10\<rparr>"

section \<open>hmac.ts\<close>

definition HKDF_INFO :: bytes where
  "HKDF_INFO = utf8 ''bpc-v1-hmac-key''"

definition HKDF_SALT :: bytes where
  "HKDF_SALT = utf8 ''bpc-protocol-hmac-salt-v1''"

definition hashSecret :: "webcrypto \<Rightarrow> string \<Rightarrow> string throws" where
  "hashSecret cr secret =
     (if secret = [] then throw ''BPC hashSecret: secret must not be empty''
      else returns (b64url (wc_hkdf cr (utf8 secret) HKDF_SALT HKDF_INFO)))"

text \<open>The import of an empty raw HMAC key raises a \<open>DataError\<close>.\<close>

definition hmacDerive :: "webcrypto \<Rightarrow> string \<Rightarrow> string \<Rightarrow> string throws" where
  "hmacDerive cr keyMaterial data =
     (if keyMaterial = [] then throw ''BPC hmacDerive: keyMaterial must not be empty''
      else and_then (b64urlDecode keyMaterial) (\<lambda>keyBytes.
        if keyBytes = [] then throw ''DataError''
        else returns (b64url (wc_hmac cr keyBytes (utf8 data)))))"

fun ct_diff :: "bytes \<Rightarrow> bytes \<Rightarrow> 32 word \<Rightarrow> 32 word" where
  "ct_diff [] bs d = d"
| "ct_diff (a # as) bs d =
     ct_diff as (tl bs) (d OR ucast (a XOR (case bs of [] \<Rightarrow> 0 | b # _ \<Rightarrow> b)))"

definition ct_equal :: "string \<Rightarrow> string \<Rightarrow> bool" where
  "ct_equal expected provided =
     (let aBytes = utf8 expected; bBytes = utf8 provided;
          diff = (if length aBytes \<noteq> length bBytes then 1 else 0)
      in ct_diff aBytes bBytes diff = 0)"

definition hmac_tag_syntax :: "string \<Rightarrow> bool" where
  "hmac_tag_syntax s = (let body = takeWhile is_b64url_char s; pad = dropWhile is_b64url_char s
     in body \<noteq> [] \<and> list_all (\<lambda>c. c = CHR ''='') pad)"

definition verifySecretHmac :: "webcrypto \<Rightarrow> string \<Rightarrow> string \<Rightarrow> int \<Rightarrow> string \<Rightarrow> bool" where
  "verifySecretHmac cr storedHmacKey nonce timestamp providedHmac =
     (if storedHmacKey = [] then False
      else if providedHmac = [] \<or> length providedHmac < 43 then False
      else if \<not> hmac_tag_syntax providedHmac then False
      else case hmacDerive cr storedHmacKey (nonce @ int_to_dec timestamp) of
        Inl e \<Rightarrow> False
      | Inr expected \<Rightarrow> ct_equal expected providedHmac)"

section \<open>secret.ts\<close>

definition MIN_SECRET_LENGTH :: nat where
  "MIN_SECRET_LENGTH = 16"

definition MAX_SECRET_LENGTH :: nat where
  "MAX_SECRET_LENGTH = 128"

definition validateSecret :: "string \<Rightarrow> unit throws" where
  "validateSecret secret =
     (if length secret < MIN_SECRET_LENGTH then Inl ''Secret must be at least 16 characters''
      else if length secret > MAX_SECRET_LENGTH then Inl ''Secret must be at most 128 characters''
      else if \<not> list_ex is_upper secret then Inl ''Secret must contain at least one uppercase letter''
      else if \<not> list_ex is_lower secret then Inl ''Secret must contain at least one lowercase letter''
      else if \<not> list_ex is_digit secret then Inl ''Secret must contain at least one digit''
      else if length (filter (\<lambda>c. \<not> is_alnum c) secret) < 2
        then Inl ''Secret must contain at least two special characters''
      else Inr ())"

section \<open>crypto.ts\<close>

fun truthy :: "json \<Rightarrow> bool" where
  "truthy JNull = False"
| "truthy (JBool b) = b"
| "truthy (JNum i) = (i \<noteq> 0)"
| "truthy (JStr s) = (s \<noteq> [])"
| "truthy _ = True"

definition truthy_field :: "json \<Rightarrow> string \<Rightarrow> bool" where
  "truthy_field v k = (case field v k of None \<Rightarrow> False | Some w \<Rightarrow> truthy w)"

definition computeFingerprint :: "webcrypto \<Rightarrow> json \<Rightarrow> string throws" where
  "computeFingerprint cr jwk =
     (if field jwk ''kty'' \<noteq> Some (JStr ''EC'') \<or> field jwk ''crv'' \<noteq> Some (JStr ''P-256'')
         \<or> \<not> truthy_field jwk ''x'' \<or> \<not> truthy_field jwk ''y''
      then throw ''BPC fingerprint requires an EC P-256 public JWK''
      else returns (take 20 (b64url (wc_sha256 cr (utf8 (stringify (JObj
        [(''crv'', the (field jwk ''crv'')), (''kty'', the (field jwk ''kty'')),
         (''x'', the (field jwk ''x'')), (''y'', the (field jwk ''y''))])))))))"

definition signPayload :: "webcrypto \<Rightarrow> key \<Rightarrow> json \<Rightarrow> string throws" where
  "signPayload cr privateKey payload =
     and_then (canonicalize payload) (\<lambda>text. returns (b64url (wc_sign cr privateKey (utf8 text))))"

definition verifyPayload :: "webcrypto \<Rightarrow> key \<Rightarrow> json \<Rightarrow> string \<Rightarrow> bool" where
  "verifyPayload cr publicKey payload signature = catch_false
     (and_then (canonicalize payload) (\<lambda>text.
       and_then (b64urlDecode signature) (\<lambda>sigBuf.
         returns (wc_verify cr publicKey sigBuf (utf8 text)))))"

definition importPublicKeyFromJwk :: "webcrypto \<Rightarrow> json \<Rightarrow> key throws" where
  "importPublicKeyFromJwk cr jwk = wc_import cr jwk"

section \<open>nonce.ts\<close>

definition hex_byte :: "byte \<Rightarrow> string" where
  "hex_byte b = [hex_digit (unat b div 16), hex_digit (unat b mod 16)]"

definition generateId :: "string \<Rightarrow> bytes \<Rightarrow> string" where
  "generateId pre arr = pre @ ''_'' @ take 16 (concat (map hex_byte arr))"

record core_nonce_store =
  ns_seen :: "(string, int) jsmap"
  ns_windowMs :: int

definition ns_evict :: "int \<Rightarrow> core_nonce_store \<Rightarrow> core_nonce_store" where
  "ns_evict now st = st\<lparr>ns_seen := jm_keep (\<lambda>nonce expiry. \<not> expiry < now) (ns_seen st)\<rparr>"

definition ns_has :: "int \<Rightarrow> string \<Rightarrow> core_nonce_store \<Rightarrow> bool \<times> core_nonce_store" where
  "ns_has now nonce st = (let st' = ns_evict now st in (jm_has (ns_seen st') nonce, st'))"

definition ns_add :: "int \<Rightarrow> string \<Rightarrow> core_nonce_store \<Rightarrow> core_nonce_store" where
  "ns_add now nonce st = st\<lparr>ns_seen := jm_set nonce (now + ns_windowMs st) (ns_seen st)\<rparr>"

definition ns_size :: "int \<Rightarrow> core_nonce_store \<Rightarrow> nat \<times> core_nonce_store" where
  "ns_size now st = (let st' = ns_evict now st in (length (ns_seen st'), st'))"

section \<open>runtime-capture.ts\<close>

definition to_lower :: "char \<Rightarrow> char" where
  "to_lower c = (if is_upper c then char_of (code c + 32) else c)"

definition SENSITIVE_WORDS :: "string list" where
  "SENSITIVE_WORDS = [''secret'', ''token'', ''password'', ''private'', ''credential'', ''apikey'',
     ''api_key'', ''api-key'', ''rawkey'', ''raw_key'', ''raw-key'', ''authorization'']"

definition sensitive_field :: "string \<Rightarrow> bool" where
  "sensitive_field name = list_ex (js_includes (map to_lower name)) SENSITIVE_WORDS"

definition REDACTED :: json where
  "REDACTED = JStr ''[REDACTED]''"

text \<open>
  The accumulator is a plain object, so a property named \<open>__proto__\<close> is not copied.
\<close>

fun sanitizeCaptureValue :: "json \<Rightarrow> string \<Rightarrow> json" where
  "sanitizeCaptureValue (JArr xs) fieldName = (if sensitive_field fieldName then REDACTED
     else JArr (map (\<lambda>x. sanitizeCaptureValue x []) xs))"
| "sanitizeCaptureValue (JObj kvs) fieldName = (if sensitive_field fieldName then REDACTED
     else JObj (filter (\<lambda>(k, v). k \<noteq> ''__proto__'')
       (map (\<lambda>(k, v). (k, sanitizeCaptureValue v k)) kvs)))"
| "sanitizeCaptureValue v fieldName = (if sensitive_field fieldName then REDACTED else v)"

fun redacted :: "json \<Rightarrow> bool" where
  "redacted (JArr xs) = list_all redacted xs"
| "redacted (JObj kvs) = list_all (\<lambda>(k, v). (sensitive_field k \<longrightarrow> v = REDACTED) \<and> redacted v) kvs"
| "redacted _ = True"

section \<open>Laws\<close>

lemma ucast_byte_eq_0 [simp]: "(ucast (b :: byte) :: 32 word) = 0 \<longleftrightarrow> b = 0"
  by transfer (simp add: take_bit_take_bit min_def)

lemma word_OR_eq_0 [simp]: "(a :: 32 word) OR b = 0 \<longleftrightarrow> a = 0 \<and> b = 0"
  by (simp add: or_eq_0_iff)

lemma byte_XOR_eq_0 [simp]: "(a :: byte) XOR b = 0 \<longleftrightarrow> a = b"
proof
  assume "a XOR b = 0"
  then have "(a XOR b) XOR b = b" by simp
  then show "a = b" by (simp add: xor.assoc)
qed simp

lemma ct_diff_eq_0:
  "length as = length bs \<Longrightarrow> ct_diff as bs d = 0 \<longleftrightarrow> d = 0 \<and> as = bs"
proof (induction as bs d rule: ct_diff.induct)
  case (2 a as bs d)
  then obtain b bs' where "bs = b # bs'" by (cases bs) auto
  with 2 show ?case by auto
qed auto

lemma ct_diff_mono: "ct_diff as bs d = 0 \<Longrightarrow> d = 0"
  by (induction as bs d rule: ct_diff.induct) auto

lemma ct_equal_iff: "ct_equal a b \<longleftrightarrow> a = b"
proof (cases "length (utf8 a) = length (utf8 b)")
  case True
  then show ?thesis by (auto simp: ct_equal_def ct_diff_eq_0 dest: utf8_inj)
next
  case False
  then have "ct_diff (utf8 a) (utf8 b) 1 \<noteq> 0" using ct_diff_mono by fastforce
  with False show ?thesis by (auto simp: ct_equal_def)
qed

lemma hmac_tag_syntax_b64url: "b64url bs \<noteq> [] \<Longrightarrow> hmac_tag_syntax (b64url bs)"
  using b64url_alphabet [of bs]
  by (simp add: hmac_tag_syntax_def list_all_iff takeWhile_eq_all_conv [THEN iffD2]
      dropWhile_eq_Nil_conv [THEN iffD2])

lemma verifySecretHmac_iff:
  "verifySecretHmac cr stored nonce ts tag \<longleftrightarrow>
     stored \<noteq> [] \<and> 43 \<le> length tag \<and> hmac_tag_syntax tag
     \<and> hmacDerive cr stored (nonce @ int_to_dec ts) = returns tag"
  by (auto simp: verifySecretHmac_def ct_equal_iff split: sum.splits)

lemma hmacDerive_iff:
  "hmacDerive cr key data = returns tag \<longleftrightarrow> key \<noteq> [] \<and>
     (\<exists>kb. b64urlDecode key = returns kb \<and> kb \<noteq> [] \<and> tag = b64url (wc_hmac cr kb (utf8 data)))"
  by (auto simp: hmacDerive_def and_then_Inr_iff)

lemma hmacDerive_verifies:
  assumes "hmacDerive cr stored (nonce @ int_to_dec ts) = returns tag"
    and "\<And>k d. length (wc_hmac cr k d) = 32"
  shows "verifySecretHmac cr stored nonce ts tag"
proof -
  from assms(1) obtain kb where t: "tag = b64url (wc_hmac cr kb (utf8 (nonce @ int_to_dec ts)))"
    and "stored \<noteq> []" by (auto simp: hmacDerive_iff)
  have "length tag = 43" by (simp add: t length_b64url assms(2))
  moreover from this have "tag \<noteq> []" by auto
  ultimately show ?thesis using assms(1) \<open>stored \<noteq> []\<close> t
    by (auto simp: verifySecretHmac_iff intro: hmac_tag_syntax_b64url)
qed

lemma verifyPayload_iff:
  "verifyPayload cr pk payload sig \<longleftrightarrow> (\<exists>text sb. canonicalize payload = returns text
     \<and> b64urlDecode sig = returns sb \<and> wc_verify cr pk sb (utf8 text))"
  by (auto simp: verifyPayload_def catch_false_iff and_then_Inr_iff)

lemma signPayload_verifies:
  assumes "signPayload cr sk payload = returns sig"
    and "\<And>m. wc_verify cr pk (wc_sign cr sk m) m"
  shows "verifyPayload cr pk payload sig"
  using assms by (auto simp: signPayload_def and_then_Inr_iff verifyPayload_iff)

lemma sanitize_sensitive: "sensitive_field f \<Longrightarrow> sanitizeCaptureValue v f = REDACTED"
  by (cases v) auto

lemma redacted_REDACTED [simp]: "redacted REDACTED"
  by (simp add: REDACTED_def)

lemma redacted_sanitize: "redacted (sanitizeCaptureValue v f)"
  by (induction v f rule: sanitizeCaptureValue.induct)
     (auto simp: list_all_iff sanitize_sensitive)

lemma hex_digit_hex: "d < 16 \<Longrightarrow> is_hex_char (hex_digit d)"
  by (auto simp: hex_digit_def is_hex_char_def is_digit_def)

lemma generateId_chars:
  "list_all is_b64url_char pre \<Longrightarrow> list_all is_b64url_char (generateId pre arr)"
proof -
  have "is_b64url_char (hex_digit d)" if "d < 16" for d
    using hex_digit_hex [OF that]
    by (auto simp: is_hex_char_def is_b64url_char_def is_alnum_def is_lower_def is_upper_def)
  moreover have "unat (b :: byte) div 16 < 16" for b
    using unat_byte_less [of b] by linarith
  ultimately have "list_all is_b64url_char (concat (map hex_byte arr))"
    by (induction arr) (auto simp: hex_byte_def)
  then show "list_all is_b64url_char pre \<Longrightarrow> list_all is_b64url_char (generateId pre arr)"
    using set_take_subset [of 16 "concat (map hex_byte arr)"]
    by (auto simp: generateId_def list_all_iff is_b64url_char_def [of "CHR ''_''"] simp del: set_concat)
qed

lemma length_generateId: "length arr = 16 \<Longrightarrow> length (generateId pre arr) = length pre + 17"
  by (simp add: generateId_def hex_byte_def length_concat comp_def sum_list_triv)

lemma length_generateId_le: "length (generateId pre arr) \<le> length pre + 17"
  by (simp add: generateId_def)


text \<open>
  The constant-time comparison is exact. The word loop of the tag comparison, which ORs the
  differences of all bytes into a 32-bit accumulator, answers true exactly for equal byte strings:
  no difference is lost to the width of the accumulator or to the length test.
\<close>
theorem constant_time_compare_exact: "ct_equal a b \<longleftrightarrow> a = b"
  by (rule ct_equal_iff)

text \<open>
  Captured values are redacted. Whatever value is captured under whatever field name, every
  field of the recorded value, at any depth, whose name contains a sensitive word holds the
  redaction marker.
\<close>
theorem capture_redacts: "redacted (sanitizeCaptureValue v f)"
  by (rule redacted_sanitize)

end
