(* ===== verification/Store.thy ===== *)
theory Store
  imports Complex_Main Core
begin

text \<open>
  The pair data of \<^verbatim>\<open>packages/server/src/types.ts\<close>, the authorization predicates of
  \<^verbatim>\<open>store.ts\<close> and the in-memory authority \<open>MemoryPairStore\<close> of
  \<^verbatim>\<open>memory-store.ts\<close>. \<open>exclusively\<close> serialises the authority operations, so each
  is one atomic function on the store; a thrown error leaves the store as it was. A \<open>Map\<close> of
  the class is an insertion-ordered map, \<open>structuredClone\<close> is the identity on values.
\<close>

section \<open>types.ts\<close>

datatype canary_class = EnvFile | Docs | RegistryExfil
datatype pair_kind = Legitimate | Ghost
datatype pair_status = Active | Locked | Expired | Rotated | Revoked
datatype verdict = Clean | Suspicious | Shadow | Attack

definition TARPIT_DELAY_MS :: "verdict \<Rightarrow> int" where
  "TARPIT_DELAY_MS v = (case v of Clean \<Rightarrow> 0 | Suspicious \<Rightarrow> 500 | Shadow \<Rightarrow> 2000 | Attack \<Rightarrow> 0)"

text \<open>
  An optional field is an \<open>option\<close>; \<open>firstFailureAt\<close> distinguishes absent (\<open>None\<close>) from
  \<open>null\<close> (\<open>Some None\<close>). The decayed failure score is rational.
\<close>

record stored_pair =
  sp_id :: string
  sp_name :: string
  sp_scope :: string
  sp_mode :: string
  sp_secretHash :: string
  sp_pubJwk :: json
  sp_status :: pair_status
  sp_created :: int
  sp_lastActive :: "int option"
  sp_requests :: int
  sp_failedSigs :: int
  sp_cumulativeFailures :: "rat option"
  sp_firstFailureAt :: "int option option"
  sp_expiresAt :: "int option"
  sp_maxRequests :: "int option"
  sp_kind :: "pair_kind option"
  sp_canaryClass :: "canary_class option"

record pair_registration =
  rg_name :: string
  rg_scope :: string
  rg_mode :: string
  rg_secretHash :: string
  rg_pubJwk :: json
  rg_expiresAt :: "int option"
  rg_maxRequests :: "int option"
  rg_kind :: "pair_kind option"
  rg_canaryClass :: "canary_class option"

record auth_snapshot =
  snap_pairId :: string
  snap_scope :: string
  snap_mode :: string
  snap_kind :: pair_kind
  snap_canaryClass :: "canary_class option"
  snap_verifiedAt :: int

section \<open>store.ts\<close>

datatype use_claim = Claimed | Missing | Inactive | PolicyChanged | TimeExpired | UsageExhausted

record use_policy =
  up_status :: pair_status
  up_scope :: string
  up_mode :: string
  up_secretHash :: string
  up_pubJwk :: json
  up_expiresAt :: "int option"
  up_maxRequests :: "int option"
  up_kind :: pair_kind
  up_canaryClass :: "canary_class option"

definition JWK_FIELDS :: "string list" where
  "JWK_FIELDS = [''kty'', ''crv'', ''x'', ''y'', ''key_ops'', ''ext'']"

definition B64URL_256 :: "string \<Rightarrow> bool" where
  "B64URL_256 s = (length s = 43 \<and> list_all is_b64url_char (butlast s)
     \<and> last s \<in> set ''AEIMQUYcgkosw048'')"

definition b64url_256_field :: "json option \<Rightarrow> bool" where
  "b64url_256_field v = (case v of Some (JStr s) \<Rightarrow> B64URL_256 s | _ \<Rightarrow> False)"

text \<open>
  Plain data only: a JSON value is never a proxy, has no symbols and no accessors.
\<close>

definition canonicalAuthorizationJwk :: "json \<Rightarrow> json throws" where
  "canonicalAuthorizationJwk v =
     (if \<not> is_object v then throw ''pubJwk must be a non-proxy object''
      else case v of
        JObj kvs \<Rightarrow>
          (if list_ex (\<lambda>(k, w). k \<notin> set JWK_FIELDS) kvs then throw ''pubJwk contains unexpected field''
           else if field v ''kty'' \<noteq> Some (JStr ''EC'') \<or> field v ''crv'' \<noteq> Some (JStr ''P-256'')
             \<or> \<not> b64url_256_field (field v ''x'') \<or> \<not> b64url_256_field (field v ''y'')
             then throw ''pubJwk must be an exact public P-256 key''
           else if field v ''key_ops'' \<notin> {None, Some (JArr [JStr ''verify''])}
             then throw ''pubJwk.key_ops must be exactly verify when present''
           else if field v ''ext'' \<notin> {None, Some (JBool True)}
             then throw ''pubJwk.ext must be true when present''
           else returns (JObj [(''kty'', JStr ''EC''), (''crv'', JStr ''P-256''),
             (''x'', the (field v ''x'')), (''y'', the (field v ''y''))]))
      | _ \<Rightarrow> throw ''pubJwk must be a plain object'')"

fun own_props :: "json \<Rightarrow> (string \<times> json) list" where
  "own_props (JArr xs) = zip (map nat_to_dec [0..<length xs]) xs"
| "own_props (JObj kvs) = kvs"
| "own_props _ = []"

function sameData :: "json \<Rightarrow> json \<Rightarrow> bool" where
  "sameData l r = (if \<not> is_object l \<or> \<not> is_object r then l = r
     else sort (map fst (own_props l)) = sort (map fst (own_props r))
       \<and> list_all (\<lambda>(k, v). case map_of (own_props r) k of
            None \<Rightarrow> False | Some w \<Rightarrow> sameData v w) (own_props l))"
  by pat_completeness auto

lemma own_props_size: "(k, v) \<in> set (own_props l) \<Longrightarrow> size v < size l"
proof (cases l)
  case (JArr xs)
  assume "(k, v) \<in> set (own_props l)"
  with JArr have "v \<in> set xs" by (auto dest: set_zip_rightD)
  with JArr show ?thesis by (simp add: size_list_estimation' less_Suc_eq_le)
next
  case (JObj kvs)
  assume "(k, v) \<in> set (own_props l)"
  with JObj have "(k, v) \<in> set kvs" by simp
  then have "size_prod (\<lambda>_. 0) size (k, v) \<le> size_list (size_prod (\<lambda>_. 0) size) kvs"
    by (rule size_list_estimation') simp
  with JObj show ?thesis by simp
qed auto

termination sameData
  by (relation "measure (\<lambda>(l, r). size l)") (auto dest: own_props_size)

declare sameData.simps [simp del]

definition kind_of :: "pair_kind option \<Rightarrow> pair_kind" where
  "kind_of k = (case k of None \<Rightarrow> Legitimate | Some k \<Rightarrow> k)"

definition hasInitialPairState :: "stored_pair \<Rightarrow> bool" where
  "hasInitialPairState p = (sp_status p = Active \<and> sp_lastActive p = None \<and> sp_requests p = 0
     \<and> sp_failedSigs p = 0 \<and> sp_cumulativeFailures p = None \<and> sp_firstFailureAt p = None)"

text \<open>The conjunction evaluates the two canonical keys only when the fields before them agree.\<close>

definition sameCanonicalJwk :: "json \<Rightarrow> json \<Rightarrow> bool throws" where
  "sameCanonicalJwk a b = and_then (canonicalAuthorizationJwk a) (\<lambda>ca.
     and_then (canonicalAuthorizationJwk b) (\<lambda>cb. returns (sameData ca cb)))"

definition pairMatchesRegistration :: "stored_pair \<Rightarrow> pair_registration \<Rightarrow> bool throws" where
  "pairMatchesRegistration p r =
     (if sp_name p = rg_name r \<and> sp_scope p = rg_scope r \<and> sp_mode p = rg_mode r
         \<and> sp_secretHash p = rg_secretHash r
      then and_then (sameCanonicalJwk (sp_pubJwk p) (rg_pubJwk r)) (\<lambda>same. returns (same
         \<and> sp_expiresAt p = rg_expiresAt r \<and> sp_maxRequests p = rg_maxRequests r
         \<and> kind_of (sp_kind p) = kind_of (rg_kind r) \<and> sp_canaryClass p = rg_canaryClass r))
      else returns False)"

definition rotationPolicyMatches :: "stored_pair \<Rightarrow> stored_pair \<Rightarrow> bool" where
  "rotationPolicyMatches old new = (sp_name old = sp_name new \<and> sp_scope old = sp_scope new
     \<and> sp_mode old = sp_mode new \<and> sp_secretHash old = sp_secretHash new
     \<and> sp_expiresAt old = sp_expiresAt new \<and> sp_maxRequests old = sp_maxRequests new
     \<and> kind_of (sp_kind old) = kind_of (sp_kind new) \<and> sp_canaryClass old = sp_canaryClass new)"

definition successfulUsePolicy :: "stored_pair \<Rightarrow> use_policy throws" where
  "successfulUsePolicy p = and_then (canonicalAuthorizationJwk (sp_pubJwk p)) (\<lambda>jwk. returns
     \<lparr>up_status = sp_status p, up_scope = sp_scope p, up_mode = sp_mode p,
      up_secretHash = sp_secretHash p, up_pubJwk = jwk, up_expiresAt = sp_expiresAt p,
      up_maxRequests = sp_maxRequests p, up_kind = kind_of (sp_kind p),
      up_canaryClass = sp_canaryClass p\<rparr>)"

definition successfulUsePolicyMatches :: "stored_pair \<Rightarrow> use_policy \<Rightarrow> bool throws" where
  "successfulUsePolicyMatches p e =
     (if sp_status p = up_status e \<and> sp_scope p = up_scope e \<and> sp_mode p = up_mode e
         \<and> sp_secretHash p = up_secretHash e
      then and_then (sameCanonicalJwk (sp_pubJwk p) (up_pubJwk e)) (\<lambda>same. returns (same
         \<and> sp_expiresAt p = up_expiresAt e \<and> sp_maxRequests p = up_maxRequests e
         \<and> kind_of (sp_kind p) = up_kind e \<and> sp_canaryClass p = up_canaryClass e))
      else returns False)"

section \<open>memory-store.ts: MemoryPairStore\<close>

record mem_store =
  ms_pairs :: "(string, stored_pair) jsmap"
  ms_pending :: "(string, pair_registration \<times> int) jsmap"

definition empty_store :: mem_store where
  "empty_store = \<lparr>ms_pairs = [], ms_pending = []\<rparr>"

definition ms_get :: "mem_store \<Rightarrow> string \<Rightarrow> stored_pair option" where
  "ms_get st pairId = jm_get (ms_pairs st) pairId"

definition ms_set :: "stored_pair \<Rightarrow> mem_store \<Rightarrow> mem_store" where
  "ms_set p st = st\<lparr>ms_pairs := jm_set (sp_id p) p (ms_pairs st)\<rparr>"

definition ms_delete :: "string \<Rightarrow> mem_store \<Rightarrow> mem_store" where
  "ms_delete pairId st = st\<lparr>ms_pairs := jm_delete pairId (ms_pairs st)\<rparr>"

definition ms_list :: "mem_store \<Rightarrow> stored_pair list" where
  "ms_list st = map snd (ms_pairs st)"

definition ms_getPending :: "mem_store \<Rightarrow> string \<Rightarrow> (pair_registration \<times> int) option" where
  "ms_getPending st token = jm_get (ms_pending st) token"

definition ms_setPending :: "string \<Rightarrow> pair_registration \<Rightarrow> int \<Rightarrow> mem_store \<Rightarrow> mem_store" where
  "ms_setPending token reg t st = st\<lparr>ms_pending := jm_set token (reg, t) (ms_pending st)\<rparr>"

definition ms_deletePending :: "string \<Rightarrow> mem_store \<Rightarrow> mem_store" where
  "ms_deletePending token st = st\<lparr>ms_pending := jm_delete token (ms_pending st)\<rparr>"

definition ms_listPending :: "mem_store \<Rightarrow> (string \<times> pair_registration \<times> int) list" where
  "ms_listPending st = ms_pending st"

definition put_pair :: "string \<Rightarrow> stored_pair \<Rightarrow> mem_store \<Rightarrow> mem_store" where
  "put_pair pairId p st = st\<lparr>ms_pairs := jm_set pairId p (ms_pairs st)\<rparr>"

definition ms_atomicMutate ::
    "string \<Rightarrow> (stored_pair \<Rightarrow> stored_pair option throws) \<Rightarrow> mem_store \<Rightarrow> stored_pair option throws \<times> mem_store"
where
  "ms_atomicMutate pairId mutate st = (case ms_get st pairId of
     None \<Rightarrow> (returns None, st)
   | Some current \<Rightarrow>
       (case mutate current of
          Inl e \<Rightarrow> (throw e, st)
        | Inr None \<Rightarrow> (returns (Some current), st)
        | Inr (Some new) \<Rightarrow>
            if sp_id new \<noteq> pairId then (throw ''Atomic pair mutation cannot change pair identity'', st)
            else (returns (Some new), put_pair pairId new st)))"

definition active_count :: "mem_store \<Rightarrow> nat" where
  "active_count st = length (filter (\<lambda>p. sp_status p = Active) (ms_list st))"

definition ms_approvePending ::
    "string \<Rightarrow> pair_registration \<times> int \<Rightarrow> stored_pair \<Rightarrow> int \<Rightarrow> mem_store \<Rightarrow> bool throws \<times> mem_store"
where
  "ms_approvePending token expected p maxActivePairs st =
     (if ms_getPending st token \<noteq> Some expected then (returns False, st)
      else if \<not> hasInitialPairState p then (throw ''Approved pair initial state is invalid'', st)
      else case pairMatchesRegistration p (fst expected) of
        Inl e \<Rightarrow> (throw e, st)
      | Inr matches \<Rightarrow>
          if \<not> matches then (throw ''Approved pair initial state is invalid'', st)
          else if maxActivePairs \<le> int (active_count st) then (throw ''Maximum pair capacity reached'', st)
          else if jm_has (ms_pairs st) (sp_id p) then (throw ''Replacement pair identity already exists'', st)
          else (returns True, put_pair (sp_id p) p (ms_deletePending token st)))"

definition ms_rotatePair :: "stored_pair \<Rightarrow> stored_pair \<Rightarrow> mem_store \<Rightarrow> bool \<times> mem_store" where
  "ms_rotatePair expectedOld replacement st = (case ms_get st (sp_id expectedOld) of
     None \<Rightarrow> (False, st)
   | Some current \<Rightarrow>
       if current \<noteq> expectedOld then (False, st)
       else if sp_status current \<noteq> Active \<or> \<not> hasInitialPairState replacement
         \<or> \<not> rotationPolicyMatches current replacement \<or> jm_has (ms_pairs st) (sp_id replacement)
         then (False, st)
       else (True, put_pair (sp_id replacement) replacement
               (put_pair (sp_id current) (current\<lparr>sp_status := Rotated\<rparr>) st)))"

definition MAX_SAFE_INTEGER :: int where
  "MAX_SAFE_INTEGER = 9007199254740991"

definition is_safe_integer :: "int \<Rightarrow> bool" where
  "is_safe_integer n = (\<bar>n\<bar> \<le> MAX_SAFE_INTEGER)"

definition time_expired_at :: "stored_pair \<Rightarrow> int \<Rightarrow> bool" where
  "time_expired_at p t = (case sp_expiresAt p of None \<Rightarrow> False | Some e \<Rightarrow> e < t)"

definition cap_reached :: "int option \<Rightarrow> int \<Rightarrow> bool" where
  "cap_reached cap requests = (case cap of None \<Rightarrow> False | Some m \<Rightarrow> m > 0 \<and> requests \<ge> m)"

definition claim_pair :: "stored_pair \<Rightarrow> int \<Rightarrow> stored_pair" where
  "claim_pair p t = (let requests = sp_requests p + 1 in
     p\<lparr>sp_requests := requests, sp_lastActive := Some t, sp_failedSigs := 0,
       sp_cumulativeFailures := Some 0, sp_firstFailureAt := Some None,
       sp_status := if cap_reached (sp_maxRequests p) requests then Expired else sp_status p\<rparr>)"

definition ms_claimSuccessfulUse ::
    "string \<Rightarrow> int \<Rightarrow> use_policy \<Rightarrow> mem_store \<Rightarrow> use_claim throws \<times> mem_store"
where
  "ms_claimSuccessfulUse pairId t expected st =
     (if \<not> is_safe_integer t \<or> t < 0 then (throw ''Successful-use timestamp is invalid'', st)
      else case canonicalAuthorizationJwk (up_pubJwk expected) of
        Inl e \<Rightarrow> (throw e, st)
      | Inr jwk \<Rightarrow>
       (let captured = expected\<lparr>up_pubJwk := jwk\<rparr> in
        (case ms_get st pairId of
          None \<Rightarrow> (returns Missing, st)
        | Some current \<Rightarrow>
            if sp_status current = Expired \<and> time_expired_at current t then (returns TimeExpired, st)
            else if sp_status current = Expired \<and> cap_reached (sp_maxRequests current) (sp_requests current)
              then (returns UsageExhausted, st)
            else if sp_status current \<noteq> Active then (returns Inactive, st)
            else if time_expired_at current t
              then (returns TimeExpired, put_pair pairId (current\<lparr>sp_status := Expired\<rparr>) st)
            else if cap_reached (sp_maxRequests current) (sp_requests current)
              then (returns UsageExhausted, put_pair pairId (current\<lparr>sp_status := Expired\<rparr>) st)
            else (case successfulUsePolicyMatches current captured of
              Inl e \<Rightarrow> (throw e, st)
            | Inr matches \<Rightarrow>
                if \<not> matches then (returns PolicyChanged, st)
                else (returns Claimed, put_pair pairId (claim_pair current t) st)))))"

definition ms_expireIfElapsed :: "string \<Rightarrow> int \<Rightarrow> mem_store \<Rightarrow> bool throws \<times> mem_store" where
  "ms_expireIfElapsed pairId now st =
     (if \<not> is_safe_integer now \<or> now < 0 then (throw ''Expiry check timestamp is invalid'', st)
      else case ms_get st pairId of
        None \<Rightarrow> (returns False, st)
      | Some p \<Rightarrow>
          if sp_status p \<noteq> Active \<or> \<not> time_expired_at p now then (returns False, st)
          else (returns True, put_pair pairId (p\<lparr>sp_status := Expired\<rparr>) st))"

definition ms_expireIfUsageExhausted :: "string \<Rightarrow> mem_store \<Rightarrow> bool \<times> mem_store" where
  "ms_expireIfUsageExhausted pairId st = (case ms_get st pairId of
     None \<Rightarrow> (False, st)
   | Some p \<Rightarrow>
       if sp_status p \<noteq> Active \<or> \<not> cap_reached (sp_maxRequests p) (sp_requests p) then (False, st)
       else (True, put_pair pairId (p\<lparr>sp_status := Expired\<rparr>) st))"

definition ms_lockIfFailureThreshold :: "string \<Rightarrow> int \<Rightarrow> mem_store \<Rightarrow> bool throws \<times> mem_store" where
  "ms_lockIfFailureThreshold pairId minimumFailures st =
     (if \<not> is_safe_integer minimumFailures \<or> minimumFailures < 1
      then (throw ''Failure threshold is invalid'', st)
      else case ms_get st pairId of
        None \<Rightarrow> (returns False, st)
      | Some p \<Rightarrow>
          if sp_status p \<noteq> Active \<or> sp_failedSigs p < minimumFailures then (returns False, st)
          else (returns True, put_pair pairId (p\<lparr>sp_status := Locked\<rparr>) st))"

section \<open>The PairStore interface\<close>

text \<open>
  \<open>PairStore\<close> as its clients use it. The registry's compatibility path, the replicating
  decorator and the replica receiver rely on these laws only.
\<close>

locale pair_store =
  fixes get :: "'s \<Rightarrow> string \<Rightarrow> stored_pair option"
    and set :: "stored_pair \<Rightarrow> 's \<Rightarrow> 's"
    and delete :: "string \<Rightarrow> 's \<Rightarrow> 's"
    and getPending :: "'s \<Rightarrow> string \<Rightarrow> (pair_registration \<times> int) option"
    and setPending :: "string \<Rightarrow> pair_registration \<Rightarrow> int \<Rightarrow> 's \<Rightarrow> 's"
    and deletePending :: "string \<Rightarrow> 's \<Rightarrow> 's"
  assumes get_set: "get (set p s) = (get s)(sp_id p \<mapsto> p)"
    and get_delete: "get (delete i s) = (get s)(i := None)"
    and get_setPending: "get (setPending t r n s) = get s"
    and get_deletePending: "get (deletePending t s) = get s"
    and getPending_set: "getPending (set p s) = getPending s"
    and getPending_delete: "getPending (delete i s) = getPending s"
    and getPending_setPending: "getPending (setPending t r n s) = (getPending s)(t \<mapsto> (r, n))"
    and getPending_deletePending: "getPending (deletePending t s) = (getPending s)(t := None)"
begin

lemmas laws = get_set get_delete get_setPending get_deletePending getPending_set
  getPending_delete getPending_setPending getPending_deletePending

definition same_view :: "'s \<Rightarrow> 's \<Rightarrow> bool" where
  "same_view a b = (get a = get b \<and> getPending a = getPending b)"

lemma same_view_set: "same_view a b \<Longrightarrow> same_view (set p a) (set p b)"
  by (simp add: same_view_def laws)

lemma same_view_delete: "same_view a b \<Longrightarrow> same_view (delete i a) (delete i b)"
  by (simp add: same_view_def laws)

lemma same_view_setPending: "same_view a b \<Longrightarrow> same_view (setPending t r n a) (setPending t r n b)"
  by (simp add: same_view_def laws)

lemma same_view_deletePending: "same_view a b \<Longrightarrow> same_view (deletePending t a) (deletePending t b)"
  by (simp add: same_view_def laws)

lemma set_twice: "same_view (set p (set p s)) (set p s)"
  by (simp add: same_view_def laws)

end

lemmas ms_defs = ms_get_def ms_set_def ms_delete_def ms_getPending_def ms_setPending_def
  ms_deletePending_def put_pair_def

interpretation mem: pair_store ms_get ms_set ms_delete ms_getPending ms_setPending ms_deletePending
  by unfold_locales (auto simp: ms_defs fun_eq_iff)

lemma ms_get_put [simp]: "ms_get (put_pair i p st) = (ms_get st)(i \<mapsto> p)"
  by (simp add: ms_defs fun_eq_iff)

lemma ms_getPending_put [simp]: "ms_getPending (put_pair i p st) = ms_getPending st"
  by (simp add: ms_defs fun_eq_iff)

lemma ms_get_delPending [simp]: "ms_get (ms_deletePending t st) = ms_get st"
  by (rule mem.get_deletePending)

section \<open>Keys and policies\<close>

abbreviation cjwk :: "string \<Rightarrow> string \<Rightarrow> json" where
  "cjwk x y \<equiv> JObj [(''kty'', JStr ''EC''), (''crv'', JStr ''P-256''), (''x'', JStr x), (''y'', JStr y)]"

lemma b64url_256_fieldD: "b64url_256_field v \<Longrightarrow> \<exists>s. v = Some (JStr s) \<and> B64URL_256 s"
  by (auto simp: b64url_256_field_def split: option.splits json.splits)

lemma canonicalAuthorizationJwkD:
  assumes "canonicalAuthorizationJwk v = returns c"
  shows "\<exists>x y. c = cjwk x y \<and> B64URL_256 x \<and> B64URL_256 y
    \<and> field v ''kty'' = Some (JStr ''EC'') \<and> field v ''crv'' = Some (JStr ''P-256'')
    \<and> field v ''x'' = Some (JStr x) \<and> field v ''y'' = Some (JStr y)"
  using assms by (auto simp: canonicalAuthorizationJwk_def split: json.splits if_splits
      dest!: b64url_256_fieldD)

lemma canonicalAuthorizationJwk_cjwk:
  "B64URL_256 x \<Longrightarrow> B64URL_256 y \<Longrightarrow> canonicalAuthorizationJwk (cjwk x y) = returns (cjwk x y)"
  by (simp add: canonicalAuthorizationJwk_def JWK_FIELDS_def b64url_256_field_def)

lemma canonicalAuthorizationJwk_idem:
  "canonicalAuthorizationJwk v = returns c \<Longrightarrow> canonicalAuthorizationJwk c = returns c"
  using canonicalAuthorizationJwkD canonicalAuthorizationJwk_cjwk by blast

lemma sameData_cjwk: "sameData (cjwk x y) (cjwk x' y') \<longleftrightarrow> x = x' \<and> y = y'"
  by (simp add: sameData.simps [of "JObj _"] sameData.simps [of "JStr _"])

lemma sameCanonicalJwk_iff:
  "sameCanonicalJwk a b = returns True \<longleftrightarrow>
     (\<exists>c. canonicalAuthorizationJwk a = returns c \<and> canonicalAuthorizationJwk b = returns c)"
proof
  assume "sameCanonicalJwk a b = returns True"
  then obtain ca cb where c: "canonicalAuthorizationJwk a = returns ca"
    "canonicalAuthorizationJwk b = returns cb" "sameData ca cb"
    by (auto simp: sameCanonicalJwk_def and_then_Inr_iff)
  with canonicalAuthorizationJwkD [OF c(1)] canonicalAuthorizationJwkD [OF c(2)]
  have "ca = cb" by (auto simp: sameData_cjwk)
  with c show "\<exists>c. canonicalAuthorizationJwk a = returns c \<and> canonicalAuthorizationJwk b = returns c"
    by blast
next
  assume "\<exists>c. canonicalAuthorizationJwk a = returns c \<and> canonicalAuthorizationJwk b = returns c"
  then show "sameCanonicalJwk a b = returns True"
    using canonicalAuthorizationJwkD by (auto simp: sameCanonicalJwk_def) (use sameData_cjwk in blast)
qed

lemma successfulUsePolicyMatches_iff:
  assumes "canonicalAuthorizationJwk (up_pubJwk e) = returns (up_pubJwk e)"
  shows "successfulUsePolicyMatches p e = returns True \<longleftrightarrow> successfulUsePolicy p = returns e"
  using assms
  by (cases e) (auto simp: successfulUsePolicyMatches_def successfulUsePolicy_def and_then_Inr_iff
      sameCanonicalJwk_iff intro!: exI [of _ True])

lemma matches_captured:
  assumes "canonicalAuthorizationJwk v = returns jwk"
  shows "successfulUsePolicyMatches p (e\<lparr>up_pubJwk := jwk\<rparr>) = returns True \<longleftrightarrow>
    successfulUsePolicy p = returns (e\<lparr>up_pubJwk := jwk\<rparr>)"
  by (rule successfulUsePolicyMatches_iff) (simp add: canonicalAuthorizationJwk_idem [OF assms])

section \<open>The claim\<close>

lemma ms_claim_Claimed_iff:
  "ms_claimSuccessfulUse i t e st = (returns Claimed, st') \<longleftrightarrow>
     is_safe_integer t \<and> 0 \<le> t \<and>
     (\<exists>jwk p. canonicalAuthorizationJwk (up_pubJwk e) = returns jwk \<and> ms_get st i = Some p
       \<and> sp_status p = Active \<and> \<not> time_expired_at p t \<and> \<not> cap_reached (sp_maxRequests p) (sp_requests p)
       \<and> successfulUsePolicy p = returns (e\<lparr>up_pubJwk := jwk\<rparr>)
       \<and> st' = put_pair i (claim_pair p t) st)"
proof (cases "is_safe_integer t \<and> 0 \<le> t")
  case False
  then show ?thesis by (auto simp: ms_claimSuccessfulUse_def)
next
  case True
  show ?thesis
  proof (cases "canonicalAuthorizationJwk (up_pubJwk e)")
    case (Inl m)
    with True show ?thesis by (auto simp: ms_claimSuccessfulUse_def)
  next
    case (Inr jwk)
    show ?thesis
    proof (cases "ms_get st i")
      case None
      with True Inr show ?thesis by (auto simp: ms_claimSuccessfulUse_def)
    next
      case (Some p)
      have "successfulUsePolicy p = returns (e\<lparr>up_pubJwk := jwk\<rparr>) \<longleftrightarrow>
          successfulUsePolicyMatches p (e\<lparr>up_pubJwk := jwk\<rparr>) = returns True"
        using matches_captured [OF Inr] by blast
      with True Inr Some show ?thesis
        by (cases "successfulUsePolicyMatches p (e\<lparr>up_pubJwk := jwk\<rparr>)")
           (auto simp: ms_claimSuccessfulUse_def)
    qed
  qed
qed

lemma ms_claim_frame:
  assumes "ms_claimSuccessfulUse i t e st = (r, st')"
  shows "ms_getPending st' = ms_getPending st" "j \<noteq> i \<Longrightarrow> ms_get st' j = ms_get st j"
  using assms by (auto simp: ms_claimSuccessfulUse_def Let_def
      split: sum.splits option.splits if_splits)

end
