(* ===== verification/Registry.thy ===== *)
theory Registry
  imports Store
begin

text \<open>
  \<^verbatim>\<open>packages/server/src/registry.ts\<close>: the pair registry over the pair store. State: the
  store, the per-IP failure tracker and the constructor arguments. \<open>reg_atomic\<close> is whether the
  store is an \<open>AtomicPairStore\<close>; the compatibility branches run over the same map through
  \<open>get\<close> and \<open>set\<close> only. \<open>Date.now()\<close> is the argument \<open>now\<close>, the sixteen random bytes
  of \<open>generateId\<close> are arguments. The theorems: the status machine (revoked is absorbing, only an
  operator leaves the locked state), usage caps, pair capacity, the lockout, and the decayed
  failure score.
\<close>

section \<open>State\<close>

record registry =
  reg_store :: mem_store
  reg_tracker :: "(string, int \<times> int) jsmap"
  reg_maxPairs :: int
  reg_lockoutCount :: int
  reg_atomic :: bool

definition MIN_SECRET_HASH_LEN :: nat where
  "MIN_SECRET_HASH_LEN = 43"

definition MAX_NAME_LEN :: nat where
  "MAX_NAME_LEN = 128"

definition ALLOWED_SCOPES :: "string list" where
  "ALLOWED_SCOPES = [''read'', ''read-write'', ''admin'']"

definition ALLOWED_MODES :: "string list" where
  "ALLOWED_MODES = [''development'', ''production'']"

definition IP_FAILURE_WINDOW_MS :: int where
  "IP_FAILURE_WINDOW_MS = 5 * 60 * 1000"

record redacted_pair =
  rp_id :: string
  rp_name :: string
  rp_scope :: string
  rp_mode :: string
  rp_status :: pair_status
  rp_created :: int
  rp_lastActive :: "int option"
  rp_requests :: int

definition new_registry :: "mem_store \<Rightarrow> int \<Rightarrow> int \<Rightarrow> bool \<Rightarrow> bool \<Rightarrow> registry throws" where
  "new_registry store maxPairs lockoutCount requireAtomic isAtomic =
     (if requireAtomic \<and> \<not> isAtomic
      then throw ''AtomicPairStore is required for a production PairRegistry''
      else returns \<lparr>reg_store = store, reg_tracker = [], reg_maxPairs = maxPairs,
        reg_lockoutCount = lockoutCount, reg_atomic = isAtomic\<rparr>)"

section \<open>Operations\<close>

definition evictStaleIpEntries :: "int \<Rightarrow> registry \<Rightarrow> registry" where
  "evictStaleIpEntries now r = r\<lparr>reg_tracker :=
     jm_keep (\<lambda>key (count, windowStart). \<not> IP_FAILURE_WINDOW_MS < now - windowStart) (reg_tracker r)\<rparr>"

definition validateRegistration :: "pair_registration \<Rightarrow> unit throws" where
  "validateRegistration g =
     (if rg_secretHash g = [] \<or> length (rg_secretHash g) < MIN_SECRET_HASH_LEN
      then throw (''Registration rejected: secretHash must be at least 43 characters. ''
        @ ''Use hashSecret() to derive a proper HKDF key from your secret.'')
      else if rg_name g = [] then throw ''Registration rejected: name is required''
      else if MAX_NAME_LEN < length (rg_name g)
        then throw ''Registration rejected: name must be at most 128 characters''
      else if rg_scope g \<notin> set ALLOWED_SCOPES
        then throw ''Registration rejected: scope must be one of: read, read-write, admin''
      else if rg_mode g \<notin> set ALLOWED_MODES
        then throw ''Registration rejected: mode must be one of: development, production''
      else if \<not> is_object (rg_pubJwk g) then throw ''Registration rejected: pubJwk is required''
      else returns ())"

definition requestPairing ::
    "int \<Rightarrow> bytes \<Rightarrow> pair_registration \<Rightarrow> registry \<Rightarrow> string throws \<times> registry" where
  "requestPairing now rand g r = (case validateRegistration g of
     Inl e \<Rightarrow> (throw e, r)
   | Inr u \<Rightarrow>
       if reg_maxPairs r \<le> int (active_count (reg_store r))
       then (throw (''Maximum pair capacity ('' @ int_to_dec (reg_maxPairs r) @ '') reached''), r)
       else let token = generateId ''approval'' rand
            in (returns token, r\<lparr>reg_store := ms_setPending token g now (reg_store r)\<rparr>))"

definition approved_pair :: "int \<Rightarrow> string \<Rightarrow> pair_registration \<Rightarrow> stored_pair" where
  "approved_pair now pairId g = \<lparr>sp_id = pairId, sp_name = rg_name g, sp_scope = rg_scope g,
     sp_mode = rg_mode g, sp_secretHash = rg_secretHash g, sp_pubJwk = rg_pubJwk g,
     sp_status = Active, sp_created = now, sp_lastActive = None, sp_requests = 0, sp_failedSigs = 0,
     sp_cumulativeFailures = None, sp_firstFailureAt = None, sp_expiresAt = rg_expiresAt g,
     sp_maxRequests = rg_maxRequests g, sp_kind = Some (kind_of (rg_kind g)),
     sp_canaryClass = rg_canaryClass g\<rparr>"

definition approvePairing :: "int \<Rightarrow> bytes \<Rightarrow> string \<Rightarrow> registry \<Rightarrow> string throws \<times> registry" where
  "approvePairing now rand token r = (case ms_getPending (reg_store r) token of
     None \<Rightarrow> (throw (''No pending approval for token: '' @ token), r)
   | Some pending \<Rightarrow>
       (let pairId = generateId ''pair'' rand; p = approved_pair now pairId (fst pending)
        in if reg_atomic r then
             (case ms_approvePending token pending p (reg_maxPairs r) (reg_store r) of
                (Inl e, st) \<Rightarrow> (throw e, r\<lparr>reg_store := st\<rparr>)
              | (Inr approved, st) \<Rightarrow>
                  (if approved then returns pairId
                   else throw (''Pending approval changed or was already consumed: '' @ token),
                   r\<lparr>reg_store := st\<rparr>))
           else (returns pairId, r\<lparr>reg_store := ms_set p (ms_deletePending token (reg_store r))\<rparr>)))"

definition registerDirect ::
    "int \<Rightarrow> bytes \<Rightarrow> bytes \<Rightarrow> pair_registration \<Rightarrow> registry \<Rightarrow> string throws \<times> registry" where
  "registerDirect now rand1 rand2 g r = (case requestPairing now rand1 g r of
     (Inl e, r') \<Rightarrow> (throw e, r')
   | (Inr token, r') \<Rightarrow> approvePairing now rand2 token r')"

definition registerGhostPair ::
    "int \<Rightarrow> bytes \<Rightarrow> bytes \<Rightarrow> pair_registration \<Rightarrow> canary_class \<Rightarrow> registry \<Rightarrow> string throws \<times> registry" where
  "registerGhostPair now rand1 rand2 g cc r =
     registerDirect now rand1 rand2 (g\<lparr>rg_kind := Some Ghost, rg_canaryClass := Some cc\<rparr>) r"

definition reg_get :: "registry \<Rightarrow> string \<Rightarrow> stored_pair option" where
  "reg_get r pairId = ms_get (reg_store r) pairId"

definition revoke :: "string \<Rightarrow> registry \<Rightarrow> registry" where
  "revoke pairId r =
     (if reg_atomic r
      then r\<lparr>reg_store := snd (ms_atomicMutate pairId (\<lambda>current. returns (Some (current\<lparr>sp_status := Revoked\<rparr>))) (reg_store r))\<rparr>
      else case ms_get (reg_store r) pairId of
        None \<Rightarrow> r
      | Some p \<Rightarrow> r\<lparr>reg_store := ms_set (p\<lparr>sp_status := Revoked\<rparr>) (reg_store r)\<rparr>)"

definition reg_list :: "registry \<Rightarrow> stored_pair list" where
  "reg_list r = ms_list (reg_store r)"

definition redact_pair :: "stored_pair \<Rightarrow> redacted_pair" where
  "redact_pair p = \<lparr>rp_id = sp_id p, rp_name = sp_name p, rp_scope = sp_scope p, rp_mode = sp_mode p,
     rp_status = sp_status p, rp_created = sp_created p, rp_lastActive = sp_lastActive p,
     rp_requests = sp_requests p\<rparr>"

definition listRedacted :: "registry \<Rightarrow> redacted_pair list" where
  "listRedacted r = map redact_pair (ms_list (reg_store r))"

definition reg_listPending :: "registry \<Rightarrow> (string \<times> pair_registration \<times> int) list" where
  "reg_listPending r = ms_listPending (reg_store r)"

subsection \<open>Failures\<close>

definition applyCumulativeDecay :: "int \<Rightarrow> stored_pair \<Rightarrow> stored_pair" where
  "applyCumulativeDecay now p =
     (let firstFailure = (case sp_firstFailureAt p of Some (Some f) \<Rightarrow> f | _ \<Rightarrow> now);
          windowsElapsed = (now - firstFailure) div IP_FAILURE_WINDOW_MS;
          cumulative0 = (case sp_cumulativeFailures p of None \<Rightarrow> 0 | Some c \<Rightarrow> c);
          cumulative = (if windowsElapsed > 0 then cumulative0 / 2 ^ nat windowsElapsed else cumulative0) + 1
      in p\<lparr>sp_cumulativeFailures := Some cumulative,
           sp_firstFailureAt := Some (Some (if windowsElapsed > 0 then now else firstFailure))\<rparr>)"

definition lock_when :: "bool \<Rightarrow> stored_pair \<Rightarrow> stored_pair" where
  "lock_when b p = (if b \<and> sp_status p = Active then p\<lparr>sp_status := Locked\<rparr> else p)"

definition cumulative_of :: "stored_pair \<Rightarrow> rat" where
  "cumulative_of p = (case sp_cumulativeFailures p of None \<Rightarrow> 0 | Some c \<Rightarrow> c)"

definition failure_apply :: "int \<Rightarrow> int \<Rightarrow> int option \<Rightarrow> stored_pair \<Rightarrow> stored_pair" where
  "failure_apply lockoutCount now ipFailures source = (case ipFailures of
     Some n \<Rightarrow>
       (let p = applyCumulativeDecay now (source\<lparr>sp_failedSigs := n\<rparr>);
            p = lock_when (lockoutCount \<le> n) p
        in lock_when (of_int (lockoutCount * 2) \<le> cumulative_of p) p)
   | None \<Rightarrow>
       (let p = applyCumulativeDecay now (source\<lparr>sp_failedSigs := sp_failedSigs source + 1\<rparr>);
            p = lock_when (lockoutCount \<le> sp_failedSigs p) p
        in lock_when (of_int (lockoutCount * 2) \<le> cumulative_of p) p))"

definition ip_key :: "string \<Rightarrow> string \<Rightarrow> string" where
  "ip_key pairId ip = pairId @ '':'' @ ip"

definition track_failure ::
    "int \<Rightarrow> string \<Rightarrow> string option \<Rightarrow> (string, int \<times> int) jsmap \<Rightarrow> int option \<times> (string, int \<times> int) jsmap" where
  "track_failure now pairId ip tracker = (case ip of
     None \<Rightarrow> (None, tracker)
   | Some a \<Rightarrow>
       if a = [] then (None, tracker)
       else (case map_of tracker (ip_key pairId a) of
          None \<Rightarrow> (Some 1, jm_set (ip_key pairId a) (1, now) tracker)
        | Some (n, windowStart) \<Rightarrow>
            if IP_FAILURE_WINDOW_MS < now - windowStart
            then (Some 1, jm_set (ip_key pairId a) (1, now) tracker)
            else (Some (n + 1), jm_set (ip_key pairId a) (n + 1, windowStart) tracker)))"

definition recordFailure :: "int \<Rightarrow> string \<Rightarrow> string option \<Rightarrow> registry \<Rightarrow> registry" where
  "recordFailure now pairId ip r0 =
     (let r = evictStaleIpEntries now r0;
          (ipFailures, tracker) = track_failure now pairId ip (reg_tracker r);
          r1 = r\<lparr>reg_tracker := tracker\<rparr>
      in if reg_atomic r1
         then r1\<lparr>reg_store := snd (ms_atomicMutate pairId
                 (\<lambda>source. returns (Some (failure_apply (reg_lockoutCount r1) now ipFailures source))) (reg_store r1))\<rparr>
         else case ms_get (reg_store r1) pairId of
           None \<Rightarrow> r1
         | Some p \<Rightarrow> r1\<lparr>reg_store := ms_set (failure_apply (reg_lockoutCount r1) now ipFailures p) (reg_store r1)\<rparr>)"

subsection \<open>Claims\<close>

definition forget_ip_failures :: "string \<Rightarrow> registry \<Rightarrow> registry" where
  "forget_ip_failures pairId r = r\<lparr>reg_tracker :=
     jm_keep (\<lambda>key v. \<not> js_starts_with key (pairId @ '':'')) (reg_tracker r)\<rparr>"

text \<open>The closure \<open>claim\<close> of the compatibility path: the outcome and the pair written back.\<close>

definition compat_claim :: "int \<Rightarrow> use_policy \<Rightarrow> stored_pair \<Rightarrow> (use_claim \<times> stored_pair) throws" where
  "compat_claim t captured p =
     (if sp_status p = Expired then
        (if time_expired_at p t then returns (TimeExpired, p)
         else if cap_reached (sp_maxRequests p) (sp_requests p) then returns (UsageExhausted, p)
         else returns (Inactive, p))
      else if sp_status p \<noteq> Active then returns (Inactive, p)
      else if time_expired_at p t then returns (TimeExpired, p\<lparr>sp_status := Expired\<rparr>)
      else if cap_reached (sp_maxRequests p) (sp_requests p)
        then returns (UsageExhausted, p\<lparr>sp_status := Expired\<rparr>)
      else and_then (successfulUsePolicyMatches p captured) (\<lambda>matches.
        if \<not> matches then returns (PolicyChanged, p) else returns (Claimed, claim_pair p t)))"

definition claimSuccessfulUseOutcome ::
    "string \<Rightarrow> int \<Rightarrow> use_policy \<Rightarrow> registry \<Rightarrow> use_claim throws \<times> registry" where
  "claimSuccessfulUseOutcome pairId t expected r =
     (if reg_atomic r then
        (case ms_claimSuccessfulUse pairId t expected (reg_store r) of (outcome, st) \<Rightarrow>
           (outcome, (if outcome = returns Claimed then forget_ip_failures pairId else id) (r\<lparr>reg_store := st\<rparr>)))
      else case ms_get (reg_store r) pairId of
        None \<Rightarrow> (returns Missing, r)
      | Some p \<Rightarrow>
          (case compat_claim t expected p of
             Inl e \<Rightarrow> (throw e, r)
           | Inr (outcome, p') \<Rightarrow>
               (returns outcome, (if outcome = Claimed then forget_ip_failures pairId else id)
                 (r\<lparr>reg_store := ms_set p' (reg_store r)\<rparr>))))"

definition claimSuccessfulUse :: "int \<Rightarrow> string \<Rightarrow> registry \<Rightarrow> bool throws \<times> registry" where
  "claimSuccessfulUse now pairId r = (case ms_get (reg_store r) pairId of
     None \<Rightarrow> (returns False, r)
   | Some p \<Rightarrow>
       (case successfulUsePolicy p of
          Inl e \<Rightarrow> (throw e, r)
        | Inr policy \<Rightarrow>
            (case claimSuccessfulUseOutcome pairId now policy r of
               (outcome, r') \<Rightarrow> (map_sum id (\<lambda>c. c = Claimed) outcome, r'))))"

definition recordActivity :: "int \<Rightarrow> string \<Rightarrow> bool \<Rightarrow> string option \<Rightarrow> registry \<Rightarrow> unit throws \<times> registry" where
  "recordActivity now pairId success ip r =
     (if success then
        (case claimSuccessfulUse now pairId (evictStaleIpEntries now r) of
           (res, r') \<Rightarrow> (map_sum id (\<lambda>c. ()) res, r'))
      else (returns (), recordFailure now pairId ip r))"

definition markExpired :: "int \<Rightarrow> string \<Rightarrow> registry \<Rightarrow> bool throws \<times> registry" where
  "markExpired now pairId r =
     (if reg_atomic r then
        (case ms_expireIfElapsed pairId now (reg_store r) of (res, st) \<Rightarrow> (res, r\<lparr>reg_store := st\<rparr>))
      else case ms_get (reg_store r) pairId of
        None \<Rightarrow> (returns False, r)
      | Some p \<Rightarrow>
          if sp_status p \<noteq> Active \<or> \<not> time_expired_at p now then (returns False, r)
          else (returns True, r\<lparr>reg_store := ms_set (p\<lparr>sp_status := Expired\<rparr>) (reg_store r)\<rparr>))"

definition markUsageExpired :: "string \<Rightarrow> registry \<Rightarrow> bool \<times> registry" where
  "markUsageExpired pairId r =
     (if reg_atomic r then
        (case ms_expireIfUsageExhausted pairId (reg_store r) of (res, st) \<Rightarrow> (res, r\<lparr>reg_store := st\<rparr>))
      else case ms_get (reg_store r) pairId of
        None \<Rightarrow> (False, r)
      | Some p \<Rightarrow>
          if sp_status p \<noteq> Active \<or> \<not> cap_reached (sp_maxRequests p) (sp_requests p) then (False, r)
          else (True, r\<lparr>reg_store := ms_set (p\<lparr>sp_status := Expired\<rparr>) (reg_store r)\<rparr>))"

definition ensureLocked :: "string \<Rightarrow> int \<Rightarrow> registry \<Rightarrow> bool throws \<times> registry" where
  "ensureLocked pairId minimumFailures r =
     (if reg_atomic r then
        (case ms_lockIfFailureThreshold pairId minimumFailures (reg_store r) of
           (res, st) \<Rightarrow> (res, r\<lparr>reg_store := st\<rparr>))
      else case ms_get (reg_store r) pairId of
        None \<Rightarrow> (returns False, r)
      | Some p \<Rightarrow>
          if sp_status p \<noteq> Active \<or> sp_failedSigs p < minimumFailures then (returns False, r)
          else (returns True, r\<lparr>reg_store := ms_set (p\<lparr>sp_status := Locked\<rparr>) (reg_store r)\<rparr>))"

subsection \<open>Operator actions\<close>

definition unlock :: "string \<Rightarrow> registry \<Rightarrow> registry" where
  "unlock pairId r =
     (if reg_atomic r
      then r\<lparr>reg_store := snd (ms_atomicMutate pairId (\<lambda>p. returns (Some
             (if sp_status p = Locked then p\<lparr>sp_status := Active, sp_failedSigs := 0\<rparr> else p))) (reg_store r))\<rparr>
      else case ms_get (reg_store r) pairId of
        None \<Rightarrow> r
      | Some p \<Rightarrow>
          if sp_status p = Locked
          then r\<lparr>reg_store := ms_set (p\<lparr>sp_status := Active, sp_failedSigs := 0\<rparr>) (reg_store r)\<rparr> else r)"

text \<open>A present key with the value \<open>undefined\<close> is \<open>Some None\<close>: it clears the field.\<close>

record pair_updates =
  pu_scope :: "string option"
  pu_expiresAt :: "int option option"
  pu_maxRequests :: "int option option"
  pu_name :: "string option"

definition update_apply :: "pair_updates \<Rightarrow> stored_pair \<Rightarrow> stored_pair throws" where
  "update_apply u p =
     and_then (case pu_scope u of
         None \<Rightarrow> returns p
       | Some s \<Rightarrow> if s \<notin> set ALLOWED_SCOPES
           then throw (''Invalid scope: '' @ s @ ''. Must be one of: read, read-write, admin'')
           else returns (p\<lparr>sp_scope := s\<rparr>))
     (\<lambda>p. let p = (case pu_expiresAt u of None \<Rightarrow> p | Some e \<Rightarrow> p\<lparr>sp_expiresAt := e\<rparr>);
              p = (case pu_maxRequests u of None \<Rightarrow> p | Some m \<Rightarrow> p\<lparr>sp_maxRequests := m\<rparr>);
              p = (case pu_name u of None \<Rightarrow> p | Some n \<Rightarrow> p\<lparr>sp_name := n\<rparr>)
          in returns p)"

definition updatePair :: "string \<Rightarrow> pair_updates \<Rightarrow> registry \<Rightarrow> stored_pair option throws \<times> registry" where
  "updatePair pairId updates r =
     (if reg_atomic r then
        (case ms_atomicMutate pairId (\<lambda>p. map_sum id Some (update_apply updates p)) (reg_store r) of
           (res, st) \<Rightarrow> (res, r\<lparr>reg_store := st\<rparr>))
      else case ms_get (reg_store r) pairId of
        None \<Rightarrow> (returns None, r)
      | Some p \<Rightarrow>
          (case update_apply updates p of
             Inl e \<Rightarrow> (throw e, r)
           | Inr updated \<Rightarrow> (returns (Some updated), r\<lparr>reg_store := ms_set updated (reg_store r)\<rparr>)))"

section \<open>The registry as a machine\<close>

datatype reg_event =
    EvRequest int bytes pair_registration
  | EvApprove int bytes string
  | EvRevoke string
  | EvFailure int string "string option"
  | EvClaim string int use_policy
  | EvMarkExpired int string
  | EvMarkUsage string
  | EvEnsureLocked string int
  | EvUnlock string
  | EvUpdate string pair_updates
  | EvRotate stored_pair stored_pair

fun reg_step :: "registry \<Rightarrow> reg_event \<Rightarrow> registry" where
  "reg_step r (EvRequest now rand g) = snd (requestPairing now rand g r)"
| "reg_step r (EvApprove now rand token) = snd (approvePairing now rand token r)"
| "reg_step r (EvRevoke i) = revoke i r"
| "reg_step r (EvFailure now i ip) = recordFailure now i ip r"
| "reg_step r (EvClaim i t policy) = snd (claimSuccessfulUseOutcome i t policy r)"
| "reg_step r (EvMarkExpired now i) = snd (markExpired now i r)"
| "reg_step r (EvMarkUsage i) = snd (markUsageExpired i r)"
| "reg_step r (EvEnsureLocked i n) = snd (ensureLocked i n r)"
| "reg_step r (EvUnlock i) = unlock i r"
| "reg_step r (EvUpdate i u) = snd (updatePair i u r)"
| "reg_step r (EvRotate old new) = r\<lparr>reg_store := snd (ms_rotatePair old new (reg_store r))\<rparr>"

text \<open>
  The lifecycle the statuses are meant to follow, the reference the operations are compared with.
\<close>

inductive status_step :: "pair_status \<Rightarrow> pair_status \<Rightarrow> bool" where
  stay: "status_step s s"
| lock: "status_step Active Locked"
| expire: "status_step Active Expired"
| rotate: "status_step Active Rotated"
| unlock: "status_step Locked Active"
| revoke: "status_step s Revoked"

code_pred status_step .

inductive_simps status_step_Revoked [simp]: "status_step Revoked s"
inductive_simps status_step_Expired [simp]: "status_step Expired s"
inductive_simps status_step_Rotated [simp]: "status_step Rotated s"
inductive_simps status_step_Locked [simp]: "status_step Locked s"

definition evolves :: "reg_event \<Rightarrow> stored_pair \<Rightarrow> stored_pair \<Rightarrow> bool" where
  "evolves e p p' =
     (sp_id p' = sp_id p \<and> sp_secretHash p' = sp_secretHash p \<and> sp_pubJwk p' = sp_pubJwk p
      \<and> sp_mode p' = sp_mode p \<and> sp_created p' = sp_created p \<and> sp_kind p' = sp_kind p
      \<and> sp_canaryClass p' = sp_canaryClass p
      \<and> status_step (sp_status p) (sp_status p') \<and> sp_requests p \<le> sp_requests p'
      \<and> (sp_status p = Locked \<and> sp_status p' = Active \<longrightarrow> e = EvUnlock (sp_id p))
      \<and> ((sp_scope p', sp_maxRequests p') \<noteq> (sp_scope p, sp_maxRequests p) \<longrightarrow> (\<exists>u. e = EvUpdate (sp_id p) u)))"

definition store_wf :: "mem_store \<Rightarrow> bool" where
  "store_wf st = (jm_wf (ms_pairs st) \<and> list_all (\<lambda>(k, p). sp_id p = k) (ms_pairs st))"

definition reg_wf :: "registry \<Rightarrow> bool" where
  "reg_wf r = (reg_atomic r \<and> store_wf (reg_store r))"

subsection \<open>Every operation writes one pair\<close>

lemma store_wf_id: "store_wf st \<Longrightarrow> ms_get st i = Some p \<Longrightarrow> sp_id p = i"
  by (auto simp: store_wf_def ms_get_def list_all_iff dest!: map_of_SomeD)

lemma list_all_jm_set: "list_all P m \<Longrightarrow> P (k, v) \<Longrightarrow> list_all P (jm_set k v m)"
  by (induction k v m rule: jm_set.induct) auto

lemma store_wf_put: "store_wf st \<Longrightarrow> sp_id p = i \<Longrightarrow> store_wf (put_pair i p st)"
  by (simp add: store_wf_def put_pair_def list_all_jm_set)

lemma store_wf_pending [simp]:
  "store_wf (ms_setPending t g n st) = store_wf st" "store_wf (ms_deletePending t st) = store_wf st"
  by (simp_all add: store_wf_def ms_setPending_def ms_deletePending_def)

lemma reg_wf_id: "reg_wf r \<Longrightarrow> ms_get (reg_store r) j = Some p \<Longrightarrow> sp_id p = j"
  by (auto simp: reg_wf_def intro: store_wf_id)

lemma status_step_refl [simp]: "status_step s s"
  by (rule status_step.stay)

lemma evolves_refl [simp]: "evolves e p p"
  by (auto simp: evolves_def)

text \<open>
  \<open>writes e i r f r'\<close>: the operation of the event \<open>e\<close> either leaves the pairs alone or replaces
  the pair \<open>i\<close> by one that \<open>evolves\<close> allows.
\<close>

definition writes :: "reg_event \<Rightarrow> string \<Rightarrow> mem_store \<Rightarrow> mem_store \<Rightarrow> bool" where
  "writes e i st st' = (ms_pairs st' = ms_pairs st \<or>
     (\<exists>p p'. ms_get st i = Some p \<and> evolves e p p' \<and> ms_pairs st' = jm_set i p' (ms_pairs st)))"

lemma writes_same [simp]: "writes e i st st"
  by (simp add: writes_def)

lemma writes_put:
  "ms_get st i = Some p \<Longrightarrow> evolves e p p' \<Longrightarrow> writes e i st (put_pair i p' st)"
  by (auto simp: writes_def put_pair_def)

lemma writes_evolves:
  assumes "writes e i st st'" "ms_get st j = Some p"
  shows "\<exists>p'. ms_get st' j = Some p' \<and> evolves e p p'"
  using assms by (auto simp: writes_def ms_get_def)

lemma writes_wf:
  assumes "writes e i st st'" "store_wf st"
  shows "store_wf st'"
  using assms(1) unfolding writes_def
proof (elim disjE exE conjE)
  fix p p' assume p: "ms_get st i = Some p" "evolves e p p'" "ms_pairs st' = jm_set i p' (ms_pairs st)"
  then have "sp_id p' = i" using store_wf_id [OF assms(2)] by (simp add: evolves_def)
  with p assms(2) show ?thesis by (simp add: store_wf_def list_all_jm_set)
qed (use assms(2) in \<open>simp add: store_wf_def\<close>)

lemma writes_atomicMutate:
  assumes "\<And>p p'. ms_get st i = Some p \<Longrightarrow> mutate p = returns (Some p') \<Longrightarrow> evolves e p p'"
  shows "writes e i st (snd (ms_atomicMutate i mutate st))"
  using assms by (auto simp: ms_atomicMutate_def intro: writes_put split: option.splits sum.splits)

lemma decay_fields [simp]:
  "sp_id (applyCumulativeDecay now p) = sp_id p" "sp_status (applyCumulativeDecay now p) = sp_status p"
  "sp_secretHash (applyCumulativeDecay now p) = sp_secretHash p" "sp_pubJwk (applyCumulativeDecay now p) = sp_pubJwk p"
  "sp_mode (applyCumulativeDecay now p) = sp_mode p" "sp_created (applyCumulativeDecay now p) = sp_created p"
  "sp_kind (applyCumulativeDecay now p) = sp_kind p" "sp_canaryClass (applyCumulativeDecay now p) = sp_canaryClass p"
  "sp_scope (applyCumulativeDecay now p) = sp_scope p" "sp_maxRequests (applyCumulativeDecay now p) = sp_maxRequests p"
  "sp_requests (applyCumulativeDecay now p) = sp_requests p" "sp_failedSigs (applyCumulativeDecay now p) = sp_failedSigs p"
  by (simp_all add: applyCumulativeDecay_def Let_def)

lemma evolves_failure: "evolves e p (failure_apply n now ip p)"
  by (auto simp: failure_apply_def lock_when_def evolves_def Let_def intro: status_step.intros
      split: option.splits)

lemma evolves_update:
  "sp_id p = i \<Longrightarrow> update_apply u p = returns p' \<Longrightarrow> evolves (EvUpdate i u) p p'"
  by (auto simp: update_apply_def evolves_def and_then_Inr_iff Let_def split: option.splits if_splits)

lemma evolves_claim: "sp_status p = Active \<Longrightarrow> evolves e p (claim_pair p t)"
  by (auto simp: claim_pair_def evolves_def Let_def intro: status_step.intros)

lemma writes_claim: "writes e i st (snd (ms_claimSuccessfulUse i t policy st))"
  by (auto simp: ms_claimSuccessfulUse_def Let_def evolves_def intro!: writes_put evolves_claim
      intro: status_step.intros split: option.splits sum.splits)

lemma reg_tracker_store [simp]:
  "reg_store (evictStaleIpEntries now r) = reg_store r" "reg_store (forget_ip_failures i r) = reg_store r"
  "reg_atomic (evictStaleIpEntries now r) = reg_atomic r" "reg_atomic (forget_ip_failures i r) = reg_atomic r"
  "reg_lockoutCount (evictStaleIpEntries now r) = reg_lockoutCount r"
  "reg_maxPairs (evictStaleIpEntries now r) = reg_maxPairs r" "reg_maxPairs (forget_ip_failures i r) = reg_maxPairs r"
  by (simp_all add: evictStaleIpEntries_def forget_ip_failures_def)

lemma reg_step_config [simp]:
  "reg_atomic (reg_step r e) = reg_atomic r" "reg_maxPairs (reg_step r e) = reg_maxPairs r"
  by (cases e; simp add: requestPairing_def approvePairing_def revoke_def recordFailure_def
      claimSuccessfulUseOutcome_def markExpired_def markUsageExpired_def ensureLocked_def unlock_def
      updatePair_def Let_def split: option.splits sum.splits prod.splits)+

subsection \<open>Steps\<close>

lemma approve_store:
  assumes "reg_atomic r"
  obtains "reg_store (snd (approvePairing now rand token r)) = reg_store r"
  | g t where "ms_getPending (reg_store r) token = Some (g, t)"
      "fst (approvePairing now rand token r) = returns (generateId ''pair'' rand)"
      "int (active_count (reg_store r)) < reg_maxPairs r"
      "ms_get (reg_store r) (generateId ''pair'' rand) = None"
      "reg_store (snd (approvePairing now rand token r)) =
         put_pair (generateId ''pair'' rand) (approved_pair now (generateId ''pair'' rand) g)
           (ms_deletePending token (reg_store r))"
proof (cases "ms_getPending (reg_store r) token")
  case None
  then show ?thesis using that(1) by (simp add: approvePairing_def)
next
  case (Some gt)
  obtain g t where gt: "gt = (g, t)" by fastforce
  let ?i = "generateId ''pair'' rand" and ?p = "approved_pair now (generateId ''pair'' rand) g"
  have i: "sp_id ?p = ?i" by (simp add: approved_pair_def)
  show ?thesis
  proof (cases "ms_approvePending token (g, t) ?p (reg_maxPairs r) (reg_store r)
      = (returns True, put_pair ?i ?p (ms_deletePending token (reg_store r)))")
    case True
    then have "int (active_count (reg_store r)) < reg_maxPairs r" "ms_get (reg_store r) ?i = None"
      by (auto simp: ms_approvePending_def i jm_has_def ms_get_def split: if_splits sum.splits)
    then show ?thesis using that(2) [of g t] True Some assms
      by (simp add: approvePairing_def Let_def gt)
  next
    case False
    then have "snd (ms_approvePending token (g, t) ?p (reg_maxPairs r) (reg_store r)) = reg_store r"
      by (auto simp: ms_approvePending_def i split: sum.splits)
    then have "reg_store (snd (approvePairing now rand token r)) = reg_store r"
      using Some assms by (auto simp: approvePairing_def Let_def gt split: prod.splits sum.splits)
    then show ?thesis by (rule that(1))
  qed
qed

lemma rotate_store:
  obtains "ms_rotatePair old new st = (False, st)"
  | "ms_get st (sp_id old) = Some old" "sp_status old = Active" "hasInitialPairState new"
    "rotationPolicyMatches old new" "ms_get st (sp_id new) = None"
    "ms_rotatePair old new st = (True, put_pair (sp_id new) new
       (put_pair (sp_id old) (old\<lparr>sp_status := Rotated\<rparr>) st))"
proof (cases "ms_get st (sp_id old) = Some old \<and> sp_status old = Active \<and> hasInitialPairState new
    \<and> rotationPolicyMatches old new \<and> ms_get st (sp_id new) = None")
  case True
  then show ?thesis using that(2) by (simp add: ms_rotatePair_def jm_has_def ms_get_def)
next
  case False
  then show ?thesis using that(1)
    by (auto simp: ms_rotatePair_def jm_has_def ms_get_def split: option.splits)
qed

lemma map_sum_sel_Inr: "map_sum id Some m = returns (Some v) \<Longrightarrow> m = returns v"
  by (cases m) auto

lemma writes_step:
  assumes "reg_wf r" "\<forall>now rand t. e \<noteq> EvApprove now rand t" "\<forall>old new. e \<noteq> EvRotate old new"
  shows "\<exists>i. writes e i (reg_store r) (reg_store (reg_step r e))"
proof (cases e)
  case (EvRequest now rand g)
  then show ?thesis
    by (auto simp: requestPairing_def writes_def ms_setPending_def Let_def split: sum.splits)
next
  case (EvRevoke i)
  with assms show ?thesis
    by (auto simp: revoke_def reg_wf_def evolves_def intro!: exI [of _ i] writes_atomicMutate intro: status_step.intros)
next
  case (EvFailure now i ip)
  with assms show ?thesis
    by (auto simp: recordFailure_def reg_wf_def Let_def intro!: exI [of _ i] writes_atomicMutate evolves_failure
        split: prod.splits)
next
  case (EvClaim i t policy)
  with assms show ?thesis using writes_claim [of e i "reg_store r" t policy]
    by (auto simp: claimSuccessfulUseOutcome_def reg_wf_def intro!: exI [of _ i] split: prod.splits)
next
  case (EvMarkExpired now i)
  with assms show ?thesis
    by (auto simp: markExpired_def ms_expireIfElapsed_def reg_wf_def evolves_def intro!: exI [of _ i] writes_put
        intro: status_step.intros split: option.splits)
next
  case (EvMarkUsage i)
  with assms show ?thesis
    by (auto simp: markUsageExpired_def ms_expireIfUsageExhausted_def reg_wf_def evolves_def
        intro!: exI [of _ i] writes_put intro: status_step.intros split: option.splits)
next
  case (EvEnsureLocked i n)
  with assms show ?thesis
    by (auto simp: ensureLocked_def ms_lockIfFailureThreshold_def reg_wf_def evolves_def
        intro!: exI [of _ i] writes_put intro: status_step.intros split: option.splits)
next
  case (EvUnlock i)
  have "evolves e p (p\<lparr>sp_status := Active, sp_failedSigs := 0\<rparr>)"
    if "ms_get (reg_store r) i = Some p" "sp_status p = Locked" for p
    using store_wf_id [of "reg_store r" i p] that EvUnlock assms(1) by (simp add: evolves_def reg_wf_def)
  with EvUnlock assms(1) show ?thesis
    by (auto simp: unlock_def reg_wf_def intro!: exI [of _ i] writes_atomicMutate)
next
  case (EvUpdate i u)
  have "evolves e p p'" if "ms_get (reg_store r) i = Some p" "update_apply u p = returns p'" for p p'
    using evolves_update [of p i u p'] store_wf_id [of "reg_store r" i p] that EvUpdate assms(1)
    by (simp add: reg_wf_def)
  then have "writes e i (reg_store r)
      (snd (ms_atomicMutate i (\<lambda>p. map_sum id Some (update_apply u p)) (reg_store r)))"
    by (intro writes_atomicMutate) (metis map_sum_sel_Inr)
  with EvUpdate assms(1) show ?thesis
    by (auto simp: updatePair_def reg_wf_def split: prod.splits)
qed (use assms in auto)

lemma reg_step_wf: "reg_wf r \<Longrightarrow> reg_wf (reg_step r e)"
proof -
  assume wf: "reg_wf r"
  show ?thesis
  proof (cases e)
    case (EvApprove now rand token)
    have "reg_atomic r" using wf by (simp add: reg_wf_def)
    then show ?thesis
      by (rule approve_store [of r now rand token])
         (use wf EvApprove reg_step_config(1) [of r e] in \<open>auto simp: reg_wf_def approved_pair_def intro!: store_wf_put\<close>)
  next
    case (EvRotate old new)
    show ?thesis
      by (rule rotate_store [of old new "reg_store r"])
         (use wf EvRotate in \<open>auto simp: reg_wf_def intro!: store_wf_put\<close>)
  qed (use wf writes_step [OF wf, of e] writes_wf reg_step_config(1) [of r e] in \<open>auto simp: reg_wf_def\<close>)
qed

lemma reg_step_evolves:
  assumes wf: "reg_wf r" and j: "ms_get (reg_store r) j = Some p"
  shows "\<exists>p'. ms_get (reg_store (reg_step r e)) j = Some p' \<and> evolves e p p'"
proof (cases e)
  case (EvApprove now rand token)
  have "reg_atomic r" using wf by (simp add: reg_wf_def)
  then show ?thesis
    by (rule approve_store [of r now rand token]) (use j EvApprove in auto)
next
  case (EvRotate old new)
  show ?thesis
    by (rule rotate_store [of old new "reg_store r"])
       (use j EvRotate in \<open>auto simp: evolves_def intro: status_step.intros\<close>)
qed (use writes_step [OF wf, of e] writes_evolves j in blast)+

interpretation regm: inv_machine reg_step reg_wf
  by unfold_locales (rule reg_step_wf)

section \<open>Runs\<close>

definition same_identity :: "stored_pair \<Rightarrow> stored_pair \<Rightarrow> bool" where
  "same_identity p p' = (sp_id p' = sp_id p \<and> sp_secretHash p' = sp_secretHash p
     \<and> sp_pubJwk p' = sp_pubJwk p \<and> sp_mode p' = sp_mode p \<and> sp_created p' = sp_created p
     \<and> sp_kind p' = sp_kind p \<and> sp_canaryClass p' = sp_canaryClass p)"

lemma run_evolves:
  assumes "reg_wf r" "ms_get (reg_store r) j = Some p"
  shows "\<exists>p'. ms_get (reg_store (foldl reg_step r es)) j = Some p' \<and> same_identity p p'
    \<and> sp_requests p \<le> sp_requests p' \<and> status_step\<^sup>*\<^sup>* (sp_status p) (sp_status p')
    \<and> (sp_status p = Locked \<and> EvUnlock j \<notin> set es \<longrightarrow> sp_status p' \<in> {Locked, Revoked})"
  using assms
proof (induction es arbitrary: r p)
  case Nil
  then show ?case by (simp add: same_identity_def)
next
  case (Cons e es)
  obtain q where q: "ms_get (reg_store (reg_step r e)) j = Some q" "evolves e p q"
    using reg_step_evolves [OF Cons.prems] by blast
  obtain p' where p': "ms_get (reg_store (foldl reg_step (reg_step r e) es)) j = Some p'"
    "same_identity q p'" "sp_requests q \<le> sp_requests p'" "status_step\<^sup>*\<^sup>* (sp_status q) (sp_status p')"
    "sp_status q = Locked \<and> EvUnlock j \<notin> set es \<longrightarrow> sp_status p' \<in> {Locked, Revoked}"
    using Cons.IH [OF reg_step_wf [OF Cons.prems(1)] q(1)] by blast
  have s: "status_step (sp_status p) (sp_status q)" and i: "same_identity p q"
    and n: "sp_requests p \<le> sp_requests q" using q(2) by (auto simp: evolves_def same_identity_def)
  have rev: "sp_status p' = Revoked" if "sp_status q = Revoked"
    using p'(4) that by (induction rule: rtranclp_induct) auto
  have "sp_status p' \<in> {Locked, Revoked}" if "sp_status p = Locked" "EvUnlock j \<notin> set (e # es)"
  proof -
    have "sp_id p = j" using reg_wf_id [OF Cons.prems] .
    with that q(2) have "sp_status q \<noteq> Active" by (auto simp: evolves_def)
    with s that(1) have "sp_status q \<in> {Locked, Revoked}" by auto
    with p'(5) rev that(2) show ?thesis by auto
  qed
  moreover have "same_identity p p'" using i p'(2) by (auto simp: same_identity_def)
  ultimately show ?case using p'(1,3,4) n s
    by (auto intro: converse_rtranclp_into_rtranclp intro!: exI [of _ p'])
qed

lemma status_steps_terminal:
  "status_step\<^sup>*\<^sup>* s t \<Longrightarrow> s \<in> {Expired, Rotated, Revoked} \<Longrightarrow> t = s \<or> t = Revoked"
  by (induction rule: rtranclp_induct) auto

text \<open>
  C8. Lifecycle of a pair. Whatever sequence of registry operations runs against the atomic store
  (registrations, approvals, failures, claims, expiry, locks, unlocks, updates, rotations), a stored
  pair never disappears, its identifier, key, secret, mode, kind and canary class never change, its
  request counter never decreases, a revoked pair stays revoked, an expired or rotated pair can
  only become revoked, and a locked pair is only left by an operator's unlock or by revocation.
\<close>
theorem registry_lifecycle:
  assumes "reg_wf r" "ms_get (reg_store r) j = Some p"
  shows "\<exists>p'. ms_get (reg_store (foldl reg_step r es)) j = Some p' \<and> same_identity p p'
    \<and> sp_requests p \<le> sp_requests p'
    \<and> (sp_status p = Revoked \<longrightarrow> sp_status p' = Revoked)
    \<and> (sp_status p \<in> {Expired, Rotated} \<longrightarrow> sp_status p' \<in> {sp_status p, Revoked})
    \<and> (sp_status p = Locked \<and> EvUnlock j \<notin> set es \<longrightarrow> sp_status p' \<in> {Locked, Revoked})"
proof -
  obtain p' where "ms_get (reg_store (foldl reg_step r es)) j = Some p'" "same_identity p p'"
    "sp_requests p \<le> sp_requests p'" and s: "status_step\<^sup>*\<^sup>* (sp_status p) (sp_status p')"
    and "sp_status p = Locked \<and> EvUnlock j \<notin> set es \<longrightarrow> sp_status p' \<in> {Locked, Revoked}"
    using run_evolves [OF assms, of es] by blast
  then show ?thesis using status_steps_terminal [OF s] by (intro exI [of _ p']) auto
qed

subsection \<open>Usage caps\<close>

fun claims_of :: "string \<Rightarrow> registry \<Rightarrow> reg_event list \<Rightarrow> nat" where
  "claims_of i r [] = 0"
| "claims_of i r (e # es) = (case e of
     EvClaim j t policy \<Rightarrow> if j = i \<and> fst (claimSuccessfulUseOutcome j t policy r) = returns Claimed then 1 else 0
   | _ \<Rightarrow> 0) + claims_of i (reg_step r e) es"

lemma claim_outcome_Claimed:
  assumes "reg_atomic r" "fst (claimSuccessfulUseOutcome i t policy r) = returns Claimed"
  shows "\<exists>p. ms_get (reg_store r) i = Some p \<and> sp_status p = Active \<and> \<not> time_expired_at p t
    \<and> \<not> cap_reached (sp_maxRequests p) (sp_requests p)
    \<and> (\<exists>jwk. canonicalAuthorizationJwk (up_pubJwk policy) = returns jwk
         \<and> successfulUsePolicy p = returns (policy\<lparr>up_pubJwk := jwk\<rparr>))
    \<and> reg_store (snd (claimSuccessfulUseOutcome i t policy r)) = put_pair i (claim_pair p t) (reg_store r)"
proof -
  obtain st' where st': "ms_claimSuccessfulUse i t policy (reg_store r) = (returns Claimed, st')"
    using assms by (cases "ms_claimSuccessfulUse i t policy (reg_store r)")
      (auto simp: claimSuccessfulUseOutcome_def)
  with assms(1) show ?thesis
    using ms_claim_Claimed_iff [of i t policy "reg_store r" st']
    by (auto simp: claimSuccessfulUseOutcome_def)
qed

lemma claim_pair_requests [simp]: "sp_requests (claim_pair p t) = sp_requests p + 1"
  "sp_maxRequests (claim_pair p t) = sp_maxRequests p" "sp_id (claim_pair p t) = sp_id p"
  by (simp_all add: claim_pair_def Let_def)

lemma usage_cap_run:
  assumes "reg_wf r" "ms_get (reg_store r) i = Some p" "sp_maxRequests p = Some m" "0 < m"
    and "\<forall>u. EvUpdate i u \<notin> set es"
  shows "int (claims_of i r es) \<le> max 0 (m - sp_requests p)"
  using assms(1,2,3,5)
proof (induction es arbitrary: r p)
  case (Cons e es)
  obtain q where q: "ms_get (reg_store (reg_step r e)) i = Some q" "evolves e p q"
    using reg_step_evolves [OF Cons.prems(1,2)] by blast
  have "sp_id p = i" using reg_wf_id [OF Cons.prems(1,2)] .
  with q(2) Cons.prems(3,4) have m: "sp_maxRequests q = Some m" and n: "sp_requests p \<le> sp_requests q"
    by (auto simp: evolves_def)
  have IH: "int (claims_of i (reg_step r e) es) \<le> max 0 (m - sp_requests q)"
    using Cons.IH [OF reg_step_wf [OF Cons.prems(1)] q(1) m] Cons.prems(4) by simp
  show ?case
  proof (cases "\<exists>t policy. e = EvClaim i t policy \<and> fst (claimSuccessfulUseOutcome i t policy r) = returns Claimed")
    case True
    then obtain t policy where e: "e = EvClaim i t policy"
      and c: "fst (claimSuccessfulUseOutcome i t policy r) = returns Claimed" by blast
    have "reg_atomic r" using Cons.prems(1) by (simp add: reg_wf_def)
    from claim_outcome_Claimed [OF this c] Cons.prems(2,3) q(1) e
    have "\<not> cap_reached (Some m) (sp_requests p)" "sp_requests q = sp_requests p + 1"
      by auto
    with IH assms(4) e c show ?thesis by (simp add: cap_reached_def)
  next
    case False
    then have "claims_of i r (e # es) = claims_of i (reg_step r e) es" by (auto split: reg_event.splits)
    with IH n show ?thesis by linarith
  qed
qed simp

text \<open>
  C9. Usage caps. A pair with a positive request cap \<open>m\<close> that no operator edits is claimed at most
  \<open>m - requests\<close> more times, over every interleaving of registry operations, unlocks included.
\<close>
theorem usage_cap_respected:
  assumes "reg_wf r" "ms_get (reg_store r) i = Some p" "sp_maxRequests p = Some m" "0 < m"
    and "\<forall>u. EvUpdate i u \<notin> set es"
  shows "int (claims_of i r es) \<le> max 0 (m - sp_requests p)"
  using usage_cap_run [OF assms] .

subsection \<open>Capacity\<close>

definition flag :: "bool \<Rightarrow> int" where
  "flag b = (if b then 1 else 0)"

lemma count_jm_set:
  "jm_wf m \<Longrightarrow> int (length (filter P (map snd (jm_set k v m)))) =
     int (length (filter P (map snd m))) + flag (P v)
       - (case map_of m k of None \<Rightarrow> 0 | Some w \<Rightarrow> flag (P w))"
proof (induction k v m rule: jm_set.induct)
  case (2 k v a b m)
  have "map_of m k = None" if "a = k" using 2(2) that by (auto simp: jm_wf_def map_of_eq_None_iff)
  with 2 show ?case by (auto simp: flag_def jm_wf_def split: option.splits)
qed (simp add: flag_def)

lemma active_count_put:
  "store_wf st \<Longrightarrow> int (active_count (put_pair i p st)) = int (active_count st) + flag (sp_status p = Active)
     - (case ms_get st i of None \<Rightarrow> 0 | Some q \<Rightarrow> flag (sp_status q = Active))"
  using count_jm_set [of "ms_pairs st" "\<lambda>p. sp_status p = Active" i p]
  by (simp add: active_count_def ms_list_def put_pair_def store_wf_def ms_get_def)

lemma active_count_pending [simp]:
  "active_count (ms_deletePending t st) = active_count st"
  by (simp add: active_count_def ms_list_def ms_deletePending_def)

lemma active_count_cong: "ms_pairs a = ms_pairs b \<Longrightarrow> active_count a = active_count b"
  by (simp add: active_count_def ms_list_def)

lemma writes_active_count:
  assumes "writes e i st st'" "store_wf st" "\<forall>j. e \<noteq> EvUnlock j"
  shows "active_count st' \<le> active_count st"
  using assms(1) unfolding writes_def
proof (elim disjE exE conjE)
  fix p p' assume p: "ms_get st i = Some p" "evolves e p p'" "ms_pairs st' = jm_set i p' (ms_pairs st)"
  then have "active_count st' = active_count (put_pair i p' st)"
    by (intro active_count_cong) (simp add: put_pair_def)
  moreover have "flag (sp_status p' = Active) \<le> flag (sp_status p = Active)"
    using p(2) assms(3) by (cases "sp_status p") (auto simp: flag_def evolves_def)
  ultimately show ?thesis using active_count_put [OF assms(2), of i p'] p(1) by simp
next
  assume "ms_pairs st' = ms_pairs st"
  then have "active_count st' = active_count st" by (rule active_count_cong)
  then show ?thesis by simp
qed

lemma step_active_count:
  assumes "reg_wf r" "\<forall>j. e \<noteq> EvUnlock j" "int (active_count (reg_store r)) \<le> reg_maxPairs r"
  shows "int (active_count (reg_store (reg_step r e))) \<le> reg_maxPairs r"
proof (cases e)
  case (EvApprove now rand token)
  have "reg_atomic r" using assms(1) by (simp add: reg_wf_def)
  then show ?thesis
    by (rule approve_store [of r now rand token])
       (use assms EvApprove in \<open>auto simp: active_count_put reg_wf_def flag_def approved_pair_def\<close>)
next
  case (EvRotate old new)
  show ?thesis
    by (rule rotate_store [of old new "reg_store r"])
       (use assms EvRotate in \<open>auto simp: active_count_put store_wf_put reg_wf_def flag_def hasInitialPairState_def\<close>)
qed (use assms writes_step [OF assms(1), of e] writes_active_count reg_wf_def in fastforce)+

lemma run_active_count:
  assumes "reg_wf r" "\<forall>j. EvUnlock j \<notin> set es" "int (active_count (reg_store r)) \<le> reg_maxPairs r"
  shows "int (active_count (reg_store (foldl reg_step r es))) \<le> reg_maxPairs r"
  using assms
proof (induction es arbitrary: r)
  case (Cons e es)
  then have "int (active_count (reg_store (reg_step r e))) \<le> reg_maxPairs (reg_step r e)"
    using step_active_count [of r e] by auto
  then have "int (active_count (reg_store (foldl reg_step (reg_step r e) es))) \<le> reg_maxPairs (reg_step r e)"
    using Cons.prems by (intro Cons.IH reg_step_wf) auto
  then show ?case by simp
qed simp

text \<open>
  C20. Capacity. Over every sequence of registry operations without an unlock, the number of active
  pairs stays within \<open>maxPairs\<close>: approvals check it atomically, a rotation trades one active pair
  for another.
\<close>
theorem active_pairs_bounded:
  assumes "reg_wf r" "\<forall>j. EvUnlock j \<notin> set es" "int (active_count (reg_store r)) \<le> reg_maxPairs r"
  shows "int (active_count (reg_store (foldl reg_step r es))) \<le> reg_maxPairs r"
  using run_active_count [OF assms] .

section \<open>Lockout\<close>

definition next_track :: "int \<Rightarrow> (int \<times> int) option \<Rightarrow> int \<times> int" where
  "next_track now entry = (case entry of
     None \<Rightarrow> (1, now)
   | Some (n, ws) \<Rightarrow> if IP_FAILURE_WINDOW_MS < now - ws then (1, now) else (n + 1, ws))"

definition tracked :: "registry \<Rightarrow> string \<Rightarrow> string \<Rightarrow> (int \<times> int) option" where
  "tracked r i ip = map_of (reg_tracker r) (ip_key i ip)"

definition fail_wf :: "registry \<Rightarrow> bool" where
  "fail_wf r = (reg_wf r \<and> jm_wf (reg_tracker r))"

lemma failure_apply_id [simp]: "sp_id (failure_apply n now k p) = sp_id p"
  using evolves_failure [of "EvUnlock []" p n now k] by (simp add: evolves_def)

lemma recordFailure_ip:
  fixes now :: int
  assumes "fail_wf r" "ms_get (reg_store r) i = Some p" "ip \<noteq> []"
  defines "r' \<equiv> recordFailure now i (Some ip) r"
  shows "ms_get (reg_store r') i
      = Some (failure_apply (reg_lockoutCount r) now (Some (fst (next_track now (tracked r i ip)))) p)"
    and "tracked r' i ip = Some (next_track now (tracked r i ip))"
    and "fail_wf r'" and "reg_lockoutCount r' = reg_lockoutCount r"
proof -
  have id: "sp_id p = i" and ato: "reg_atomic r" and jw: "jm_wf (reg_tracker r)" and rw: "reg_wf r"
    using assms(1,2) reg_wf_id by (auto simp: fail_wf_def reg_wf_def)
  let ?k = "ip_key i ip" and ?tr = "reg_tracker (evictStaleIpEntries now r)"
  have tr: "map_of ?tr ?k = (case tracked r i ip of None \<Rightarrow> None
      | Some (n, ws) \<Rightarrow> if IP_FAILURE_WINDOW_MS < now - ws then None else Some (n, ws))"
    using jw by (auto simp: evictStaleIpEntries_def map_of_jm_keep tracked_def split: option.splits)
  have tf: "track_failure now i (Some ip) ?tr =
      (Some (fst (next_track now (tracked r i ip))), jm_set ?k (next_track now (tracked r i ip)) ?tr)"
    using assms(3) by (auto simp: track_failure_def tr next_track_def split: option.splits)
  let ?n = "Some (fst (next_track now (tracked r i ip)))"
  have mut: "snd (ms_atomicMutate i (\<lambda>source. returns (Some (failure_apply (reg_lockoutCount r) now ?n source)))
      (reg_store r)) = put_pair i (failure_apply (reg_lockoutCount r) now ?n p) (reg_store r)"
    using assms(2) id by (simp add: ms_atomicMutate_def)
  have r': "reg_store r' = put_pair i (failure_apply (reg_lockoutCount r) now ?n p) (reg_store r)"
    "reg_tracker r' = jm_set ?k (next_track now (tracked r i ip)) ?tr" "reg_lockoutCount r' = reg_lockoutCount r"
    using ato by (simp_all add: r'_def recordFailure_def Let_def tf mut)
  show "ms_get (reg_store r') i = Some (failure_apply (reg_lockoutCount r) now ?n p)"
    and "tracked r' i ip = Some (next_track now (tracked r i ip))"
    and "reg_lockoutCount r' = reg_lockoutCount r" using r' by (simp_all add: tracked_def)
  have "reg_wf r'" using reg_step_wf [OF rw, of "EvFailure now i (Some ip)"] by (simp add: r'_def)
  moreover have "jm_wf ?tr" using jw by (simp add: evictStaleIpEntries_def)
  ultimately show "fail_wf r'" using r'(2) by (simp add: fail_wf_def)
qed

definition failures_at :: "string \<Rightarrow> string \<Rightarrow> int list \<Rightarrow> registry \<Rightarrow> registry" where
  "failures_at i ip ts r = fold (\<lambda>t. recordFailure t i (Some ip)) ts r"

lemma failure_apply_locks:
  "n \<le> k \<Longrightarrow> sp_status (failure_apply n now (Some k) p) \<noteq> Active"
  by (auto simp: failure_apply_def lock_when_def Let_def)

lemma failures_tracked:
  assumes "fail_wf r" "ms_get (reg_store r) i = Some p" "ip \<noteq> []" "tracked r i ip = Some (n, ws)"
    and "\<forall>t \<in> set ts. t - ws \<le> IP_FAILURE_WINDOW_MS" "ts \<noteq> []" "reg_lockoutCount r \<le> n + int (length ts)"
  shows "\<exists>p'. ms_get (reg_store (failures_at i ip ts r)) i = Some p' \<and> sp_status p' \<noteq> Active"
  using assms
proof (induction ts arbitrary: r p n)
  case (Cons t ts)
  note step = recordFailure_ip [OF Cons.prems(1-3), of t]
  let ?r = "recordFailure t i (Some ip) r"
  have nt: "next_track t (tracked r i ip) = (n + 1, ws)"
    using Cons.prems(4,5) by (simp add: next_track_def)
  show ?case
  proof (cases "ts = []")
    case True
    with step nt Cons.prems(7) show ?thesis by (auto simp: failures_at_def intro!: failure_apply_locks)
  next
    case False
    have "tracked ?r i ip = Some (n + 1, ws)" using step(2) nt by simp
    from Cons.IH [OF step(3) step(1) Cons.prems(3) this] False Cons.prems(5,7) step(4)
    show ?thesis by (simp add: failures_at_def)
  qed
qed simp

text \<open>
  Lockout. When one source IP, with no failures on record, fails \<open>lockoutCount\<close> times on a pair
  within one five-minute window of its first failure, the pair is no longer active afterwards: the
  lock reaches every caller of the pair, whichever IP they use.
\<close>
theorem failures_lock_the_pair:
  assumes "fail_wf r" "ms_get (reg_store r) i = Some p" "ip \<noteq> []" "tracked r i ip = None"
    and "\<forall>t \<in> set ts. t - t0 \<le> IP_FAILURE_WINDOW_MS" "2 \<le> reg_lockoutCount r"
    and "reg_lockoutCount r \<le> int (length (t0 # ts))"
  shows "\<exists>p'. ms_get (reg_store (failures_at i ip (t0 # ts) r)) i = Some p' \<and> sp_status p' \<noteq> Active"
proof -
  note step = recordFailure_ip [OF assms(1-3), of t0]
  have "tracked (recordFailure t0 i (Some ip) r) i ip = Some (1, t0)"
    using step(2) assms(4) by (simp add: next_track_def)
  moreover have "ts \<noteq> []" using assms(6,7) by auto
  moreover have "reg_lockoutCount (recordFailure t0 i (Some ip) r) \<le> 1 + int (length ts)"
    using step(4) assms(7) by simp
  ultimately show ?thesis
    using failures_tracked [OF step(3) step(1) assms(3) _ assms(5)] by (simp add: failures_at_def)
qed

subsection \<open>The slow drip\<close>

definition drip_times :: "int \<Rightarrow> nat \<Rightarrow> nat \<Rightarrow> int list" where
  "drip_times t0 n m = concat (map (\<lambda>w. replicate n (t0 + int w * (IP_FAILURE_WINDOW_MS + 1))) [0..<m])"

text \<open>
  \<open>drip_ready\<close> holds at the start of a window of the drip, \<open>drip_mid\<close> after \<open>k\<close> failures at its
  start time.
\<close>

definition drip_ready :: "nat \<Rightarrow> int \<Rightarrow> string \<Rightarrow> string \<Rightarrow> registry \<Rightarrow> bool" where
  "drip_ready n t i ip r = (fail_wf r \<and> int n < reg_lockoutCount r
     \<and> (\<exists>p. ms_get (reg_store r) i = Some p \<and> sp_status p = Active \<and> 0 \<le> cumulative_of p
        \<and> (case sp_firstFailureAt p of Some (Some f) \<Rightarrow>
              IP_FAILURE_WINDOW_MS < t - f \<and> cumulative_of p \<le> 2 * of_nat n | _ \<Rightarrow> cumulative_of p = 0)
        \<and> (case tracked r i ip of None \<Rightarrow> True | Some (k, ws) \<Rightarrow> IP_FAILURE_WINDOW_MS < t - ws)))"

definition drip_mid :: "nat \<Rightarrow> nat \<Rightarrow> int \<Rightarrow> string \<Rightarrow> string \<Rightarrow> registry \<Rightarrow> bool" where
  "drip_mid n k t i ip r = (fail_wf r \<and> int n < reg_lockoutCount r
     \<and> (\<exists>p. ms_get (reg_store r) i = Some p \<and> sp_status p = Active \<and> 0 \<le> cumulative_of p
        \<and> sp_firstFailureAt p = Some (Some t) \<and> cumulative_of p \<le> of_nat n + of_nat k
        \<and> tracked r i ip = Some (int k, t)))"

lemma failure_apply_stays_active:
  assumes "sp_status p = Active" "k < lc" "cumulative_of (applyCumulativeDecay now (p\<lparr>sp_failedSigs := k\<rparr>)) < of_int (lc * 2)"
  shows "failure_apply lc now (Some k) p = applyCumulativeDecay now (p\<lparr>sp_failedSigs := k\<rparr>)"
  using assms by (simp add: failure_apply_def lock_when_def Let_def)

lemma windows_elapsed_pos: "IP_FAILURE_WINDOW_MS < d \<Longrightarrow> 0 < d div IP_FAILURE_WINDOW_MS"
  by (simp add: IP_FAILURE_WINDOW_MS_def pos_imp_zdiv_pos_iff)

lemma halving: "(0 :: rat) \<le> c \<Longrightarrow> 0 < w \<Longrightarrow> c / 2 ^ nat w \<le> c / 2"
proof -
  assume "0 \<le> c" "0 < w"
  then obtain k where "nat w = Suc k" by (metis gr0_implies_Suc zero_less_nat_eq)
  moreover have "c / (2 * 2 ^ k) \<le> c / 2" using \<open>0 \<le> c\<close> by (intro divide_left_mono) auto
  ultimately show ?thesis by simp
qed

lemma drip_first:
  assumes "drip_ready n t i ip r" "ip \<noteq> []" "0 < n"
  shows "drip_mid n 1 t i ip (recordFailure t i (Some ip) r)"
proof -
  obtain p where p: "ms_get (reg_store r) i = Some p" "sp_status p = Active" "0 \<le> cumulative_of p"
    and f: "case sp_firstFailureAt p of Some (Some f) \<Rightarrow>
       IP_FAILURE_WINDOW_MS < t - f \<and> cumulative_of p \<le> 2 * of_nat n | _ \<Rightarrow> cumulative_of p = 0"
    and tr: "case tracked r i ip of None \<Rightarrow> True | Some (k, ws) \<Rightarrow> IP_FAILURE_WINDOW_MS < t - ws"
    using assms(1) by (auto simp: drip_ready_def)
  have wf: "fail_wf r" and lc: "int n < reg_lockoutCount r" using assms(1) by (simp_all add: drip_ready_def)
  have nt: "next_track t (tracked r i ip) = (1, t)" using tr by (auto simp: next_track_def split: option.splits)
  let ?q = "applyCumulativeDecay t (p\<lparr>sp_failedSigs := 1\<rparr>)"
  have q: "0 \<le> cumulative_of ?q \<and> cumulative_of ?q \<le> of_nat n + 1 \<and> sp_firstFailureAt ?q = Some (Some t)"
  proof (cases "\<exists>u. sp_firstFailureAt p = Some (Some u)")
    case True
    then obtain u where u: "sp_firstFailureAt p = Some (Some u)" by blast
    with f have w: "0 < (t - u) div IP_FAILURE_WINDOW_MS" and "cumulative_of p \<le> 2 * of_nat n"
      using windows_elapsed_pos by auto
    moreover have "cumulative_of ?q = cumulative_of p / 2 ^ nat ((t - u) div IP_FAILURE_WINDOW_MS) + 1"
      "sp_firstFailureAt ?q = Some (Some t)"
      using u w by (simp_all add: applyCumulativeDecay_def Let_def cumulative_of_def)
    moreover have "0 \<le> cumulative_of p / 2 ^ nat ((t - u) div IP_FAILURE_WINDOW_MS)" using p(3) by simp
    ultimately show ?thesis using halving [OF p(3) w] by linarith
  next
    case False
    with f have "cumulative_of p = 0" by (auto split: option.splits)
    moreover from False have "sp_firstFailureAt p = None \<or> sp_firstFailureAt p = Some None"
      by (cases "sp_firstFailureAt p") auto
    ultimately show ?thesis using p(3)
      by (auto simp: applyCumulativeDecay_def Let_def cumulative_of_def split: option.splits)
  qed
  have "(of_nat n :: rat) + 1 \<le> of_int (reg_lockoutCount r)"
    using lc by (metis of_int_of_nat_eq of_int_1 of_int_add of_int_le_iff zless_imp_add1_zle)
  then have lt: "cumulative_of ?q < of_int (reg_lockoutCount r * 2)" using q assms(3) by auto
  have "failure_apply (reg_lockoutCount r) t (Some 1) p = ?q"
    by (rule failure_apply_stays_active [OF p(2) _ lt]) (use lc assms(3) in linarith)
  with recordFailure_ip [OF wf p(1) assms(2), of t] q nt lc p(2) show ?thesis
    by (auto simp: drip_mid_def)
qed

lemma drip_next:
  assumes "drip_mid n k t i ip r" "ip \<noteq> []" "k < n"
  shows "drip_mid n (Suc k) t i ip (recordFailure t i (Some ip) r)"
proof -
  obtain p where p: "ms_get (reg_store r) i = Some p" "sp_status p = Active" "0 \<le> cumulative_of p"
    and f: "sp_firstFailureAt p = Some (Some t)" "cumulative_of p \<le> of_nat n + of_nat k"
    and tr: "tracked r i ip = Some (int k, t)"
    using assms(1) by (auto simp: drip_mid_def)
  have wf: "fail_wf r" and lc: "int n < reg_lockoutCount r" using assms(1) by (simp_all add: drip_mid_def)
  have nt: "next_track t (tracked r i ip) = (int (Suc k), t)"
    using tr by (simp add: next_track_def IP_FAILURE_WINDOW_MS_def)
  let ?q = "applyCumulativeDecay t (p\<lparr>sp_failedSigs := int (Suc k)\<rparr>)"
  have q: "cumulative_of ?q = cumulative_of p + 1" "sp_firstFailureAt ?q = Some (Some t)"
    using f by (simp_all add: applyCumulativeDecay_def Let_def cumulative_of_def)
  have "cumulative_of ?q \<le> of_nat n + of_nat (Suc k)" using q f(2) by simp
  moreover have "(of_int (int n + int (Suc k)) :: rat) < of_int (reg_lockoutCount r * 2)"
    unfolding of_int_less_iff using lc assms(3) by linarith
  ultimately have lt: "cumulative_of ?q < of_int (reg_lockoutCount r * 2)" by simp
  have "failure_apply (reg_lockoutCount r) t (Some (int (Suc k))) p = ?q"
    by (rule failure_apply_stays_active [OF p(2) _ lt]) (use lc assms(3) in linarith)
  with recordFailure_ip [OF wf p(1) assms(2), of t] q nt lc p(2,3) f(2) show ?thesis
    by (auto simp: drip_mid_def)
qed

lemma drip_mid_run:
  "drip_mid n k t i ip r \<Longrightarrow> ip \<noteq> [] \<Longrightarrow> k + j \<le> n \<Longrightarrow>
     drip_mid n (k + j) t i ip (failures_at i ip (replicate j t) r)"
proof (induction j arbitrary: k r)
  case (Suc j)
  then have "drip_mid n (Suc k) t i ip (recordFailure t i (Some ip) r)" by (intro drip_next) auto
  from Suc.IH [OF this Suc.prems(2)] Suc.prems(3) show ?case by (simp add: failures_at_def)
qed (simp add: failures_at_def)

lemma drip_window:
  assumes "drip_ready n t i ip r" "ip \<noteq> []" "0 < n"
  shows "drip_ready n (t + (IP_FAILURE_WINDOW_MS + 1)) i ip (failures_at i ip (replicate n t) r)"
proof -
  obtain m where n: "n = Suc m" using assms(3) gr0_implies_Suc by blast
  have "drip_mid n (1 + m) t i ip (failures_at i ip (replicate m t) (recordFailure t i (Some ip) r))"
    using drip_mid_run [OF drip_first [OF assms] assms(2)] n by simp
  then have "drip_mid n n t i ip (failures_at i ip (replicate n t) r)"
    by (simp add: n failures_at_def)
  then show ?thesis by (auto simp: drip_mid_def drip_ready_def)
qed

lemma drip_times_Suc:
  "drip_times t n (Suc m) = drip_times t n m @ replicate n (t + int m * (IP_FAILURE_WINDOW_MS + 1))"
  by (simp add: drip_times_def)

lemma drip_run:
  assumes "drip_ready n t i ip r" "ip \<noteq> []" "0 < n"
  shows "drip_ready n (t + int m * (IP_FAILURE_WINDOW_MS + 1)) i ip (failures_at i ip (drip_times t n m) r)"
proof (induction m)
  case 0
  then show ?case using assms by (simp add: drip_times_def failures_at_def)
next
  case (Suc m)
  from drip_window [OF this assms(2,3)] show ?case
    by (simp add: drip_times_Suc failures_at_def algebra_simps)
qed

text \<open>
  The slow drip is never caught. A source that fails \<open>n < lockoutCount\<close> times at the start of
  every window, for any number of windows, never locks the pair: the halved score stays at most
  \<open>2 * n\<close>, below the cumulative threshold \<open>2 * lockoutCount\<close>. The comment on
  \<open>recordActivity\<close> says such a drip eventually crosses the threshold.
\<close>
theorem slow_drip_never_locks:
  assumes "fail_wf r" "ms_get (reg_store r) i = Some p" "sp_status p = Active"
    and "cumulative_of p = 0" "sp_firstFailureAt p \<in> {None, Some None}" "tracked r i ip = None" "ip \<noteq> []"
    and "0 < n" "int n < reg_lockoutCount r"
  shows "\<exists>p'. ms_get (reg_store (failures_at i ip (drip_times t n m) r)) i = Some p' \<and> sp_status p' = Active
    \<and> cumulative_of p' \<le> 2 * of_nat n"
proof -
  have "drip_ready n t i ip r" using assms by (auto simp: drip_ready_def)
  from drip_run [OF this assms(7,8), of m] show ?thesis
    by (auto simp: drip_ready_def split: option.splits)
qed

section \<open>The compatibility path\<close>

lemma matches_canonical_policy:
  assumes "canonicalAuthorizationJwk (up_pubJwk e) = returns jwk"
  shows "successfulUsePolicyMatches p (e\<lparr>up_pubJwk := jwk\<rparr>) = successfulUsePolicyMatches p e"
  using assms canonicalAuthorizationJwk_idem [OF assms] by (simp add: successfulUsePolicyMatches_def sameCanonicalJwk_def)

lemma compat_claim_atomic:
  assumes "store_wf (reg_store r)" "is_safe_integer t" "0 \<le> t" "canonicalAuthorizationJwk (up_pubJwk policy) = returns jwk"
    and "claimSuccessfulUseOutcome i t policy (r\<lparr>reg_atomic := False\<rparr>) = (out1, r1)"
    and "claimSuccessfulUseOutcome i t policy (r\<lparr>reg_atomic := True\<rparr>) = (out2, r2)"
  shows "out1 = out2 \<and> ms_get (reg_store r1) = ms_get (reg_store r2)
    \<and> ms_getPending (reg_store r1) = ms_getPending (reg_store r2) \<and> reg_tracker r1 = reg_tracker r2"
proof (cases "ms_get (reg_store r) i")
  case None
  with assms(2-6) show ?thesis
    by (auto simp: claimSuccessfulUseOutcome_def ms_claimSuccessfulUse_def)
next
  case (Some p)
  have id: "sp_id p = i" using store_wf_id [OF assms(1) Some] .
  have idem: "(ms_get (reg_store r))(i \<mapsto> p) = ms_get (reg_store r)" using Some by (rule fun_upd_idem)
  define m where "m = successfulUsePolicyMatches p policy"
  then have m: "successfulUsePolicyMatches p policy = m" "successfulUsePolicyMatches p (policy\<lparr>up_pubJwk := jwk\<rparr>) = m"
    using matches_canonical_policy [OF assms(4), of p] by simp_all
  show ?thesis using Some assms(2-6) id idem m
    by (cases m) (auto simp: claimSuccessfulUseOutcome_def ms_claimSuccessfulUse_def compat_claim_def Let_def
        mem.get_set mem.getPending_set forget_ip_failures_def split: sum.splits if_splits)
qed

text \<open>
  C19. The claim of the compatibility path is the atomic claim. Over a store whose entries stand under
  their own identifiers, \<open>claimSuccessfulUseOutcome\<close> run without interference over a store that offers
  only \<open>get\<close> and \<open>set\<close> returns the same outcome, errors included, as the atomic operation and leaves
  every pair, every pending request and the failure tracker as the atomic operation does, whenever the
  timestamp is a safe non-negative integer and the key of the policy can be canonicalised. In every
  other case the atomic operation throws and changes nothing.
\<close>
theorem compat_claim_agrees:
  assumes "store_wf (reg_store r)"
    and "claimSuccessfulUseOutcome i t policy (r\<lparr>reg_atomic := False\<rparr>) = (out1, r1)"
    and "claimSuccessfulUseOutcome i t policy (r\<lparr>reg_atomic := True\<rparr>) = (out2, r2)"
  shows "if is_safe_integer t \<and> 0 \<le> t \<and> \<not> isl (canonicalAuthorizationJwk (up_pubJwk policy))
    then out1 = out2 \<and> ms_get (reg_store r1) = ms_get (reg_store r2)
      \<and> ms_getPending (reg_store r1) = ms_getPending (reg_store r2) \<and> reg_tracker r1 = reg_tracker r2
    else isl out2 \<and> r2 = r\<lparr>reg_atomic := True\<rparr>"
proof (cases "is_safe_integer t \<and> 0 \<le> t \<and> \<not> isl (canonicalAuthorizationJwk (up_pubJwk policy))")
  case True
  then obtain jwk where "canonicalAuthorizationJwk (up_pubJwk policy) = returns jwk" by (cases "canonicalAuthorizationJwk (up_pubJwk policy)") auto
  with compat_claim_atomic [OF assms(1) _ _ this assms(2,3)] True show ?thesis by simp
next
  case False
  then obtain e where "ms_claimSuccessfulUse i t policy (reg_store r) = (throw e, reg_store r)"
    by (cases "canonicalAuthorizationJwk (up_pubJwk policy)"; cases "is_safe_integer t \<and> 0 \<le> t")
       (auto simp: ms_claimSuccessfulUse_def Let_def)
  then have "claimSuccessfulUseOutcome i t policy (r\<lparr>reg_atomic := True\<rparr>) = (throw e, r\<lparr>reg_atomic := True\<rparr>)"
    by (simp add: claimSuccessfulUseOutcome_def)
  with False assms(3) show ?thesis by auto
qed

section \<open>Registration\<close>

lemma pairMatchesRegistration_approved:
  "pairMatchesRegistration (approved_pair now i g) g = map_sum id (\<lambda>c. True) (canonicalAuthorizationJwk (rg_pubJwk g))"
proof (cases "canonicalAuthorizationJwk (rg_pubJwk g)")
  case (Inr c)
  then have "sameCanonicalJwk (rg_pubJwk g) (rg_pubJwk g) = returns True" by (simp add: sameCanonicalJwk_iff)
  with Inr show ?thesis by (simp add: pairMatchesRegistration_def approved_pair_def kind_of_def split: option.splits)
qed (simp add: pairMatchesRegistration_def approved_pair_def sameCanonicalJwk_def)

lemma hasInitialPairState_approved [simp]: "hasInitialPairState (approved_pair now i g)"
  by (simp add: hasInitialPairState_def approved_pair_def)

definition registrable :: "pair_registration \<Rightarrow> string \<Rightarrow> registry \<Rightarrow> bool" where
  "registrable g i r = (validateRegistration g = returns () \<and> \<not> isl (canonicalAuthorizationJwk (rg_pubJwk g))
     \<and> int (active_count (reg_store r)) < reg_maxPairs r \<and> \<not> jm_has (ms_pairs (reg_store r)) i)"

lemma registerDirect_result:
  assumes "reg_wf r" and i: "i = generateId ''pair'' rand2"
    and out: "registerDirect now rand1 rand2 g r = (res, r')"
  shows "if registrable g i r
    then res = returns i
      \<and> ms_get (reg_store r') = (ms_get (reg_store r))(i \<mapsto> approved_pair now i g)
      \<and> ms_getPending (reg_store r') (generateId ''approval'' rand1) = None
    else isl res \<and> ms_get (reg_store r') = ms_get (reg_store r)"
proof -
  have ato: "reg_atomic r" using assms(1) by (simp add: reg_wf_def)
  let ?tok = "generateId ''approval'' rand1"
  let ?st = "ms_setPending ?tok g now (reg_store r)"
  have pend: "ms_getPending ?st ?tok = Some (g, now)"
    by (simp add: mem.getPending_setPending)
  have cnt: "active_count ?st = active_count (reg_store r)" and prs: "ms_pairs ?st = ms_pairs (reg_store r)"
    by (simp_all add: active_count_def ms_list_def ms_setPending_def)
  have id: "sp_id (approved_pair now i g) = i" by (simp add: approved_pair_def)
  show ?thesis
  proof (cases "validateRegistration g = returns () \<and> int (active_count (reg_store r)) < reg_maxPairs r")
    case False
    then have "isl res \<and> r' = r"
      using out by (auto simp: registerDirect_def requestPairing_def Let_def split: sum.splits)
    with False show ?thesis by (auto simp: registrable_def)
  next
    case True
    then have out': "approvePairing now rand2 ?tok (r\<lparr>reg_store := ?st\<rparr>) = (res, r')"
      using out by (simp add: registerDirect_def requestPairing_def Let_def)
    show ?thesis
      using True ato out'
      by (cases "canonicalAuthorizationJwk (rg_pubJwk g)")
         (auto simp: approvePairing_def pend ms_approvePending_def pairMatchesRegistration_approved
           registrable_def cnt prs i [symmetric] id mem.get_setPending mem.getPending_deletePending Let_def split: if_splits)
  qed
qed

text \<open>
  Registration. Against the atomic store, a direct registration succeeds exactly when the
  registration is valid, its key is an exact public P-256 key, the active pairs are below capacity
  and the drawn identifier is unused; it then adds exactly the approved pair, active with zeroed
  counters, and consumes its approval token. Otherwise no pair changes.
\<close>
theorem registerDirect_outcome:
  assumes "reg_wf r" and i: "i = generateId ''pair'' rand2"
    and out: "registerDirect now rand1 rand2 g r = (res, r')"
  shows "if registrable g i r
    then res = returns i
      \<and> ms_get (reg_store r') = (ms_get (reg_store r))(i \<mapsto> approved_pair now i g)
      \<and> ms_getPending (reg_store r') (generateId ''approval'' rand1) = None
    else isl res \<and> ms_get (reg_store r') = ms_get (reg_store r)"
  using registerDirect_result [OF assms] .

text \<open>
  Redacted listing. Two registries whose pairs differ only in secrets, keys, failure counters,
  expiry, caps and canary data give the same redacted listing: the listing endpoint reveals none of
  them.
\<close>
theorem listRedacted_reveals_nothing_else:
  assumes "list_all2 (\<lambda>p q. q = p\<lparr>sp_secretHash := sp_secretHash q, sp_pubJwk := sp_pubJwk q,
      sp_failedSigs := sp_failedSigs q, sp_cumulativeFailures := sp_cumulativeFailures q,
      sp_firstFailureAt := sp_firstFailureAt q, sp_expiresAt := sp_expiresAt q,
      sp_maxRequests := sp_maxRequests q, sp_kind := sp_kind q, sp_canaryClass := sp_canaryClass q\<rparr>)
    (reg_list r) (reg_list s)"
  shows "listRedacted r = listRedacted s"
proof -
  have eq: "redact_pair p = redact_pair q" if "q = p\<lparr>sp_secretHash := sp_secretHash q, sp_pubJwk := sp_pubJwk q,
      sp_failedSigs := sp_failedSigs q, sp_cumulativeFailures := sp_cumulativeFailures q,
      sp_firstFailureAt := sp_firstFailureAt q, sp_expiresAt := sp_expiresAt q,
      sp_maxRequests := sp_maxRequests q, sp_kind := sp_kind q, sp_canaryClass := sp_canaryClass q\<rparr>" for p q
    by (cases p, cases q) (use that in \<open>simp add: redact_pair_def\<close>)
  have "list_all2 (\<lambda>p q. redact_pair p = redact_pair q) (reg_list r) (reg_list s)"
    using assms by (rule list_all2_mono) (rule eq)
  then show ?thesis
    by (simp add: listRedacted_def reg_list_def list_all2_conv_all_nth list_eq_iff_nth_eq)
qed

section \<open>Examples\<close>

definition ex_jwk :: json where
  "ex_jwk = cjwk (replicate 43 (CHR ''A'')) (replicate 43 (CHR ''A''))"

definition ex_registration :: pair_registration where
  "ex_registration = \<lparr>rg_name = ''ci'', rg_scope = ''read'', rg_mode = ''production'',
     rg_secretHash = replicate 43 (CHR ''A''), rg_pubJwk = ex_jwk, rg_expiresAt = None,
     rg_maxRequests = Some 2, rg_kind = None, rg_canaryClass = None\<rparr>"

definition ex_pair :: stored_pair where
  "ex_pair = approved_pair 0 ''p1'' ex_registration"

definition ex_registry :: registry where
  "ex_registry = \<lparr>reg_store = \<lparr>ms_pairs = [(''p1'', ex_pair)], ms_pending = []\<rparr>, reg_tracker = [],
     reg_maxPairs = 5, reg_lockoutCount = 3, reg_atomic = True\<rparr>"

lemmas ex_defs = ex_registry_def ex_pair_def ex_registration_def approved_pair_def

lemma ex_jwk_canonical [simp]: "canonicalAuthorizationJwk ex_jwk = returns ex_jwk"
  unfolding ex_jwk_def 
  by (rule canonicalAuthorizationJwk_cjwk)
     (auto simp: B64URL_256_def is_b64url_char_def is_alnum_def is_upper_def list_all_iff dest!: in_set_butlastD)

lemma ex_wf: "reg_wf ex_registry" "fail_wf ex_registry" "store_wf (reg_store ex_registry)"
  by (simp_all add: fail_wf_def reg_wf_def store_wf_def jm_wf_def ex_defs)

lemma ex_get: "ms_get (reg_store ex_registry) ''p1'' = Some ex_pair"
  by (simp add: ms_get_def ex_registry_def)

lemma registry_lifecycle_witness:
  "\<exists>p'. ms_get (reg_store (foldl reg_step (revoke ''p1'' ex_registry) [EvUnlock ''p1'', EvEnsureLocked ''p1'' 1])) ''p1''
     = Some p' \<and> sp_status p' = Revoked"
proof -
  have "reg_wf (revoke ''p1'' ex_registry)" using reg_step_wf [OF ex_wf(1), of "EvRevoke ''p1''"] by simp
  moreover have "ms_get (reg_store (revoke ''p1'' ex_registry)) ''p1'' = Some (ex_pair\<lparr>sp_status := Revoked\<rparr>)"
    by (simp add: revoke_def ms_atomicMutate_def ms_get_def put_pair_def ex_registry_def)
       (simp add: ex_pair_def approved_pair_def)
  ultimately have "\<exists>p'. ms_get (reg_store (foldl reg_step (revoke ''p1'' ex_registry)
      [EvUnlock ''p1'', EvEnsureLocked ''p1'' 1])) ''p1'' = Some p'
      \<and> (sp_status (ex_pair\<lparr>sp_status := Revoked\<rparr>) = Revoked \<longrightarrow> sp_status p' = Revoked)"
    using registry_lifecycle [of "revoke ''p1'' ex_registry" "''p1''"] by blast
  moreover have "sp_status (ex_pair\<lparr>sp_status := Revoked\<rparr>) = Revoked" by simp
  ultimately show ?thesis by blast
qed

lemma usage_cap_respected_witness:
  "int (claims_of ''p1'' ex_registry [EvUnlock ''p1'', EvMarkUsage ''p1'']) \<le> 2"
  using usage_cap_respected [OF ex_wf(1) ex_get, of 2 "[EvUnlock ''p1'', EvMarkUsage ''p1'']"]
  by (simp add: ex_pair_def approved_pair_def ex_registration_def)

lemma active_pairs_bounded_witness:
  "int (active_count (reg_store (foldl reg_step ex_registry [EvRequest 1 [] ex_registration, EvApprove 2 [] ''approval_'']))) \<le> 5"
  using active_pairs_bounded [OF ex_wf(1), of "[EvRequest 1 [] ex_registration, EvApprove 2 [] ''approval_'']"]
  by (simp add: active_count_def ms_list_def ex_registry_def ex_pair_def approved_pair_def)

lemma failures_lock_the_pair_witness:
  "\<exists>p'. ms_get (reg_store (failures_at ''p1'' ''10.0.0.1'' [0, 5, 10] ex_registry)) ''p1'' = Some p'
     \<and> sp_status p' \<noteq> Active"
  using failures_lock_the_pair [OF ex_wf(2) ex_get, of "''10.0.0.1''" "[5, 10]" 0]
  by (simp add: tracked_def ex_registry_def IP_FAILURE_WINDOW_MS_def)

lemma slow_drip_never_locks_witness:
  "\<exists>p'. ms_get (reg_store (failures_at ''p1'' ''10.0.0.1'' (drip_times 0 2 1000) ex_registry)) ''p1'' = Some p'
     \<and> sp_status p' = Active \<and> cumulative_of p' \<le> 4"
  using slow_drip_never_locks [OF ex_wf(2) ex_get, of "''10.0.0.1''" 2 0 1000]
  by (simp add: tracked_def cumulative_of_def ex_registry_def ex_pair_def approved_pair_def)

definition ex_policy :: use_policy where
  "ex_policy = \<lparr>up_status = Active, up_scope = ''read'', up_mode = ''production'',
     up_secretHash = replicate 43 (CHR ''A''), up_pubJwk = ex_jwk, up_expiresAt = None,
     up_maxRequests = Some 2, up_kind = Legitimate, up_canaryClass = None\<rparr>"

lemma compat_claim_agrees_witness:
  "fst (claimSuccessfulUseOutcome ''p1'' 7 ex_policy (ex_registry\<lparr>reg_atomic := False\<rparr>))
     = fst (claimSuccessfulUseOutcome ''p1'' 7 ex_policy (ex_registry\<lparr>reg_atomic := True\<rparr>))
   \<and> isl (fst (claimSuccessfulUseOutcome ''p1'' (- 1) ex_policy (ex_registry\<lparr>reg_atomic := True\<rparr>)))"
proof -
  have "\<not> isl (canonicalAuthorizationJwk (up_pubJwk ex_policy))"
    by (simp add: ex_policy_def)
  then show ?thesis
    using compat_claim_agrees [OF ex_wf(3) prod.collapse [symmetric] prod.collapse [symmetric], where t = 7 and i = "''p1''" and policy = ex_policy]
      compat_claim_agrees [OF ex_wf(3) prod.collapse [symmetric] prod.collapse [symmetric], where t = "- 1" and i = "''p1''" and policy = ex_policy]
    by (simp add: is_safe_integer_def MAX_SAFE_INTEGER_def)
qed

lemma ex_registrable: "registrable ex_registration (generateId ''pair'' []) ex_registry"
  by (simp add: registrable_def generateId_def validateRegistration_def MIN_SECRET_HASH_LEN_def MAX_NAME_LEN_def
      ALLOWED_SCOPES_def ALLOWED_MODES_def active_count_def ms_list_def jm_has_def ex_defs)
     (simp add: ex_jwk_def)

lemma registerDirect_outcome_witness:
  "fst (registerDirect 1 [] [] ex_registration ex_registry) = returns (generateId ''pair'' [])"
  using registerDirect_outcome [OF ex_wf(1) refl prod.collapse [symmetric], of ex_registration "[]" 1 "[]"]
    ex_registrable by simp

lemma listRedacted_witness:
  "listRedacted ex_registry = listRedacted (ex_registry\<lparr>reg_store :=
     \<lparr>ms_pairs = [(''p1'', ex_pair\<lparr>sp_secretHash := ''s'', sp_pubJwk := JNull\<rparr>)], ms_pending = []\<rparr>\<rparr>)"
  by (rule listRedacted_reveals_nothing_else) (simp add: reg_list_def ms_list_def ex_registry_def)

end
