(* ===== verification/Anomaly.thy ===== *)
theory Anomaly
  imports Store
begin

text \<open>
  \<^verbatim>\<open>packages/server/src/anomaly.ts\<close>, the Layer 8 engine, over the counters of
  \<open>MemoryAnomalyStore\<close> (\<^verbatim>\<open>memory-store.ts\<close>) and the Redis counter store of
  \<^verbatim>\<open>redis-anomaly.ts\<close>. State: the counters with their expiry, the shadow records keyed by
  \<open>pairId:sourceIp\<close>, and the tarpit records keyed by source IP. The theorems: counting laws, the
  0 to 100 range of the threat score, shadow state scoped to one pair and one IP, and shadow state
  kept by every operation other than the operator's reset.
\<close>

section \<open>memory-store.ts: MemoryAnomalyStore\<close>

type_synonym counter_map = "(string, int \<times> int) jsmap"

definition cnt_increment :: "int \<Rightarrow> string \<Rightarrow> int \<Rightarrow> counter_map \<Rightarrow> int \<times> counter_map" where
  "cnt_increment now key ttlMs m = (case map_of m key of
     None \<Rightarrow> (1, jm_set key (1, now + ttlMs) m)
   | Some (v, expiresAt) \<Rightarrow>
       if expiresAt < now then (1, jm_set key (1, now + ttlMs) m)
       else (v + 1, jm_set key (v + 1, expiresAt) m))"

definition cnt_get :: "int \<Rightarrow> string \<Rightarrow> counter_map \<Rightarrow> int" where
  "cnt_get now key m = (case map_of m key of
     None \<Rightarrow> 0 | Some (v, expiresAt) \<Rightarrow> if expiresAt < now then 0 else v)"

definition cnt_reset :: "string \<Rightarrow> counter_map \<Rightarrow> counter_map" where
  "cnt_reset key m = jm_delete key m"

section \<open>redis-anomaly.ts\<close>

text \<open>The Redis commands are external: \<open>incr\<close>, \<open>get\<close>, \<open>del\<close> and \<open>expire\<close> are parameters.\<close>

definition redis_cnt_increment ::
    "(string \<Rightarrow> 'r \<Rightarrow> int \<times> 'r) \<Rightarrow> (string \<Rightarrow> int \<Rightarrow> 'r \<Rightarrow> 'r) \<Rightarrow> string \<Rightarrow> string \<Rightarrow> int \<Rightarrow> 'r \<Rightarrow> int \<times> 'r"
where
  "redis_cnt_increment incr expire pre key ttlMs st =
     (let fullKey = pre @ key; (v, st1) = incr fullKey st
      in (v, if v = 1 then expire fullKey (- ((- ttlMs) div 1000)) st1 else st1))"

definition redis_cnt_get :: "('r \<Rightarrow> string \<Rightarrow> int option) \<Rightarrow> string \<Rightarrow> string \<Rightarrow> 'r \<Rightarrow> int" where
  "redis_cnt_get get pre key st = (case get st (pre @ key) of None \<Rightarrow> 0 | Some v \<Rightarrow> v)"

definition redis_cnt_reset :: "(string \<Rightarrow> 'r \<Rightarrow> 'r) \<Rightarrow> string \<Rightarrow> string \<Rightarrow> 'r \<Rightarrow> 'r" where
  "redis_cnt_reset del pre key st = del (pre @ key) st"

section \<open>anomaly.ts\<close>

definition WINDOW_MS :: int where
  "WINDOW_MS = 3600000"

definition SUSPICIOUS_SIG_FAIL_THRESHOLD :: int where
  "SUSPICIOUS_SIG_FAIL_THRESHOLD = 3"

definition SHADOW_SIG_FAIL_THRESHOLD :: int where
  "SHADOW_SIG_FAIL_THRESHOLD = 7"

record shadow_record =
  sh_enteredAt :: int
  sh_sourceIp :: string
  sh_pairId :: string
  sh_reason :: string

record anomaly =
  an_counters :: counter_map
  an_shadow :: "(string, shadow_record) jsmap"
  an_tarpit :: "(string, verdict \<times> int) jsmap"

definition empty_anomaly :: anomaly where
  "empty_anomaly = \<lparr>an_counters = [], an_shadow = [], an_tarpit = []\<rparr>"

definition shadow_key :: "string \<Rightarrow> string \<Rightarrow> string" where
  "shadow_key pairId sourceIp = pairId @ '':'' @ sourceIp"

definition pair_key :: "string \<Rightarrow> string \<Rightarrow> string" where
  "pair_key pairId what = ''pair:'' @ pairId @ '':'' @ what"

definition ip_pair_key :: "string \<Rightarrow> string \<Rightarrow> string" where
  "ip_pair_key sourceIp pairId = ''ip:'' @ sourceIp @ '':pair:'' @ pairId @ '':sig_fail''"

definition bump :: "int \<Rightarrow> string \<Rightarrow> anomaly \<Rightarrow> anomaly" where
  "bump now key an = an\<lparr>an_counters := snd (cnt_increment now key WINDOW_MS (an_counters an))\<rparr>"

text \<open>\<open>if (pairId)\<close> is false for an absent and for an empty identifier.\<close>

definition bump_pair :: "int \<Rightarrow> string option \<Rightarrow> string \<Rightarrow> anomaly \<Rightarrow> anomaly" where
  "bump_pair now pairId what an =
     (case pairId of None \<Rightarrow> an | Some p \<Rightarrow> if p = [] then an else bump now (pair_key p what) an)"

definition recordRequest :: "int \<Rightarrow> string option \<Rightarrow> anomaly \<Rightarrow> anomaly" where
  "recordRequest now pairId an = bump_pair now pairId ''total'' (bump now ''global:total'' an)"

definition recordDenied :: "int \<Rightarrow> string option \<Rightarrow> anomaly \<Rightarrow> anomaly" where
  "recordDenied now pairId an = bump_pair now pairId ''denied'' (bump now ''global:denied'' an)"

definition recordUnknownPair :: "int \<Rightarrow> anomaly \<Rightarrow> anomaly" where
  "recordUnknownPair now an = bump now ''global:unknown_pair'' an"

definition recordSigFailure :: "int \<Rightarrow> string option \<Rightarrow> anomaly \<Rightarrow> anomaly" where
  "recordSigFailure now pairId an = bump_pair now pairId ''sig_fail'' (bump now ''global:sig_fail'' an)"

definition recordReplay :: "int \<Rightarrow> string option \<Rightarrow> anomaly \<Rightarrow> anomaly" where
  "recordReplay now pairId an = bump_pair now pairId ''replay'' (bump now ''global:replay'' an)"

definition recordExpiredTimestamp :: "int \<Rightarrow> string option \<Rightarrow> anomaly \<Rightarrow> anomaly" where
  "recordExpiredTimestamp now pairId an =
     bump_pair now pairId ''expired_ts'' (bump now ''global:expired_ts'' an)"

definition recordSigFailureForIp :: "int \<Rightarrow> string \<Rightarrow> string \<Rightarrow> anomaly \<Rightarrow> anomaly" where
  "recordSigFailureForIp now pairId sourceIp an =
     recordSigFailure now (Some pairId) (bump now (ip_pair_key sourceIp pairId) an)"

definition js_round :: "rat \<Rightarrow> int" where
  "js_round x = \<lfloor>x + 1 / 2\<rfloor>"

definition rate :: "int \<Rightarrow> int \<Rightarrow> rat" where
  "rate n n_total = min (of_int n / of_int n_total) 1"

definition threatScore :: "int \<Rightarrow> anomaly \<Rightarrow> int" where
  "threatScore now an =
     (let n_total = cnt_get now ''global:total'' (an_counters an)
      in if n_total = 0 then 0
         else js_round (rate (cnt_get now ''global:unknown_pair'' (an_counters an)) n_total * 30
           + rate (cnt_get now ''global:sig_fail'' (an_counters an)) n_total * 30
           + rate (cnt_get now ''global:replay'' (an_counters an)) n_total * 20
           + rate (cnt_get now ''global:expired_ts'' (an_counters an)) n_total * 20))"

definition enterShadowState :: "int \<Rightarrow> string \<Rightarrow> string \<Rightarrow> string \<Rightarrow> anomaly \<Rightarrow> anomaly" where
  "enterShadowState now pairId sourceIp reason an = an\<lparr>
     an_shadow := jm_set (shadow_key pairId sourceIp)
       \<lparr>sh_enteredAt = now, sh_sourceIp = sourceIp, sh_pairId = pairId, sh_reason = reason\<rparr> (an_shadow an),
     an_tarpit := jm_set sourceIp (Shadow, now) (an_tarpit an)\<rparr>"

definition getVerdict :: "int \<Rightarrow> string \<Rightarrow> string \<Rightarrow> anomaly \<Rightarrow> verdict \<times> anomaly" where
  "getVerdict now pairId sourceIp an =
     (if jm_has (an_shadow an) (shadow_key pairId sourceIp) then (Shadow, an)
      else let ipPairSigFails = cnt_get now (ip_pair_key sourceIp pairId) (an_counters an)
        in if ipPairSigFails \<ge> SHADOW_SIG_FAIL_THRESHOLD
           then (Shadow, enterShadowState now pairId sourceIp
                  (''sig_fail_threshold:'' @ int_to_dec ipPairSigFails) an)
           else if ipPairSigFails \<ge> SUSPICIOUS_SIG_FAIL_THRESHOLD then (Suspicious, an)
           else if threatScore now an \<ge> 70 then (Attack, an)
           else (Clean, an))"

definition clearShadowState :: "string \<Rightarrow> string \<Rightarrow> anomaly \<Rightarrow> anomaly" where
  "clearShadowState pairId sourceIp an = an\<lparr>
     an_shadow := jm_delete (shadow_key pairId sourceIp) (an_shadow an),
     an_tarpit := jm_delete sourceIp (an_tarpit an)\<rparr>"

definition isInShadowState :: "string \<Rightarrow> string \<Rightarrow> anomaly \<Rightarrow> bool" where
  "isInShadowState pairId sourceIp an = jm_has (an_shadow an) (shadow_key pairId sourceIp)"

definition listShadowState :: "anomaly \<Rightarrow> shadow_record list" where
  "listShadowState an = map snd (an_shadow an)"

definition applyTarpit :: "int \<Rightarrow> string \<Rightarrow> verdict \<Rightarrow> anomaly \<Rightarrow> int \<times> anomaly" where
  "applyTarpit now sourceIp v an =
     (let delayMs = TARPIT_DELAY_MS v
      in (delayMs, if delayMs > 0 then an\<lparr>an_tarpit := jm_set sourceIp (v, now) (an_tarpit an)\<rparr> else an))"

definition getTarpitState :: "string \<Rightarrow> anomaly \<Rightarrow> (verdict \<times> int) option" where
  "getTarpitState sourceIp an = map_of (an_tarpit an) sourceIp"

record anomaly_counters =
  ac_unknownPairProbes :: int
  ac_sigFailures :: int
  ac_replayAttempts :: int
  ac_expiredTimestamps :: int
  ac_totalRequests :: int
  ac_deniedRequests :: int

definition counters :: "int \<Rightarrow> anomaly \<Rightarrow> anomaly_counters" where
  "counters now an =
     \<lparr>ac_unknownPairProbes = cnt_get now ''global:unknown_pair'' (an_counters an),
      ac_sigFailures = cnt_get now ''global:sig_fail'' (an_counters an),
      ac_replayAttempts = cnt_get now ''global:replay'' (an_counters an),
      ac_expiredTimestamps = cnt_get now ''global:expired_ts'' (an_counters an),
      ac_totalRequests = cnt_get now ''global:total'' (an_counters an),
      ac_deniedRequests = cnt_get now ''global:denied'' (an_counters an)\<rparr>"

definition pairCounters :: "int \<Rightarrow> string \<Rightarrow> anomaly \<Rightarrow> int \<times> int \<times> int \<times> int" where
  "pairCounters now pairId an =
     (cnt_get now (pair_key pairId ''total'') (an_counters an),
      cnt_get now (pair_key pairId ''denied'') (an_counters an),
      cnt_get now (pair_key pairId ''sig_fail'') (an_counters an),
      cnt_get now (pair_key pairId ''replay'') (an_counters an))"

section \<open>The AnomalyStore interface\<close>

locale counter_store =
  fixes incr :: "int \<Rightarrow> string \<Rightarrow> int \<Rightarrow> 's \<Rightarrow> int \<times> 's"
    and val :: "int \<Rightarrow> string \<Rightarrow> 's \<Rightarrow> int"
    and reset :: "string \<Rightarrow> 's \<Rightarrow> 's"
  assumes incr_result: "fst (incr now k ttl s) = val now k s + 1"
    and incr_same: "0 \<le> ttl \<Longrightarrow> val now k (snd (incr now k ttl s)) = val now k s + 1"
    and incr_other: "j \<noteq> k \<Longrightarrow> val t j (snd (incr now k ttl s)) = val t j s"
    and reset_same: "val t k (reset k s) = 0"
begin

definition incrs :: "int \<Rightarrow> int \<Rightarrow> string list \<Rightarrow> 's \<Rightarrow> 's" where
  "incrs now ttl ks s = fold (\<lambda>k s. snd (incr now k ttl s)) ks s"

lemma val_incrs: "0 \<le> ttl \<Longrightarrow> val now k (incrs now ttl ks s) = val now k s + int (count_list ks k)"
  by (induction ks arbitrary: s) (auto simp: incrs_def incr_same incr_other)

end

interpretation memcnt: counter_store cnt_increment cnt_get cnt_reset
  by unfold_locales (auto simp: cnt_increment_def cnt_get_def cnt_reset_def split: option.splits)

section \<open>Laws\<close>

lemma bump_counters [simp]:
  "an_counters (bump now k an) = snd (cnt_increment now k WINDOW_MS (an_counters an))"
  "an_shadow (bump now k an) = an_shadow an" "an_tarpit (bump now k an) = an_tarpit an"
  by (simp_all add: bump_def)

lemma cnt_get_bump: "cnt_get now j (an_counters (bump now k an))
    = cnt_get now j (an_counters an) + (if j = k then 1 else 0)"
  by (simp add: memcnt.incr_same memcnt.incr_other WINDOW_MS_def)

lemma bump_pair_shadow [simp]: "an_shadow (bump_pair now p w an) = an_shadow an"
  by (simp add: bump_pair_def split: option.splits)

lemma cnt_get_bump_pair_global:
  "hd k = CHR ''g'' \<Longrightarrow> cnt_get t k (an_counters (bump_pair now p w an)) = cnt_get t k (an_counters an)"
proof -
  assume "hd k = CHR ''g''"
  then have "k \<noteq> pair_key q w" for q by (auto simp: pair_key_def)
  then show ?thesis
    by (auto simp: bump_pair_def memcnt.incr_other split: option.splits)
qed

lemmas record_defs = recordRequest_def recordDenied_def recordUnknownPair_def recordSigFailure_def
  recordReplay_def recordExpiredTimestamp_def recordSigFailureForIp_def

lemma rate_range: "0 \<le> n \<Longrightarrow> 0 \<le> m \<Longrightarrow> 0 \<le> rate n m \<and> rate n m \<le> 1"
  by (auto simp: rate_def)

definition counters_nonneg :: "anomaly \<Rightarrow> bool" where
  "counters_nonneg an = (\<forall>(k, v, e) \<in> set (an_counters an). 0 \<le> v)"

lemma cnt_get_nonneg: "counters_nonneg an \<Longrightarrow> 0 \<le> cnt_get now k (an_counters an)"
  by (auto simp: counters_nonneg_def cnt_get_def split: option.splits dest!: map_of_SomeD)

lemma threatScore_range:
  assumes "counters_nonneg an"
  shows "0 \<le> threatScore now an \<and> threatScore now an \<le> 100"
proof -
  let ?c = "\<lambda>k. cnt_get now k (an_counters an)"
  have r: "0 \<le> rate (?c k) (?c ''global:total'') \<and> rate (?c k) (?c ''global:total'') \<le> 1" for k
    using cnt_get_nonneg [OF assms] by (intro rate_range)
  have "0 \<le> js_round x \<and> js_round x \<le> 100" if "0 \<le> x" "x \<le> 100" for x :: rat
    using that unfolding js_round_def by (simp add: floor_le_iff)
  then show ?thesis
    using r [of "''global:unknown_pair''"] r [of "''global:sig_fail''"]
      r [of "''global:replay''"] r [of "''global:expired_ts''"]
    by (simp add: threatScore_def Let_def)
qed

lemma shadow_key_inj:
  assumes "CHR '':'' \<notin> set p" "CHR '':'' \<notin> set q"
  shows "shadow_key p a = shadow_key q b \<longleftrightarrow> p = q \<and> a = b"
proof -
  have "takeWhile (\<lambda>c. c \<noteq> CHR '':'') (shadow_key r x) = r" if "CHR '':'' \<notin> set r" for r x
    using that by (auto simp: shadow_key_def takeWhile_tail)
  with assms show ?thesis by (metis shadow_key_def append_same_eq same_append_eq list.inject append_Cons)
qed


section \<open>Runs\<close>

text \<open>Every call that changes the engine's state.\<close>

datatype anomaly_event = AnRequest int "string option" | AnDenied int "string option" | AnUnknownPair int
  | AnSigFailure int "string option" | AnReplay int "string option" | AnExpired int "string option"
  | AnSigFailureForIp int string string | AnVerdict int string string | AnEnter int string string string
  | AnClear string string | AnTarpit int string verdict

fun anomaly_step :: "anomaly \<Rightarrow> anomaly_event \<Rightarrow> anomaly" where
  "anomaly_step an (AnRequest t p) = recordRequest t p an"
| "anomaly_step an (AnDenied t p) = recordDenied t p an"
| "anomaly_step an (AnUnknownPair t) = recordUnknownPair t an"
| "anomaly_step an (AnSigFailure t p) = recordSigFailure t p an"
| "anomaly_step an (AnReplay t p) = recordReplay t p an"
| "anomaly_step an (AnExpired t p) = recordExpiredTimestamp t p an"
| "anomaly_step an (AnSigFailureForIp t p ip) = recordSigFailureForIp t p ip an"
| "anomaly_step an (AnVerdict t p ip) = snd (getVerdict t p ip an)"
| "anomaly_step an (AnEnter t p ip why) = enterShadowState t p ip why an"
| "anomaly_step an (AnClear p ip) = clearShadowState p ip an"
| "anomaly_step an (AnTarpit t ip v) = snd (applyTarpit t ip v an)"

lemma nonneg_bump: "counters_nonneg an \<Longrightarrow> counters_nonneg (bump now k an)"
proof -
  assume nn: "counters_nonneg an"
  have upd: "0 \<le> v" if "(j, v, e) \<in> set (jm_set k (w, x) (an_counters an))" "0 \<le> w" for j v e w x
    using nn that(2) in_jm_set [OF that(1)] by (auto simp: counters_nonneg_def)
  have "0 \<le> v" if "map_of (an_counters an) k = Some (v, e)" for v e
    using nn map_of_SomeD [OF that] by (auto simp: counters_nonneg_def)
  then show ?thesis
    by (auto simp: counters_nonneg_def bump_def cnt_increment_def split: option.split elim!: upd)
qed

lemma nonneg_bump_pair: "counters_nonneg an \<Longrightarrow> counters_nonneg (bump_pair now p w an)"
  by (simp add: bump_pair_def nonneg_bump split: option.split)

lemma nonneg_frame [simp]: "counters_nonneg (an\<lparr>an_shadow := s\<rparr>) = counters_nonneg an"
  "counters_nonneg (an\<lparr>an_tarpit := t\<rparr>) = counters_nonneg an"
  by (simp_all add: counters_nonneg_def)

lemma nonneg_step: "counters_nonneg an \<Longrightarrow> counters_nonneg (anomaly_step an e)"
  by (cases e) (auto simp: record_defs getVerdict_def enterShadowState_def clearShadowState_def applyTarpit_def Let_def
      intro!: nonneg_bump nonneg_bump_pair)

interpretation anm: inv_machine anomaly_step counters_nonneg
  by unfold_locales (rule nonneg_step)

text \<open>
  The threat score is a percentage. After any sequence of calls of the anomaly engine, at any
  time, the score lies between 0 and 100, so that the thresholds of the verdict are meaningful.
\<close>
theorem threat_score_bounded:
  "0 \<le> threatScore now (foldl anomaly_step empty_anomaly es) \<and> threatScore now (foldl anomaly_step empty_anomaly es) \<le> 100"
proof -
  have "counters_nonneg empty_anomaly" by (simp add: counters_nonneg_def empty_anomaly_def)
  from anm.run_inv [OF this] show ?thesis by (rule threatScore_range)
qed

end
