(* ===== verification/Rate_Limiter.thy ===== *)
theory Rate_Limiter
  imports Prelude
begin

text \<open>
  \<^verbatim>\<open>packages/server/src/rate-limiter.ts\<close>: the in-memory sliding-window limiter with its
  capacity guard, and the Redis limiter over an external sorted-set client. The theorem about the
  memory limiter is the sliding-window bound: over any run with non-decreasing clock readings and
  no eviction, every window of \<open>windowMs\<close> milliseconds holds at most \<open>limit\<close> allowed requests.
\<close>

definition MAX_TRACKED_KEYS :: nat where
  "MAX_TRACKED_KEYS = 50000"

definition RATE_EVICT_COUNT :: nat where
  "RATE_EVICT_COUNT = 5000"

record rate_limit_result =
  rl_allowed :: bool
  rl_remaining :: int
  rl_resetAt :: int

record rate_limiter =
  rl_windows :: "(string, int list) jsmap"
  rl_limit :: int
  rl_windowMs :: int

definition rate_check :: "int \<Rightarrow> string \<Rightarrow> rate_limiter \<Rightarrow> rate_limit_result \<times> rate_limiter" where
  "rate_check now key rl =
     (let cutoff = now - rl_windowMs rl;
          windows = (if length (rl_windows rl) \<ge> MAX_TRACKED_KEYS
                     then drop RATE_EVICT_COUNT (rl_windows rl) else rl_windows rl);
          kept = filter (\<lambda>t. t > cutoff) (case map_of windows key of None \<Rightarrow> [] | Some ts \<Rightarrow> ts);
          allowed = (int (length kept) < rl_limit rl);
          timestamps = (if allowed then kept @ [now] else kept)
      in (\<lparr>rl_allowed = allowed, rl_remaining = max 0 (rl_limit rl - int (length timestamps)),
           rl_resetAt = (case timestamps of [] \<Rightarrow> now | t # _ \<Rightarrow> t) + rl_windowMs rl\<rparr>,
          rl\<lparr>rl_windows := jm_set key timestamps windows\<rparr>))"

text \<open>
  The Redis limiter issues four commands; the client is external and a parameter: the number of
  members left after the expired ones are removed, and the state after adding a member.
\<close>

definition redis_rate_check ::
    "(string \<Rightarrow> int \<Rightarrow> 'r \<Rightarrow> 'r) \<Rightarrow> ('r \<Rightarrow> string \<Rightarrow> int) \<Rightarrow> (string \<Rightarrow> int \<Rightarrow> 'r \<Rightarrow> 'r) \<Rightarrow>
     string \<Rightarrow> int \<Rightarrow> int \<Rightarrow> int \<Rightarrow> string \<Rightarrow> 'r \<Rightarrow> rate_limit_result \<times> 'r"
where
  "redis_rate_check zremrangebyscore zcard zadd_expire pre limit windowMs now key st =
     (let cutoff = now - windowMs; fullKey = pre @ key;
          st1 = zremrangebyscore fullKey cutoff st; count = zcard st1 fullKey
      in if count \<ge> limit
         then (\<lparr>rl_allowed = False, rl_remaining = 0, rl_resetAt = now + windowMs\<rparr>, st1)
         else (\<lparr>rl_allowed = True, rl_remaining = limit - count - 1, rl_resetAt = now + windowMs\<rparr>,
               zadd_expire fullKey now st1))"

section \<open>Runs\<close>

fun rate_run :: "rate_limiter \<Rightarrow> (int \<times> string) list \<Rightarrow> rate_limiter" where
  "rate_run rl [] = rl"
| "rate_run rl ((now, key) # es) = rate_run (snd (rate_check now key rl)) es"

fun allowed_times :: "string \<Rightarrow> rate_limiter \<Rightarrow> (int \<times> string) list \<Rightarrow> int list" where
  "allowed_times k rl [] = []"
| "allowed_times k rl ((now, key) # es) =
     (if key = k \<and> rl_allowed (fst (rate_check now key rl)) then [now] else [])
     @ allowed_times k (snd (rate_check now key rl)) es"

fun rate_fits :: "rate_limiter \<Rightarrow> (int \<times> string) list \<Rightarrow> bool" where
  "rate_fits rl [] = True"
| "rate_fits rl ((now, key) # es) =
     (length (rl_windows rl) < MAX_TRACKED_KEYS \<and> rate_fits (snd (rate_check now key rl)) es)"

definition in_window :: "int \<Rightarrow> int \<Rightarrow> int list \<Rightarrow> int list" where
  "in_window w t xs = filter (\<lambda>x. t - w < x \<and> x \<le> t) xs"

definition stored :: "rate_limiter \<Rightarrow> string \<Rightarrow> int list" where
  "stored rl k = (case map_of (rl_windows rl) k of None \<Rightarrow> [] | Some ts \<Rightarrow> ts)"

text \<open>
  The limiter's record of a key agrees with the log of its allowed requests from the cutoff of
  the last check on, and the log keeps the bound.
\<close>

definition rate_inv :: "rate_limiter \<Rightarrow> string \<Rightarrow> int \<Rightarrow> int list \<Rightarrow> bool" where
  "rate_inv rl k now log = (
     (\<forall>c \<ge> now - rl_windowMs rl. filter (\<lambda>x. c < x) (stored rl k) = filter (\<lambda>x. c < x) log)
     \<and> (\<forall>x \<in> set log. x \<le> now)
     \<and> (\<forall>t. int (length (in_window (rl_windowMs rl) t log)) \<le> max 0 (rl_limit rl)))"

lemma rate_check_config [simp]:
  "rl_limit (snd (rate_check now key rl)) = rl_limit rl"
  "rl_windowMs (snd (rate_check now key rl)) = rl_windowMs rl"
  by (simp_all add: rate_check_def Let_def)

lemma rate_check_allowed:
  "length (rl_windows rl) < MAX_TRACKED_KEYS \<Longrightarrow> rl_allowed (fst (rate_check now k rl)) \<longleftrightarrow>
     int (length (filter (\<lambda>x. now - rl_windowMs rl < x) (stored rl k))) < rl_limit rl"
  by (simp add: rate_check_def Let_def stored_def)

lemma stored_rate_check:
  assumes "length (rl_windows rl) < MAX_TRACKED_KEYS"
  shows "stored (snd (rate_check now key rl)) k = (if k \<noteq> key then stored rl k
     else filter (\<lambda>x. now - rl_windowMs rl < x) (stored rl k)
       @ (if rl_allowed (fst (rate_check now key rl)) then [now] else []))"
  using assms by (simp add: rate_check_def Let_def stored_def)

lemma filter_mono_cutoff:
  "(c :: int) \<le> d \<Longrightarrow> filter (\<lambda>x. d < x) (filter (\<lambda>x. c < x) xs) = filter (\<lambda>x. d < x) xs"
  by (auto intro!: filter_cong)

lemma rate_inv_allowed:
  assumes inv: "rate_inv rl k prev log" and le: "prev \<le> now" and w: "0 \<le> rl_windowMs rl"
    and fit: "length (rl_windows rl) < MAX_TRACKED_KEYS"
    and al: "rl_allowed (fst (rate_check now k rl))"
  shows "int (length (in_window (rl_windowMs rl) t (log @ [now]))) \<le> max 0 (rl_limit rl)"
proof (cases "now \<le> t \<and> t - rl_windowMs rl < now")
  case False
  then have "in_window (rl_windowMs rl) t (log @ [now]) = in_window (rl_windowMs rl) t log"
    by (auto simp: in_window_def)
  with inv show ?thesis by (simp add: rate_inv_def)
next
  case True
  let ?c = "now - rl_windowMs rl"
  have "filter (\<lambda>x. ?c < x) (stored rl k) = filter (\<lambda>x. ?c < x) log"
    using inv le by (auto simp: rate_inv_def)
  with al fit have lt: "int (length (filter (\<lambda>x. ?c < x) log)) < rl_limit rl"
    by (simp add: rate_check_allowed)
  have "filter (\<lambda>x. t - rl_windowMs rl < x \<and> x \<le> t) log
      = filter (\<lambda>x. t - rl_windowMs rl < x \<and> x \<le> t) (filter (\<lambda>x. ?c < x) log)"
    using True by (auto intro!: filter_cong)
  then have "length (in_window (rl_windowMs rl) t log) \<le> length (filter (\<lambda>x. ?c < x) log)"
    unfolding in_window_def by (metis length_filter_le)
  with lt True show ?thesis by (simp add: in_window_def)
qed

lemma rate_inv_step:
  assumes inv: "rate_inv rl k prev log" and le: "prev \<le> now" and w: "0 \<le> rl_windowMs rl"
    and fit: "length (rl_windows rl) < MAX_TRACKED_KEYS"
  shows "rate_inv (snd (rate_check now key rl)) k now
    (log @ (if key = k \<and> rl_allowed (fst (rate_check now key rl)) then [now] else []))"
proof -
  have agree: "filter (\<lambda>x. c < x) (stored rl k) = filter (\<lambda>x. c < x) log"
    if "now - rl_windowMs rl \<le> c" for c
    using inv that le by (auto simp: rate_inv_def)
  have old: "\<forall>x \<in> set log. x \<le> now" using inv le by (auto simp: rate_inv_def)
  have bound: "\<forall>t. int (length (in_window (rl_windowMs rl) t log)) \<le> max 0 (rl_limit rl)"
    using inv by (simp add: rate_inv_def)
  have "\<forall>t. int (length (in_window (rl_windowMs rl) t
      (log @ (if key = k \<and> rl_allowed (fst (rate_check now key rl)) then [now] else []))))
      \<le> max 0 (rl_limit rl)"
    using bound rate_inv_allowed [OF inv le w fit] by auto
  moreover have "\<forall>c \<ge> now - rl_windowMs rl. filter (\<lambda>x. c < x) (stored (snd (rate_check now key rl)) k)
      = filter (\<lambda>x. c < x) (log @ (if key = k \<and> rl_allowed (fst (rate_check now key rl)) then [now] else []))"
    using agree by (auto simp: stored_rate_check [OF fit] filter_mono_cutoff simp del: filter_filter)
  ultimately show ?thesis using old by (auto simp: rate_inv_def)
qed

lemma rate_run_inv:
  assumes "rate_inv rl k prev log" "sorted (prev # map fst es)" "0 \<le> rl_windowMs rl" "rate_fits rl es"
  shows "\<exists>now. rate_inv (rate_run rl es) k now (log @ allowed_times k rl es)"
  using assms
proof (induction es arbitrary: rl prev log)
  case (Cons e es)
  obtain now key where e: "e = (now, key)" by (cases e)
  with Cons.prems have "prev \<le> now" and fit: "length (rl_windows rl) < MAX_TRACKED_KEYS" by auto
  note step = rate_inv_step [OF Cons.prems(1) this(1) Cons.prems(3) fit, of key]
  from Cons.IH [OF step] Cons.prems e show ?case by simp
qed auto

lemma rate_limit_bound_from:
  assumes "rl_windows rl = []" "sorted (map fst es)" "0 \<le> rl_windowMs rl" "rate_fits rl es"
  shows "int (length (in_window (rl_windowMs rl) t (allowed_times k rl es))) \<le> max 0 (rl_limit rl)"
proof (cases es)
  case Nil
  then show ?thesis by (simp add: in_window_def)
next
  case (Cons e es')
  have "rate_inv rl k (fst e) []" using assms(1) by (simp add: rate_inv_def stored_def in_window_def)
  from rate_run_inv [OF this _ assms(3,4)] assms(2) Cons
  obtain now where "rate_inv (rate_run rl es) k now (allowed_times k rl es)" by auto
  moreover have "rl_windowMs (rate_run r xs) = rl_windowMs r \<and> rl_limit (rate_run r xs) = rl_limit r"
    for r xs by (induction r xs rule: rate_run.induct) auto
  ultimately show ?thesis by (simp add: rate_inv_def)
qed


text \<open>
  C26. The sliding-window bound. From an empty limiter and over any requests with non-decreasing
  clock readings, as long as the number of tracked keys stays below the capacity guard, every window
  of \<open>windowMs\<close> milliseconds contains at most \<open>limit\<close> allowed requests of a key.
\<close>
theorem rate_limit_bound:
  assumes "rl_windows rl = []" "sorted (map fst es)" "0 \<le> rl_windowMs rl" "rate_fits rl es"
  shows "int (length (in_window (rl_windowMs rl) t (allowed_times k rl es))) \<le> max 0 (rl_limit rl)"
  using rate_limit_bound_from [OF assms] .

definition ex_limiter :: rate_limiter where
  "ex_limiter = \<lparr>rl_windows = [], rl_limit = 1, rl_windowMs = 10\<rparr>"

lemma rate_limit_bound_witness:
  "int (length (in_window (rl_windowMs ex_limiter) 7 (allowed_times ''k'' ex_limiter [(5, ''k''), (6, ''k'')]))) \<le> 1"
proof -
  have "rate_fits ex_limiter [(5, ''k''), (6, ''k'')]"
    by (simp add: ex_limiter_def MAX_TRACKED_KEYS_def rate_check_def Let_def)
  moreover have "rl_windows ex_limiter = []" "rl_limit ex_limiter = 1" "rl_windowMs ex_limiter = 10"
    by (simp_all add: ex_limiter_def)
  moreover have "sorted (map fst [(5 :: int, ''k''), (6, ''k'')])" by simp
  ultimately show ?thesis
    using rate_limit_bound [of ex_limiter "[(5, ''k''), (6, ''k'')]" 7 "''k''"] by (metis max_def order_refl zero_le_numeral zero_le_one)
qed

end
