(* ===== verification/Audit_Log.thy ===== *)
theory Audit_Log
  imports Core
begin

text \<open>
  \<^verbatim>\<open>packages/server/src/audit.ts\<close>: the hash-chained audit log. State of \<open>MemoryAuditLog\<close>: the
  retained entries, the counters and the head hash, with the module's identifier counter beside
  them. The SHA-256 of \<open>node:crypto\<close> is the \<open>wc_sha256\<close> of the platform record. The interface
  \<open>hash_chain\<close> states what the verifier needs of an entry's preimage and proves that two chains
  that agree at one entry agree below it; it is interpreted on the audit entries.
\<close>

section \<open>Data\<close>

datatype audit_action = VerifyPass | VerifyFail | Register | RevokeAction | RotateAction | Lockout
  | ShadowModeHit | ShadowModeEnter | GhostPairTriggered

datatype audit_severity = SevInfo | SevWarn | SevCriticalLower | SevHigh | SevCritical

fun action_text :: "audit_action \<Rightarrow> string" where
  "action_text VerifyPass = ''verify_pass''"
| "action_text VerifyFail = ''verify_fail''"
| "action_text Register = ''register''"
| "action_text RevokeAction = ''revoke''"
| "action_text RotateAction = ''rotate''"
| "action_text Lockout = ''lockout''"
| "action_text ShadowModeHit = ''shadow_mode_hit''"
| "action_text ShadowModeEnter = ''shadow_mode_enter''"
| "action_text GhostPairTriggered = ''ghost_pair_triggered''"

fun severity_text :: "audit_severity \<Rightarrow> string" where
  "severity_text SevInfo = ''info''"
| "severity_text SevWarn = ''warn''"
| "severity_text SevCriticalLower = ''critical''"
| "severity_text SevHigh = ''HIGH''"
| "severity_text SevCritical = ''CRITICAL''"

record audit_input =
  ai_action :: audit_action
  ai_severity :: "audit_severity option"
  ai_pairId :: "string option"
  ai_error :: "string option"
  ai_ip :: "string option"
  ai_method :: "string option"
  ai_path :: "string option"
  ai_userAgent :: "string option"
  ai_requestId :: "string option"
  ai_detail :: "string option"

text \<open>An entry is the input with the derived fields; the severity is optional as in \<open>AuditEntry\<close>.\<close>

record audit_entry = audit_input +
  ae_id :: string
  ae_timestamp :: int
  ae_seq :: int
  ae_prevHash :: string
  ae_chainHash :: string

record chain_head =
  ch_seq :: int
  ch_chainHash :: string
  ch_count :: int

datatype verify_result = ValidChain | BrokenChain int string

section \<open>Hashing\<close>

definition GENESIS_HASH :: string where
  "GENESIS_HASH = replicate 64 (CHR ''0'')"

definition base36_digit :: "nat \<Rightarrow> char" where
  "base36_digit d = (if d < 10 then char_of (48 + d) else char_of (87 + d))"

fun to_base36 :: "nat \<Rightarrow> string" where
  "to_base36 n = (if n < 36 then [base36_digit n] else to_base36 (n div 36) @ [base36_digit (n mod 36)])"

declare to_base36.simps [simp del]

definition auditId :: "int \<Rightarrow> nat \<Rightarrow> string" where
  "auditId now counter = ''audit_'' @ int_to_dec now @ ''_'' @ to_base36 counter"

definition sha256hex :: "webcrypto \<Rightarrow> string \<Rightarrow> string" where
  "sha256hex cr input = concat (map hex_byte (wc_sha256 cr (utf8 input)))"

definition or_null :: "string option \<Rightarrow> json" where
  "or_null v = (case v of None \<Rightarrow> JNull | Some s \<Rightarrow> JStr s)"

definition severity_of :: "('a) audit_input_scheme \<Rightarrow> audit_severity" where
  "severity_of e = (case ai_severity e of None \<Rightarrow> SevInfo | Some s \<Rightarrow> s)"

definition chain_fields :: "audit_entry \<Rightarrow> json" where
  "chain_fields e = JArr [JNum (ae_seq e), JStr (ae_prevHash e), JStr (ae_id e), JNum (ae_timestamp e),
     JStr (action_text (ai_action e)), JStr (severity_text (severity_of e)),
     or_null (ai_pairId e), or_null (ai_error e), or_null (ai_ip e), or_null (ai_method e),
     or_null (ai_path e), or_null (ai_userAgent e), or_null (ai_requestId e), or_null (ai_detail e)]"

definition chainPreimage :: "audit_entry \<Rightarrow> string" where
  "chainPreimage e = stringify (chain_fields e)"

definition computeChainHash :: "webcrypto \<Rightarrow> audit_entry \<Rightarrow> string" where
  "computeChainHash cr e = sha256hex cr (chainPreimage e)"

section \<open>Verification\<close>

fun verify_links :: "webcrypto \<Rightarrow> audit_entry option \<Rightarrow> audit_entry list \<Rightarrow> verify_result" where
  "verify_links cr prev [] = ValidChain"
| "verify_links cr prev (e # es) =
     (if computeChainHash cr e \<noteq> ae_chainHash e then BrokenChain (ae_seq e) ''entry_hash_mismatch''
      else case prev of
        None \<Rightarrow> verify_links cr (Some e) es
      | Some p \<Rightarrow>
          if ae_seq e \<noteq> ae_seq p + 1 then BrokenChain (ae_seq e) ''non_contiguous_seq''
          else if ae_prevHash e \<noteq> ae_chainHash p then BrokenChain (ae_seq e) ''broken_link''
          else verify_links cr (Some e) es)"

definition verifyEntries :: "webcrypto \<Rightarrow> audit_entry list \<Rightarrow> chain_head option \<Rightarrow> verify_result" where
  "verifyEntries cr entries expectedHead =
     (let sorted = sort_key ae_seq entries
      in (case verify_links cr None sorted of
            BrokenChain s r \<Rightarrow> BrokenChain s r
          | ValidChain \<Rightarrow>
              (case expectedHead of
                 None \<Rightarrow> ValidChain
               | Some anchor \<Rightarrow>
                   if sorted = [] \<or> ae_seq (last sorted) < ch_seq anchor
                   then BrokenChain (ch_seq anchor) ''truncated_below_anchor''
                   else (case find (\<lambda>e. ae_seq e = ch_seq anchor) sorted of
                       None \<Rightarrow> BrokenChain (ch_seq anchor) ''anchor_mismatch''
                     | Some e \<Rightarrow> if ae_chainHash e \<noteq> ch_chainHash anchor
                         then BrokenChain (ch_seq anchor) ''anchor_mismatch'' else ValidChain))))"

section \<open>MemoryAuditLog\<close>

text \<open>\<open>al_maxSize = None\<close> is the default \<open>Infinity\<close>.\<close>

record audit_log =
  al_entries :: "audit_entry list"
  al_maxSize :: "nat option"
  al_seqCounter :: int
  al_headHash :: string
  al_totalWritten :: int
  al_idCounter :: nat

definition new_audit_log :: "nat option \<Rightarrow> audit_log" where
  "new_audit_log maxSize = \<lparr>al_entries = [], al_maxSize = maxSize, al_seqCounter = 0,
     al_headHash = GENESIS_HASH, al_totalWritten = 0, al_idCounter = 0\<rparr>"

definition input_severity :: "audit_input \<Rightarrow> audit_severity" where
  "input_severity i = (case ai_severity i of
     Some s \<Rightarrow> s
   | None \<Rightarrow> (case ai_error i of None \<Rightarrow> SevInfo | Some e \<Rightarrow> if e = [] then SevInfo else SevWarn))"

definition entry_of :: "audit_input \<Rightarrow> string \<Rightarrow> int \<Rightarrow> int \<Rightarrow> string \<Rightarrow> audit_entry" where
  "entry_of i eid now seq prevHash =
     (audit_input.extend (i\<lparr>ai_severity := Some (input_severity i)\<rparr>)
        \<lparr>ae_id = eid, ae_timestamp = now, ae_seq = seq, ae_prevHash = prevHash, ae_chainHash = []\<rparr>)"

definition seal :: "webcrypto \<Rightarrow> audit_entry \<Rightarrow> audit_entry" where
  "seal cr base = base\<lparr>ae_chainHash := computeChainHash cr base\<rparr>"

definition audit_write :: "webcrypto \<Rightarrow> int \<Rightarrow> audit_input \<Rightarrow> audit_log \<Rightarrow> audit_log" where
  "audit_write cr now i lg =
     (let seq = al_seqCounter lg + 1;
          counter = al_idCounter lg + 1;
          full = seal cr (entry_of i (auditId now counter) now seq (al_headHash lg));
          entries = al_entries lg @ [full];
          kept = (case al_maxSize lg of
             None \<Rightarrow> entries
           | Some n \<Rightarrow> if n < length entries then tl entries else entries)
      in lg\<lparr>al_entries := kept, al_seqCounter := seq, al_headHash := ae_chainHash full,
            al_totalWritten := al_totalWritten lg + 1, al_idCounter := counter\<rparr>)"

definition take_last :: "nat \<Rightarrow> 'a list \<Rightarrow> 'a list" where
  "take_last n xs = drop (length xs - n) xs"

text \<open>\<open>slice(-limit)\<close> with \<open>limit = 0\<close> is \<open>slice(0)\<close>, the whole array.\<close>

definition audit_query :: "string \<Rightarrow> nat \<Rightarrow> audit_log \<Rightarrow> audit_entry list" where
  "audit_query pairId limit lg =
     (let hits = filter (\<lambda>e. ai_pairId e = Some pairId) (al_entries lg)
      in rev (if limit = 0 then hits else take_last limit hits))"

definition audit_queryAll :: "nat \<Rightarrow> audit_log \<Rightarrow> audit_entry list" where
  "audit_queryAll limit lg = take limit (rev (al_entries lg))"

definition audit_head :: "audit_log \<Rightarrow> chain_head" where
  "audit_head lg = \<lparr>ch_seq = al_seqCounter lg, ch_chainHash = al_headHash lg, ch_count = al_totalWritten lg\<rparr>"

definition verifyChain :: "webcrypto \<Rightarrow> audit_log \<Rightarrow> chain_head option \<Rightarrow> verify_result" where
  "verifyChain cr lg expectedHead = verifyEntries cr (al_entries lg) expectedHead"

definition audit_snapshot :: "audit_log \<Rightarrow> audit_entry list" where
  "audit_snapshot lg = al_entries lg"

definition audit_writes :: "webcrypto \<Rightarrow> (int \<times> audit_input) list \<Rightarrow> audit_log \<Rightarrow> audit_log" where
  "audit_writes cr ws lg = fold (\<lambda>(now, i). audit_write cr now i) ws lg"

section \<open>The hash-chain interface\<close>

text \<open>
  What the chain argument needs of a log's entries: the preimage of an entry determines its
  position and its link to the entry before.
\<close>

locale hash_chain =
  fixes pre :: "'e \<Rightarrow> string"
    and seq_of :: "'e \<Rightarrow> int"
    and prev_of :: "'e \<Rightarrow> string"
    and hash_of :: "'e \<Rightarrow> string"
  assumes pre_seq: "pre a = pre b \<Longrightarrow> seq_of a = seq_of b"
    and pre_prev: "pre a = pre b \<Longrightarrow> prev_of a = prev_of b"
begin

fun linked :: "(string \<Rightarrow> string) \<Rightarrow> 'e list \<Rightarrow> bool" where
  "linked H [] = True"
| "linked H [e] = (H (pre e) = hash_of e)"
| "linked H (e # f # r) = (H (pre e) = hash_of e \<and> seq_of e = seq_of f + 1
     \<and> prev_of e = hash_of f \<and> linked H (f # r))"

lemma linked_tl: "linked H (e # es) \<Longrightarrow> linked H es"
  by (cases es) auto

lemma linked_hash: "linked H es \<Longrightarrow> e \<in> set es \<Longrightarrow> H (pre e) = hash_of e"
  by (induction H es rule: linked.induct) auto

lemma linked_seq: "linked H es \<Longrightarrow> i < length es \<Longrightarrow> seq_of (es ! i) = seq_of (hd es) - int i"
proof (induction H es arbitrary: i rule: linked.induct)
  case (3 H e f r)
  then show ?case by (cases i) auto
qed auto

text \<open>Newest first: chains that agree in the hash of their newest entry agree below it.\<close>

lemma chains_agree:
  assumes "linked H (e # es)" "linked H (g # gs)" "hash_of e = hash_of g"
    and "\<And>x y. x \<in> set (e # es) \<Longrightarrow> y \<in> set (g # gs) \<Longrightarrow> H (pre x) = H (pre y) \<Longrightarrow> pre x = pre y"
    and "i < length (e # es)" "i < length (g # gs)"
  shows "pre ((e # es) ! i) = pre ((g # gs) ! i) \<and> hash_of ((e # es) ! i) = hash_of ((g # gs) ! i)"
  using assms
proof (induction i arbitrary: e es g gs)
  case 0
  have "H (pre e) = H (pre g)" using linked_hash [OF 0(1), of e] linked_hash [OF 0(2), of g] 0(3) by simp
  with 0(3,4) show ?case by auto
next
  case (Suc i)
  obtain f r g' s where es: "es = f # r" and gs: "gs = g' # s"
    using Suc.prems(5,6) by (cases es; cases gs) auto
  have "H (pre e) = H (pre g)"
    using linked_hash [OF Suc.prems(1), of e] linked_hash [OF Suc.prems(2), of g] Suc.prems(3) by simp
  then have "pre e = pre g" using Suc.prems(4) by auto
  then have "prev_of e = prev_of g" by (rule pre_prev)
  then have "hash_of f = hash_of g'" using Suc.prems(1,2) es gs by simp
  moreover have "linked H (f # r)" "linked H (g' # s)" using Suc.prems(1,2) es gs linked_tl by auto
  moreover have "pre x = pre y" if "x \<in> set (f # r)" "y \<in> set (g' # s)" "H (pre x) = H (pre y)" for x y
    using Suc.prems(4) [of x y] that es gs by simp
  ultimately show ?case using Suc.IH [of f r g' s] Suc.prems(5,6) es gs by simp
qed

end

section \<open>The audit entries as a chain\<close>

lemma action_text_inj: "action_text a = action_text b \<Longrightarrow> a = b"
  by (cases a; cases b) auto

lemma severity_text_inj: "severity_text a = severity_text b \<Longrightarrow> a = b"
  by (cases a; cases b) auto

lemma or_null_inj: "or_null a = or_null b \<Longrightarrow> a = b"
  by (auto simp: or_null_def split: option.splits)

lemma wf_or_null [simp]: "wf_json (or_null v)"
  by (simp add: or_null_def split: option.splits)

lemma chain_fields_eq: "chainPreimage a = chainPreimage b \<Longrightarrow> chain_fields a = chain_fields b"
  unfolding chainPreimage_def by (rule stringify_inj) (simp_all add: chain_fields_def)

text \<open>The content of an entry: the severity defaulted as the hash defaults it, the hash itself left out.\<close>

definition content :: "audit_entry \<Rightarrow> audit_entry" where
  "content e = e\<lparr>ai_severity := Some (severity_of e), ae_chainHash := []\<rparr>"

lemma chainPreimage_inj:
  assumes "chainPreimage a = chainPreimage b"
  shows "content a = content b"
proof -
  note f = chain_fields_eq [OF assms, unfolded chain_fields_def json.inject list.inject]
  have "ai_action a = ai_action b" "severity_of a = severity_of b"
    using f action_text_inj severity_text_inj by auto
  moreover have "ai_pairId a = ai_pairId b" "ai_error a = ai_error b" "ai_ip a = ai_ip b"
    "ai_method a = ai_method b" "ai_path a = ai_path b" "ai_userAgent a = ai_userAgent b"
    "ai_requestId a = ai_requestId b" "ai_detail a = ai_detail b"
    using f or_null_inj by auto
  ultimately show ?thesis using f by (cases a; cases b) (simp add: content_def)
qed

interpretation achain: hash_chain chainPreimage ae_seq ae_prevHash ae_chainHash
proof
  fix a b assume "chainPreimage a = chainPreimage b"
  then have "content a = content b" by (rule chainPreimage_inj)
  then show "ae_seq a = ae_seq b" "ae_prevHash a = ae_prevHash b"
    by (cases a; cases b; simp add: content_def)+
qed

abbreviation chained :: "webcrypto \<Rightarrow> audit_entry list \<Rightarrow> bool" where
  "chained cr es \<equiv> achain.linked (sha256hex cr) (rev es)"

lemma linked_snoc:
  "achain.linked H (xs @ [f, e]) \<longleftrightarrow> achain.linked H (xs @ [f]) \<and> H (chainPreimage e) = ae_chainHash e
     \<and> ae_seq f = ae_seq e + 1 \<and> ae_prevHash f = ae_chainHash e"
proof (induction xs)
  case (Cons x xs)
  then show ?case by (cases xs) auto
qed auto

lemma linked_drop: "achain.linked H xs \<Longrightarrow> achain.linked H (drop n xs)"
proof (induction n arbitrary: xs)
  case (Suc n)
  show ?case
  proof (cases xs)
    case (Cons y ys)
    with Suc.prems have "achain.linked H ys" using achain.linked_tl by blast
    with Suc.IH Cons show ?thesis by simp
  qed simp
qed simp

lemma chained_Cons2:
  "chained cr (e # f # r) \<longleftrightarrow> chained cr (f # r) \<and> computeChainHash cr e = ae_chainHash e
     \<and> ae_seq f = ae_seq e + 1 \<and> ae_prevHash f = ae_chainHash e"
  using linked_snoc [of "sha256hex cr" "rev r" f e] by (simp add: computeChainHash_def)

lemma verify_links_Some:
  "computeChainHash cr p = ae_chainHash p \<Longrightarrow>
     verify_links cr (Some p) es = ValidChain \<longleftrightarrow> chained cr (p # es)"
proof (induction es arbitrary: p)
  case (Cons e es)
  show ?case
  proof (cases "computeChainHash cr e = ae_chainHash e \<and> ae_seq e = ae_seq p + 1 \<and> ae_prevHash e = ae_chainHash p")
    case True
    then show ?thesis using Cons.IH [of e] Cons.prems by (simp add: chained_Cons2 del: rev.simps)
  next
    case False
    moreover have "chained cr (e # es) \<Longrightarrow> computeChainHash cr e = ae_chainHash e"
      using achain.linked_hash [of "sha256hex cr" "rev (e # es)" e] by (simp add: computeChainHash_def)
    ultimately show ?thesis by (auto simp: chained_Cons2 simp del: rev.simps)
  qed
qed (simp add: computeChainHash_def)

lemma verify_links_iff: "verify_links cr None es = ValidChain \<longleftrightarrow> chained cr es"
proof (cases es)
  case (Cons e r)
  moreover have "chained cr (e # r) \<Longrightarrow> computeChainHash cr e = ae_chainHash e"
    using achain.linked_hash [of "sha256hex cr" "rev (e # r)" e] by (simp add: computeChainHash_def)
  ultimately show ?thesis using verify_links_Some [of cr e r] by (auto simp del: rev.simps)
qed simp

lemma verifyEntries_valid_iff:
  "verifyEntries cr es anchor = ValidChain \<longleftrightarrow> chained cr (sort_key ae_seq es) \<and>
     (case anchor of None \<Rightarrow> True | Some h \<Rightarrow> es \<noteq> [] \<and> ch_seq h \<le> ae_seq (last (sort_key ae_seq es)) \<and>
        (\<exists>e. find (\<lambda>e. ae_seq e = ch_seq h) (sort_key ae_seq es) = Some e \<and> ae_chainHash e = ch_chainHash h))"
proof -
  have "sort_key ae_seq es = [] \<longleftrightarrow> es = []" by (metis length_0_conv length_sort)
  then show ?thesis
    by (auto simp: verifyEntries_def Let_def verify_links_iff [symmetric] simp del: rev.simps
        split: verify_result.splits option.splits if_splits)
qed

subsection \<open>Genuine logs\<close>

definition log_ok :: "webcrypto \<Rightarrow> audit_log \<Rightarrow> bool" where
  "log_ok cr lg = (chained cr (al_entries lg) \<and> (al_entries lg \<noteq> [] \<longrightarrow>
     ae_seq (last (al_entries lg)) = al_seqCounter lg \<and> ae_chainHash (last (al_entries lg)) = al_headHash lg))"

lemma seal_hash: "sha256hex cr (chainPreimage (seal cr e)) = ae_chainHash (seal cr e)"
  by (simp add: seal_def computeChainHash_def chainPreimage_def chain_fields_def severity_of_def)

lemma chained_append:
  assumes "chained cr es" "sha256hex cr (chainPreimage e) = ae_chainHash e"
    and "es \<noteq> [] \<Longrightarrow> ae_seq e = ae_seq (last es) + 1 \<and> ae_prevHash e = ae_chainHash (last es)"
  shows "chained cr (es @ [e])"
proof (cases es rule: rev_cases)
  case (snoc ys y)
  with assms show ?thesis by simp
qed (use assms in simp)

lemma chained_tl: "chained cr es \<Longrightarrow> chained cr (tl es)"
proof (cases es)
  case (Cons e r)
  assume "chained cr es"
  with Cons show ?thesis by (cases r) (auto simp: chained_Cons2 simp del: rev.simps(2))
qed simp

lemma log_ok_write:
  assumes "log_ok cr lg"
  shows "log_ok cr (audit_write cr now i lg)"
proof -
  let ?full = "seal cr (entry_of i (auditId now (al_idCounter lg + 1)) now (al_seqCounter lg + 1) (al_headHash lg))"
  have f: "ae_seq ?full = al_seqCounter lg + 1" "ae_prevHash ?full = al_headHash lg"
    by (simp_all add: seal_def entry_of_def audit_input.extend_def)
  have c: "chained cr (al_entries lg @ [?full])"
    using assms f by (intro chained_append seal_hash) (auto simp: log_ok_def)
  have "chained cr (tl (al_entries lg @ [?full]))" using c by (rule chained_tl)
  moreover have "last (tl (al_entries lg @ [?full])) = ?full" if "tl (al_entries lg @ [?full]) \<noteq> []"
    using that by (metis last_tl last_snoc)
  ultimately show ?thesis using c f
    by (auto simp: log_ok_def audit_write_def Let_def split: option.splits simp del: rev.simps rev_append)
qed

lemma audit_write_maxSize [simp]: "al_maxSize (audit_write cr now i lg) = al_maxSize lg"
  by (simp add: audit_write_def Let_def)

lemma audit_writes_simps [simp]:
  "audit_writes cr [] lg = lg"
  "audit_writes cr ((now, i) # ws) lg = audit_writes cr ws (audit_write cr now i lg)"
  "audit_writes cr (ws @ vs) lg = audit_writes cr vs (audit_writes cr ws lg)"
  by (simp_all add: audit_writes_def)

lemma log_ok_writes:
  "log_ok cr lg \<Longrightarrow> log_ok cr (audit_writes cr ws lg)"
  by (induction ws arbitrary: lg) (auto simp: log_ok_write)

lemma log_ok_new: "log_ok cr (new_audit_log m)"
  by (simp add: log_ok_def new_audit_log_def)

subsection \<open>Anchors\<close>

text \<open>An unbounded log: entries numbered from one, nothing dropped.\<close>

definition full_log :: "webcrypto \<Rightarrow> audit_log \<Rightarrow> bool" where
  "full_log cr lg = (log_ok cr lg \<and> al_maxSize lg = None \<and> al_seqCounter lg = int (length (al_entries lg)))"

lemma full_log_writes: "full_log cr (audit_writes cr ws (new_audit_log None))"
proof (induction ws rule: rev_induct)
  case Nil
  then show ?case by (simp add: full_log_def log_ok_new) (simp add: new_audit_log_def)
next
  case (snoc w ws)
  obtain now i where "w = (now, i)" by fastforce
  moreover have "log_ok cr (audit_write cr now i (audit_writes cr ws (new_audit_log None)))"
    using snoc log_ok_write by (simp add: full_log_def)
  ultimately show ?case using snoc by (simp add: full_log_def) (simp add: audit_write_def Let_def)
qed

lemma chained_seq:
  assumes "chained cr es" "i < length es"
  shows "ae_seq (es ! i) = ae_seq (last es) - int (length es - Suc i)"
  using achain.linked_seq [OF assms(1), of "length es - Suc i"] assms(2)
  by (simp add: rev_nth hd_rev)

lemma chained_sorted: "chained cr es \<Longrightarrow> sort_key ae_seq es = es"
proof (rule sort_key_id_if_sorted)
  assume c: "chained cr es"
  show "sorted (map ae_seq es)"
    unfolding sorted_iff_nth_mono using chained_seq [OF c] by auto
qed

lemma full_log_seq: "full_log cr lg \<Longrightarrow> i < length (al_entries lg) \<Longrightarrow> ae_seq (al_entries lg ! i) = int i + 1"
  using chained_seq [of cr "al_entries lg" i]
  by (auto simp: full_log_def log_ok_def simp del: rev.simps) 

lemma audit_writes_prefix:
  "al_maxSize lg = None \<Longrightarrow> \<exists>es. al_entries (audit_writes cr ws lg) = al_entries lg @ es"
proof (induction ws arbitrary: lg)
  case (Cons w ws)
  obtain now i where w: "w = (now, i)" by fastforce
  then show ?case using Cons.IH [of "audit_write cr now i lg"] Cons.prems
    by (auto simp: audit_write_def Let_def)
qed simp

lemma find_seq:
  assumes "chained cr es" "k < length es" "ae_seq (es ! k) = s"
  shows "find (\<lambda>e. ae_seq e = s) es = Some (es ! k)"
  unfolding find_Some_iff using assms chained_seq [OF assms(1)]
  by (intro exI [of _ k]) auto

lemma length_writes: "length (al_entries (audit_writes cr ws (new_audit_log None))) = length ws"
proof (induction ws rule: rev_induct)
  case (snoc w ws)
  have "al_maxSize (audit_writes cr ws (new_audit_log None)) = None"
    using full_log_writes by (simp add: full_log_def)
  with snoc show ?case by (cases w) (simp add: audit_write_def [of _ _ _ "audit_writes _ _ _"] Let_def)
qed (simp add: new_audit_log_def)

lemma find_SomeD: "find P xs = Some e \<Longrightarrow> e \<in> set xs \<and> P e"
  by (induction xs) (auto split: if_splits)

lemma verifyChain_genuine:
  assumes "ws \<noteq> []"
  shows "verifyChain cr (audit_writes cr (ws @ vs) (new_audit_log None))
    (Some (audit_head (audit_writes cr ws (new_audit_log None)))) = ValidChain"
proof -
  let ?l1 = "audit_writes cr ws (new_audit_log None)" and ?l2 = "audit_writes cr (ws @ vs) (new_audit_log None)"
  have f: "full_log cr ?l1" "full_log cr ?l2" by (rule full_log_writes)+
  obtain es where es: "al_entries ?l2 = al_entries ?l1 @ es"
    using audit_writes_prefix [of ?l1 cr vs] f(1) by (auto simp: full_log_def)
  have len: "length (al_entries ?l1) = length ws" by (rule length_writes)
  define k where "k = length ws - 1"
  have "k < length ws" using assms by (cases ws) (simp_all add: k_def)
  then have k: "k < length (al_entries ?l1)" "k < length (al_entries ?l2)"
    using len es by simp_all
  have "al_entries ?l1 \<noteq> []" using k by auto
  then have lst: "last (al_entries ?l1) = al_entries ?l2 ! k"
    using es k len by (simp add: last_conv_nth nth_append k_def)
  have c: "chained cr (al_entries ?l2)" using f(2) by (simp add: full_log_def log_ok_def)
  have seqk: "ae_seq (al_entries ?l2 ! k) = al_seqCounter ?l1" "ae_chainHash (al_entries ?l2 ! k) = al_headHash ?l1"
    using f(1) lst \<open>al_entries ?l1 \<noteq> []\<close> by (auto simp: full_log_def log_ok_def)
  have "al_seqCounter ?l1 \<le> ae_seq (last (al_entries ?l2))"
    using chained_seq [OF c k(2)] seqk by simp
  moreover have "al_entries ?l2 \<noteq> []" using k by auto
  ultimately show ?thesis
    unfolding verifyChain_def verifyEntries_valid_iff chained_sorted [OF c]
    using c find_seq [OF c k(2) seqk(1)] seqk(2) by (simp add: audit_head_def)
qed

text \<open>
  C18. A genuine log always verifies. Whatever is written to an append-only log, and whatever is
  written after an anchor was taken with \<open>head\<close> (from a non-empty log), verification against that
  anchor succeeds; a bounded log verifies without an anchor.
\<close>
theorem genuine_log_verifies:
  "(ws \<noteq> [] \<longrightarrow> verifyChain cr (audit_writes cr (ws @ vs) (new_audit_log None))
      (Some (audit_head (audit_writes cr ws (new_audit_log None)))) = ValidChain)
   \<and> verifyChain cr (audit_writes cr ws (new_audit_log m)) None = ValidChain"
proof -
  have c: "chained cr (al_entries (audit_writes cr ws (new_audit_log m)))"
    using log_ok_writes [OF log_ok_new] by (simp add: log_ok_def)
  then show ?thesis using verifyChain_genuine
    by (simp add: verifyChain_def verifyEntries_valid_iff chained_sorted [OF c])
qed

text \<open>
  C17. Tamper evidence. Take any list of entries that verifies against the head of a genuine
  append-only log, with a hash that does not collide on the preimages involved. Then every entry of
  the list numbered from one up to the anchor is the genuine entry with that number, in all fields:
  no entry was modified, replaced, reordered or rolled back below the anchor.
\<close>
theorem tamper_evident:
  assumes "lg = audit_writes cr ws (new_audit_log None)" "verifyEntries cr es (Some (audit_head lg)) = ValidChain"
    and "\<And>x y. x \<in> set es \<Longrightarrow> y \<in> set (al_entries lg) \<Longrightarrow>
       sha256hex cr (chainPreimage x) = sha256hex cr (chainPreimage y) \<Longrightarrow> chainPreimage x = chainPreimage y"
    and "x \<in> set es" "1 \<le> ae_seq x" "ae_seq x \<le> al_seqCounter lg"
  shows "content x = content (al_entries lg ! nat (ae_seq x - 1))
    \<and> ae_chainHash x = ae_chainHash (al_entries lg ! nat (ae_seq x - 1))"
proof -
  have full: "full_log cr lg" using assms(1) full_log_writes by simp
  define rs where "rs = rev (sort_key ae_seq es)"
  define gs where "gs = rev (al_entries lg)"
  obtain e where c: "chained cr (sort_key ae_seq es)" and e: "e \<in> set (sort_key ae_seq es)"
    "ae_seq e = al_seqCounter lg" "ae_chainHash e = al_headHash lg"
    using assms(2) by (auto simp: verifyEntries_valid_iff audit_head_def simp del: rev.simps dest!: find_SomeD)
  have lr: "achain.linked (sha256hex cr) rs" using c by (simp add: rs_def)
  obtain k where k: "k < length rs" "rs ! k = e" using e(1) by (metis rs_def in_set_conv_nth set_rev)
  obtain j where j: "j < length rs" "rs ! j = x" using assms(4) by (metis rs_def in_set_conv_nth set_rev set_sort)
  have kj: "k \<le> j" and d: "int (j - k) = al_seqCounter lg - ae_seq x"
    using achain.linked_seq [OF lr k(1)] achain.linked_seq [OF lr j(1)] k j e(2) assms(6) by auto
  have len: "al_seqCounter lg = int (length gs)" using full by (simp add: full_log_def gs_def)
  have "gs \<noteq> []" using assms(5,6) len by auto
  then obtain g gs' where gs: "gs = g # gs'" by (cases gs) auto
  have "al_entries lg = rev gs' @ [g]" using gs by (simp add: gs_def rev_eq_Cons_iff)
  then have hg: "ae_chainHash g = al_headHash lg" and lg: "achain.linked (sha256hex cr) (g # gs')"
    using full by (simp_all add: full_log_def log_ok_def)
  have ds: "drop k rs = e # drop (Suc k) rs" using k Cons_nth_drop_Suc by metis
  have ld: "achain.linked (sha256hex cr) (drop k rs)" using lr by (rule linked_drop)
  have i: "j - k < length (e # drop (Suc k) rs)" "j - k < length (g # gs')"
    using j(1) kj d assms(5) len gs by (auto simp flip: ds)
  have nc: "chainPreimage u = chainPreimage v" if "u \<in> set (e # drop (Suc k) rs)" "v \<in> set (g # gs')"
    "sha256hex cr (chainPreimage u) = sha256hex cr (chainPreimage v)" for u v
  proof (rule assms(3) [OF _ _ that(3)])
    show "u \<in> set es" using that(1) in_set_dropD [of u k rs] unfolding ds [symmetric] by (simp add: rs_def)
    show "v \<in> set (al_entries lg)" using that(2) unfolding gs [symmetric] by (simp add: gs_def)
  qed
  have "chainPreimage ((e # drop (Suc k) rs) ! (j - k)) = chainPreimage ((g # gs') ! (j - k))
      \<and> ae_chainHash ((e # drop (Suc k) rs) ! (j - k)) = ae_chainHash ((g # gs') ! (j - k))"
    using ld ds lg e(3) hg i by (intro achain.chains_agree nc) auto
  moreover have "(e # drop (Suc k) rs) ! (j - k) = x" using ds j kj k by (simp flip: ds)
  moreover have "(g # gs') ! (j - k) = al_entries lg ! nat (ae_seq x - 1)"
  proof -
    have "j - k < length (al_entries lg)" using i(2) gs by (metis gs_def length_rev)
    moreover have "length (al_entries lg) - Suc (j - k) = nat (ae_seq x - 1)" using d len by (simp add: gs_def)
    ultimately show ?thesis using gs by (metis gs_def rev_nth)
  qed
  ultimately show ?thesis using chainPreimage_inj by metis
qed

text \<open>
  The anchor of an empty log. An anchor taken with \<open>head\<close> from a log with no entries is
  rejected by verification for ever after, although the log is genuine.
\<close>
theorem empty_anchor_rejected:
  "verifyChain cr (audit_writes cr ws (new_audit_log None)) (Some (audit_head (new_audit_log None))) \<noteq> ValidChain"
proof
  let ?lg = "audit_writes cr ws (new_audit_log None)"
  assume "verifyChain cr ?lg (Some (audit_head (new_audit_log None))) = ValidChain"
  then obtain e where "e \<in> set (al_entries ?lg)" "ae_seq e = 0"
    by (auto simp: verifyChain_def verifyEntries_valid_iff audit_head_def new_audit_log_def [of None]
        dest!: find_SomeD)
  moreover have "ae_seq e > 0" if "e \<in> set (al_entries ?lg)" for e
    using that full_log_seq [OF full_log_writes, of _ cr ws] by (auto simp: in_set_conv_nth)
  ultimately show False by fastforce
qed

section \<open>Examples\<close>

definition ex_crypto :: webcrypto where
  "ex_crypto = \<lparr>wc_sha256 = (\<lambda>b. b), wc_hmac = (\<lambda>k d. replicate 32 0), wc_hkdf = (\<lambda>s l i. replicate 32 0),
     wc_sign = (\<lambda>k m. m), wc_verify = (\<lambda>k s m. s = m), wc_import = (\<lambda>j. returns ''k'')\<rparr>"

definition ex_input :: audit_input where
  "ex_input = \<lparr>ai_action = VerifyFail, ai_severity = None, ai_pairId = Some ''p1'', ai_error = Some ''e'',
     ai_ip = None, ai_method = None, ai_path = None, ai_userAgent = None, ai_requestId = None, ai_detail = None\<rparr>"

lemma genuine_log_verifies_witness:
  "verifyChain ex_crypto (audit_writes ex_crypto [(1, ex_input), (2, ex_input)] (new_audit_log None))
     (Some (audit_head (audit_writes ex_crypto [(1, ex_input)] (new_audit_log None)))) = ValidChain"
  using genuine_log_verifies [of "[(1, ex_input)]" ex_crypto "[(2, ex_input)]" None] by simp

lemma tamper_evident_witness:
  "let lg = audit_writes ex_crypto [(1, ex_input)] (new_audit_log None); x = hd (al_entries lg)
   in content x = content (al_entries lg ! nat (ae_seq x - 1))
      \<and> ae_chainHash x = ae_chainHash (al_entries lg ! nat (ae_seq x - 1))"
proof -
  let ?lg = "audit_writes ex_crypto [(1, ex_input)] (new_audit_log None)"
  obtain x where x: "al_entries ?lg = [x]" and "ae_seq x = 1" "al_seqCounter ?lg = 1"
    by (auto simp: audit_write_def new_audit_log_def Let_def seal_def entry_of_def audit_input.extend_def)
  moreover have "verifyEntries ex_crypto [x] (Some (audit_head ?lg)) = ValidChain"
    using verifyChain_genuine [of "[(1, ex_input)]" ex_crypto "[]"] x by (simp add: verifyChain_def)
  moreover have "chainPreimage u = chainPreimage v" if "u \<in> set [x]" "v \<in> set (al_entries ?lg)" for u v
    using that x by simp
  ultimately show ?thesis
    using tamper_evident [OF refl, of ex_crypto "[x]" "[(1, ex_input)]" x] by (simp add: Let_def)
qed

end
