(* ===== verification/Nonce.thy ===== *)
theory Nonce
  imports Store
begin

text \<open>
  Replay protection: the in-memory backend of \<^verbatim>\<open>memory-store.ts\<close>, the
  \<open>ServerNonceStore\<close> wrapper of \<^verbatim>\<open>nonce-store.ts\<close>, and from
  \<^verbatim>\<open>redis-nonce.ts\<close> the retention arithmetic and the Redis backend over an external
  client. The interface \<open>nonce_backend\<close> states what a verifier relies on; its lemma
  \<open>second_use_is_replay\<close> is proved once and interpreted on the in-memory backend.
\<close>

datatype quarantine_reason = MarkerLost | EpochChanged | ConfigMismatch | StoreUnavailable

datatype nonce_error = NonceStoreUnavailableError
  | AuthorizationQuarantineError quarantine_reason
  | OtherError string

section \<open>memory-store.ts: MemoryNonceBackend\<close>

definition MAX_NONCE_ENTRIES :: nat where
  "MAX_NONCE_ENTRIES = 100000"

definition NONCE_EVICT_COUNT :: nat where
  "NONCE_EVICT_COUNT = 10000"

type_synonym nonce_mem = "(string, int) jsmap"

definition nonce_evict :: "int \<Rightarrow> nonce_mem \<Rightarrow> nonce_mem" where
  "nonce_evict now seen = jm_keep (\<lambda>k e. \<not> e < now) seen"

definition mem_checkAndConsume :: "int \<Rightarrow> string \<Rightarrow> int \<Rightarrow> nonce_mem \<Rightarrow> bool \<times> nonce_mem" where
  "mem_checkAndConsume now nonce ttlMs seen =
     (let live = nonce_evict now seen
      in if jm_has live nonce then (True, live)
         else let shed = (if length live \<ge> MAX_NONCE_ENTRIES then drop NONCE_EVICT_COUNT live else live)
              in (False, jm_set nonce (now + ttlMs) shed))"

section \<open>nonce-store.ts: ServerNonceStore\<close>

definition server_nonce_store :: "int \<Rightarrow> int throws" where
  "server_nonce_store windowMs =
     (if \<not> is_safe_integer windowMs \<or> windowMs \<le> 0
      then throw ''Nonce retention window must be a positive safe integer'' else returns windowMs)"

definition server_checkAndConsume ::
    "(int \<Rightarrow> string \<Rightarrow> int \<Rightarrow> 'n \<Rightarrow> (nonce_error + bool) \<times> 'n) \<Rightarrow> int \<Rightarrow> int \<Rightarrow> string \<Rightarrow> 'n
       \<Rightarrow> (nonce_error + bool) \<times> 'n"
where
  "server_checkAndConsume backend windowMs now nonce st =
     (case backend now nonce windowMs st of
        (Inl (OtherError e), st') \<Rightarrow> (Inl NonceStoreUnavailableError, st')
      | r \<Rightarrow> r)"

definition mem_backend :: "int \<Rightarrow> string \<Rightarrow> int \<Rightarrow> nonce_mem \<Rightarrow> (nonce_error + bool) \<times> nonce_mem" where
  "mem_backend now nonce ttlMs st = map_prod Inr id (mem_checkAndConsume now nonce ttlMs st)"

section \<open>redis-nonce.ts\<close>

definition DEFAULT_NONCE_SAFETY_BUFFER_MS :: int where
  "DEFAULT_NONCE_SAFETY_BUFFER_MS = 10000"

definition positiveSafeInteger :: "int \<Rightarrow> string \<Rightarrow> int throws" where
  "positiveSafeInteger v label = (if \<not> is_safe_integer v \<or> v \<le> 0
     then throw (label @ '' must be a positive safe integer'') else returns v)"

definition deriveNonceRetentionMs :: "int \<Rightarrow> int \<Rightarrow> int throws" where
  "deriveNonceRetentionMs sigWindowMs safetyBufferMs =
     and_then (positiveSafeInteger sigWindowMs ''sigWindowMs'') (\<lambda>_.
       if \<not> is_safe_integer safetyBufferMs \<or> safetyBufferMs < 0
       then throw ''safetyBufferMs must be a non-negative safe integer''
       else let retentionMs = sigWindowMs * 2 + safetyBufferMs
            in if \<not> is_safe_integer retentionMs
               then throw ''Derived nonce retention exceeds the safe integer range''
               else returns retentionMs)"

text \<open>
  The Redis client is external: \<open>redis_set\<close> is the reply of \<open>SET key 1 NX PX ttl\<close> and the
  new server state. A rejected promise, or no reply before the command timeout, is
  \<open>RedisFailed\<close>.
\<close>

datatype redis_reply = RedisOK | RedisNull | RedisInvalid | RedisFailed

definition redis_checkAndConsume ::
    "(string \<Rightarrow> int \<Rightarrow> int \<Rightarrow> 'r \<Rightarrow> redis_reply \<times> 'r) \<Rightarrow> string \<Rightarrow> int \<Rightarrow> string \<Rightarrow> int \<Rightarrow> 'r
       \<Rightarrow> (nonce_error + bool) \<times> 'r"
where
  "redis_checkAndConsume redis_set keyPrefix now nonce ttlMs st =
     (case positiveSafeInteger ttlMs ''ttlMs'' of
        Inl e \<Rightarrow> (Inl (OtherError e), st)
      | Inr _ \<Rightarrow>
          (case redis_set (keyPrefix @ nonce) ttlMs now st of
             (RedisOK, st') \<Rightarrow> (Inr False, st')
           | (RedisNull, st') \<Rightarrow> (Inr True, st')
           | (RedisInvalid, st') \<Rightarrow> (Inl NonceStoreUnavailableError, st')
           | (RedisFailed, st') \<Rightarrow> (Inl NonceStoreUnavailableError, st')))"

definition NAMESPACE_RE :: "string \<Rightarrow> bool" where
  "NAMESPACE_RE s = (s \<noteq> [] \<and> length s \<le> 64 \<and> is_alnum (hd s)
     \<and> list_all (\<lambda>c. is_alnum c \<or> c \<in> set ''._-'') (tl s))"

definition redis_key_prefix :: "string \<Rightarrow> string" where
  "redis_key_prefix namespace = ''bpc:'' @ namespace @ '':nonce:''"

definition createRedisBackedNonceStore :: "string \<Rightarrow> string \<Rightarrow> int \<Rightarrow> int \<Rightarrow> int \<Rightarrow> (int \<times> string) throws" where
  "createRedisBackedNonceStore continuityMode namespace sigWindowMs safetyBufferMs commandTimeoutMs =
     (if continuityMode \<noteq> ''ungoverned-development''
      then throw ''continuityMode must explicitly be ungoverned-development''
      else if \<not> NAMESPACE_RE namespace
      then throw ''namespace must be 1-64 ASCII letters, digits, dot, underscore, or hyphen''
      else and_then (deriveNonceRetentionMs sigWindowMs safetyBufferMs) (\<lambda>retentionMs.
        and_then (positiveSafeInteger commandTimeoutMs ''commandTimeoutMs'') (\<lambda>_.
          and_then (server_nonce_store retentionMs) (\<lambda>_.
            returns (retentionMs, redis_key_prefix namespace)))))"

section \<open>Runs of a backend\<close>

fun nonce_run :: "(int \<Rightarrow> string \<Rightarrow> int \<Rightarrow> 's \<Rightarrow> bool \<times> 's) \<Rightarrow> int \<Rightarrow> 's \<Rightarrow> (int \<times> string) list \<Rightarrow> 's" where
  "nonce_run consume ttl s [] = s"
| "nonce_run consume ttl s ((now, m) # es) = nonce_run consume ttl (snd (consume now m ttl s)) es"

fun nonce_fits ::
    "(int \<Rightarrow> string \<Rightarrow> int \<Rightarrow> 's \<Rightarrow> bool \<times> 's) \<Rightarrow> (int \<Rightarrow> 's \<Rightarrow> bool) \<Rightarrow> int \<Rightarrow> 's \<Rightarrow> (int \<times> string) list \<Rightarrow> bool"
where
  "nonce_fits consume room ttl s [] = True"
| "nonce_fits consume room ttl s ((now, m) # es) =
     (room now s \<and> nonce_fits consume room ttl (snd (consume now m ttl s)) es)"

text \<open>
  The contract of \<open>NonceStoreBackend.checkAndConsume\<close>: it reports a replay exactly when the
  nonce is live, a fresh nonce is live for its whole retention, and, while the backend has room,
  no call forgets a live nonce.
\<close>

locale nonce_backend =
  fixes consume :: "int \<Rightarrow> string \<Rightarrow> int \<Rightarrow> 's \<Rightarrow> bool \<times> 's"
    and live :: "int \<Rightarrow> 's \<Rightarrow> string \<Rightarrow> bool"
    and room :: "int \<Rightarrow> 's \<Rightarrow> bool"
    and wf :: "'s \<Rightarrow> bool"
  assumes replay_iff_live: "wf s \<Longrightarrow> fst (consume now n ttl s) = live now s n"
    and fresh_live: "wf s \<Longrightarrow> \<not> live now s n \<Longrightarrow> t \<le> now + ttl \<Longrightarrow> live t (snd (consume now n ttl s)) n"
    and keeps_live: "wf s \<Longrightarrow> room now s \<Longrightarrow> now \<le> t \<Longrightarrow> live t s m
      \<Longrightarrow> 0 \<le> ttl \<Longrightarrow> live t (snd (consume now n ttl s)) m"
    and wf_consume: "wf s \<Longrightarrow> wf (snd (consume now n ttl s))"
begin

lemma run_keeps_live:
  assumes "wf s" "nonce_fits consume room ttl s es" "\<forall>(now, m) \<in> set es. now \<le> t" "live t s n" "0 \<le> ttl"
  shows "live t (nonce_run consume ttl s es) n \<and> wf (nonce_run consume ttl s es)"
  using assms
proof (induction es arbitrary: s)
  case (Cons e es)
  obtain now m where e: "e = (now, m)" by (cases e)
  with Cons.prems have "live t (snd (consume now m ttl s)) n" "wf (snd (consume now m ttl s))"
    by (auto intro: keeps_live wf_consume)
  with Cons e show ?case by simp
qed simp

lemma second_use_is_replay:
  assumes "wf s" "consume t0 n ttl s = (False, s1)" "nonce_fits consume room ttl s1 es"
    and "\<forall>(now, m) \<in> set es. now \<le> t" "t \<le> t0 + ttl" "0 \<le> ttl"
  shows "fst (consume t n ttl (nonce_run consume ttl s1 es))"
proof -
  have "\<not> live t0 s n" using replay_iff_live [OF assms(1), of t0 n ttl] assms(2) by simp
  then have "live t s1 n" using fresh_live [OF assms(1)] assms(2,5) by fastforce
  moreover have "wf s1" using wf_consume [OF assms(1), of t0 n ttl] assms(2) by simp
  ultimately show ?thesis
    using run_keeps_live [of s1 ttl es t n] assms replay_iff_live by blast
qed

end

definition nonce_live :: "int \<Rightarrow> nonce_mem \<Rightarrow> string \<Rightarrow> bool" where
  "nonce_live now seen n = (case map_of seen n of None \<Rightarrow> False | Some e \<Rightarrow> now \<le> e)"

definition nonce_room :: "int \<Rightarrow> nonce_mem \<Rightarrow> bool" where
  "nonce_room now seen = (length (nonce_evict now seen) < MAX_NONCE_ENTRIES)"

lemma map_of_nonce_evict: "jm_wf seen \<Longrightarrow> map_of (nonce_evict now seen) n =
    (case map_of seen n of None \<Rightarrow> None | Some e \<Rightarrow> if now \<le> e then Some e else None)"
  by (simp add: nonce_evict_def map_of_jm_keep split: option.splits)

lemma jm_has_nonce_evict: "jm_wf seen \<Longrightarrow> jm_has (nonce_evict now seen) n = nonce_live now seen n"
  by (simp add: jm_has_def nonce_live_def map_of_nonce_evict split: option.splits)

lemma jm_wf_nonce_evict [simp]: "jm_wf seen \<Longrightarrow> jm_wf (nonce_evict now seen)"
  by (simp add: nonce_evict_def)

interpretation memnonce: nonce_backend mem_checkAndConsume nonce_live nonce_room jm_wf
proof (unfold_locales, goal_cases)
  case (1 s now n ttl)
  then show ?case by (simp add: mem_checkAndConsume_def Let_def jm_has_nonce_evict)
next
  case (2 s now n t ttl)
  then show ?case
    by (simp add: mem_checkAndConsume_def Let_def jm_has_nonce_evict nonce_live_def [of t])
next
  case (3 s now t m ttl n)
  then show ?case
    by (auto simp: mem_checkAndConsume_def Let_def nonce_room_def jm_has_nonce_evict
        nonce_live_def map_of_nonce_evict split: option.splits)
next
  case (4 s now n ttl)
  then show ?case by (simp add: mem_checkAndConsume_def Let_def)
qed

section \<open>Retention\<close>

lemma deriveNonceRetentionMs_iff:
  "deriveNonceRetentionMs w b = returns r \<longleftrightarrow> 0 < w \<and> is_safe_integer w \<and> 0 \<le> b
     \<and> is_safe_integer b \<and> r = 2 * w + b \<and> is_safe_integer r"
  by (auto simp: deriveNonceRetentionMs_def and_then_Inr_iff positiveSafeInteger_def Let_def mult.commute)

text \<open>
  The retention covers the acceptance window: a payload timestamp accepted at time \<open>t0\<close> is
  outside the window at every time from \<open>t0 + retention\<close> on.
\<close>

lemma retention_covers_window:
  assumes "deriveNonceRetentionMs w b = returns r" "\<bar>t0 - ts\<bar> \<le> w" "\<bar>t - ts\<bar> \<le> w" "t0 \<le> t"
  shows "t \<le> t0 + r"
  using assms by (auto simp: deriveNonceRetentionMs_iff)

end
