(* ===== verification/Continuity.thy ===== *)
theory Continuity
  imports Nonce
begin

text \<open>
  \<^verbatim>\<open>packages/server/src/redis-continuity.ts\<close> (the eviction-policy check, the options of the
  reconcile loop, \<open>RedisContinuityGuard\<close>) and \<^verbatim>\<open>rollback-checkpoint.ts\<close>
  (\<open>RollbackCheckpointGuard\<close>). Redis and the witness row are external: the replies of the Redis
  client and the witness operations are parameters. The theorems: a quarantine is never shortened by
  later reconciliations and outlasts the nonces of the lost state; a reservation succeeds only in
  exact agreement with the witness and makes the un-mirrored view fail closed.
\<close>

section \<open>Eviction policy\<close>

datatype continuity_error = EvictionPolicyError string | RangeError string

definition policy_of :: "json \<Rightarrow> string option" where
  "policy_of raw = (case raw of
     JArr [JStr k, JStr p] \<Rightarrow> if k = ''maxmemory-policy'' then Some p else None
   | JObj [(k, JStr p)] \<Rightarrow> if k = ''maxmemory-policy'' then Some p else None
   | _ \<Rightarrow> None)"

definition assertNoEvictionPolicy :: "json \<Rightarrow> continuity_error + unit" where
  "assertNoEvictionPolicy raw = (case policy_of raw of
     None \<Rightarrow> Inl (EvictionPolicyError ''unknown'')
   | Some p \<Rightarrow> if p = [] then Inl (EvictionPolicyError ''unknown'')
       else if p \<noteq> ''noeviction'' then Inl (EvictionPolicyError p) else Inr ())"

text \<open>The checks \<open>startContinuityReconcileLoop\<close> makes before it schedules the first run.\<close>

definition reconcile_loop_options :: "int \<Rightarrow> int \<Rightarrow> continuity_error + unit" where
  "reconcile_loop_options intervalMs retentionMs =
     (if \<not> is_safe_integer intervalMs \<or> intervalMs \<le> 0
      then Inl (RangeError ''intervalMs must be a positive safe integer'')
      else if \<not> is_safe_integer retentionMs \<or> retentionMs \<le> 0
      then Inl (RangeError ''retentionMs must be a positive safe integer'')
      else if retentionMs \<le> intervalMs
      then Inl (RangeError ''intervalMs must be shorter than retentionMs'')
      else Inr ())"

section \<open>RedisContinuityGuard\<close>

text \<open>\<open>cg_until = None\<close> is \<open>Number.POSITIVE_INFINITY\<close>.\<close>

record continuity_guard =
  cg_markerKey :: string
  cg_quarantineMs :: int
  cg_commandTimeoutMs :: int
  cg_trustedEpoch :: "string option"
  cg_initialized :: bool
  cg_until :: "int option"
  cg_reason :: quarantine_reason

definition DEFAULT_CONTINUITY_SAFETY_ALLOWANCE_MS :: int where
  "DEFAULT_CONTINUITY_SAFETY_ALLOWANCE_MS = 30000"

definition DEFAULT_CONTINUITY_TIMEOUT_MS :: int where
  "DEFAULT_CONTINUITY_TIMEOUT_MS = 2000"

definition new_continuity_guard ::
    "string \<Rightarrow> int \<Rightarrow> int option \<Rightarrow> int option \<Rightarrow> continuity_guard throws" where
  "new_continuity_guard namespace retentionMs safetyAllowanceMs commandTimeoutMs =
     (if \<not> NAMESPACE_RE namespace
      then throw ''namespace must be 1-64 ASCII letters, digits, dot, underscore, or hyphen''
      else and_then (positiveSafeInteger retentionMs ''retentionMs'') (\<lambda>_.
        let allowance = (case safetyAllowanceMs of None \<Rightarrow> DEFAULT_CONTINUITY_SAFETY_ALLOWANCE_MS | Some a \<Rightarrow> a)
        in if \<not> is_safe_integer allowance \<or> allowance < 0
           then throw ''safetyAllowanceMs must be a non-negative safe integer''
           else and_then (positiveSafeInteger
               (case commandTimeoutMs of None \<Rightarrow> DEFAULT_CONTINUITY_TIMEOUT_MS | Some t \<Rightarrow> t) ''commandTimeoutMs'')
             (\<lambda>timeoutMs. returns \<lparr>cg_markerKey = ''bpc:'' @ namespace @ '':continuity'',
               cg_quarantineMs = retentionMs + allowance, cg_commandTimeoutMs = timeoutMs,
               cg_trustedEpoch = None, cg_initialized = False, cg_until = None,
               cg_reason = StoreUnavailable\<rparr>)))"

definition isQuarantined :: "int \<Rightarrow> continuity_guard \<Rightarrow> bool" where
  "isQuarantined nowMs g = (case cg_until g of None \<Rightarrow> True | Some u \<Rightarrow> nowMs < u)"

text \<open>\<open>None\<close> is an infinite remainder.\<close>

definition quarantineRemainingMs :: "int \<Rightarrow> continuity_guard \<Rightarrow> int option" where
  "quarantineRemainingMs nowMs g = map_option (\<lambda>u. max 0 (u - nowMs)) (cg_until g)"

definition enterQuarantine :: "quarantine_reason \<Rightarrow> int \<Rightarrow> continuity_guard \<Rightarrow> continuity_guard" where
  "enterQuarantine reason nowMs g =
     (let u = nowMs + cg_quarantineMs g
      in g\<lparr>cg_until := (case cg_until g of None \<Rightarrow> None | Some v \<Rightarrow> if v < u then Some u else Some v),
           cg_reason := reason\<rparr>)"

definition initialise :: "continuity_guard \<Rightarrow> continuity_guard" where
  "initialise g = g\<lparr>cg_initialized := True, cg_until := Some (case cg_until g of None \<Rightarrow> 0 | Some u \<Rightarrow> u)\<rparr>"

text \<open>
  One reconciliation: \<open>get\<close> is the reply to \<open>GET marker\<close> (\<open>Inl\<close> a failure or timeout),
  \<open>setnx\<close> the reply to \<open>SET marker epoch NX\<close>, sent when the marker was absent.
\<close>

definition reconcile ::
    "int \<Rightarrow> string option throws \<Rightarrow> redis_reply \<Rightarrow> continuity_guard \<Rightarrow> continuity_guard" where
  "reconcile nowMs get setnx g = (case get of
     Inl e \<Rightarrow> enterQuarantine StoreUnavailable nowMs (initialise g)
   | Inr None \<Rightarrow>
       if setnx \<in> {RedisInvalid, RedisFailed} then enterQuarantine StoreUnavailable nowMs (initialise g)
       else enterQuarantine MarkerLost nowMs (initialise (g\<lparr>cg_trustedEpoch := None\<rparr>))
   | Inr (Some current) \<Rightarrow>
       (case cg_trustedEpoch g of
          None \<Rightarrow> initialise (g\<lparr>cg_trustedEpoch := Some current\<rparr>)
        | Some trusted \<Rightarrow>
            if current \<noteq> trusted
            then enterQuarantine EpochChanged nowMs (initialise (g\<lparr>cg_trustedEpoch := Some current\<rparr>))
            else g))"

definition assertAcceptable :: "int \<Rightarrow> continuity_guard \<Rightarrow> nonce_error + unit" where
  "assertAcceptable nowMs g =
     (if \<not> cg_initialized g \<or> (case cg_until g of None \<Rightarrow> True | Some u \<Rightarrow> nowMs < u)
      then Inl (AuthorizationQuarantineError (cg_reason g)) else Inr ())"

fun reconcile_step :: "continuity_guard \<Rightarrow> int \<times> string option throws \<times> redis_reply \<Rightarrow> continuity_guard" where
  "reconcile_step g (nowMs, get, setnx) = reconcile nowMs get setnx g"

definition continuity_break :: "string option throws \<Rightarrow> continuity_guard \<Rightarrow> bool" where
  "continuity_break get g = (case get of
     Inl e \<Rightarrow> True | Inr None \<Rightarrow> True
   | Inr (Some current) \<Rightarrow> (case cg_trustedEpoch g of None \<Rightarrow> False | Some t \<Rightarrow> current \<noteq> t))"

definition closed_until :: "int \<Rightarrow> continuity_guard \<Rightarrow> bool" where
  "closed_until t g = (case cg_until g of None \<Rightarrow> False | Some u \<Rightarrow> t \<le> u)"

lemma closed_until_step: "closed_until t g \<Longrightarrow> closed_until t (reconcile_step g e)"
  by (cases e) (auto simp: closed_until_def reconcile_def initialise_def enterQuarantine_def Let_def
      split: sum.splits option.splits)

interpretation quarantine: inv_machine reconcile_step "closed_until t" for t
  by unfold_locales (rule closed_until_step)

lemma break_closes:
  "continuity_break get g \<Longrightarrow> closed_until (nowMs + cg_quarantineMs g) (reconcile nowMs get setnx g)"
  by (auto simp: closed_until_def continuity_break_def reconcile_def initialise_def enterQuarantine_def Let_def
      split: sum.splits option.splits)

text \<open>
  A quarantine holds. Once a reconciliation sees the marker gone, changed or unreachable, the
  guard refuses every authorization before the end of the quarantine that begins there, whatever
  later reconciliations see (a new marker, an adopted epoch, another loss).
\<close>
theorem quarantine_holds:
  assumes "continuity_break get g"
    and "assertAcceptable t (foldl reconcile_step (reconcile nowMs get setnx g) es) = Inr ()"
  shows "nowMs + cg_quarantineMs g \<le> t"
  using quarantine.run_inv [OF break_closes [OF assms(1)], of nowMs setnx es] assms(2)
  by (auto simp: closed_until_def assertAcceptable_def split: option.splits if_splits)

text \<open>
  C15. The quarantine outlasts every nonce of the lost state. With a retention derived from the
  signature window, a request accepted before a continuity break (at most at the time of the
  reconciliation that saw it) carries a timestamp that is outside the window whenever the guard
  accepts again: what was forgotten with the lost state can no longer be replayed.
\<close>
theorem quarantine_outlives_lost_nonces:
  assumes "deriveNonceRetentionMs w b = returns retentionMs"
    and "new_continuity_guard ns retentionMs allowance timeoutMs = returns g0"
    and "g = foldl reconcile_step g0 ds" "continuity_break get g"
    and "assertAcceptable t (foldl reconcile_step (reconcile nowMs get setnx g) es) = Inr ()"
    and "t0 \<le> nowMs" "\<bar>t0 - ts\<bar> \<le> w" "0 < b"
  shows "\<not> \<bar>t - ts\<bar> \<le> w"
proof -
  have q: "cg_quarantineMs (reconcile_step h e) = cg_quarantineMs h" for h e
    by (cases e) (auto simp: reconcile_def initialise_def enterQuarantine_def Let_def split: sum.splits option.splits)
  have "cg_quarantineMs (foldl reconcile_step h ds) = cg_quarantineMs h" for h
    by (induction ds arbitrary: h) (simp_all add: q)
  moreover have "retentionMs \<le> cg_quarantineMs g0"
    using assms(2) by (auto simp: new_continuity_guard_def and_then_Inr_iff Let_def split: if_splits)
  ultimately have "nowMs + retentionMs \<le> t"
    using quarantine.run_inv [OF break_closes [OF assms(4)], of nowMs setnx es] assms(3,5)
    by (auto simp: closed_until_def assertAcceptable_def split: option.splits if_splits)
  then show ?thesis using assms(1,6,7,8) by (auto simp: deriveNonceRetentionMs_iff)
qed

lemma new_guard_closed:
  "new_continuity_guard ns r a t = returns g \<Longrightarrow> assertAcceptable now g = Inl (AuthorizationQuarantineError StoreUnavailable)"
  by (auto simp: new_continuity_guard_def and_then_Inr_iff Let_def assertAcceptable_def split: if_splits)

section \<open>RollbackCheckpointGuard\<close>

record checkpoint_state =
  ck_epoch :: string
  ck_sequence :: int

datatype rollback_verdict = Ok | Rollback | RedisAhead | EpochMismatch | WitnessMissing

datatype checkpoint_error = RollbackDetectedError int int | RedisAheadError int int
  | WitnessMissingError string | CheckpointUnavailableError | CheckpointInconsistentError string string
  | CheckpointConflictError | MalformedCasError | SequenceExhaustedError int | NotAuthorizedError
  | ContinuityValidationError string | RawError string

definition ID_PATTERN :: "string \<Rightarrow> bool" where
  "ID_PATTERN s = (s \<noteq> [] \<and> length s \<le> 128 \<and> is_alnum (hd s)
     \<and> list_all (\<lambda>c. is_alnum c \<or> c \<in> set '':._/-'') (tl s))"

definition MAX_SEQUENCE :: int where
  "MAX_SEQUENCE = MAX_SAFE_INTEGER - 1"

definition assertId :: "string \<Rightarrow> string \<Rightarrow> checkpoint_error + unit" where
  "assertId v label = (if \<not> ID_PATTERN v then Inl (ContinuityValidationError label) else Inr ())"

definition assertSeq :: "int \<Rightarrow> string \<Rightarrow> checkpoint_error + unit" where
  "assertSeq n label = (if \<not> is_safe_integer n \<or> n < 0 then Inl (ContinuityValidationError label) else Inr ())"

definition valid_state :: "checkpoint_state \<Rightarrow> bool" where
  "valid_state s = (ID_PATTERN (ck_epoch s) \<and> is_safe_integer (ck_sequence s) \<and> 0 \<le> ck_sequence s)"

definition assertState :: "checkpoint_state \<Rightarrow> string \<Rightarrow> checkpoint_error + unit" where
  "assertState s label = (case assertId (ck_epoch s) (label @ ''.epoch'') of
     Inl e \<Rightarrow> Inl e | Inr u \<Rightarrow> assertSeq (ck_sequence s) (label @ ''.sequence''))"

text \<open>
  The witness is external: \<open>read\<close>, \<open>compareAndAdvance\<close> and \<open>createGenesis\<close> act on its state
  \<open>'w\<close>. A failing call is \<open>Inl\<close>; \<open>CheckpointConflictError\<close> is recognised, anything else is
  wrapped. The authorizer's answer is the argument \<open>allowed\<close>.
\<close>

definition wrap_witness_error :: "checkpoint_error \<Rightarrow> checkpoint_error" where
  "wrap_witness_error e = (if e = CheckpointConflictError then e else CheckpointUnavailableError)"

definition provision ::
    "(string \<Rightarrow> checkpoint_state \<Rightarrow> 'w \<Rightarrow> (checkpoint_error + checkpoint_state) \<times> 'w) \<Rightarrow>
     (string \<Rightarrow> string \<Rightarrow> bool throws) \<Rightarrow> string \<Rightarrow> string \<Rightarrow> 'w \<Rightarrow> (checkpoint_error + checkpoint_state) \<times> 'w" where
  "provision createGenesis authorize ns genesisEpoch w = (case assertId genesisEpoch ''genesisEpoch'' of
     Inl e \<Rightarrow> (Inl e, w)
   | Inr u \<Rightarrow>
       (case authorize ns genesisEpoch of
          Inl e \<Rightarrow> (Inl CheckpointUnavailableError, w)
        | Inr allowed \<Rightarrow>
            if \<not> allowed then (Inl NotAuthorizedError, w)
            else (case createGenesis ns \<lparr>ck_epoch = genesisEpoch, ck_sequence = 0\<rparr> w of
                (Inl e, w') \<Rightarrow> (Inl (wrap_witness_error e), w')
              | (Inr s, w') \<Rightarrow> (Inr s, w'))))"

definition check ::
    "('w \<Rightarrow> string \<Rightarrow> checkpoint_state option throws) \<Rightarrow> string \<Rightarrow> checkpoint_state \<Rightarrow> 'w
       \<Rightarrow> checkpoint_error + rollback_verdict" where
  "check read ns redis w = (case assertId (ck_epoch redis) ''redis.epoch'' of
     Inl e \<Rightarrow> Inl e
   | Inr u \<Rightarrow> (case assertSeq (ck_sequence redis) ''redis.sequence'' of
       Inl e \<Rightarrow> Inl e
     | Inr u \<Rightarrow> (case read w ns of
         Inl e \<Rightarrow> Inl CheckpointUnavailableError
       | Inr None \<Rightarrow> Inr WitnessMissing
       | Inr (Some current) \<Rightarrow> (case assertState current ''witness'' of
           Inl e \<Rightarrow> Inl e
         | Inr u \<Rightarrow>
             if ck_epoch current \<noteq> ck_epoch redis then Inr EpochMismatch
             else if ck_sequence redis < ck_sequence current then Inr Rollback
             else if ck_sequence redis > ck_sequence current then Inr RedisAhead
             else Inr Ok))))"

definition reread ::
    "(checkpoint_state option \<Rightarrow> checkpoint_error) \<Rightarrow> checkpoint_state option throws \<Rightarrow> checkpoint_error" where
  "reread f r = (case r of Inl e \<Rightarrow> RawError e | Inr v \<Rightarrow> f v)"

text \<open>
  \<open>w1\<close> is the witness when \<open>check\<close> reads it, \<open>w2\<close> when the second read or the
  \<open>compareAndAdvance\<close> reaches it: other processes may act in between.
\<close>

definition reserve ::
    "('w \<Rightarrow> string \<Rightarrow> checkpoint_state option throws) \<Rightarrow>
     (string \<Rightarrow> checkpoint_state \<Rightarrow> checkpoint_state \<Rightarrow> 'w \<Rightarrow> (checkpoint_error + checkpoint_state) \<times> 'w) \<Rightarrow>
     string \<Rightarrow> checkpoint_state \<Rightarrow> 'w \<Rightarrow> 'w \<Rightarrow> (checkpoint_error + int) \<times> 'w" where
  "reserve read compareAndAdvance ns redis w1 w2 = (case check read ns redis w1 of
     Inl e \<Rightarrow> (Inl e, w2)
   | Inr WitnessMissing \<Rightarrow> (Inl (WitnessMissingError ns), w2)
   | Inr EpochMismatch \<Rightarrow> (Inl (reread (\<lambda>v. CheckpointInconsistentError (ck_epoch redis)
         (case v of None \<Rightarrow> ''(none)'' | Some s \<Rightarrow> ck_epoch s)) (read w2 ns)), w2)
   | Inr Rollback \<Rightarrow> (Inl (reread (\<lambda>v. case v of None \<Rightarrow> RawError ''TypeError''
         | Some s \<Rightarrow> RollbackDetectedError (ck_sequence redis) (ck_sequence s)) (read w2 ns)), w2)
   | Inr RedisAhead \<Rightarrow> (Inl (reread (\<lambda>v. case v of None \<Rightarrow> RawError ''TypeError''
         | Some s \<Rightarrow> RedisAheadError (ck_sequence redis) (ck_sequence s)) (read w2 ns)), w2)
   | Inr Ok \<Rightarrow>
       if MAX_SEQUENCE \<le> ck_sequence redis then (Inl (SequenceExhaustedError (ck_sequence redis)), w2)
       else let next = redis\<lparr>ck_sequence := ck_sequence redis + 1\<rparr>
            in (case compareAndAdvance ns redis next w2 of
                  (Inl e, w') \<Rightarrow> (Inl (wrap_witness_error e), w')
                | (Inr result, w') \<Rightarrow>
                    if ck_epoch result \<noteq> ck_epoch next \<or> ck_sequence result \<noteq> ck_sequence next
                    then (Inl MalformedCasError, w') else (Inr (ck_sequence result), w')))"

lemma check_Ok_iff:
  "check read ns redis w = Inr Ok \<longleftrightarrow> valid_state redis \<and> read w ns = returns (Some redis)"
proof -
  have eq: "s = redis \<longleftrightarrow> ck_epoch s = ck_epoch redis \<and> ck_sequence s = ck_sequence redis" for s
    by (cases s; cases redis) simp
  show ?thesis
    by (auto simp: check_def assertId_def assertSeq_def assertState_def valid_state_def eq
        split: sum.splits option.splits if_splits)
qed

text \<open>
  C16. Fenced reservation. Assume the witness's documented compare-and-advance: it succeeds only on
  the expected state and then holds the new one. A reservation that returns \<open>n\<close>, with any
  interference between its check and its advance, saw exact agreement, advanced the witness from the
  view's sequence to \<open>n\<close>, one above it, within the safe integers; and until the caller mirrors it,
  reserving again with the old view fails closed as a rollback: no sequence number is handed out
  twice.
\<close>
theorem reserve_is_fenced:
  assumes "\<And>ns e n w r w'. compareAndAdvance ns e n w = (Inr r, w') \<Longrightarrow>
      read w ns = returns (Some e) \<and> r = n \<and> read w' ns = returns (Some n)"
    and "reserve read compareAndAdvance ns redis w1 w2 = (Inr n, w')"
  shows "n = ck_sequence redis + 1 \<and> n \<le> MAX_SAFE_INTEGER
    \<and> read w1 ns = returns (Some redis) \<and> read w2 ns = returns (Some redis)
    \<and> read w' ns = returns (Some (redis\<lparr>ck_sequence := n\<rparr>))
    \<and> reserve read compareAndAdvance ns redis w' w' = (Inl (RollbackDetectedError (ck_sequence redis) n), w')"
proof -
  let ?next = "redis\<lparr>ck_sequence := ck_sequence redis + 1\<rparr>"
  have ok: "check read ns redis w1 = Inr Ok" and max: "\<not> MAX_SEQUENCE \<le> ck_sequence redis"
    using assms(2) by (auto simp: reserve_def split: sum.splits rollback_verdict.splits if_splits)
  then obtain r where cas: "compareAndAdvance ns redis ?next w2 = (Inr r, w')" and n: "n = ck_sequence r"
    using assms(2) by (auto simp: reserve_def Let_def split: sum.splits prod.splits if_splits)
  have v: "valid_state redis" "read w1 ns = returns (Some redis)" using ok by (auto simp: check_Ok_iff)
  have c: "read w2 ns = returns (Some redis)" "r = ?next" "read w' ns = returns (Some ?next)"
    using assms(1) [OF cas] by auto
  have "check read ns redis w' = Inr Rollback"
    using v(1) c(3) max by (auto simp: check_def assertId_def assertSeq_def assertState_def valid_state_def
        is_safe_integer_def MAX_SEQUENCE_def)
  then show ?thesis using n v c max by (simp add: reserve_def reread_def MAX_SEQUENCE_def)
qed

section \<open>Examples\<close>

lemma quarantine_holds_witness:
  "let g = (case new_continuity_guard ''prod'' 130000 None None of Inr g \<Rightarrow> g);
       h = reconcile 1000 (Inr None) RedisOK g
   in assertAcceptable 161000 (foldl reconcile_step h [(2000, Inr (Some ''e''), RedisOK)]) = Inr () \<and> 1000 + cg_quarantineMs g \<le> 161000"
proof -
  obtain g where g: "new_continuity_guard ''prod'' 130000 None None = returns g" "cg_quarantineMs g = 160000"
    "cg_trustedEpoch g = None" "cg_until g = None"
    by (simp add: new_continuity_guard_def NAMESPACE_RE_def is_alnum_def is_lower_def positiveSafeInteger_def
        is_safe_integer_def MAX_SAFE_INTEGER_def DEFAULT_CONTINUITY_SAFETY_ALLOWANCE_MS_def
        DEFAULT_CONTINUITY_TIMEOUT_MS_def Let_def)
  then have "assertAcceptable 161000 (foldl reconcile_step (reconcile 1000 (Inr None) RedisOK g)
      [(2000, Inr (Some ''e''), RedisOK)]) = Inr ()"
    by (simp add: assertAcceptable_def reconcile_def initialise_def enterQuarantine_def Let_def)
  with quarantine_holds [of "Inr None" g, OF _ this] g show ?thesis
    by (simp add: Let_def continuity_break_def)
qed

lemma quarantine_outlives_lost_nonces_witness: "\<not> \<bar>(161000 :: int) - 500\<bar> \<le> 60000"
proof -
  obtain g where g: "new_continuity_guard ''prod'' 130000 None None = returns g" "cg_quarantineMs g = 160000"
    "cg_trustedEpoch g = None" "cg_until g = None"
    by (simp add: new_continuity_guard_def NAMESPACE_RE_def is_alnum_def is_lower_def positiveSafeInteger_def
        is_safe_integer_def MAX_SAFE_INTEGER_def DEFAULT_CONTINUITY_SAFETY_ALLOWANCE_MS_def
        DEFAULT_CONTINUITY_TIMEOUT_MS_def Let_def)
  have acc: "assertAcceptable 161000 (foldl reconcile_step (reconcile 1000 (Inr None) RedisOK g) []) = Inr ()"
    using g by (simp add: assertAcceptable_def reconcile_def initialise_def enterQuarantine_def Let_def)
  have ret: "deriveNonceRetentionMs 60000 10000 = returns 130000"
    by (simp add: deriveNonceRetentionMs_iff is_safe_integer_def MAX_SAFE_INTEGER_def)
  show ?thesis
    by (rule quarantine_outlives_lost_nonces [OF ret g(1) _ _ acc, of "[]" 600])
       (simp_all add: continuity_break_def)
qed

definition ex_cas :: "string \<Rightarrow> checkpoint_state \<Rightarrow> checkpoint_state \<Rightarrow> checkpoint_state \<Rightarrow> (checkpoint_error + checkpoint_state) \<times> checkpoint_state" where
  "ex_cas ns e n w = (if w = e then (Inr n, n) else (Inl CheckpointConflictError, w))"

lemma reserve_is_fenced_witness:
  "let v = \<lparr>ck_epoch = ''e1'', ck_sequence = 4\<rparr>
   in reserve (\<lambda>w ns. returns (Some w)) ex_cas ''ns'' v (v\<lparr>ck_sequence := 5\<rparr>) (v\<lparr>ck_sequence := 5\<rparr>)
      = (Inl (RollbackDetectedError 4 5), v\<lparr>ck_sequence := 5\<rparr>)"
proof -
  let ?v = "\<lparr>ck_epoch = ''e1'', ck_sequence = 4\<rparr>"
  have run: "reserve (\<lambda>w ns. returns (Some w)) ex_cas ''ns'' ?v ?v ?v = (Inr 5, ?v\<lparr>ck_sequence := 5\<rparr>)"
    by (simp add: reserve_def check_def assertId_def assertSeq_def assertState_def ID_PATTERN_def is_alnum_def
        is_lower_def is_digit_def is_safe_integer_def MAX_SAFE_INTEGER_def MAX_SEQUENCE_def ex_cas_def Let_def)
  have law: "(returns (Some w) :: checkpoint_state option throws) = returns (Some e) \<and> r = n
      \<and> (returns (Some w') :: checkpoint_state option throws) = returns (Some n)"
    if "ex_cas ns e n w = (Inr r, w')" for ns e n w r w'
    using that by (auto simp: ex_cas_def split: if_splits)
  have "reserve (\<lambda>w ns. returns (Some w)) ex_cas ''ns'' ?v (?v\<lparr>ck_sequence := 5\<rparr>) (?v\<lparr>ck_sequence := 5\<rparr>)
      = (Inl (RollbackDetectedError (ck_sequence ?v) 5), ?v\<lparr>ck_sequence := 5\<rparr>)"
    by (rule reserve_is_fenced [OF _ run, THEN conjunct2, THEN conjunct2, THEN conjunct2, THEN conjunct2, THEN conjunct2])
       (rule law)
  then show ?thesis by (simp only: Let_def checkpoint_state.simps)
qed

end
