(* ===== verification/Middleware.thy ===== *)
theory Middleware
  imports Registry Anomaly Rate_Limiter Audit_Log Continuity
begin

text \<open>
  \<^verbatim>\<open>packages/server/src/middleware.ts\<close>: the request verifier. One verification is four phases,
  separated where the code awaits between reading state and relying on it:
  \<open>admit\<close> (limits, headers, pair, status, tarpit), \<open>check_payload\<close> (decode, HMAC, timestamp,
  binding, scope, body hash, signature), \<open>consume_nonce\<close> (continuity gate, nonce, ghost trap) and
  \<open>claim_use\<close> (the atomic claim). \<open>verifyBPCRequest\<close> runs them at times \<open>t1\<close> to \<open>t4\<close> with arbitrary
  interference \<open>e1\<close>, \<open>e2\<close>, \<open>e3\<close> of other requests and operators in between. A result is a sum:
  \<open>Inl\<close> is a rejected promise. The nonce store is the parameter \<open>consume\<close> over a state \<open>'n\<close>.
  The two messages with an em dash carry two hyphens here.
\<close>

section \<open>Data\<close>

record bpc_request =
  rq_pairId :: "string option"
  rq_signedData :: "string option"
  rq_signature :: "string option"
  rq_method :: string
  rq_path :: string
  rq_version :: "string option"
  rq_bodyHash :: "string option"
  rq_ip :: "string option"

record server_config =
  sc_sigWindowMs :: int
  sc_lockoutCount :: "int option"
  sc_enableShadowMode :: "bool option"
  sc_enableTarpit :: "bool option"

text \<open>The collaborators of a verifier; an optional one is an \<open>option\<close>.\<close>

record 'n server =
  srv_registry :: registry
  srv_anomaly :: anomaly
  srv_nonces :: 'n
  srv_ipLimiter :: "rate_limiter option"
  srv_rateLimiter :: "rate_limiter option"
  srv_audit :: "audit_log option"
  srv_guard :: "continuity_guard option"

record verify_result =
  vr_ok :: bool
  vr_pairId :: "string option"
  vr_snapshot :: "auth_snapshot option"
  vr_error :: "string option"
  vr_shadow :: bool
  vr_tarpitDelayMs :: "int option"

record auth_context =
  au_pairId :: string
  au_scope :: string
  au_mode :: string
  au_kind :: pair_kind
  au_canaryClass :: "canary_class option"
  au_status :: pair_status
  au_failedSigs :: int
  au_expiresAt :: "int option"
  au_maxRequests :: "int option"
  au_requests :: int
  au_secretHash :: string
  au_pubJwk :: json

definition MAX_SIGNED_DATA_LEN :: nat where
  "MAX_SIGNED_DATA_LEN = 4096"

definition MAX_SIGNATURE_LEN :: nat where
  "MAX_SIGNATURE_LEN = 256"

definition MAX_PAIR_ID_LEN :: nat where
  "MAX_PAIR_ID_LEN = 64"

definition ALLOWED_METHODS :: "string list" where
  "ALLOWED_METHODS = [''GET'', ''HEAD'', ''OPTIONS'', ''POST'', ''PUT'', ''PATCH'', ''DELETE'']"

definition hex_run :: "nat \<Rightarrow> nat \<Rightarrow> string \<Rightarrow> bool" where
  "hex_run from n s = list_all is_hex_char (take n (drop from s))"

definition UUID_RE :: "string \<Rightarrow> bool" where
  "UUID_RE s = (length s = 36 \<and> hex_run 0 8 s \<and> s ! 8 = CHR ''-'' \<and> hex_run 9 4 s \<and> s ! 13 = CHR ''-''
     \<and> s ! 14 = CHR ''4'' \<and> hex_run 15 3 s \<and> s ! 18 = CHR ''-'' \<and> s ! 19 \<in> set ''89abAB'' \<and> hex_run 20 3 s
     \<and> s ! 23 = CHR ''-'' \<and> hex_run 24 12 s)"

definition DEFAULT_SERVER_CONFIG :: server_config where
  "DEFAULT_SERVER_CONFIG = \<lparr>sc_sigWindowMs = 60000, sc_lockoutCount = None,
     sc_enableShadowMode = Some True, sc_enableTarpit = Some True\<rparr>"

definition SCOPE_ALLOWED_METHODS :: "string \<Rightarrow> string list option" where
  "SCOPE_ALLOWED_METHODS scope = map_of
     [(''read'', [''GET'', ''HEAD'', ''OPTIONS'']),
      (''read-write'', [''GET'', ''HEAD'', ''OPTIONS'', ''POST'', ''PUT'', ''PATCH'']),
      (''admin'', [''GET'', ''HEAD'', ''OPTIONS'', ''POST'', ''PUT'', ''PATCH'', ''DELETE''])] scope"

definition captureAuthorizationContext :: "stored_pair \<Rightarrow> auth_context throws" where
  "captureAuthorizationContext p = and_then (canonicalAuthorizationJwk (sp_pubJwk p)) (\<lambda>jwk. returns
     \<lparr>au_pairId = sp_id p, au_scope = sp_scope p, au_mode = sp_mode p, au_kind = kind_of (sp_kind p),
      au_canaryClass = sp_canaryClass p, au_status = sp_status p, au_failedSigs = sp_failedSigs p,
      au_expiresAt = sp_expiresAt p, au_maxRequests = sp_maxRequests p, au_requests = sp_requests p,
      au_secretHash = sp_secretHash p, au_pubJwk = jwk\<rparr>)"

section \<open>Shared steps\<close>

text \<open>A phase ends the verification with a result or goes on with a value.\<close>

datatype 'a phase = Done "verify_result throws" | Go 'a

fun and_phase :: "'a phase \<times> 's \<Rightarrow> ('a \<Rightarrow> 's \<Rightarrow> 'b phase \<times> 's) \<Rightarrow> 'b phase \<times> 's" where
  "and_phase (Done r, s) f = (Done r, s)"
| "and_phase (Go a, s) f = f a s"

definition source_ip :: "bpc_request \<Rightarrow> string" where
  "source_ip req = (case rq_ip req of None \<Rightarrow> ''unknown'' | Some ip \<Rightarrow> ip)"

definition present :: "string option \<Rightarrow> bool" where
  "present v = (v \<noteq> None \<and> v \<noteq> Some [])"

definition pair_id :: "bpc_request \<Rightarrow> string" where
  "pair_id req = (case rq_pairId req of None \<Rightarrow> [] | Some p \<Rightarrow> p)"

definition shadow_enabled :: "server_config \<Rightarrow> bool" where
  "shadow_enabled cfg = (sc_enableShadowMode cfg \<noteq> Some False)"

definition tarpit_enabled :: "server_config \<Rightarrow> bool" where
  "tarpit_enabled cfg = (sc_enableTarpit cfg \<noteq> Some False)"

definition log_event :: "webcrypto \<Rightarrow> int \<Rightarrow> audit_input \<Rightarrow> 'n server \<Rightarrow> 'n server" where
  "log_event cr now i srv = srv\<lparr>srv_audit := map_option (audit_write cr now i) (srv_audit srv)\<rparr>"

definition event :: "bpc_request \<Rightarrow> audit_action \<Rightarrow> audit_severity option \<Rightarrow> string option \<Rightarrow> string option \<Rightarrow> audit_input" where
  "event req act sev err detail = \<lparr>ai_action = act, ai_severity = sev, ai_pairId = rq_pairId req, ai_error = err,
     ai_ip = rq_ip req, ai_method = Some (rq_method req), ai_path = Some (rq_path req), ai_userAgent = None,
     ai_requestId = None, ai_detail = detail\<rparr>"

definition with_anomaly :: "(anomaly \<Rightarrow> anomaly) \<Rightarrow> 'n server \<Rightarrow> 'n server" where
  "with_anomaly f srv = srv\<lparr>srv_anomaly := f (srv_anomaly srv)\<rparr>"

definition denied :: "string \<Rightarrow> verify_result" where
  "denied error = \<lparr>vr_ok = False, vr_pairId = None, vr_snapshot = None, vr_error = Some error,
     vr_shadow = False, vr_tarpitDelayMs = None\<rparr>"

definition deny :: "webcrypto \<Rightarrow> bpc_request \<Rightarrow> int \<Rightarrow> string \<Rightarrow> bool \<Rightarrow> 'n server \<Rightarrow> 'a phase \<times> 'n server" where
  "deny cr req now error doSigFail srv =
     (let srv1 = with_anomaly (recordDenied now (rq_pairId req)) srv;
          srv2 = (if doSigFail then
             (let s = with_anomaly (recordSigFailure now (rq_pairId req)) srv1
              in if present (rq_pairId req)
                 then with_anomaly (recordSigFailureForIp now (pair_id req) (source_ip req)) s else s)
             else srv1);
          srv3 = log_event cr now (event req VerifyFail None (Some error) None) srv2;
          srv4 = (if present (rq_pairId req) \<and> doSigFail
             then srv3\<lparr>srv_registry := snd (recordActivity now (pair_id req) False (Some (source_ip req)) (srv_registry srv3))\<rparr>
             else srv3)
      in (Done (returns (denied error)), srv4))"

definition shadow_result :: "bpc_request \<Rightarrow> string \<Rightarrow> int \<Rightarrow> verify_result" where
  "shadow_result req error delayMs = \<lparr>vr_ok = False, vr_pairId = rq_pairId req, vr_snapshot = None,
     vr_error = Some error, vr_shadow = True, vr_tarpitDelayMs = Some delayMs\<rparr>"

definition shadow_tarpit :: "server_config \<Rightarrow> bpc_request \<Rightarrow> int \<Rightarrow> 'n server \<Rightarrow> int \<times> 'n server" where
  "shadow_tarpit cfg req now srv =
     (if tarpit_enabled cfg
      then (case applyTarpit now (source_ip req) Shadow (srv_anomaly srv) of
              (delayMs, an) \<Rightarrow> (delayMs, srv\<lparr>srv_anomaly := an\<rparr>))
      else (0, srv))"

section \<open>Phase 1: admission\<close>

definition ip_limit :: "webcrypto \<Rightarrow> bpc_request \<Rightarrow> int \<Rightarrow> 'n server \<Rightarrow> unit phase \<times> 'n server" where
  "ip_limit cr req now srv = (case srv_ipLimiter srv of
     None \<Rightarrow> (Go (), srv)
   | Some rl \<Rightarrow>
       if \<not> present (rq_ip req) then (Go (), srv)
       else (case rate_check now (''ip:'' @ source_ip req) rl of (res, rl') \<Rightarrow>
         let srv' = srv\<lparr>srv_ipLimiter := Some rl'\<rparr>
         in if \<not> rl_allowed res then deny cr req now ''rate_limit_exceeded'' False srv' else (Go (), srv')))"

definition shadow_gate :: "webcrypto \<Rightarrow> server_config \<Rightarrow> bpc_request \<Rightarrow> int \<Rightarrow> 'n server \<Rightarrow> unit phase \<times> 'n server" where
  "shadow_gate cr cfg req now srv =
     (if shadow_enabled cfg \<and> present (rq_pairId req)
         \<and> isInShadowState (pair_id req) (source_ip req) (srv_anomaly srv)
      then (case shadow_tarpit cfg req now srv of (delayMs, srv') \<Rightarrow>
        (Done (returns (shadow_result req ''shadow_denied'' delayMs)),
         log_event cr now (event req ShadowModeHit (Some SevCritical) None
           (Some (''Shadow mode active for IP '' @ source_ip req @ '' on pair '' @ pair_id req))) srv'))
      else (Go (), srv))"

definition pair_limit :: "webcrypto \<Rightarrow> bpc_request \<Rightarrow> int \<Rightarrow> 'n server \<Rightarrow> unit phase \<times> 'n server" where
  "pair_limit cr req now srv = (case srv_rateLimiter srv of
     None \<Rightarrow> (Go (), srv)
   | Some rl \<Rightarrow>
       if \<not> present (rq_pairId req) then (Go (), srv)
       else (case rate_check now (''pair:'' @ pair_id req) rl of (res, rl') \<Rightarrow>
         let srv' = srv\<lparr>srv_rateLimiter := Some rl'\<rparr>
         in if \<not> rl_allowed res then deny cr req now ''rate_limit_exceeded'' False srv' else (Go (), srv')))"

definition opt_length :: "string option \<Rightarrow> nat" where
  "opt_length v = (case v of None \<Rightarrow> 0 | Some s \<Rightarrow> length s)"

definition header_error :: "bpc_request \<Rightarrow> string option" where
  "header_error req =
     (if rq_method req \<notin> set ALLOWED_METHODS then Some ''invalid_method''
      else if \<not> present (rq_pairId req) \<or> \<not> present (rq_signedData req) \<or> \<not> present (rq_signature req)
      then Some ''missing_headers''
      else if opt_length (rq_pairId req) > MAX_PAIR_ID_LEN \<or> opt_length (rq_signedData req) > MAX_SIGNED_DATA_LEN
        \<or> opt_length (rq_signature req) > MAX_SIGNATURE_LEN
      then Some ''invalid_signed_data''
      else if \<not> list_all is_b64url_char (pair_id req) then Some ''invalid_signed_data''
      else if (case rq_version req of None \<Rightarrow> ''1.0'' | Some v \<Rightarrow> v) \<noteq> BPC_PROTOCOL_VERSION
      then Some ''version_mismatch''
      else None)"

definition check_headers :: "webcrypto \<Rightarrow> bpc_request \<Rightarrow> int \<Rightarrow> 'n server \<Rightarrow> unit phase \<times> 'n server" where
  "check_headers cr req now srv = (case header_error req of
     Some e \<Rightarrow> deny cr req now e False srv | None \<Rightarrow> (Go (), srv))"

definition load_pair :: "webcrypto \<Rightarrow> bpc_request \<Rightarrow> int \<Rightarrow> 'n server \<Rightarrow> auth_context phase \<times> 'n server" where
  "load_pair cr req now srv = (case reg_get (srv_registry srv) (pair_id req) of
     None \<Rightarrow> deny cr req now ''unknown_pair'' False (with_anomaly (recordUnknownPair now) srv)
   | Some p \<Rightarrow>
       (case captureAuthorizationContext p of
          Inl e \<Rightarrow> (Done (throw e), srv)
        | Inr auth \<Rightarrow> (Go auth, srv)))"

text \<open>A registry call that may throw: its result goes to the continuation, its error rejects.\<close>

definition registry_call ::
    "(registry \<Rightarrow> 'a throws \<times> registry) \<Rightarrow> 'n server \<Rightarrow> ('a \<Rightarrow> 'n server \<Rightarrow> 'b phase \<times> 'n server) \<Rightarrow> 'b phase \<times> 'n server" where
  "registry_call f srv k = (case f (srv_registry srv) of (res, reg) \<Rightarrow>
     (case res of
        Inl e \<Rightarrow> (Done (throw e), srv\<lparr>srv_registry := reg\<rparr>)
      | Inr v \<Rightarrow> k v (srv\<lparr>srv_registry := reg\<rparr>)))"

definition lock_denial :: "webcrypto \<Rightarrow> server_config \<Rightarrow> bpc_request \<Rightarrow> int \<Rightarrow> string \<Rightarrow> bool \<Rightarrow> 'n server \<Rightarrow> 'a phase \<times> 'n server" where
  "lock_denial cr cfg req now reason audited srv =
     (if shadow_enabled cfg then
        (case shadow_tarpit cfg req now
             (with_anomaly (enterShadowState now (pair_id req) (source_ip req) reason) srv) of
           (delayMs, srv') \<Rightarrow>
             (Done (returns (shadow_result req ''pair_locked'' delayMs)),
              if audited then log_event cr now (event req ShadowModeEnter (Some SevHigh) None
                (Some (''Locked pair '' @ pair_id req @ '' -- attacker IP '' @ source_ip req @ '' routed to shadow mode''))) srv'
              else srv'))
      else deny cr req now ''pair_locked'' False srv)"

definition check_status ::
    "webcrypto \<Rightarrow> server_config \<Rightarrow> bpc_request \<Rightarrow> int \<Rightarrow> auth_context \<Rightarrow> 'n server \<Rightarrow> unit phase \<times> 'n server" where
  "check_status cr cfg req now auth srv =
     (let lockoutCount = (case sc_lockoutCount cfg of None \<Rightarrow> 10 | Some n \<Rightarrow> n)
      in if au_status auth = Revoked then deny cr req now ''pair_revoked'' False srv
         else if au_status auth = Locked then lock_denial cr cfg req now ''pair_locked'' True srv
         else if au_status auth = Rotated then deny cr req now ''pair_rotated'' False srv
         else if au_status auth = Expired then deny cr req now ''pair_expired'' False srv
         else if au_failedSigs auth \<ge> lockoutCount then
           registry_call (ensureLocked (pair_id req) lockoutCount) srv (\<lambda>locked srv'.
             if \<not> locked then deny cr req now ''pair_state_changed_retry'' False srv'
             else lock_denial cr cfg req now ''failedSigs_threshold'' False srv')
         else if (case au_expiresAt auth of None \<Rightarrow> False | Some e \<Rightarrow> e \<noteq> 0 \<and> now > e) then
           registry_call (markExpired now (pair_id req)) srv (\<lambda>marked srv'.
             if \<not> marked then deny cr req now ''pair_state_changed_retry'' False srv'
             else deny cr req now ''pair_expired'' False srv')
         else if cap_reached (au_maxRequests auth) (au_requests auth) then
           registry_call (map_prod returns id \<circ> markUsageExpired (pair_id req)) srv (\<lambda>marked srv'.
             if \<not> marked then deny cr req now ''pair_state_changed_retry'' False srv'
             else deny cr req now ''pair_usage_cap_exceeded'' False srv')
         else if au_status auth \<noteq> Active then deny cr req now ''pair_revoked'' False srv
         else (Go (), srv))"

definition tarpit_gate :: "webcrypto \<Rightarrow> server_config \<Rightarrow> bpc_request \<Rightarrow> int \<Rightarrow> 'n server \<Rightarrow> int phase \<times> 'n server" where
  "tarpit_gate cr cfg req now srv =
     (if tarpit_enabled cfg \<and> source_ip req \<noteq> ''unknown'' then
        (case getVerdict now (pair_id req) (source_ip req) (srv_anomaly srv) of (v, an) \<Rightarrow>
          let srv' = srv\<lparr>srv_anomaly := an\<rparr>
          in (case v of
                Suspicious \<Rightarrow>
                  (case applyTarpit now (source_ip req) Suspicious (srv_anomaly srv') of
                     (delayMs, an') \<Rightarrow> (Go delayMs, srv'\<lparr>srv_anomaly := an'\<rparr>))
              | Shadow \<Rightarrow>
                  (case applyTarpit now (source_ip req) Shadow
                       (enterShadowState now (pair_id req) (source_ip req) ''verdict_shadow'' (srv_anomaly srv')) of
                     (delayMs, an') \<Rightarrow>
                       (Done (returns (shadow_result req ''shadow_denied'' delayMs)), srv'\<lparr>srv_anomaly := an'\<rparr>))
              | Attack \<Rightarrow> deny cr req now ''rate_limit_exceeded'' False srv'
              | Clean \<Rightarrow> (Go 0, srv')))
      else (Go 0, srv))"

definition admit :: "webcrypto \<Rightarrow> server_config \<Rightarrow> bpc_request \<Rightarrow> int \<Rightarrow> 'n server \<Rightarrow> (auth_context \<times> int) phase \<times> 'n server" where
  "admit cr cfg req now srv =
     and_phase (ip_limit cr req now (with_anomaly (recordRequest now (rq_pairId req)) srv)) (\<lambda>_ srv.
     and_phase (shadow_gate cr cfg req now srv) (\<lambda>_ srv.
     and_phase (pair_limit cr req now srv) (\<lambda>_ srv.
     and_phase (check_headers cr req now srv) (\<lambda>_ srv.
     and_phase (load_pair cr req now srv) (\<lambda>auth srv.
     and_phase (check_status cr cfg req now auth srv) (\<lambda>_ srv.
     and_phase (tarpit_gate cr cfg req now srv) (\<lambda>delayMs srv.
       (Go (auth, delayMs), srv))))))))"

section \<open>Phase 2: the payload\<close>

text \<open>
  A \<open>secret_hmac\<close> that is not a string is coerced by the length test and the regular expression of
  \<open>verifySecretHmac\<close>. It never verifies: a number or \<open>true\<close> is too short, an array has commas, a
  plain object prints as \<open>[object Object]\<close>. An object whose own property hides \<open>toString\<close>, or a long
  array that contains one, raises a \<open>TypeError\<close> instead. A \<open>length\<close> property is compared
  as a number, decimal numerals included.
\<close>

fun coercion_throws :: "json \<Rightarrow> bool" where
  "coercion_throws (JObj kvs) = jm_has kvs ''toString''"
| "coercion_throws (JArr xs) = list_ex coercion_throws xs"
| "coercion_throws _ = False"

definition length_below_43 :: "json option \<Rightarrow> bool" where
  "length_below_43 v = (case v of
     None \<Rightarrow> False
   | Some JNull \<Rightarrow> True
   | Some (JBool b) \<Rightarrow> True
   | Some (JNum n) \<Rightarrow> n < 43
   | Some (JStr s) \<Rightarrow> (let t = js_trim s in t = [] \<or> (list_all is_digit t \<and> dec_to_nat t < 43))
   | Some (JArr xs) \<Rightarrow> xs = []
   | Some (JObj kvs) \<Rightarrow> False)"

definition secret_hmac_valid :: "webcrypto \<Rightarrow> string \<Rightarrow> string \<Rightarrow> int \<Rightarrow> json \<Rightarrow> bool throws" where
  "secret_hmac_valid cr storedHmacKey nonce timestamp v = (case v of
     JStr s \<Rightarrow> returns (verifySecretHmac cr storedHmacKey nonce timestamp s)
   | JObj kvs \<Rightarrow> if \<not> length_below_43 (map_of kvs ''length'') \<and> coercion_throws v
       then throw ''TypeError'' else returns False
   | JArr xs \<Rightarrow> if 43 \<le> length xs \<and> coercion_throws v then throw ''TypeError'' else returns False
   | _ \<Rightarrow> returns False)"

definition decode_payload :: "string \<Rightarrow> json throws" where
  "decode_payload signedData =
     and_then (b64url_atob signedData) (\<lambda>text.
       and_then (assertNoForbiddenKeys text) (\<lambda>_. json_parse text))"

text \<open>What the payload checks establish: the nonce, and the time of the snapshot.\<close>

definition check_binding :: "bpc_request \<Rightarrow> auth_context \<Rightarrow> json \<Rightarrow> (string \<times> bool) option" where
  "check_binding req auth payload =
     (if field payload ''method'' \<noteq> Some (JStr (rq_method req)) \<or> field payload ''path'' \<noteq> Some (JStr (rq_path req))
      then Some (''method_path_mismatch'', True)
      else if field payload ''pair_id'' \<noteq> Some (JStr (pair_id req)) then Some (''pair_id_mismatch'', True)
      else if field payload ''version'' \<noteq> Some (JStr BPC_PROTOCOL_VERSION) then Some (''version_mismatch'', True)
      else
       (let normalizedWireMethod = map to_upper (rq_method req);
            payloadMethod = (case field payload ''method'' of Some (JStr m) \<Rightarrow> map to_upper m | _ \<Rightarrow> [])
        in (case SCOPE_ALLOWED_METHODS (au_scope auth) of
              None \<Rightarrow> Some (''scope_violation'', False)
            | Some allowedMethods \<Rightarrow>
                if normalizedWireMethod \<notin> set allowedMethods \<or> payloadMethod \<notin> set allowedMethods
                then Some (''scope_violation'', False)
                else (case field payload ''body_hash'' of
                    Some (JStr h) \<Rightarrow>
                      if h = [] then Some (''missing_body_hash'', True)
                      else if \<not> present (rq_bodyHash req) then Some (''missing_body_hash'', True)
                      else if Some h \<noteq> rq_bodyHash req then Some (''invalid_body_hash'', True)
                      else None
                  | _ \<Rightarrow> Some (''missing_body_hash'', True)))))"

definition signature_valid :: "webcrypto \<Rightarrow> json \<Rightarrow> json \<Rightarrow> string \<Rightarrow> bool" where
  "signature_valid cr pubJwk payload signature = catch_false
     (and_then (importPublicKeyFromJwk cr pubJwk) (\<lambda>publicKey. returns (verifyPayload cr publicKey payload signature)))"

definition check_payload ::
    "webcrypto \<Rightarrow> server_config \<Rightarrow> bpc_request \<Rightarrow> auth_context \<Rightarrow> int \<Rightarrow> 'n server \<Rightarrow> string phase \<times> 'n server" where
  "check_payload cr cfg req auth now srv =
     (case decode_payload (case rq_signedData req of None \<Rightarrow> [] | Some s \<Rightarrow> s) of
        Inl e \<Rightarrow> deny cr req now ''invalid_signed_data'' True srv
      | Inr payload \<Rightarrow>
          if payload = JNull then (Done (throw ''TypeError''), srv)
          else (case field payload ''nonce'' of
             Some (JStr rawNonce) \<Rightarrow>
               if \<not> UUID_RE rawNonce then deny cr req now ''invalid_signed_data'' True srv
               else (case field payload ''timestamp'' of
                  Some (JNum rawTimestamp) \<Rightarrow>
                    (case field payload ''secret_hmac'' of
                       None \<Rightarrow> deny cr req now ''missing_secret_hmac'' True srv
                     | Some secretHmac \<Rightarrow>
                         if \<not> truthy secretHmac then deny cr req now ''missing_secret_hmac'' True srv
                         else if au_secretHash auth = [] then deny cr req now ''invalid_secret_hmac'' True srv
                         else (case secret_hmac_valid cr (au_secretHash auth) rawNonce rawTimestamp secretHmac of
                            Inl e \<Rightarrow> (Done (throw e), srv)
                          | Inr secretValid \<Rightarrow>
                              if \<not> secretValid then deny cr req now ''invalid_secret_hmac'' True srv
                              else if sc_sigWindowMs cfg < \<bar>now - rawTimestamp\<bar>
                              then deny cr req now ''timestamp_expired'' True
                                     (with_anomaly (recordExpiredTimestamp now (rq_pairId req)) srv)
                              else (case check_binding req auth payload of
                                 Some (e, sigFail) \<Rightarrow> deny cr req now e sigFail srv
                               | None \<Rightarrow>
                                   if \<not> signature_valid cr (au_pubJwk auth) payload
                                        (case rq_signature req of None \<Rightarrow> [] | Some s \<Rightarrow> s)
                                   then deny cr req now ''invalid_signature'' True srv
                                   else (Go rawNonce, srv))))
                | _ \<Rightarrow> deny cr req now ''invalid_signed_data'' True srv)
           | _ \<Rightarrow> deny cr req now ''invalid_signed_data'' True srv))"

section \<open>Phase 3: the nonce\<close>

definition canary_text :: "canary_class option \<Rightarrow> string" where
  "canary_text c = (case c of None \<Rightarrow> ''undefined'' | Some EnvFile \<Rightarrow> ''env_file'' | Some Docs \<Rightarrow> ''docs''
     | Some RegistryExfil \<Rightarrow> ''registry_exfil'')"

definition ghost_detail :: "bpc_request \<Rightarrow> auth_context \<Rightarrow> int \<Rightarrow> string" where
  "ghost_detail req auth now = stringify (JObj
     ((if au_canaryClass auth = None then [] else [(''canaryClass'', JStr (canary_text (au_canaryClass auth)))]) @
      [(''sourceIp'', JStr (source_ip req)), (''method'', JStr (rq_method req)), (''path'', JStr (rq_path req)),
       (''timestamp'', JNum now),
       (''alert'', JStr ''CONFIRMED_BREACH -- canary credential used. Attacker IP auto-routed to shadow mode.'')]))"

definition ghost_trap ::
    "webcrypto \<Rightarrow> server_config \<Rightarrow> bpc_request \<Rightarrow> auth_context \<Rightarrow> int \<Rightarrow> int \<Rightarrow> 'n server \<Rightarrow> unit phase \<times> 'n server" where
  "ghost_trap cr cfg req auth verifiedAt now srv =
     (if au_kind auth = Ghost then
        (case shadow_tarpit cfg req now
            (with_anomaly (enterShadowState now (pair_id req) (source_ip req) (''ghost_pair_hit:'' @ canary_text (au_canaryClass auth))) srv) of
           (delayMs, srv') \<Rightarrow>
             (Done (returns (shadow_result req ''ghost_pair_denied'' delayMs)),
              log_event cr now (event req GhostPairTriggered (Some SevCritical) None (Some (ghost_detail req auth verifiedAt))) srv'))
      else (Go (), srv))"

definition consume_nonce ::
    "webcrypto \<Rightarrow> server_config \<Rightarrow> (int \<Rightarrow> string \<Rightarrow> 'n \<Rightarrow> (nonce_error + bool) \<times> 'n) \<Rightarrow> bpc_request \<Rightarrow> auth_context
       \<Rightarrow> int \<Rightarrow> int \<Rightarrow> string \<Rightarrow> 'n server \<Rightarrow> unit phase \<times> 'n server" where
  "consume_nonce cr cfg consume req auth verifiedAt now rawNonce srv =
     (if (case srv_guard srv of None \<Rightarrow> False | Some g \<Rightarrow> assertAcceptable now g \<noteq> Inr ())
      then deny cr req now ''authorization_quarantined'' False srv
      else (case consume now rawNonce (srv_nonces srv) of (reply, nonces) \<Rightarrow>
        let srv1 = srv\<lparr>srv_nonces := nonces\<rparr>
        in (case reply of
              Inl (AuthorizationQuarantineError r) \<Rightarrow> deny cr req now ''authorization_quarantined'' False srv1
            | Inl e \<Rightarrow> deny cr req now ''replay_store_unavailable'' False srv1
            | Inr replayDetected \<Rightarrow>
                if replayDetected
                then deny cr req now ''replay_detected'' False (with_anomaly (recordReplay now (rq_pairId req)) srv1)
                else ghost_trap cr cfg req auth verifiedAt now srv1)))"

section \<open>Phase 4: the claim\<close>

definition expected_policy :: "auth_context \<Rightarrow> use_policy" where
  "expected_policy auth = \<lparr>up_status = au_status auth, up_scope = au_scope auth, up_mode = au_mode auth,
     up_secretHash = au_secretHash auth, up_pubJwk = au_pubJwk auth, up_expiresAt = au_expiresAt auth,
     up_maxRequests = au_maxRequests auth, up_kind = au_kind auth, up_canaryClass = au_canaryClass auth\<rparr>"

definition snapshot_of :: "auth_context \<Rightarrow> int \<Rightarrow> auth_snapshot" where
  "snapshot_of auth verifiedAt = \<lparr>snap_pairId = au_pairId auth, snap_scope = au_scope auth, snap_mode = au_mode auth,
     snap_kind = au_kind auth, snap_canaryClass = au_canaryClass auth, snap_verifiedAt = verifiedAt\<rparr>"

definition accepted :: "bpc_request \<Rightarrow> auth_context \<Rightarrow> int \<Rightarrow> int \<Rightarrow> verify_result" where
  "accepted req auth verifiedAt delayMs = \<lparr>vr_ok = True, vr_pairId = rq_pairId req,
     vr_snapshot = Some (snapshot_of auth verifiedAt), vr_error = None, vr_shadow = False,
     vr_tarpitDelayMs = (if delayMs > 0 then Some delayMs else None)\<rparr>"

definition claim_use ::
    "webcrypto \<Rightarrow> bpc_request \<Rightarrow> auth_context \<Rightarrow> int \<Rightarrow> int \<Rightarrow> int \<Rightarrow> 'n server \<Rightarrow> unit phase \<times> 'n server" where
  "claim_use cr req auth delayMs verifiedAt now srv =
     registry_call (claimSuccessfulUseOutcome (pair_id req) now (expected_policy auth)) srv (\<lambda>useClaim srv'.
       if useClaim = TimeExpired then deny cr req now ''pair_expired'' False srv'
       else if useClaim = UsageExhausted then deny cr req now ''pair_usage_cap_exceeded'' False srv'
       else if useClaim \<noteq> Claimed then deny cr req now ''pair_state_changed_retry'' False srv'
       else (Done (returns (accepted req auth verifiedAt delayMs)),
             log_event cr now (event req VerifyPass None None None) srv'))"

section \<open>verifyBPCRequest\<close>

record timing =
  tm_admit :: int
  tm_check :: int
  tm_consume :: int
  tm_claim :: int

record 'n interference =
  if_check :: "'n server \<Rightarrow> 'n server"
  if_consume :: "'n server \<Rightarrow> 'n server"
  if_claim :: "'n server \<Rightarrow> 'n server"

fun finish :: "unit phase \<times> 's \<Rightarrow> verify_result throws \<times> 's" where
  "finish (Done r, s) = (r, s)"
| "finish (Go u, s) = (throw ''unreachable'', s)"

definition verifyBPCRequest ::
    "webcrypto \<Rightarrow> server_config \<Rightarrow> (int \<Rightarrow> string \<Rightarrow> 'n \<Rightarrow> (nonce_error + bool) \<times> 'n) \<Rightarrow> bpc_request
       \<Rightarrow> timing \<Rightarrow> 'n interference \<Rightarrow> 'n server \<Rightarrow> verify_result throws \<times> 'n server" where
  "verifyBPCRequest cr cfg consume req tm ev srv = finish
     (and_phase (admit cr cfg req (tm_admit tm) srv) (\<lambda>(auth, delayMs) srv1.
      and_phase (check_payload cr cfg req auth (tm_check tm) (if_check ev srv1)) (\<lambda>rawNonce srv2.
      and_phase (consume_nonce cr cfg consume req auth (tm_check tm) (tm_consume tm) rawNonce (if_consume ev srv2)) (\<lambda>_ srv3.
        claim_use cr req auth delayMs (tm_check tm) (tm_claim tm) (if_claim ev srv3)))))"

section \<open>Phases\<close>

named_theorems phase_simps \<open>what a phase that goes on leaves unchanged\<close>

lemma and_phase_Go: "and_phase m f = (Go b, s') \<longleftrightarrow> (\<exists>a s. m = (Go a, s) \<and> f a s = (Go b, s'))"
  by (cases "(m, f)" rule: and_phase.cases) auto

definition not_accepted :: "'a phase \<times> 's \<Rightarrow> bool" where
  "not_accepted ps = (case fst ps of Done (Inr r) \<Rightarrow> \<not> vr_ok r | _ \<Rightarrow> True)"

lemma not_accepted_Go [simp]: "not_accepted (Go a, s)"
  by (simp add: not_accepted_def)

lemma not_accepted_throw [simp]: "not_accepted (Done (throw e), s)"
  by (simp add: not_accepted_def)

lemma not_accepted_deny [simp]: "not_accepted (deny cr req now e b s)"
  by (simp add: not_accepted_def deny_def denied_def Let_def)

lemma not_accepted_shadow [simp]: "not_accepted (Done (returns (shadow_result req e d)), s)"
  by (simp add: not_accepted_def shadow_result_def)

lemma deny_Go [simp]: "deny cr req now e b s \<noteq> (Go a, s')"
  by (simp add: deny_def Let_def)

lemma not_accepted_and:
  "not_accepted m \<Longrightarrow> (\<And>a s. m = (Go a, s) \<Longrightarrow> not_accepted (f a s)) \<Longrightarrow> not_accepted (and_phase m f)"
  by (cases "(m, f)" rule: and_phase.cases) (auto simp: not_accepted_def)

lemma not_accepted_call:
  "(\<And>v s'. not_accepted (k v s')) \<Longrightarrow> not_accepted (registry_call f s k)"
  by (auto simp: registry_call_def split: prod.splits sum.splits)

lemma not_accepted_lock [simp]: "not_accepted (lock_denial cr cfg req now r b s)"
  by (simp add: lock_denial_def split: prod.splits)

lemma lock_denial_Go [simp]: "lock_denial cr cfg req now r b s \<noteq> (Go a, s')"
  by (simp add: lock_denial_def split: prod.splits)

lemma registry_call_Go:
  "registry_call f s k = (Go a, s') \<Longrightarrow> \<exists>v reg. f (srv_registry s) = (Inr v, reg) \<and> k v (s\<lparr>srv_registry := reg\<rparr>) = (Go a, s')"
  by (auto simp: registry_call_def split: prod.splits sum.splits)

definition same_core :: "'n server \<Rightarrow> 'n server \<Rightarrow> bool" where
  "same_core s s' = (srv_registry s' = srv_registry s \<and> srv_nonces s' = srv_nonces s \<and> srv_guard s' = srv_guard s
     \<and> srv_audit s' = srv_audit s)"

lemma same_core_refl [simp]: "same_core s s"
  by (simp add: same_core_def)

lemma same_core_trans: "same_core a b \<Longrightarrow> same_core b c \<Longrightarrow> same_core a c"
  by (simp add: same_core_def)

lemma same_core_anomaly [simp]: "same_core s (s\<lparr>srv_anomaly := a\<rparr>)" "same_core s (with_anomaly f s)"
  by (simp_all add: same_core_def with_anomaly_def)

lemma ip_limit_Go: "ip_limit cr req now s = (Go u, s') \<Longrightarrow> same_core s s' \<and> srv_anomaly s' = srv_anomaly s"
  by (auto simp: ip_limit_def same_core_def Let_def split: option.splits if_splits prod.splits)

lemma pair_limit_Go: "pair_limit cr req now s = (Go u, s') \<Longrightarrow> same_core s s'"
  by (auto simp: pair_limit_def same_core_def Let_def split: option.splits if_splits prod.splits)

lemma shadow_gate_Go: "shadow_gate cr cfg req now s = (Go u, s') \<Longrightarrow> s' = s
    \<and> \<not> (shadow_enabled cfg \<and> present (rq_pairId req) \<and> isInShadowState (pair_id req) (source_ip req) (srv_anomaly s))"
  by (auto simp: shadow_gate_def split: if_splits prod.splits)

lemma check_headers_Go: "check_headers cr req now s = (Go u, s') \<Longrightarrow> s' = s \<and> header_error req = None"
  by (auto simp: check_headers_def split: option.splits)

lemma load_pair_Go: "load_pair cr req now s = (Go auth, s') \<Longrightarrow> s' = s \<and>
    (\<exists>p. reg_get (srv_registry s) (pair_id req) = Some p \<and> captureAuthorizationContext p = returns auth)"
  by (auto simp: load_pair_def split: option.splits sum.splits)

lemma check_status_Go: "check_status cr cfg req now auth s = (Go u, s') \<Longrightarrow> s' = s \<and> au_status auth = Active
    \<and> \<not> cap_reached (au_maxRequests auth) (au_requests auth)"
  by (auto simp: check_status_def Let_def dest!: registry_call_Go split: if_splits)

lemma tarpit_gate_Go: "tarpit_gate cr cfg req now s = (Go d, s') \<Longrightarrow> same_core s s'"
  by (auto simp: tarpit_gate_def Let_def split: if_splits prod.splits verdict.splits)

lemma admit_Go:
  assumes "admit cr cfg req now srv = (Go (auth, d), s')"
  shows "header_error req = None \<and> same_core srv s' \<and> au_status auth = Active
    \<and> (\<exists>p. reg_get (srv_registry srv) (pair_id req) = Some p \<and> captureAuthorizationContext p = returns auth)
    \<and> \<not> (shadow_enabled cfg \<and> present (rq_pairId req)
        \<and> isInShadowState (pair_id req) (source_ip req) (recordRequest now (rq_pairId req) (srv_anomaly srv)))"
proof -
  let ?s0 = "with_anomaly (recordRequest now (rq_pairId req)) srv"
  obtain s1 s2 s3 s4 s5 s6 a where steps: "ip_limit cr req now ?s0 = (Go (), s1)"
    "shadow_gate cr cfg req now s1 = (Go (), s2)" "pair_limit cr req now s2 = (Go (), s3)"
    "check_headers cr req now s3 = (Go (), s4)" "load_pair cr req now s4 = (Go a, s5)"
    "check_status cr cfg req now a s5 = (Go (), s6)" "tarpit_gate cr cfg req now s6 = (Go d, s')" "a = auth"
    using assms by (auto simp: admit_def and_phase_Go)
  have c: "same_core srv s4" using ip_limit_Go [OF steps(1)] shadow_gate_Go [OF steps(2)]
      pair_limit_Go [OF steps(3)] check_headers_Go [OF steps(4)] same_core_anomaly(2) same_core_trans by metis
  moreover have "same_core s4 s'" using load_pair_Go [OF steps(5)] check_status_Go [OF steps(6)]
      tarpit_gate_Go [OF steps(7)] by simp
  ultimately have "same_core srv s'" by (rule same_core_trans)
  moreover have "\<exists>p. reg_get (srv_registry srv) (pair_id req) = Some p \<and> captureAuthorizationContext p = returns auth"
    using load_pair_Go [OF steps(5)] c steps(8) by (simp add: same_core_def)
  moreover have "srv_anomaly s1 = recordRequest now (rq_pairId req) (srv_anomaly srv)"
    using ip_limit_Go [OF steps(1)] by (simp add: with_anomaly_def)
  ultimately show ?thesis
    using check_headers_Go [OF steps(4)] check_status_Go [OF steps(6)] shadow_gate_Go [OF steps(2)] steps(8) by simp
qed

lemma not_accepted_admit: "not_accepted (admit cr cfg req now s)"
proof -
  have "not_accepted (ip_limit cr req now s)" "not_accepted (pair_limit cr req now s)" for s
    by (auto simp: ip_limit_def pair_limit_def Let_def split: option.splits prod.splits)
  moreover have "not_accepted (shadow_gate cr cfg req now s)" "not_accepted (check_headers cr req now s)" for s
    by (auto simp: shadow_gate_def check_headers_def split: option.splits prod.splits)
  moreover have "not_accepted (load_pair cr req now s)" for s
    by (auto simp: load_pair_def split: option.splits sum.splits)
  moreover have "not_accepted (check_status cr cfg req now a s)" for a s
    by (auto simp: check_status_def Let_def intro!: not_accepted_call)
  moreover have "not_accepted (tarpit_gate cr cfg req now s)" for s
    by (auto simp: tarpit_gate_def Let_def split: prod.splits verdict.splits)
  ultimately show ?thesis unfolding admit_def by (intro not_accepted_and not_accepted_Go)
qed

text \<open>What a payload that passes phase 2 establishes.\<close>

definition payload_ok :: "webcrypto \<Rightarrow> server_config \<Rightarrow> bpc_request \<Rightarrow> auth_context \<Rightarrow> int \<Rightarrow> json \<Rightarrow> string \<Rightarrow> int \<Rightarrow> bool" where
  "payload_ok cr cfg req auth now payload nonce ts =
     (field payload ''nonce'' = Some (JStr nonce) \<and> UUID_RE nonce \<and> field payload ''timestamp'' = Some (JNum ts)
      \<and> (\<exists>tag. field payload ''secret_hmac'' = Some (JStr tag) \<and> verifySecretHmac cr (au_secretHash auth) nonce ts tag)
      \<and> \<bar>now - ts\<bar> \<le> sc_sigWindowMs cfg
      \<and> check_binding req auth payload = None
      \<and> signature_valid cr (au_pubJwk auth) payload (case rq_signature req of None \<Rightarrow> [] | Some s \<Rightarrow> s))"

lemma secret_hmac_valid_True:
  "secret_hmac_valid cr k n t v = returns True \<longleftrightarrow> (\<exists>tag. v = JStr tag \<and> verifySecretHmac cr k n t tag)"
  by (cases v) (auto simp: secret_hmac_valid_def)

lemma check_payload_Go:
  assumes "check_payload cr cfg req auth now s = (Go nonce, s')"
  shows "s' = s \<and> (\<exists>payload ts. decode_payload (case rq_signedData req of None \<Rightarrow> [] | Some s \<Rightarrow> s) = returns payload
    \<and> payload_ok cr cfg req auth now payload nonce ts)"
proof -
  let ?sd = "case rq_signedData req of None \<Rightarrow> [] | Some s \<Rightarrow> s"
  obtain payload where p: "decode_payload ?sd = returns payload" "payload \<noteq> JNull"
    using assms by (auto simp: check_payload_def split: sum.splits if_splits)
  obtain n where n: "field payload ''nonce'' = Some (JStr n)" "UUID_RE n"
    using assms p by (auto simp: check_payload_def split: option.splits json.splits if_splits)
  obtain ts where ts: "field payload ''timestamp'' = Some (JNum ts)"
    using assms p n by (auto simp: check_payload_def split: option.splits json.splits)
  obtain v where v: "field payload ''secret_hmac'' = Some v" "truthy v"
    using assms p n ts by (auto simp: check_payload_def split: option.splits if_splits)
  have hm: "secret_hmac_valid cr (au_secretHash auth) n ts v = returns True"
    using assms p n ts v by (auto simp: check_payload_def split: sum.splits if_splits)
  show ?thesis
    using assms p n ts v hm secret_hmac_valid_True [of cr "au_secretHash auth" n ts v]
    by (auto simp: check_payload_def payload_ok_def not_less split: option.splits if_splits)
qed

lemma not_accepted_check: "not_accepted (check_payload cr cfg req auth now s)"
  by (simp add: check_payload_def split: sum.split option.split json.split prod.split)

lemma ghost_trap_Go: "ghost_trap cr cfg req auth v now s = (Go u, s') \<Longrightarrow> s' = s \<and> au_kind auth = Legitimate"
  by (cases "au_kind auth") (auto simp: ghost_trap_def split: prod.splits)

lemma not_accepted_ghost: "not_accepted (ghost_trap cr cfg req auth v now s)"
  by (auto simp: ghost_trap_def split: prod.splits)

lemma consume_nonce_Go:
  assumes "consume_nonce cr cfg consume req auth v now nonce s = (Go u, s')"
  shows "\<exists>ns. consume now nonce (srv_nonces s) = (Inr False, ns) \<and> s' = s\<lparr>srv_nonces := ns\<rparr>
    \<and> au_kind auth = Legitimate
    \<and> (case srv_guard s of None \<Rightarrow> True | Some g \<Rightarrow> assertAcceptable now g = Inr ())"
  using assms by (auto simp: consume_nonce_def Let_def dest!: ghost_trap_Go
      split: if_splits prod.splits sum.splits nonce_error.splits option.splits)

lemma not_accepted_consume: "not_accepted (consume_nonce cr cfg consume req auth v now nonce s)"
  by (auto simp: consume_nonce_def Let_def not_accepted_ghost split: prod.splits sum.splits nonce_error.splits)

lemma claim_use_not_Go: "claim_use cr req auth d v now s \<noteq> (Go u, s')"
  by (auto simp: claim_use_def dest!: registry_call_Go split: if_splits)

lemma claim_use_accepted:
  assumes "claim_use cr req auth d v now s = (Done (Inr r), s')" "vr_ok r"
  shows "r = accepted req auth v d
    \<and> claimSuccessfulUseOutcome (pair_id req) now (expected_policy auth) (srv_registry s) = (returns Claimed, srv_registry s')"
  using assms by (auto simp: claim_use_def registry_call_def log_event_def deny_def denied_def Let_def
      split: prod.splits sum.splits if_splits)

text \<open>
  The run of an accepted request: the states between the phases and what each phase established.
\<close>

lemma accepted_run:
  assumes "verifyBPCRequest cr cfg consume req tm ev srv = (Inr r, srv')" "vr_ok r"
  obtains auth d s1 nonce s2 s3 where
    "admit cr cfg req (tm_admit tm) srv = (Go (auth, d), s1)"
    "check_payload cr cfg req auth (tm_check tm) (if_check ev s1) = (Go nonce, s2)"
    "consume_nonce cr cfg consume req auth (tm_check tm) (tm_consume tm) nonce (if_consume ev s2) = (Go (), s3)"
    "claim_use cr req auth d (tm_check tm) (tm_claim tm) (if_claim ev s3) = (Done (Inr r), srv')"
proof -
  let ?A = "admit cr cfg req (tm_admit tm) srv"
  have fin: "fst ph \<noteq> Go () \<Longrightarrow> finish ph = (Inr r, srv') \<Longrightarrow> ph = (Done (Inr r), srv')" for ph :: "unit phase \<times> _"
    by (cases ph rule: finish.cases) auto
  obtain auth d s1 where A: "?A = (Go (auth, d), s1)"
    using assms not_accepted_admit [of cr cfg req "tm_admit tm" srv]
    by (cases "?A" rule: and_phase.cases [of "(_, undefined)", simplified])
       (auto simp: verifyBPCRequest_def not_accepted_def)
  let ?B = "check_payload cr cfg req auth (tm_check tm) (if_check ev s1)"
  obtain nonce s2 where B: "?B = (Go nonce, s2)"
    using assms not_accepted_check [of cr cfg req auth "tm_check tm" "if_check ev s1"] A
    by (cases "fst ?B"; cases ?B) (auto simp: verifyBPCRequest_def not_accepted_def)
  let ?C = "consume_nonce cr cfg consume req auth (tm_check tm) (tm_consume tm) nonce (if_consume ev s2)"
  obtain s3 where C: "?C = (Go (), s3)"
    using assms not_accepted_consume [of cr cfg consume req auth "tm_check tm" "tm_consume tm" nonce "if_consume ev s2"] A B
    by (cases "fst ?C"; cases ?C) (auto simp: verifyBPCRequest_def not_accepted_def)
  let ?D = "claim_use cr req auth d (tm_check tm) (tm_claim tm) (if_claim ev s3)"
  have "fst ?D \<noteq> Go ()" using claim_use_not_Go by (metis prod.collapse)
  moreover have "finish ?D = (Inr r, srv')" using assms(1) A B C by (simp add: verifyBPCRequest_def)
  ultimately have "?D = (Done (Inr r), srv')" by (rule fin)
  with A B C show ?thesis by (rule that)
qed

section \<open>Specification\<close>

text \<open>
  What the protocol promises of an authorised request, stated over the request, the stored pair and
  the time of the check, without the pipeline: proof of possession of the key over exactly the
  payload received, the user-secret HMAC, freshness, and a payload that binds the method, the path,
  the pair, the version and the body of the request on the wire, within the scope of the pair.
\<close>

definition authentic ::
    "webcrypto \<Rightarrow> int \<Rightarrow> bpc_request \<Rightarrow> stored_pair \<Rightarrow> int \<Rightarrow> json \<Rightarrow> string \<Rightarrow> int \<Rightarrow> bool" where
  "authentic cr window req p now payload nonce ts =
     ((\<exists>sd. rq_signedData req = Some sd \<and> decode_payload sd = returns payload)
      \<and> (\<exists>jwk key sig. canonicalAuthorizationJwk (sp_pubJwk p) = returns jwk
           \<and> importPublicKeyFromJwk cr jwk = returns key \<and> rq_signature req = Some sig
           \<and> verifyPayload cr key payload sig)
      \<and> field payload ''nonce'' = Some (JStr nonce) \<and> UUID_RE nonce
      \<and> field payload ''timestamp'' = Some (JNum ts) \<and> \<bar>now - ts\<bar> \<le> window
      \<and> (\<exists>tag. field payload ''secret_hmac'' = Some (JStr tag) \<and> verifySecretHmac cr (sp_secretHash p) nonce ts tag)
      \<and> field payload ''method'' = Some (JStr (rq_method req)) \<and> field payload ''path'' = Some (JStr (rq_path req))
      \<and> field payload ''pair_id'' = Some (JStr (sp_id p)) \<and> field payload ''version'' = Some (JStr BPC_PROTOCOL_VERSION)
      \<and> (\<exists>h. field payload ''body_hash'' = Some (JStr h) \<and> h \<noteq> [] \<and> rq_bodyHash req = Some h)
      \<and> (\<exists>ms. SCOPE_ALLOWED_METHODS (sp_scope p) = Some ms \<and> rq_method req \<in> set ms))"

lemma upper_allowed: "m \<in> set ALLOWED_METHODS \<Longrightarrow> map to_upper m = m"
  by (auto simp: ALLOWED_METHODS_def to_upper_def is_lower_def)

lemma header_error_None:
  assumes "header_error req = None"
  shows "rq_method req \<in> set ALLOWED_METHODS" "rq_pairId req = Some (pair_id req)" "pair_id req \<noteq> []"
    "\<exists>sd. rq_signedData req = Some sd" "\<exists>sig. rq_signature req = Some sig"
    "list_all is_b64url_char (pair_id req)"
  using assms by (auto simp: header_error_def present_def pair_id_def split: if_splits option.splits)

lemma check_binding_None:
  assumes "check_binding req auth payload = None" "rq_method req \<in> set ALLOWED_METHODS"
  shows "field payload ''method'' = Some (JStr (rq_method req)) \<and> field payload ''path'' = Some (JStr (rq_path req))
    \<and> field payload ''pair_id'' = Some (JStr (pair_id req)) \<and> field payload ''version'' = Some (JStr BPC_PROTOCOL_VERSION)
    \<and> (\<exists>h. field payload ''body_hash'' = Some (JStr h) \<and> h \<noteq> [] \<and> rq_bodyHash req = Some h)
    \<and> (\<exists>ms. SCOPE_ALLOWED_METHODS (au_scope auth) = Some ms \<and> rq_method req \<in> set ms)"
  using assms upper_allowed [OF assms(2)]
  by (auto simp: check_binding_def Let_def split: if_splits option.splits json.splits)

lemma signature_valid_iff:
  "signature_valid cr jwk payload sig \<longleftrightarrow> (\<exists>key. importPublicKeyFromJwk cr jwk = returns key \<and> verifyPayload cr key payload sig)"
  by (auto simp: signature_valid_def catch_false_iff and_then_Inr_iff)

lemma capture_fields:
  assumes "captureAuthorizationContext p = returns auth"
  shows "canonicalAuthorizationJwk (sp_pubJwk p) = returns (au_pubJwk auth)" "au_secretHash auth = sp_secretHash p"
    "au_scope auth = sp_scope p" "au_pairId auth = sp_id p" "au_status auth = sp_status p"
    "au_kind auth = kind_of (sp_kind p)" "au_mode auth = sp_mode p" "au_canaryClass auth = sp_canaryClass p"
    "au_maxRequests auth = sp_maxRequests p" "au_requests auth = sp_requests p"
    "au_expiresAt auth = sp_expiresAt p" "au_failedSigs auth = sp_failedSigs p"
  using assms by (auto simp: captureAuthorizationContext_def and_then_Inr_iff)

lemma expected_policy_captured:
  "captureAuthorizationContext p = returns auth \<Longrightarrow> successfulUsePolicy p = returns (expected_policy auth)"
  by (auto simp: captureAuthorizationContext_def successfulUsePolicy_def expected_policy_def and_then_Inr_iff)

lemma accepted_authentic:
  assumes "verifyBPCRequest cr cfg consume req tm ev srv = (Inr r, srv')" "vr_ok r" "store_wf (reg_store (srv_registry srv))"
  shows "\<exists>p auth payload nonce ts d. reg_get (srv_registry srv) (pair_id req) = Some p \<and> rq_pairId req = Some (sp_id p)
    \<and> captureAuthorizationContext p = returns auth \<and> sp_status p = Active \<and> kind_of (sp_kind p) = Legitimate
    \<and> authentic cr (sc_sigWindowMs cfg) req p (tm_check tm) payload nonce ts
    \<and> r = accepted req auth (tm_check tm) d"
proof -
  from accepted_run [OF assms(1,2)] obtain auth d s1 nonce s2 s3 where
    A: "admit cr cfg req (tm_admit tm) srv = (Go (auth, d), s1)" and
    B: "check_payload cr cfg req auth (tm_check tm) (if_check ev s1) = (Go nonce, s2)" and
    C: "consume_nonce cr cfg consume req auth (tm_check tm) (tm_consume tm) nonce (if_consume ev s2) = (Go (), s3)" and
    D: "claim_use cr req auth d (tm_check tm) (tm_claim tm) (if_claim ev s3) = (Done (Inr r), srv')" .
  obtain p where p: "reg_get (srv_registry srv) (pair_id req) = Some p" "captureAuthorizationContext p = returns auth"
    and h: "header_error req = None" and act: "au_status auth = Active" using admit_Go [OF A] by blast
  note hd = header_error_None [OF h]
  note cf = capture_fields [OF p(2)]
  have id: "sp_id p = pair_id req" using store_wf_id [OF assms(3)] p(1) by (simp add: reg_get_def)
  obtain payload ts where pl: "decode_payload (case rq_signedData req of None \<Rightarrow> [] | Some s \<Rightarrow> s) = returns payload"
    "payload_ok cr cfg req auth (tm_check tm) payload nonce ts" using check_payload_Go [OF B] by blast
  then have bind: "check_binding req auth payload = None"
    and sig: "signature_valid cr (au_pubJwk auth) payload (case rq_signature req of None \<Rightarrow> [] | Some s \<Rightarrow> s)"
    by (simp_all add: payload_ok_def)
  have "authentic cr (sc_sigWindowMs cfg) req p (tm_check tm) payload nonce ts"
    using pl check_binding_None [OF bind hd(1)] hd(4,5) sig cf(1-3) id
    by (auto simp: authentic_def payload_ok_def signature_valid_iff)
  moreover have "kind_of (sp_kind p) = Legitimate" using consume_nonce_Go [OF C] cf(6) by auto
  moreover have "r = accepted req auth (tm_check tm) d" using claim_use_accepted [OF D assms(2)] by simp
  ultimately show ?thesis using p act cf(5) hd(2) id by metis
qed

lemma accepted_claim:
  assumes "verifyBPCRequest cr cfg consume req tm ev srv = (Inr r, srv')" "vr_ok r" "reg_atomic (srv_registry srv)"
    and "\<And>s. reg_atomic (srv_registry s) \<Longrightarrow> reg_atomic (srv_registry (if_check ev s))"
    and "\<And>s. reg_atomic (srv_registry s) \<Longrightarrow> reg_atomic (srv_registry (if_consume ev s))"
    and "\<And>s. reg_atomic (srv_registry s) \<Longrightarrow> reg_atomic (srv_registry (if_claim ev s))"
    and "reg_get (srv_registry srv) (pair_id req) = Some p"
  shows "\<exists>q policy. reg_get (srv_registry srv') (pair_id req) = Some (claim_pair q (tm_claim tm)) \<and> sp_status q = Active
    \<and> \<not> time_expired_at q (tm_claim tm) \<and> \<not> cap_reached (sp_maxRequests q) (sp_requests q)
    \<and> successfulUsePolicy p = returns policy \<and> successfulUsePolicy q = returns policy"
proof -
  from accepted_run [OF assms(1,2)] obtain auth d s1 nonce s2 s3 where
    A: "admit cr cfg req (tm_admit tm) srv = (Go (auth, d), s1)" and
    B: "check_payload cr cfg req auth (tm_check tm) (if_check ev s1) = (Go nonce, s2)" and
    C: "consume_nonce cr cfg consume req auth (tm_check tm) (tm_consume tm) nonce (if_consume ev s2) = (Go (), s3)" and
    D: "claim_use cr req auth d (tm_check tm) (tm_claim tm) (if_claim ev s3) = (Done (Inr r), srv')" .
  have cap: "captureAuthorizationContext p = returns auth" using admit_Go [OF A] assms(7) by auto
  have "reg_atomic (srv_registry s1)" using admit_Go [OF A] assms(3) by (simp add: same_core_def)
  then have "reg_atomic (srv_registry s2)" using check_payload_Go [OF B] assms(4) by simp
  then have "reg_atomic (srv_registry s3)" using consume_nonce_Go [OF C] assms(5) by auto
  then have ato: "reg_atomic (srv_registry (if_claim ev s3))" by (rule assms(6))
  have cl: "claimSuccessfulUseOutcome (pair_id req) (tm_claim tm) (expected_policy auth) (srv_registry (if_claim ev s3))
      = (returns Claimed, srv_registry srv')" using claim_use_accepted [OF D assms(2)] by simp
  then have f: "fst (claimSuccessfulUseOutcome (pair_id req) (tm_claim tm) (expected_policy auth) (srv_registry (if_claim ev s3)))
      = returns Claimed" by simp
  have pol: "successfulUsePolicy p = returns (expected_policy auth)" using cap by (rule expected_policy_captured)
  have "canonicalAuthorizationJwk (au_pubJwk auth) = returns (au_pubJwk auth)"
    using canonicalAuthorizationJwk_idem [OF capture_fields(1) [OF cap]] .
  then have jwk: "(expected_policy auth)\<lparr>up_pubJwk := j\<rparr> = expected_policy auth"
    if "canonicalAuthorizationJwk (up_pubJwk (expected_policy auth)) = returns j" for j
    using that by (simp add: expected_policy_def)
  obtain q where q: "sp_status q = Active" "\<not> time_expired_at q (tm_claim tm)"
    "\<not> cap_reached (sp_maxRequests q) (sp_requests q)" "successfulUsePolicy q = returns (expected_policy auth)"
    "reg_store (srv_registry srv') = put_pair (pair_id req) (claim_pair q (tm_claim tm)) (reg_store (srv_registry (if_claim ev s3)))"
    using claim_outcome_Claimed [OF ato f] cl jwk by auto
  then have "reg_get (srv_registry srv') (pair_id req) = Some (claim_pair q (tm_claim tm))" by (simp add: reg_get_def)
  with q pol show ?thesis by blast
qed

text \<open>
  C2. Soundness of the verifier. If a verification accepts, whatever other requests and operators
  do between its phases, then the pair read at admission is an active, legitimate pair, the request
  is \<open>authentic\<close> for that pair at the time of the check (signature, HMAC, time window, binding to
  method, path, pair, version and body, scope), and the snapshot handed to the application is that
  pair's identifier, scope, mode and kind at that time.
\<close>
theorem verify_sound:
  assumes "verifyBPCRequest cr cfg consume req tm ev srv = (Inr r, srv')" "vr_ok r" "reg_wf (srv_registry srv)"
  shows "\<exists>p payload nonce ts. reg_get (srv_registry srv) (sp_id p) = Some p \<and> rq_pairId req = Some (sp_id p)
    \<and> sp_status p = Active \<and> kind_of (sp_kind p) = Legitimate
    \<and> authentic cr (sc_sigWindowMs cfg) req p (tm_check tm) payload nonce ts
    \<and> vr_snapshot r = Some \<lparr>snap_pairId = sp_id p, snap_scope = sp_scope p, snap_mode = sp_mode p,
        snap_kind = Legitimate, snap_canaryClass = sp_canaryClass p, snap_verifiedAt = tm_check tm\<rparr>
    \<and> \<not> vr_shadow r"
proof -
  have wf: "store_wf (reg_store (srv_registry srv))" using assms(3) by (simp add: reg_wf_def)
  obtain p auth payload nonce ts d where p: "reg_get (srv_registry srv) (pair_id req) = Some p"
    "rq_pairId req = Some (sp_id p)" "captureAuthorizationContext p = returns auth" "sp_status p = Active"
    "kind_of (sp_kind p) = Legitimate" "authentic cr (sc_sigWindowMs cfg) req p (tm_check tm) payload nonce ts"
    "r = accepted req auth (tm_check tm) d"
    using accepted_authentic [OF assms(1,2) wf] by blast
  moreover have "pair_id req = sp_id p" using p(2) by (simp add: pair_id_def)
  ultimately show ?thesis using capture_fields [OF p(3)]
    by (intro exI [of _ p] exI [of _ payload] exI [of _ nonce] exI [of _ ts]) (simp add: accepted_def snapshot_of_def)
qed

text \<open>
  C3. No time-of-check gap. When a verification accepts, the claim found, at claim time and after
  any interference, the pair still active, unexpired and under its cap, with exactly the policy
  (status, scope, mode, secret, key, expiry, cap, kind) that was checked; it counted exactly this
  use. A pair that was revoked, locked, rotated, expired or edited in between is never accepted.
\<close>
theorem accept_claims_checked_policy:
  assumes "verifyBPCRequest cr cfg consume req tm ev srv = (Inr r, srv')" "vr_ok r" "reg_atomic (srv_registry srv)"
    and "\<And>s. reg_atomic (srv_registry s) \<Longrightarrow> reg_atomic (srv_registry (if_check ev s))"
    and "\<And>s. reg_atomic (srv_registry s) \<Longrightarrow> reg_atomic (srv_registry (if_consume ev s))"
    and "\<And>s. reg_atomic (srv_registry s) \<Longrightarrow> reg_atomic (srv_registry (if_claim ev s))"
    and "reg_get (srv_registry srv) (pair_id req) = Some p"
  shows "\<exists>q policy. reg_get (srv_registry srv') (pair_id req) = Some (claim_pair q (tm_claim tm)) \<and> sp_status q = Active
    \<and> \<not> time_expired_at q (tm_claim tm) \<and> \<not> cap_reached (sp_maxRequests q) (sp_requests q)
    \<and> successfulUsePolicy p = returns policy \<and> successfulUsePolicy q = returns policy"
  using accepted_claim [OF assms] .

end
