(* ===== verification/Verifier.thy ===== *)
theory Verifier
  imports Middleware
begin

text \<open>
  Properties of whole runs of the verifier of \<^verbatim>\<open>middleware.ts\<close>: a request is accepted at most
  once, a source in shadow state stays denied until an operator clears it, a ghost pair raises its
  alarm, and the behaviour of the error paths.
\<close>

section \<open>Replay\<close>

definition no_interference :: "'n interference" where
  "no_interference = \<lparr>if_check = (\<lambda>s. s), if_consume = (\<lambda>s. s), if_claim = (\<lambda>s. s)\<rparr>"

abbreviation mem_consume :: "int \<Rightarrow> int \<Rightarrow> string \<Rightarrow> nonce_mem \<Rightarrow> (nonce_error + bool) \<times> nonce_mem" where
  "mem_consume retentionMs \<equiv> server_checkAndConsume mem_backend retentionMs"

lemma mem_consume_eq: "mem_consume ret now n st = map_prod Inr id (mem_checkAndConsume now n ret st)"
  by (simp add: server_checkAndConsume_def mem_backend_def map_prod_def split: prod.splits)

lemma deny_nonces [simp]: "srv_nonces (snd (deny cr req now e b s)) = srv_nonces s"
  by (simp add: deny_def Let_def log_event_def with_anomaly_def)

lemma claim_use_nonces [simp]: "srv_nonces (snd (claim_use cr req auth d v now s)) = srv_nonces s"
  by (auto simp: claim_use_def registry_call_def log_event_def split: prod.splits sum.splits)

text \<open>
  What other requests do to the nonce store between the phases of a verification: they consume the
  listed nonces at the listed times.
\<close>

definition nonce_traffic ::
    "int \<Rightarrow> (int \<times> string) list \<Rightarrow> (int \<times> string) list \<Rightarrow> (int \<times> string) list \<Rightarrow> nonce_mem interference \<Rightarrow> bool" where
  "nonce_traffic ret e1 e2 e3 ev = (\<forall>s. srv_nonces (if_check ev s) = nonce_run mem_checkAndConsume ret (srv_nonces s) e1
     \<and> srv_nonces (if_consume ev s) = nonce_run mem_checkAndConsume ret (srv_nonces s) e2
     \<and> srv_nonces (if_claim ev s) = nonce_run mem_checkAndConsume ret (srv_nonces s) e3)"

lemma no_traffic: "nonce_traffic ret [] [] [] no_interference"
  by (simp add: nonce_traffic_def no_interference_def)

lemma nonce_run_append: "nonce_run consume ttl s (es @ fs) = nonce_run consume ttl (nonce_run consume ttl s es) fs"
  by (induction consume ttl s es rule: nonce_run.induct) simp_all

lemma jm_wf_nonce_run: "jm_wf st \<Longrightarrow> jm_wf (nonce_run mem_checkAndConsume ret st es)"
  by (induction es arbitrary: st) (auto simp: memnonce.wf_consume)

definition payload_nonce :: "bpc_request \<Rightarrow> string option" where
  "payload_nonce req = (case decode_payload (case rq_signedData req of None \<Rightarrow> [] | Some s \<Rightarrow> s) of
     Inl e \<Rightarrow> None | Inr payload \<Rightarrow> (case field payload ''nonce'' of Some (JStr n) \<Rightarrow> Some n | _ \<Rightarrow> None))"

definition payload_timestamp :: "bpc_request \<Rightarrow> int option" where
  "payload_timestamp req = (case decode_payload (case rq_signedData req of None \<Rightarrow> [] | Some s \<Rightarrow> s) of
     Inl e \<Rightarrow> None | Inr payload \<Rightarrow> (case field payload ''timestamp'' of Some (JNum t) \<Rightarrow> Some t | _ \<Rightarrow> None))"

lemma accepted_consumes:
  assumes "verifyBPCRequest cr cfg (mem_consume ret) req tm ev srv = (Inr r, srv')" "vr_ok r" "nonce_traffic ret e1 e2 e3 ev"
  obtains n ts st where "payload_nonce req = Some n" "payload_timestamp req = Some ts" "\<bar>tm_check tm - ts\<bar> \<le> sc_sigWindowMs cfg"
    "mem_checkAndConsume (tm_consume tm) n ret (nonce_run mem_checkAndConsume ret (srv_nonces srv) (e1 @ e2)) = (False, st)"
    "srv_nonces srv' = nonce_run mem_checkAndConsume ret st e3"
proof -
  from accepted_run [OF assms(1,2)] obtain auth d s1 nonce s2 s3 where
    A: "admit cr cfg req (tm_admit tm) srv = (Go (auth, d), s1)" and
    B: "check_payload cr cfg req auth (tm_check tm) (if_check ev s1) = (Go nonce, s2)" and
    C: "consume_nonce cr cfg (mem_consume ret) req auth (tm_check tm) (tm_consume tm) nonce (if_consume ev s2) = (Go (), s3)" and
    D: "claim_use cr req auth d (tm_check tm) (tm_claim tm) (if_claim ev s3) = (Done (Inr r), srv')" .
  note k = assms(3) [unfolded nonce_traffic_def, rule_format]
  have "srv_nonces (if_consume ev s2) = nonce_run mem_checkAndConsume ret (srv_nonces srv) (e1 @ e2)"
    using admit_Go [OF A] check_payload_Go [OF B] k by (simp add: same_core_def nonce_run_append)
  moreover have "mem_consume ret (tm_consume tm) nonce (srv_nonces (if_consume ev s2)) = (Inr False, srv_nonces s3)"
    using consume_nonce_Go [OF C] by auto
  ultimately have "mem_checkAndConsume (tm_consume tm) nonce ret (nonce_run mem_checkAndConsume ret (srv_nonces srv) (e1 @ e2))
      = (False, srv_nonces s3)" by (auto simp: mem_consume_eq map_prod_def split: prod.splits)
  moreover have "srv_nonces srv' = nonce_run mem_checkAndConsume ret (srv_nonces s3) e3"
    using claim_use_nonces [of cr req auth d "tm_check tm" "tm_claim tm" "if_claim ev s3"] D k by simp
  ultimately show ?thesis using check_payload_Go [OF B]
    by (auto simp: payload_ok_def payload_nonce_def payload_timestamp_def intro: that)
qed

text \<open>
  C4. At most once. With the in-memory nonce store and a retention derived from the signature
  window and a buffer \<open>b\<close>, a payload that was accepted is not accepted again, on any method, path or
  pair, while other requests consume nonces between the phases of both verifications and between them.
  The conditions: from the first consumption on the store sheds no live entry under its capacity guard,
  no consumption of others carries a later time than the second one, and the second request takes at
  most \<open>b\<close> milliseconds from its timestamp check to its nonce consumption.
\<close>
theorem accepted_at_most_once:
  assumes "deriveNonceRetentionMs (sc_sigWindowMs cfg) b = returns ret" "jm_wf (srv_nonces srv)"
    and "verifyBPCRequest cr cfg (mem_consume ret) req tm ev srv = (Inr r, srv1)" "vr_ok r" "nonce_traffic ret e1 e2 e3 ev"
    and "payload_nonce req = Some n" "tm_check tm \<le> tm_consume tm"
    and "srv_nonces srv2 = nonce_run mem_checkAndConsume ret (srv_nonces srv1) es" "nonce_traffic ret f1 f2 f3 ev2"
    and "nonce_fits mem_checkAndConsume nonce_room ret
      (snd (mem_checkAndConsume (tm_consume tm) n ret (nonce_run mem_checkAndConsume ret (srv_nonces srv) (e1 @ e2)))) (e3 @ es @ f1 @ f2)"
    and "\<forall>(now, m) \<in> set (e3 @ es @ f1 @ f2). now \<le> tm_consume tm2"
    and "tm_consume tm2 \<le> tm_check tm2 + b" "rq_signedData req2 = rq_signedData req"
  shows "\<not> (\<exists>r2. fst (verifyBPCRequest cr cfg (mem_consume ret) req2 tm2 ev2 srv2) = Inr r2 \<and> vr_ok r2)"
proof
  assume "\<exists>r2. fst (verifyBPCRequest cr cfg (mem_consume ret) req2 tm2 ev2 srv2) = Inr r2 \<and> vr_ok r2"
  then obtain r2 srv3 where v2: "verifyBPCRequest cr cfg (mem_consume ret) req2 tm2 ev2 srv2 = (Inr r2, srv3)" "vr_ok r2"
    by (metis prod.collapse)
  let ?run = "nonce_run mem_checkAndConsume ret"
  obtain ts st where 1: "payload_timestamp req = Some ts" "\<bar>tm_check tm - ts\<bar> \<le> sc_sigWindowMs cfg"
    "mem_checkAndConsume (tm_consume tm) n ret (?run (srv_nonces srv) (e1 @ e2)) = (False, st)" "srv_nonces srv1 = ?run st e3"
    by (rule accepted_consumes [OF assms(3-5)]) (use assms(6) in auto)
  obtain ts2 n2 st2 where 2: "payload_timestamp req2 = Some ts2" "payload_nonce req2 = Some n2" "\<bar>tm_check tm2 - ts2\<bar> \<le> sc_sigWindowMs cfg"
    "mem_checkAndConsume (tm_consume tm2) n2 ret (?run (srv_nonces srv2) (f1 @ f2)) = (False, st2)"
    by (rule accepted_consumes [OF v2 assms(9)]) auto
  have same: "n2 = n" "ts2 = ts" using 1(1) 2(1,2) assms(6,13) by (simp_all add: payload_nonce_def payload_timestamp_def)
  have r: "0 < sc_sigWindowMs cfg" "0 \<le> b" "ret = 2 * sc_sigWindowMs cfg + b"
    using assms(1) by (auto simp: deriveNonceRetentionMs_iff)
  have wf: "jm_wf (?run (srv_nonces srv) (e1 @ e2))" by (rule jm_wf_nonce_run [OF assms(2)])
  have fits: "nonce_fits mem_checkAndConsume nonce_room ret st (e3 @ es @ f1 @ f2)" using assms(10) 1(3) by simp
  have "fst (mem_checkAndConsume (tm_consume tm2) n ret (?run st (e3 @ es @ f1 @ f2)))"
    by (rule memnonce.second_use_is_replay [OF wf 1(3) fits assms(11)]) (use r 1(2) 2(3) same assms(7,12) in linarith)+
  then show False using 2(4) same assms(8) 1(4) by (simp add: nonce_run_append)
qed

section \<open>Shadow state\<close>

definition shadowed :: "string \<Rightarrow> string \<Rightarrow> 'n server \<Rightarrow> bool" where
  "shadowed i ip s = isInShadowState i ip (srv_anomaly s)"

lemma record_shadow [simp]:
  "an_shadow (recordRequest now p an) = an_shadow an" "an_shadow (recordDenied now p an) = an_shadow an"
  "an_shadow (recordUnknownPair now an) = an_shadow an" "an_shadow (recordSigFailure now p an) = an_shadow an"
  "an_shadow (recordReplay now p an) = an_shadow an" "an_shadow (recordExpiredTimestamp now p an) = an_shadow an"
  "an_shadow (recordSigFailureForIp now q ip an) = an_shadow an"
  "an_shadow (snd (applyTarpit now ip v an)) = an_shadow an"
  by (simp_all add: record_defs applyTarpit_def Let_def)

lemma isInShadowState_enter: "isInShadowState i ip an \<Longrightarrow> isInShadowState i ip (enterShadowState now j jp r an)"
  by (auto simp: isInShadowState_def enterShadowState_def jm_has_def)

lemma isInShadowState_entered: "isInShadowState i ip (enterShadowState now i ip r an)"
  by (simp add: isInShadowState_def enterShadowState_def jm_has_def)

lemma isInShadowState_cong: "an_shadow a = an_shadow b \<Longrightarrow> isInShadowState i ip a = isInShadowState i ip b"
  by (simp add: isInShadowState_def)

lemma isInShadowState_verdict: "isInShadowState i ip an \<Longrightarrow> isInShadowState i ip (snd (getVerdict now j jp an))"
  by (auto simp: getVerdict_def Let_def isInShadowState_enter)

lemma shadowed_frame:
  "shadowed i ip (log_event cr now e s) = shadowed i ip s"
  "shadowed i ip (s\<lparr>srv_registry := g\<rparr>) = shadowed i ip s" "shadowed i ip (s\<lparr>srv_nonces := n\<rparr>) = shadowed i ip s"
  "shadowed i ip (s\<lparr>srv_ipLimiter := l\<rparr>) = shadowed i ip s" "shadowed i ip (s\<lparr>srv_rateLimiter := l\<rparr>) = shadowed i ip s"
  "shadowed i ip (s\<lparr>srv_anomaly := a\<rparr>) = isInShadowState i ip a"
  "shadowed i ip (with_anomaly f s) = isInShadowState i ip (f (srv_anomaly s))"
  by (simp_all add: shadowed_def log_event_def with_anomaly_def)

lemma isInShadowState_record [simp]:
  "isInShadowState i ip (recordRequest now p an) = isInShadowState i ip an"
  "isInShadowState i ip (recordDenied now p an) = isInShadowState i ip an"
  "isInShadowState i ip (recordUnknownPair now an) = isInShadowState i ip an"
  "isInShadowState i ip (recordSigFailure now p an) = isInShadowState i ip an"
  "isInShadowState i ip (recordReplay now p an) = isInShadowState i ip an"
  "isInShadowState i ip (recordExpiredTimestamp now p an) = isInShadowState i ip an"
  "isInShadowState i ip (recordSigFailureForIp now q jp an) = isInShadowState i ip an"
  "isInShadowState i ip (snd (applyTarpit now jp v an)) = isInShadowState i ip an"
  by (simp_all add: isInShadowState_def)

lemma shadowed_deny [simp]: "shadowed i ip (snd (deny cr req now e b s)) = shadowed i ip s"
  by (auto simp: deny_def Let_def shadowed_frame) (simp_all add: shadowed_def with_anomaly_def)

lemma shadowed_tarpit [simp]: "shadowed i ip (snd (shadow_tarpit cfg req now s)) = shadowed i ip s"
  by (auto simp: shadow_tarpit_def shadowed_frame split: prod.splits)
     (metis isInShadowState_record(8) shadowed_def snd_conv)+

lemma shadowed_and:
  assumes "shadowed i ip (snd m)" "\<And>a s. shadowed i ip s \<Longrightarrow> shadowed i ip (snd (f a s))"
  shows "shadowed i ip (snd (and_phase m f))"
  using assms by (cases "(m, f)" rule: and_phase.cases) auto

lemma shadowed_call:
  "shadowed i ip s \<Longrightarrow> (\<And>v s'. shadowed i ip s' \<Longrightarrow> shadowed i ip (snd (k v s'))) \<Longrightarrow> shadowed i ip (snd (registry_call g s k))"
  by (auto simp: registry_call_def shadowed_frame split: prod.splits sum.splits)

lemma shadowed_enter: "shadowed i ip s \<Longrightarrow> shadowed i ip (with_anomaly (enterShadowState now j jp r) s)"
  by (simp add: shadowed_def with_anomaly_def isInShadowState_enter)

lemma shadowed_lock: "shadowed i ip s \<Longrightarrow> shadowed i ip (snd (lock_denial cr cfg req now r b s))"
proof -
  assume sh: "shadowed i ip s"
  let ?s = "with_anomaly (enterShadowState now (pair_id req) (source_ip req) r) s"
  have "shadowed i ip ?s" using sh by (rule shadowed_enter)
  with sh show ?thesis by (simp add: lock_denial_def case_prod_beta shadowed_frame(1))
qed

lemma shadowed_limits:
  assumes "shadowed i ip s"
  shows "shadowed i ip (snd (ip_limit cr req now s))" "shadowed i ip (snd (pair_limit cr req now s))"
    "shadowed i ip (snd (check_headers cr req now s))" "shadowed i ip (snd (load_pair cr req now s))"
    "shadowed i ip (snd (shadow_gate cr cfg req now s))"
  using assms
  by (auto simp: ip_limit_def pair_limit_def check_headers_def load_pair_def Let_def shadowed_frame
      split: option.splits prod.splits sum.splits)
     (auto simp: shadowed_def shadow_gate_def log_event_def split: prod.splits,
       metis shadowed_def shadowed_tarpit snd_conv)

lemma shadowed_status: "shadowed i ip s \<Longrightarrow> shadowed i ip (snd (check_status cr cfg req now auth s))"
  by (auto simp: check_status_def Let_def intro!: shadowed_call shadowed_lock)

lemma shadowed_verdict: "shadowed i ip s \<Longrightarrow> shadowed i ip (snd (tarpit_gate cr cfg req now s))"
proof -
  assume sh: "shadowed i ip s"
  obtain v an where g: "getVerdict now (pair_id req) (source_ip req) (srv_anomaly s) = (v, an)" by fastforce
  have an: "isInShadowState i ip an"
    using isInShadowState_verdict [of i ip "srv_anomaly s" now "pair_id req" "source_ip req"] sh g
    by (simp add: shadowed_def)
  have t: "shadowed i ip (s\<lparr>srv_anomaly := snd (applyTarpit now jp w a)\<rparr>)" if "isInShadowState i ip a" for jp w a
    using that by (simp add: shadowed_frame)
  show ?thesis
  proof (cases "tarpit_enabled cfg \<and> source_ip req \<noteq> ''unknown''")
    case True
    with an t [of an "source_ip req" Suspicious]
      t [of "enterShadowState now (pair_id req) (source_ip req) ''verdict_shadow'' an" "source_ip req" Shadow]
    show ?thesis
      by (cases v) (simp_all add: tarpit_gate_def g Let_def case_prod_beta shadowed_frame isInShadowState_enter)
  next
    case False
    then have "tarpit_gate cr cfg req now s = (Go 0, s)" unfolding tarpit_gate_def by (rule if_not_P)
    with sh show ?thesis by simp
  qed
qed

lemma shadowed_admit: "shadowed i ip s \<Longrightarrow> shadowed i ip (snd (admit cr cfg req now s))"
  unfolding admit_def
  by (intro shadowed_and shadowed_limits shadowed_status shadowed_verdict; simp add: shadowed_frame)
     (simp_all add: shadowed_def)

lemma shadowed_record [simp]:
  "shadowed i ip (with_anomaly (recordExpiredTimestamp now p) s) = shadowed i ip s"
  "shadowed i ip (with_anomaly (recordReplay now p) s) = shadowed i ip s"
  by (simp_all add: shadowed_def with_anomaly_def)

lemma shadowed_check: "shadowed i ip s \<Longrightarrow> shadowed i ip (snd (check_payload cr cfg req auth now s))"
  by (simp add: check_payload_def split: sum.split option.split json.split prod.split)

lemma shadowed_ghost: "shadowed i ip s \<Longrightarrow> shadowed i ip (snd (ghost_trap cr cfg req auth v now s))"
proof -
  assume sh: "shadowed i ip s"
  let ?s = "with_anomaly (enterShadowState now (pair_id req) (source_ip req) (''ghost_pair_hit:'' @ canary_text (au_canaryClass auth))) s"
  have "shadowed i ip ?s" using sh by (rule shadowed_enter)
  with sh show ?thesis by (simp add: ghost_trap_def case_prod_beta shadowed_frame(1))
qed

lemma shadowed_consume: "shadowed i ip s \<Longrightarrow> shadowed i ip (snd (consume_nonce cr cfg c req auth v now n s))"
  by (auto simp: consume_nonce_def Let_def shadowed_frame shadowed_def [of _ _ "with_anomaly _ _"] with_anomaly_def
      intro!: shadowed_ghost split: prod.splits sum.splits nonce_error.splits) (simp_all add: shadowed_def)

lemma shadowed_claim: "shadowed i ip s \<Longrightarrow> shadowed i ip (snd (claim_use cr req auth d v now s))"
  unfolding claim_use_def by (rule shadowed_call) (auto simp: shadowed_frame)

lemma snd_finish: "snd (finish ph) = snd ph"
  by (cases ph rule: finish.cases) auto

definition serve ::
    "webcrypto \<Rightarrow> server_config \<Rightarrow> (int \<Rightarrow> string \<Rightarrow> 'n \<Rightarrow> (nonce_error + bool) \<times> 'n) \<Rightarrow> 'n server \<Rightarrow> bpc_request \<times> timing \<Rightarrow> 'n server" where
  "serve cr cfg consume srv e = snd (verifyBPCRequest cr cfg consume (fst e) (snd e) no_interference srv)"

lemma shadowed_serve: "shadowed i ip srv \<Longrightarrow> shadowed i ip (serve cr cfg consume srv e)"
  unfolding serve_def verifyBPCRequest_def snd_finish
  by (rule shadowed_and)
     (auto simp: no_interference_def intro!: shadowed_admit shadowed_and shadowed_check shadowed_consume shadowed_claim)

interpretation shadow: inv_machine "serve cr cfg consume" "shadowed i ip" for cr cfg consume i ip
  by unfold_locales (rule shadowed_serve)

lemma shadow_not_accepted:
  assumes "shadow_enabled cfg" "rq_pairId req = Some i" "i \<noteq> []" "shadowed i (source_ip req) srv"
    and "verifyBPCRequest cr cfg consume req tm ev srv = (Inr r, srv')"
  shows "\<not> vr_ok r"
proof
  assume "vr_ok r"
  from accepted_run [OF assms(5) this] obtain auth d s1 where
    "admit cr cfg req (tm_admit tm) srv = (Go (auth, d), s1)" by metis
  from admit_Go [OF this] show False
    using assms(1-4) by (simp add: present_def pair_id_def shadowed_def)
qed

text \<open>
  C10. Shadow state sticks. Once a source IP is in shadow state for a pair, then after any sequence
  of further requests, of any kind and from anyone, no request of that IP for that pair is accepted:
  only the operator's \<open>clearShadowState\<close> ends it.
\<close>
theorem shadow_state_sticks:
  assumes "shadow_enabled cfg" "shadowed i (source_ip req) srv" "rq_pairId req = Some i" "i \<noteq> []"
    and "verifyBPCRequest cr cfg consume req tm ev (foldl (serve cr cfg consume) srv es) = (Inr r, srv')"
  shows "\<not> vr_ok r"
  by (rule shadow_not_accepted [OF assms(1,3,4) shadow.run_inv [OF assms(2)] assms(5)])

section \<open>Completeness\<close>

definition limiter_allows :: "int \<Rightarrow> string \<Rightarrow> bool \<Rightarrow> rate_limiter option \<Rightarrow> bool" where
  "limiter_allows now key applies rl = (case rl of None \<Rightarrow> True
     | Some l \<Rightarrow> applies \<longrightarrow> rl_allowed (fst (rate_check now key l)))"

definition admissible :: "server_config \<Rightarrow> bpc_request \<Rightarrow> int \<Rightarrow> 'n server \<Rightarrow> stored_pair \<Rightarrow> bool" where
  "admissible cfg req now srv p =
     (header_error req = None \<and> reg_get (srv_registry srv) (pair_id req) = Some p
      \<and> limiter_allows now (''ip:'' @ source_ip req) (present (rq_ip req)) (srv_ipLimiter srv)
      \<and> limiter_allows now (''pair:'' @ pair_id req) (present (rq_pairId req)) (srv_rateLimiter srv)
      \<and> \<not> shadowed (pair_id req) (source_ip req) srv
      \<and> sp_status p = Active \<and> kind_of (sp_kind p) = Legitimate
      \<and> sp_failedSigs p < (case sc_lockoutCount cfg of None \<Rightarrow> 10 | Some n \<Rightarrow> n)
      \<and> (case sp_expiresAt p of None \<Rightarrow> True | Some e \<Rightarrow> now \<le> e)
      \<and> \<not> cap_reached (sp_maxRequests p) (sp_requests p)
      \<and> (tarpit_enabled cfg \<and> source_ip req \<noteq> ''unknown'' \<longrightarrow>
          fst (getVerdict now (pair_id req) (source_ip req) (recordRequest now (rq_pairId req) (srv_anomaly srv)))
            \<in> {Clean, Suspicious}))"

lemma ip_limit_allows:
  "limiter_allows now (''ip:'' @ source_ip req) (present (rq_ip req)) (srv_ipLimiter s) \<Longrightarrow>
     \<exists>l. ip_limit cr req now s = (Go (), s\<lparr>srv_ipLimiter := l\<rparr>)"
  by (auto simp: ip_limit_def limiter_allows_def Let_def split: option.splits prod.splits
      intro: exI [of _ "srv_ipLimiter s"])

lemma pair_limit_allows:
  "limiter_allows now (''pair:'' @ pair_id req) (present (rq_pairId req)) (srv_rateLimiter s) \<Longrightarrow>
     \<exists>l. pair_limit cr req now s = (Go (), s\<lparr>srv_rateLimiter := l\<rparr>)"
  by (auto simp: pair_limit_def limiter_allows_def Let_def split: option.splits prod.splits
      intro: exI [of _ "srv_rateLimiter s"])

lemma admit_admissible:
  assumes "admissible cfg req now srv p" "captureAuthorizationContext p = returns auth"
  shows "\<exists>d s'. admit cr cfg req now srv = (Go (auth, d), s') \<and> same_core srv s'"
proof -
  let ?s0 = "with_anomaly (recordRequest now (rq_pairId req)) srv"
  note a = assms(1) [unfolded admissible_def]
  obtain l where l: "ip_limit cr req now ?s0 = (Go (), ?s0\<lparr>srv_ipLimiter := l\<rparr>)"
    using ip_limit_allows [of now req ?s0 cr] a by (auto simp: with_anomaly_def)
  let ?s1 = "?s0\<lparr>srv_ipLimiter := l\<rparr>"
  have sg: "shadow_gate cr cfg req now ?s1 = (Go (), ?s1)"
    using a by (simp add: shadow_gate_def shadowed_def with_anomaly_def)
  obtain k where k: "pair_limit cr req now ?s1 = (Go (), ?s1\<lparr>srv_rateLimiter := k\<rparr>)"
    using pair_limit_allows [of now req ?s1 cr] a by (auto simp: with_anomaly_def)
  let ?s2 = "?s1\<lparr>srv_rateLimiter := k\<rparr>"
  have ch: "check_headers cr req now ?s2 = (Go (), ?s2)" using a by (simp add: check_headers_def)
  have lp: "load_pair cr req now ?s2 = (Go auth, ?s2)"
    using a assms(2) by (simp add: load_pair_def with_anomaly_def)
  have cs: "check_status cr cfg req now auth ?s2 = (Go (), ?s2)"
    using a capture_fields [OF assms(2)] by (auto simp: check_status_def Let_def split: option.splits)
  have "\<exists>d s'. tarpit_gate cr cfg req now ?s2 = (Go d, s')"
    using a by (auto simp: tarpit_gate_def Let_def with_anomaly_def split: prod.splits verdict.splits)
  then obtain d s' where tg: "tarpit_gate cr cfg req now ?s2 = (Go d, s')" by blast
  have "same_core srv s'" using tarpit_gate_Go [OF tg] by (simp add: same_core_def with_anomaly_def)
  then show ?thesis using l sg k ch lp cs tg by (simp add: admit_def)
qed

lemma check_binding_authentic:
  assumes "authentic cr w req p now payload nonce ts" "au_scope auth = sp_scope p" "pair_id req = sp_id p"
    and "rq_method req \<in> set ALLOWED_METHODS"
  shows "check_binding req auth payload = None"
  using assms upper_allowed [OF assms(4)] by (auto simp: authentic_def check_binding_def present_def)

lemma check_payload_authentic:
  assumes "authentic cr (sc_sigWindowMs cfg) req p now payload nonce ts" "captureAuthorizationContext p = returns auth"
    and "pair_id req = sp_id p" "rq_method req \<in> set ALLOWED_METHODS"
  shows "check_payload cr cfg req auth now s = (Go nonce, s)"
proof -
  note cf = capture_fields [OF assms(2)]
  obtain sd sig jwk key tag where f: "rq_signedData req = Some sd" "decode_payload sd = returns payload"
    "field payload ''nonce'' = Some (JStr nonce)" "UUID_RE nonce" "field payload ''timestamp'' = Some (JNum ts)"
    "\<bar>now - ts\<bar> \<le> sc_sigWindowMs cfg" "field payload ''secret_hmac'' = Some (JStr tag)"
    "verifySecretHmac cr (sp_secretHash p) nonce ts tag" "rq_signature req = Some sig"
    "canonicalAuthorizationJwk (sp_pubJwk p) = returns jwk" "importPublicKeyFromJwk cr jwk = returns key"
    "verifyPayload cr key payload sig"
    using assms(1) by (auto simp: authentic_def)
  have "tag \<noteq> []" "sp_secretHash p \<noteq> []" using f(8) by (auto simp: verifySecretHmac_iff)
  moreover have "payload \<noteq> JNull" using f(3) by auto
  moreover have "signature_valid cr (au_pubJwk auth) payload sig"
    using f(10-12) cf(1) by (auto simp: signature_valid_iff)
  ultimately show ?thesis
    using f cf check_binding_authentic [OF assms(1) cf(3) assms(3,4)]
    by (simp add: check_payload_def secret_hmac_valid_def)
qed

lemma consume_nonce_fresh:
  assumes "consume now nonce (srv_nonces s) = (Inr False, ns)" "au_kind auth = Legitimate"
    and "case srv_guard s of None \<Rightarrow> True | Some g \<Rightarrow> assertAcceptable now g = Inr ()"
  shows "consume_nonce cr cfg consume req auth v now nonce s = (Go (), s\<lparr>srv_nonces := ns\<rparr>)"
  using assms by (simp add: consume_nonce_def ghost_trap_def Let_def split: option.splits)

lemma claim_use_active:
  assumes "reg_atomic (srv_registry s)" "reg_get (srv_registry s) (pair_id req) = Some p"
    and "captureAuthorizationContext p = returns auth" "sp_status p = Active" "\<not> time_expired_at p now"
    and "\<not> cap_reached (sp_maxRequests p) (sp_requests p)" "is_safe_integer now" "0 \<le> now"
  shows "fst (claim_use cr req auth d v now s) = Done (returns (accepted req auth v d))"
proof -
  have jwk: "canonicalAuthorizationJwk (up_pubJwk (expected_policy auth)) = returns (up_pubJwk (expected_policy auth))"
    using canonicalAuthorizationJwk_idem [OF capture_fields(1) [OF assms(3)]] by (simp add: expected_policy_def)
  have "\<exists>st'. ms_claimSuccessfulUse (pair_id req) now (expected_policy auth) (reg_store (srv_registry s)) = (returns Claimed, st')"
    unfolding ms_claim_Claimed_iff
    using assms(2,4-8) jwk expected_policy_captured [OF assms(3)] by (auto simp: reg_get_def)
  then show ?thesis using assms(1)
    by (auto simp: claim_use_def registry_call_def claimSuccessfulUseOutcome_def split: prod.splits)
qed

lemma complete_run:
  assumes "admissible cfg req (tm_admit tm) srv p" "captureAuthorizationContext p = returns auth"
    and "authentic cr (sc_sigWindowMs cfg) req p (tm_check tm) payload nonce ts"
    and "consume (tm_consume tm) nonce (srv_nonces srv) = (Inr False, ns)"
    and "case srv_guard srv of None \<Rightarrow> True | Some g \<Rightarrow> assertAcceptable (tm_consume tm) g = Inr ()"
    and "reg_wf (srv_registry srv)" "\<not> time_expired_at p (tm_claim tm)" "is_safe_integer (tm_claim tm)" "0 \<le> tm_claim tm"
  shows "\<exists>d. fst (verifyBPCRequest cr cfg consume req tm no_interference srv)
    = returns (accepted req auth (tm_check tm) d)"
proof -
  note a = assms(1) [unfolded admissible_def]
  have "ms_get (reg_store (srv_registry srv)) (pair_id req) = Some p" using a by (simp add: reg_get_def)
  then have id: "pair_id req = sp_id p" using reg_wf_id [OF assms(6)] by metis
  have m: "rq_method req \<in> set ALLOWED_METHODS" using header_error_None(1) a by blast
  obtain d s1 where A: "admit cr cfg req (tm_admit tm) srv = (Go (auth, d), s1)" "same_core srv s1"
    using admit_admissible [OF assms(1,2)] by blast
  have B: "check_payload cr cfg req auth (tm_check tm) s1 = (Go nonce, s1)"
    by (rule check_payload_authentic [OF assms(3,2) id m])
  have C: "consume_nonce cr cfg consume req auth (tm_check tm) (tm_consume tm) nonce s1 = (Go (), s1\<lparr>srv_nonces := ns\<rparr>)"
    using assms(4,5) A(2) a capture_fields(6) [OF assms(2)]
    by (intro consume_nonce_fresh) (simp_all add: same_core_def)
  have D: "fst (claim_use cr req auth d (tm_check tm) (tm_claim tm) (s1\<lparr>srv_nonces := ns\<rparr>))
      = Done (returns (accepted req auth (tm_check tm) d))"
  proof (rule claim_use_active [OF _ _ assms(2)])
    show "\<not> cap_reached (sp_maxRequests p) (sp_requests p)" "sp_status p = Active" using a by blast+
  qed (use A(2) a assms(6-9) in \<open>simp_all add: same_core_def reg_wf_def\<close>)
  then obtain s2 where "claim_use cr req auth d (tm_check tm) (tm_claim tm) (s1\<lparr>srv_nonces := ns\<rparr>)
      = (Done (returns (accepted req auth (tm_check tm) d)), s2)" by (metis prod.collapse)
  then have "fst (verifyBPCRequest cr cfg consume req tm no_interference srv) = returns (accepted req auth (tm_check tm) d)"
    using A B C by (simp add: verifyBPCRequest_def no_interference_def)
  then show ?thesis by blast
qed

text \<open>
  C7. Legitimate requests are served. An admissible request (headers in order, limits not reached,
  pair active and unexpired, source not in shadow) that is authentic, with a fresh nonce and an open
  continuity gate, is accepted, with a snapshot of the stored pair: the verifier never denies what the
  protocol promises to serve.
\<close>
theorem verify_complete:
  assumes "admissible cfg req (tm_admit tm) srv p" "captureAuthorizationContext p = returns auth"
    and "authentic cr (sc_sigWindowMs cfg) req p (tm_check tm) payload nonce ts"
    and "consume (tm_consume tm) nonce (srv_nonces srv) = (Inr False, ns)"
    and "case srv_guard srv of None \<Rightarrow> True | Some g \<Rightarrow> assertAcceptable (tm_consume tm) g = Inr ()"
    and "reg_wf (srv_registry srv)" "\<not> time_expired_at p (tm_claim tm)" "is_safe_integer (tm_claim tm)" "0 \<le> tm_claim tm"
  shows "\<exists>d. fst (verifyBPCRequest cr cfg consume req tm no_interference srv)
    = returns (accepted req auth (tm_check tm) d)"
  by (rule complete_run [where consume = consume, OF assms])

section \<open>Alarms and error paths\<close>

text \<open>
  The ghost trap. Using a ghost pair's credentials with a fresh nonce is denied with
  \<open>ghost_pair_denied\<close>, puts the source in shadow state for that pair, and appends exactly one entry to
  the audit log, a critical \<open>ghost_pair_triggered\<close>.
\<close>
theorem ghost_pair_trips:
  assumes "au_kind auth = Ghost" "consume now nonce (srv_nonces s) = (Inr False, ns)"
    and "case srv_guard s of None \<Rightarrow> True | Some g \<Rightarrow> assertAcceptable now g = Inr ()"
    and "consume_nonce cr cfg consume req auth v now nonce s = (res, s')"
  shows "(\<exists>d. res = Done (returns (shadow_result req ''ghost_pair_denied'' d)))
    \<and> shadowed (pair_id req) (source_ip req) s'
    \<and> srv_audit s' = map_option (audit_write cr now
        (event req GhostPairTriggered (Some SevCritical) None (Some (ghost_detail req auth v)))) (srv_audit s)"
proof -
  let ?s = "with_anomaly (enterShadowState now (pair_id req) (source_ip req)
    (''ghost_pair_hit:'' @ canary_text (au_canaryClass auth))) (s\<lparr>srv_nonces := ns\<rparr>)"
  have "shadowed (pair_id req) (source_ip req) ?s"
    by (simp add: shadowed_def with_anomaly_def isInShadowState_entered)
  then have "shadowed (pair_id req) (source_ip req) (snd (shadow_tarpit cfg req now ?s))" by simp
  moreover have "srv_audit (snd (shadow_tarpit cfg req now ?s)) = srv_audit s"
    by (simp add: shadow_tarpit_def with_anomaly_def split: prod.splits)
  moreover have "consume_nonce cr cfg consume req auth v now nonce s =
      (Done (returns (shadow_result req ''ghost_pair_denied'' (fst (shadow_tarpit cfg req now ?s)))),
       log_event cr now (event req GhostPairTriggered (Some SevCritical) None (Some (ghost_detail req auth v)))
         (snd (shadow_tarpit cfg req now ?s)))"
    using assms(1-3) by (simp add: consume_nonce_def ghost_trap_def Let_def case_prod_beta split: option.splits)
  ultimately show ?thesis using assms(4) by (auto simp: shadowed_frame(1)) (simp add: log_event_def)
qed

text \<open>
  A payload of \<open>null\<close>. When an admitted request's signed data decodes to the JSON value
  \<open>null\<close>, the property access after the \<open>try\<close> block raises: the verification rejects with a
  \<open>TypeError\<close> instead of denying, and nothing is counted, logged or charged to the source.
\<close>
theorem null_payload_rejects:
  assumes "admit cr cfg req (tm_admit tm) srv = (Go (auth, d), s1)"
    and "rq_signedData req = Some sd" "decode_payload sd = returns JNull"
  shows "verifyBPCRequest cr cfg consume req tm ev srv = (throw ''TypeError'', if_check ev s1)"
  using assms by (simp add: verifyBPCRequest_def check_payload_def)

text \<open>
  One bad signature counts twice. A denial that counts a signature failure for a request with a
  pair identifier raises the global counter \<open>sig_fail\<close> by two, although one request failed:
  \<open>recordSigFailureForIp\<close> repeats \<open>recordSigFailure\<close>. The per-IP counter rises by one.
\<close>
theorem signature_failure_counted_twice:
  assumes "present (rq_pairId req)"
  shows "cnt_get now ''global:sig_fail'' (an_counters (srv_anomaly (snd (deny cr req now e True srv))))
    = cnt_get now ''global:sig_fail'' (an_counters (srv_anomaly srv)) + 2"
proof -
  have ne: "''global:sig_fail'' \<noteq> ip_pair_key ip p" "''global:sig_fail'' \<noteq> ''global:denied''" for ip p
    by (simp_all add: ip_pair_key_def)
  have p: "cnt_get now ''global:sig_fail'' (an_counters (bump_pair now q w an)) = cnt_get now ''global:sig_fail'' (an_counters an)" for q w an
    by (rule cnt_get_bump_pair_global) simp
  show ?thesis using assms
    by (simp add: deny_def Let_def with_anomaly_def log_event_def recordDenied_def recordSigFailure_def
        recordSigFailureForIp_def p cnt_get_bump ne del: bump_counters)
qed

end
