(* ===== verification/Client.thy ===== *)
theory Client
  imports Verifier
begin

text \<open>
  \<^verbatim>\<open>packages/client-sdk/src\<close>: the signing client (\<^verbatim>\<open>client.ts\<close>), the registration request
  (\<^verbatim>\<open>registration.ts\<close>), the file names of \<^verbatim>\<open>node-storage.ts\<close> and the failover transport
  (\<^verbatim>\<open>failover-transport.ts\<close>). The random nonce, the clock, the generated key pair and the
  network are arguments. The theorems: what the client signs is authentic for the verifier, and
  writes never reach a replica.
\<close>

section \<open>client.ts\<close>

record bpc_client =
  cl_serverUrl :: string
  cl_pairId :: string
  cl_privateKey :: key
  cl_secret :: string

record signed_headers =
  sh_pairIdHeader :: string
  sh_signature :: string
  sh_signedData :: string
  sh_version :: string

definition EMPTY_BODY_HASH :: string where
  "EMPTY_BODY_HASH = ''sha256:47DEQpj8HBSa-_TImW-5JCeuQeRkm5NMpJWZG3hSuFU''"

text \<open>A request body by the type tests of \<open>exactBodyBytes\<close>; \<open>BodyOther\<close> carries its \<open>typeof\<close>.\<close>

datatype request_body = BodyString string | BodyBuffer bytes | BodyView bytes | BodyParams string
  | BodyBlob bytes | BodyForm | BodyStream | BodyObject json | BodyOther string

fun exactBodyBytes :: "request_body \<Rightarrow> bytes throws" where
  "exactBodyBytes (BodyString s) = returns (utf8 s)"
| "exactBodyBytes (BodyBuffer b) = returns b"
| "exactBodyBytes (BodyView b) = returns b"
| "exactBodyBytes (BodyParams s) = returns (utf8 s)"
| "exactBodyBytes (BodyBlob b) = returns b"
| "exactBodyBytes BodyForm = throw ''BPCClient: FormData wire boundaries cannot be pre-hashed deterministically''"
| "exactBodyBytes BodyStream =
     throw ''BPCClient: streaming request bodies require an application-supplied digest adapter''"
| "exactBodyBytes (BodyObject v) = returns (utf8 (stringify v))"
| "exactBodyBytes (BodyOther t) = throw (''BPCClient: unsupported request body type '' @ t)"

definition body_hash :: "webcrypto \<Rightarrow> request_body option \<Rightarrow> string throws" where
  "body_hash cr body = (case body of
     None \<Rightarrow> returns EMPTY_BODY_HASH
   | Some b \<Rightarrow> and_then (exactBodyBytes b) (\<lambda>bytes. returns (''sha256:'' @ b64url (wc_sha256 cr bytes))))"

definition request_payload :: "string \<Rightarrow> string \<Rightarrow> string \<Rightarrow> string \<Rightarrow> string \<Rightarrow> string \<Rightarrow> int \<Rightarrow> json" where
  "request_payload bodyHash method nonce pairId path secretHmac timestamp = JObj
     [(''body_hash'', JStr bodyHash), (''method'', JStr method), (''nonce'', JStr nonce), (''pair_id'', JStr pairId),
      (''path'', JStr path), (''secret_hmac'', JStr secretHmac), (''timestamp'', JNum timestamp),
      (''version'', JStr BPC_PROTOCOL_VERSION)]"

definition signRequest ::
    "webcrypto \<Rightarrow> bpc_client \<Rightarrow> string \<Rightarrow> int \<Rightarrow> string \<Rightarrow> string \<Rightarrow> request_body option \<Rightarrow> signed_headers throws" where
  "signRequest cr cl nonce timestamp method path body =
     and_then (body_hash cr body) (\<lambda>bodyHash.
     and_then (hashSecret cr (cl_secret cl)) (\<lambda>secretHash.
     and_then (hmacDerive cr secretHash (nonce @ int_to_dec timestamp)) (\<lambda>secretHmac.
       let payload = request_payload bodyHash method nonce (cl_pairId cl) path secretHmac timestamp
       in and_then (signPayload cr (cl_privateKey cl) payload) (\<lambda>signature.
          and_then (canonicalize payload) (\<lambda>canonical. returns
            \<lparr>sh_pairIdHeader = cl_pairId cl, sh_signature = signature, sh_signedData = b64url (utf8 canonical),
             sh_version = BPC_PROTOCOL_VERSION\<rparr>)))))"

definition secure_url :: "string \<Rightarrow> bool" where
  "secure_url url = (js_starts_with url ''https://'' \<or> js_starts_with url ''http://localhost''
     \<or> js_starts_with url ''http://127.0.0.1'')"

text \<open>The request \<open>fetch\<close> hands to the network: the URL, the method and the BPC headers.\<close>

definition client_fetch ::
    "webcrypto \<Rightarrow> bpc_client \<Rightarrow> string \<Rightarrow> int \<Rightarrow> string \<Rightarrow> string option \<Rightarrow> request_body option
       \<Rightarrow> (string \<times> string \<times> signed_headers) throws" where
  "client_fetch cr cl nonce timestamp path initMethod body =
     (if \<not> secure_url (cl_serverUrl cl)
      then throw (''BPCClient: serverUrl must use HTTPS in production. Got: '' @ cl_serverUrl cl)
      else let method = map to_upper (case initMethod of None \<Rightarrow> ''GET'' | Some m \<Rightarrow> m)
           in and_then (signRequest cr cl nonce timestamp method path body) (\<lambda>headers.
             returns (cl_serverUrl cl @ path, method, headers)))"

definition rotation_payload :: "bpc_client \<Rightarrow> int \<Rightarrow> json \<Rightarrow> json" where
  "rotation_payload cl timestamp newPubJwk = JObj
     [(''new_pub_jwk_json'', JStr (stringify newPubJwk)), (''old_pair_id'', JStr (cl_pairId cl)),
      (''purpose'', JStr ''rotation''), (''timestamp'', JNum timestamp)]"

text \<open>The body \<open>rotate\<close> posts: pair, new key, signature, signed data, timestamp.\<close>

definition client_rotate :: "webcrypto \<Rightarrow> bpc_client \<Rightarrow> int \<Rightarrow> json \<Rightarrow> (string \<times> json \<times> string \<times> string \<times> int) throws" where
  "client_rotate cr cl timestamp newPubJwk =
     and_then (canonicalize (rotation_payload cl timestamp newPubJwk)) (\<lambda>canonical.
     and_then (signPayload cr (cl_privateKey cl) (rotation_payload cl timestamp newPubJwk)) (\<lambda>signature.
       returns (cl_pairId cl, newPubJwk, signature, b64url (utf8 canonical), timestamp)))"

section \<open>registration.ts\<close>

text \<open>The generated public key is the argument \<open>pubJwk\<close>; the capture events are emitted elsewhere.\<close>

definition prepareRegistration ::
    "webcrypto \<Rightarrow> json \<Rightarrow> string \<Rightarrow> string \<Rightarrow> string \<Rightarrow> string \<Rightarrow> pair_registration throws" where
  "prepareRegistration cr pubJwk name secret scope mode = (case validateSecret secret of
     Inl reason \<Rightarrow> throw (''BPC registration secret rejected: '' @ reason)
   | Inr u \<Rightarrow> and_then (hashSecret cr secret) (\<lambda>secretHash. returns
       \<lparr>rg_name = name, rg_scope = scope, rg_mode = mode, rg_secretHash = secretHash, rg_pubJwk = pubJwk,
        rg_expiresAt = None, rg_maxRequests = None, rg_kind = None, rg_canaryClass = None\<rparr>))"

section \<open>node-storage.ts\<close>

definition filePath :: "string \<Rightarrow> string" where
  "filePath pid = map (\<lambda>c. if is_b64url_char c then c else CHR ''_'') pid @ ''.json''"

section \<open>failover-transport.ts\<close>

record endpoint =
  ep_url :: string
  ep_healthy :: bool
  ep_streak :: int
  ep_streakStartedAt :: "int option"

record transport =
  ft_primary :: endpoint
  ft_replicas :: "endpoint list"
  ft_healthPath :: string
  ft_missThreshold :: int
  ft_windowMs :: int

definition new_endpoint :: "string \<Rightarrow> endpoint" where
  "new_endpoint url = \<lparr>ep_url = url, ep_healthy = True, ep_streak = 0, ep_streakStartedAt = None\<rparr>"

definition new_transport :: "string \<Rightarrow> string list \<Rightarrow> string option \<Rightarrow> int option \<Rightarrow> int option \<Rightarrow> transport" where
  "new_transport primary replicas healthPath missThreshold windowMs =
     \<lparr>ft_primary = new_endpoint primary, ft_replicas = map new_endpoint replicas,
      ft_healthPath = (case healthPath of None \<Rightarrow> ''/health'' | Some p \<Rightarrow> p),
      ft_missThreshold = (case missThreshold of None \<Rightarrow> 3 | Some n \<Rightarrow> n),
      ft_windowMs = (case windowMs of None \<Rightarrow> 15000 | Some w \<Rightarrow> w)\<rparr>"

definition activeReadUrl :: "transport \<Rightarrow> string" where
  "activeReadUrl ft = (if ep_healthy (ft_primary ft) then ep_url (ft_primary ft)
     else case find ep_healthy (ft_replicas ft) of Some e \<Rightarrow> ep_url e | None \<Rightarrow> ep_url (ft_primary ft))"

definition recordSuccess :: "endpoint \<Rightarrow> endpoint" where
  "recordSuccess ep = ep\<lparr>ep_streak := 0, ep_streakStartedAt := None, ep_healthy := True\<rparr>"

definition recordMiss :: "int \<Rightarrow> int \<Rightarrow> int \<Rightarrow> endpoint \<Rightarrow> endpoint" where
  "recordMiss missThreshold windowMs now ep =
     (let ep1 = (case ep_streakStartedAt ep of
            None \<Rightarrow> ep\<lparr>ep_streak := 1, ep_streakStartedAt := Some now\<rparr>
          | Some t \<Rightarrow> if windowMs < now - t then ep\<lparr>ep_streak := 1, ep_streakStartedAt := Some now\<rparr>
              else ep\<lparr>ep_streak := ep_streak ep + 1\<rparr>)
      in if missThreshold \<le> ep_streak ep1 then ep1\<lparr>ep_healthy := False\<rparr> else ep1)"

text \<open>
  The network: \<open>net url\<close> is \<open>Inr ok\<close> for a response (\<open>ok\<close> a 2xx status), \<open>Inl\<close> for an error or a
  timeout. The operations return the URLs they contacted, in order.
\<close>

type_synonym net = "string \<Rightarrow> bool throws"

fun read_healthy :: "net \<Rightarrow> transport \<Rightarrow> int \<Rightarrow> string \<Rightarrow> endpoint list
    \<Rightarrow> bool option \<times> string option \<times> endpoint list \<times> string list" where
  "read_healthy net ft now path [] = (None, None, [], [])"
| "read_healthy net ft now path (ep # eps) =
     (if \<not> ep_healthy ep then
        (case read_healthy net ft now path eps of (r, e, eps', us) \<Rightarrow> (r, e, ep # eps', us))
      else (case net (ep_url ep @ path) of
          Inr ok \<Rightarrow> (Some ok, None, recordSuccess ep # eps, [ep_url ep @ path])
        | Inl err \<Rightarrow>
            (case read_healthy net ft now path eps of (r, e, eps', us) \<Rightarrow>
              (r, (case e of None \<Rightarrow> Some err | Some x \<Rightarrow> Some x),
               recordMiss (ft_missThreshold ft) (ft_windowMs ft) now ep # eps', (ep_url ep @ path) # us))))"

fun read_any :: "net \<Rightarrow> string \<Rightarrow> string option \<Rightarrow> endpoint list \<Rightarrow> bool throws \<times> endpoint list \<times> string list" where
  "read_any net path lastErr [] = (throw (case lastErr of None \<Rightarrow> ''all endpoints failed'' | Some e \<Rightarrow> e), [], [])"
| "read_any net path lastErr (ep # eps) = (case net (ep_url ep @ path) of
     Inr ok \<Rightarrow> (returns ok, recordSuccess ep # eps, [ep_url ep @ path])
   | Inl err \<Rightarrow> (case read_any net path (Some err) eps of (r, eps', us) \<Rightarrow> (r, ep # eps', (ep_url ep @ path) # us)))"

definition with_endpoints :: "endpoint list \<Rightarrow> transport \<Rightarrow> transport" where
  "with_endpoints eps ft = ft\<lparr>ft_primary := hd eps, ft_replicas := tl eps\<rparr>"

definition ft_read :: "net \<Rightarrow> int \<Rightarrow> string \<Rightarrow> transport \<Rightarrow> bool throws \<times> transport \<times> string list" where
  "ft_read net now path ft =
     (case read_healthy net ft now path (ft_primary ft # ft_replicas ft) of
        (Some ok, e, eps, us) \<Rightarrow> (returns ok, with_endpoints eps ft, us)
      | (None, e, eps, us) \<Rightarrow>
          (case read_any net path e eps of (r, eps', us') \<Rightarrow> (r, with_endpoints eps' ft, us @ us')))"

definition ft_write :: "net \<Rightarrow> int \<Rightarrow> string \<Rightarrow> transport \<Rightarrow> bool throws \<times> transport \<times> string list" where
  "ft_write net now path ft =
     (if \<not> ep_healthy (ft_primary ft)
      then (throw ''primary is unavailable; writes are primary-only (Option A)'', ft, [])
      else let url = ep_url (ft_primary ft) @ path
        in (case net url of
              Inr ok \<Rightarrow> (returns ok, ft\<lparr>ft_primary := recordSuccess (ft_primary ft)\<rparr>, [url])
            | Inl e \<Rightarrow> (throw e, ft\<lparr>ft_primary := recordMiss (ft_missThreshold ft) (ft_windowMs ft) now (ft_primary ft)\<rparr>, [url])))"

definition probe :: "net \<Rightarrow> transport \<Rightarrow> int \<Rightarrow> endpoint \<Rightarrow> bool \<times> endpoint" where
  "probe net ft now ep = (case net (ep_url ep @ ft_healthPath ft) of
     Inr True \<Rightarrow> (True, recordSuccess ep)
   | _ \<Rightarrow> (let ep' = recordMiss (ft_missThreshold ft) (ft_windowMs ft) now ep in (ep_healthy ep', ep')))"

definition probePrimary :: "net \<Rightarrow> int \<Rightarrow> transport \<Rightarrow> bool \<times> transport" where
  "probePrimary net now ft = (case probe net ft now (ft_primary ft) of (b, ep) \<Rightarrow> (b, ft\<lparr>ft_primary := ep\<rparr>))"

definition probeAll :: "net \<Rightarrow> int \<Rightarrow> transport \<Rightarrow> (string \<times> bool) list \<times> transport" where
  "probeAll net now ft =
     (let eps = map (\<lambda>ep. snd (probe net ft now ep)) (ft_primary ft # ft_replicas ft)
      in (fold (\<lambda>ep m. jm_set (ep_url ep) (ep_healthy ep) m) eps [], with_endpoints eps ft))"

section \<open>What the client signs\<close>

lemma is_ascii_append [simp]: "is_ascii (a @ b) \<longleftrightarrow> is_ascii a \<and> is_ascii b"
  by (simp add: is_ascii_def)

lemma is_ascii_digit: "list_all is_digit s \<Longrightarrow> is_ascii s"
  by (auto simp: is_ascii_def list_all_iff is_digit_def)

lemma is_ascii_dec: "is_ascii (int_to_dec i)"
proof -
  have "is_ascii (nat_to_dec n)" for n using nat_to_dec_digits by (rule is_ascii_digit)
  then show ?thesis by (simp add: int_to_dec_def is_ascii_def)
qed

lemma is_ascii_b64url: "is_ascii (b64url bs)"
  using b64url_alphabet [of bs]
  by (auto simp: is_ascii_def list_all_iff is_b64url_char_def is_alnum_def is_digit_def is_upper_def is_lower_def)

lemma is_ascii_quote: "is_ascii s \<Longrightarrow> is_ascii (quote s)"
proof -
  have "is_ascii (esc_char c)" if "code c < 128" for c
    using that by (auto simp: esc_char_def is_ascii_def hex_digit_def)
  then show "is_ascii s \<Longrightarrow> is_ascii (quote s)"
    by (auto simp: quote_def is_ascii_def list_all_iff)
qed

lemma is_ascii_join: "is_ascii sep \<Longrightarrow> (\<forall>x \<in> set xs. is_ascii x) \<Longrightarrow> is_ascii (join_with sep xs)"
  by (induction sep xs rule: join_with.induct) (auto simp: is_ascii_def)

lemma is_ascii_object:
  "\<forall>(k, v) \<in> set kvs. is_ascii k \<and> is_ascii (stringify v) \<Longrightarrow> is_ascii (stringify (JObj kvs))"
  using is_ascii_join [of "'',''" "map (\<lambda>(k, v). quote k @ '':'' @ stringify v) kvs"] is_ascii_quote
  by (fastforce simp: is_ascii_def)

text \<open>
  A flat payload survives the trip: signed, canonicalised, encoded, decoded by the verifier. The
  decoded object is the payload up to the order of its keys, and the signature verifies over it.
\<close>

lemma signed_round_trip:
  assumes "signPayload cr sk (JObj kvs) = returns sig" "canonicalize (JObj kvs) = returns canon"
    and "distinct (map fst kvs)" "is_ascii canon"
    and "\<And>m. wc_verify cr pk (wc_sign cr sk m) m"
  obtains kvs' where "b64url_atob (b64url (utf8 canon)) = returns canon" "json_parse canon = returns (JObj kvs')"
    "map_of kvs' = map_of kvs" "verifyPayload cr pk (JObj kvs') sig"
proof -
  let ?kvs = "obj_order (sort_key fst kvs)"
  have c: "canonicalize (JObj ?kvs) = canonicalize (JObj kvs)"
    by (rule canonicalize_cong) (simp_all add: assms(3) distinct_obj_order)
  have "verifyPayload cr pk (JObj kvs) sig" by (rule signPayload_verifies [OF assms(1,5)])
  then have "verifyPayload cr pk (JObj ?kvs) sig" by (simp add: verifyPayload_iff c)
  with map_of_canonical_order [OF assms(3)] json_parse_canonicalize [OF assms(2,3)] show ?thesis
    using assms(4) by (intro that) (simp_all add: b64url_atob_b64url utf8_ascii)
qed

lemma payload_round_trip:
  assumes "signPayload cr sk (JObj kvs) = returns sig" "canonicalize (JObj kvs) = returns canon"
    and "distinct (map fst kvs)" "is_ascii canon" "assertNoForbiddenKeys canon = returns ()"
    and "\<And>m. wc_verify cr pk (wc_sign cr sk m) m"
  obtains kvs' where "decode_payload (b64url (utf8 canon)) = returns (JObj kvs')" "map_of kvs' = map_of kvs"
    "verifyPayload cr pk (JObj kvs') sig"
  by (rule signed_round_trip [OF assms(1-4,6)]) (use assms(5) in \<open>auto simp: decode_payload_def intro: that\<close>)

lemma ascii_canonical:
  assumes "canonicalize (JObj kvs) = returns canon" "\<forall>(k, v) \<in> set kvs. is_ascii k \<and> is_ascii (stringify v)"
  shows "is_ascii canon"
proof -
  have "is_ascii (stringify (JObj (obj_order (sort_key fst kvs))))" using assms(2) by (intro is_ascii_object) simp
  then show ?thesis using assms(1) by (auto simp: canonicalize_iff)
qed

definition wire_request :: "signed_headers \<Rightarrow> string \<Rightarrow> string \<Rightarrow> string \<Rightarrow> string option \<Rightarrow> bpc_request" where
  "wire_request h method path bodyHash ip = \<lparr>rq_pairId = Some (sh_pairIdHeader h), rq_signedData = Some (sh_signedData h),
     rq_signature = Some (sh_signature h), rq_method = method, rq_path = path, rq_version = Some (sh_version h),
     rq_bodyHash = Some bodyHash, rq_ip = ip\<rparr>"

text \<open>The client and the stored pair belong together: one secret, one key pair, one identifier.\<close>

definition paired :: "webcrypto \<Rightarrow> bpc_client \<Rightarrow> stored_pair \<Rightarrow> bool" where
  "paired cr cl p = (sp_id p = cl_pairId cl \<and> hashSecret cr (cl_secret cl) = returns (sp_secretHash p)
     \<and> (\<exists>jwk key. canonicalAuthorizationJwk (sp_pubJwk p) = returns jwk \<and> importPublicKeyFromJwk cr jwk = returns key
          \<and> (\<forall>m. wc_verify cr key (wc_sign cr (cl_privateKey cl) m) m)))"

lemma body_hash_text: "body_hash cr body = returns bh \<Longrightarrow> is_ascii bh \<and> bh \<noteq> []"
  using is_ascii_b64url
  by (auto simp: body_hash_def EMPTY_BODY_HASH_def and_then_Inr_iff is_ascii_def split: option.splits)

lemma client_authentic:
  assumes "signRequest cr cl nonce ts method path body = returns h" "body_hash cr body = returns bh" "paired cr cl p"
    and "\<And>k d. length (wc_hmac cr k d) = 32"
    and "UUID_RE nonce" "\<bar>now - ts\<bar> \<le> window" "SCOPE_ALLOWED_METHODS (sp_scope p) = Some ms" "method \<in> set ms"
    and "is_ascii path" "is_ascii method" "is_ascii nonce" "is_ascii (cl_pairId cl)"
    and "and_then (b64url_atob (sh_signedData h)) assertNoForbiddenKeys = returns ()"
  shows "\<exists>payload. authentic cr window (wire_request h method path bh ip) p now payload nonce ts"
proof -
  obtain jwk key where k: "sp_id p = cl_pairId cl" "hashSecret cr (cl_secret cl) = returns (sp_secretHash p)"
    "canonicalAuthorizationJwk (sp_pubJwk p) = returns jwk" "importPublicKeyFromJwk cr jwk = returns key"
    "\<And>m. wc_verify cr key (wc_sign cr (cl_privateKey cl) m) m" using assms(3) by (auto simp: paired_def)
  obtain tag sig canon kvs where s: "hmacDerive cr (sp_secretHash p) (nonce @ int_to_dec ts) = returns tag"
    "request_payload bh method nonce (cl_pairId cl) path tag ts = JObj kvs"
    "signPayload cr (cl_privateKey cl) (JObj kvs) = returns sig" "canonicalize (JObj kvs) = returns canon"
    "h = \<lparr>sh_pairIdHeader = cl_pairId cl, sh_signature = sig, sh_signedData = b64url (utf8 canon), sh_version = BPC_PROTOCOL_VERSION\<rparr>"
    using assms(1,2) k(2) by (auto simp: signRequest_def and_then_Inr_iff Let_def request_payload_def)
  have tag: "verifySecretHmac cr (sp_secretHash p) nonce ts tag" by (rule hmacDerive_verifies [OF s(1) assms(4)])
  have kvs: "kvs = [(''body_hash'', JStr bh), (''method'', JStr method), (''nonce'', JStr nonce),
      (''pair_id'', JStr (cl_pairId cl)), (''path'', JStr path), (''secret_hmac'', JStr tag),
      (''timestamp'', JNum ts), (''version'', JStr BPC_PROTOCOL_VERSION)]"
    using s(2) by (simp add: request_payload_def)
  have "is_ascii tag" using s(1) is_ascii_b64url by (auto simp: hmacDerive_iff)
  then have "\<forall>(k, v) \<in> set kvs. is_ascii k \<and> is_ascii (stringify v)"
    using body_hash_text [OF assms(2)] assms(9-12) is_ascii_dec is_ascii_quote
    by (simp add: kvs) (simp add: is_ascii_def BPC_PROTOCOL_VERSION_def)
  then have "is_ascii canon" by (rule ascii_canonical [OF s(4)])
  moreover have "distinct (map fst kvs)" by (simp add: kvs)
  moreover have "assertNoForbiddenKeys canon = returns ()"
    using assms(13) s(5) calculation(1) by (simp add: b64url_atob_b64url utf8_ascii)
  ultimately obtain kvs' where d: "decode_payload (b64url (utf8 canon)) = returns (JObj kvs')"
    "map_of kvs' = map_of kvs" "verifyPayload cr key (JObj kvs') sig"
    using payload_round_trip [OF s(3,4) _ _ _ k(5)] by metis
  have "authentic cr window (wire_request h method path bh ip) p now (JObj kvs') nonce ts"
    using d k s(5) tag assms(5-8) body_hash_text [OF assms(2)]
    by (simp add: authentic_def wire_request_def kvs)
  then show ?thesis by blast
qed

section \<open>The failover transport\<close>

datatype ft_event = FtRead net int string | FtWrite net int string | FtProbePrimary net int | FtProbeAll net int

fun ft_step :: "transport \<Rightarrow> ft_event \<Rightarrow> transport" where
  "ft_step ft (FtRead net now path) = fst (snd (ft_read net now path ft))"
| "ft_step ft (FtWrite net now path) = fst (snd (ft_write net now path ft))"
| "ft_step ft (FtProbePrimary net now) = snd (probePrimary net now ft)"
| "ft_step ft (FtProbeAll net now) = snd (probeAll net now ft)"

definition endpoint_urls :: "string list \<Rightarrow> transport \<Rightarrow> bool" where
  "endpoint_urls us ft = (map ep_url (ft_primary ft # ft_replicas ft) = us)"

lemma ep_url_simps [simp]: "ep_url (recordSuccess ep) = ep_url ep" "ep_url (recordMiss m w now ep) = ep_url ep"
  by (simp_all add: recordSuccess_def recordMiss_def Let_def split: option.splits)

lemma read_healthy_urls:
  "read_healthy net ft now path eps = (r, e, eps', us) \<Longrightarrow> map ep_url eps' = map ep_url eps"
  by (induction net ft now path eps arbitrary: r e eps' us rule: read_healthy.induct)
     (auto split: if_splits sum.splits prod.splits)

lemma read_any_urls: "read_any net path e eps = (r, eps', us) \<Longrightarrow> map ep_url eps' = map ep_url eps"
  by (induction net path e eps arbitrary: r eps' us rule: read_any.induct) (auto split: sum.splits prod.splits)

lemma with_endpoints_urls:
  "map ep_url eps = us \<Longrightarrow> eps \<noteq> [] \<Longrightarrow> endpoint_urls us (with_endpoints eps ft)"
  by (cases eps) (auto simp: endpoint_urls_def with_endpoints_def)

lemma endpoint_urls_step: "endpoint_urls us ft \<Longrightarrow> endpoint_urls us (ft_step ft e)"
proof (cases e)
  case (FtRead net now path)
  assume u: "endpoint_urls us ft"
  obtain r er eps cs where h: "read_healthy net ft now path (ft_primary ft # ft_replicas ft) = (r, er, eps, cs)"
    by (metis prod_cases4)
  have eps: "map ep_url eps = us" using read_healthy_urls [OF h] u by (simp add: endpoint_urls_def)
  then have ne: "eps \<noteq> []" using u by (auto simp: endpoint_urls_def)
  show ?thesis
  proof (cases r)
    case None
    obtain r2 eps2 cs2 where a: "read_any net path er eps = (r2, eps2, cs2)" by (metis prod_cases3)
    with read_any_urls [OF a] eps ne have "map ep_url eps2 = us" "eps2 \<noteq> []" by auto
    with FtRead h None a show ?thesis by (simp add: ft_read_def with_endpoints_urls)
  next
    case (Some b)
    with FtRead h eps ne show ?thesis by (simp add: ft_read_def with_endpoints_urls)
  qed
next
  case (FtProbeAll net now)
  assume "endpoint_urls us ft"
  moreover have "ep_url (snd (probe net ft now ep)) = ep_url ep" for ep
    by (simp add: probe_def Let_def split: sum.splits bool.splits)
  ultimately show ?thesis using FtProbeAll
    by (simp add: probeAll_def Let_def endpoint_urls_def with_endpoints_def comp_def)
qed (auto simp: endpoint_urls_def ft_write_def probePrimary_def probe_def Let_def split: sum.splits prod.splits bool.splits)

interpretation ftm: inv_machine ft_step "endpoint_urls us" for us
  by unfold_locales (rule endpoint_urls_step)

text \<open>An endpoint that is marked healthy has counted fewer misses than the threshold.\<close>

definition mark_ok :: "int \<Rightarrow> endpoint \<Rightarrow> bool" where
  "mark_ok mt ep = (ep_healthy ep \<longrightarrow> ep_streak ep < mt)"

definition marks_ok :: "int \<Rightarrow> transport \<Rightarrow> bool" where
  "marks_ok mt ft = (ft_missThreshold ft = mt \<and> list_all (mark_ok mt) (ft_primary ft # ft_replicas ft))"

lemma mark_simps [simp]: "mark_ok mt (recordMiss mt w now ep)" "0 < mt \<Longrightarrow> mark_ok mt (recordSuccess ep)"
  by (auto simp: mark_ok_def recordMiss_def recordSuccess_def Let_def split: option.splits)

lemma read_healthy_marks:
  "read_healthy net ft now path eps = (r, e, eps', us) \<Longrightarrow> 0 < ft_missThreshold ft \<Longrightarrow> list_all (mark_ok (ft_missThreshold ft)) eps
    \<Longrightarrow> list_all (mark_ok (ft_missThreshold ft)) eps'"
  by (induction net ft now path eps arbitrary: r e eps' us rule: read_healthy.induct)
     (auto split: if_splits sum.splits prod.splits)

lemma read_any_marks:
  "read_any net path e eps = (r, eps', us) \<Longrightarrow> 0 < mt \<Longrightarrow> list_all (mark_ok mt) eps \<Longrightarrow> list_all (mark_ok mt) eps'"
  by (induction net path e eps arbitrary: r eps' us rule: read_any.induct) (auto split: sum.splits prod.splits)

lemma with_endpoints_marks:
  "list_all (mark_ok mt) eps \<Longrightarrow> eps \<noteq> [] \<Longrightarrow> ft_missThreshold ft = mt \<Longrightarrow> marks_ok mt (with_endpoints eps ft)"
  by (cases eps) (auto simp: marks_ok_def with_endpoints_def)

lemma marks_ok_step:
  assumes "0 < mt" "marks_ok mt ft"
  shows "marks_ok mt (ft_step ft e)"
proof (cases e)
  case (FtRead net now path)
  obtain r er eps cs where h: "read_healthy net ft now path (ft_primary ft # ft_replicas ft) = (r, er, eps, cs)"
    by (metis prod_cases4)
  have eps: "list_all (mark_ok mt) eps" using read_healthy_marks [OF h] assms by (simp add: marks_ok_def)
  have ne: "eps \<noteq> []" using read_healthy_urls [OF h] by auto
  show ?thesis
  proof (cases r)
    case None
    obtain r2 eps2 cs2 where a: "read_any net path er eps = (r2, eps2, cs2)" by (metis prod_cases3)
    then have "eps2 \<noteq> []" using read_any_urls [OF a] ne by auto
    with FtRead h None a read_any_marks [OF a assms(1) eps] assms(2) show ?thesis
      by (simp add: ft_read_def with_endpoints_marks marks_ok_def [of mt ft])
  next
    case (Some b)
    with FtRead h eps ne assms(2) show ?thesis by (simp add: ft_read_def with_endpoints_marks marks_ok_def [of mt ft])
  qed
next
  case (FtProbeAll net now)
  have "mark_ok mt (snd (probe net ft now ep))" for ep
    using assms by (auto simp: probe_def Let_def marks_ok_def split: sum.splits bool.splits)
  with FtProbeAll assms show ?thesis
    by (auto simp: probeAll_def Let_def marks_ok_def with_endpoints_def list_all_iff)
qed (use assms in \<open>auto simp: marks_ok_def ft_write_def probePrimary_def probe_def Let_def split: sum.splits prod.splits bool.splits\<close>)

lemma threshold_run: "ft_missThreshold (foldl ft_step ft es) = ft_missThreshold ft"
proof (induction es arbitrary: ft)
  case (Cons e es)
  have "ft_missThreshold (ft_step ft e) = ft_missThreshold ft"
    by (cases e) (auto simp: ft_read_def ft_write_def probePrimary_def probeAll_def with_endpoints_def Let_def
      split: prod.splits option.splits sum.splits)
  with Cons show ?case by simp
qed simp

interpretation ftk: inv_machine ft_step "\<lambda>ft. 0 < mt \<and> marks_ok mt ft" for mt
  by unfold_locales (auto intro: marks_ok_step)

text \<open>
  C24. Writes are primary-only. Whatever reads, writes, probes and network failures came before, a
  write contacts the configured primary once, and nothing else, when the primary is marked healthy, and
  reports its outcome; when the primary is marked unhealthy it contacts nothing, changes nothing and
  fails with the error for an unavailable primary. With a positive threshold the mark falls only after
  as many counted misses: a primary that is marked healthy has fewer.
\<close>
theorem writes_are_primary_only:
  assumes "ft = foldl ft_step (new_transport primary replicas hp mt w) es" "ft_write net now path ft = (r, ft', us)"
  shows "us = (if ep_healthy (ft_primary ft) then [primary @ path] else [])
    \<and> (if ep_healthy (ft_primary ft) then (case net (primary @ path) of Inl e \<Rightarrow> r = throw e | Inr ok \<Rightarrow> r = returns ok)
       else r = throw ''primary is unavailable; writes are primary-only (Option A)'' \<and> ft' = ft)
    \<and> ft_replicas ft' = ft_replicas ft
    \<and> (0 < ft_missThreshold ft \<and> ep_healthy (ft_primary ft) \<longrightarrow> ep_streak (ft_primary ft) < ft_missThreshold ft)"
proof -
  have "endpoint_urls (primary # replicas) (new_transport primary replicas hp mt w)"
    by (simp add: endpoint_urls_def new_transport_def new_endpoint_def comp_def)
  from ftm.run_inv [OF this] have "endpoint_urls (primary # replicas) ft" unfolding assms(1) .
  then have "ep_url (ft_primary ft) = primary" by (simp add: endpoint_urls_def)
  moreover have "0 < ft_missThreshold ft \<and> ep_healthy (ft_primary ft) \<longrightarrow> ep_streak (ft_primary ft) < ft_missThreshold ft"
  proof
    let ?n = "new_transport primary replicas hp mt w"
    assume "0 < ft_missThreshold ft \<and> ep_healthy (ft_primary ft)"
    moreover have k: "ft_missThreshold ft = ft_missThreshold ?n" unfolding assms(1) by (rule threshold_run)
    moreover have "0 < ft_missThreshold ?n \<Longrightarrow> marks_ok (ft_missThreshold ?n) ?n"
      by (auto simp: marks_ok_def mark_ok_def new_transport_def new_endpoint_def list_all_iff)
    ultimately show "ep_streak (ft_primary ft) < ft_missThreshold ft"
      using ftk.run_inv [of "ft_missThreshold ?n" ?n es] unfolding assms(1) [symmetric] by (simp add: marks_ok_def mark_ok_def)
  qed
  ultimately show ?thesis using assms(2) by (auto simp: ft_write_def Let_def split: if_splits sum.splits)
qed

lemma read_healthy_result:
  assumes "read_healthy net ft now path eps = (r, e, eps', us)"
  shows "r \<noteq> None \<longleftrightarrow> (\<exists>ep \<in> set eps. ep_healthy ep \<and> \<not> isl (net (ep_url ep @ path)))"
  using assms
proof (induction net ft now path eps arbitrary: r e eps' us rule: read_healthy.induct)
  case (2 net ft now path ep eps)
  obtain r1 e1 eps1 us1 where h: "read_healthy net ft now path eps = (r1, e1, eps1, us1)" by (metis prod_cases4)
  show ?case
  proof (cases "ep_healthy ep")
    case True
    show ?thesis
    proof (cases "net (ep_url ep @ path)")
      case (Inl err)
      with True 2(2) [OF _ Inl h] 2(3) h show ?thesis by auto
    qed (use True 2(3) in auto)
  next
    case False
    with 2(1) [OF False h] 2(3) h show ?thesis by auto
  qed
qed auto

lemma read_any_result:
  "\<not> isl (fst (read_any net path e eps)) \<longleftrightarrow> (\<exists>ep \<in> set eps. \<not> isl (net (ep_url ep @ path)))"
  by (induction net path e eps rule: read_any.induct) (auto split: sum.splits prod.splits)

text \<open>
  Reads are available. A read returns a response exactly when some configured endpoint, primary
  or replica, answers on that path, whatever the health marks say.
\<close>
theorem read_available:
  "\<not> isl (fst (ft_read net now path ft)) \<longleftrightarrow>
     (\<exists>ep \<in> set (ft_primary ft # ft_replicas ft). \<not> isl (net (ep_url ep @ path)))"
proof -
  let ?all = "ft_primary ft # ft_replicas ft"
  obtain r e eps us where h: "read_healthy net ft now path ?all = (r, e, eps, us)" by (metis prod_cases4)
  have urls: "map ep_url eps = map ep_url ?all" by (rule read_healthy_urls [OF h])
  have same: "(\<exists>ep \<in> set eps. Q (ep_url ep)) \<longleftrightarrow> (\<exists>ep \<in> set ?all. Q (ep_url ep))" for Q
    using arg_cong [OF urls, of "\<lambda>l. \<exists>u \<in> set l. Q u"] by auto
  show ?thesis
  proof (cases r)
    case None
    obtain r2 eps2 us2 where a: "read_any net path e eps = (r2, eps2, us2)" by (metis prod_cases3)
    then show ?thesis using None h read_any_result [of net path e eps] same [of "\<lambda>u. \<not> isl (net (u @ path))"]
      by (simp add: ft_read_def)
  next
    case (Some b)
    then have "\<exists>ep \<in> set ?all. \<not> isl (net (ep_url ep @ path))" using read_healthy_result [OF h] by auto
    then show ?thesis using Some h by (auto simp: ft_read_def)
  qed
qed

lemma writes_are_primary_only_witness:
  "\<exists>r ft' us. ft_write (\<lambda>u. returns True) 1 ''/x'' (foldl ft_step (new_transport ''https://a'' [''https://b''] None (Some 1) None)
     [FtWrite (\<lambda>u. throw ''down'') 0 ''/x'']) = (r, ft', us) \<and> us = [] \<and> isl r"
proof -
  let ?ft = "foldl ft_step (new_transport ''https://a'' [''https://b''] None (Some 1) None) [FtWrite (\<lambda>u. throw ''down'') 0 ''/x'']"
  obtain r ft' us where e: "ft_write (\<lambda>u. returns True) 1 ''/x'' ?ft = (r, ft', us)" by (rule prod_cases3)
  have "\<not> ep_healthy (ft_primary ?ft)"
    by (simp add: ft_write_def new_transport_def new_endpoint_def recordMiss_def Let_def)
  with writes_are_primary_only [OF refl e] have "us = [] \<and> isl r" by simp
  with e show ?thesis by blast
qed

end
