(* ===== verification/Rotation.thy ===== *)
theory Rotation
  imports Client
begin

text \<open>
  \<^verbatim>\<open>packages/server/src/rotation.ts\<close>: key rotation. \<open>handleRotation\<close> works over any pair store
  through \<open>get\<close> and \<open>commit\<close>, the atomic \<open>rotatePair\<close> or the two writes of the compatibility path;
  \<open>other\<close> is what other requests do to the store between the read and the commit. The theorems: a
  rotation is authorised by the old key over exactly the new key, keeps every policy field, and
  changes nothing when it fails.
\<close>

record rotation_request =
  ro_oldPairId :: string
  ro_newPubJwk :: json
  ro_signature :: string
  ro_signedData :: string
  ro_timestamp :: int

datatype rotation_result = RotationOk string | RotationFail string

definition ROT_MAX_SIGNATURE_LEN :: nat where
  "ROT_MAX_SIGNATURE_LEN = 200"

definition string_field :: "json \<Rightarrow> string \<Rightarrow> bool" where
  "string_field v k = (case field v k of Some (JStr s) \<Rightarrow> True | _ \<Rightarrow> False)"

definition isValidPublicJwk :: "json \<Rightarrow> bool" where
  "isValidPublicJwk jwk = (case field jwk ''kty'' of
     Some (JStr t) \<Rightarrow>
       if t = ''EC'' then string_field jwk ''crv'' \<and> string_field jwk ''x'' \<and> string_field jwk ''y''
       else if t = ''OKP'' then string_field jwk ''crv'' \<and> string_field jwk ''x''
       else if t = ''RSA'' then string_field jwk ''n'' \<and> string_field jwk ''e''
       else False
   | _ \<Rightarrow> False)"

text \<open>
  \<open>===\<close> on two values: equal scalars; an object or array is never identical to one parsed from
  another text.
\<close>

definition strict_equal :: "json option \<Rightarrow> json option \<Rightarrow> bool" where
  "strict_equal a b = (case (a, b) of
     (None, None) \<Rightarrow> True
   | (Some v, Some w) \<Rightarrow> \<not> is_object v \<and> \<not> is_object w \<and> v = w
   | _ \<Rightarrow> False)"

definition sameJwk :: "json \<Rightarrow> json \<Rightarrow> bool" where
  "sameJwk a b = list_all (\<lambda>f. strict_equal (field a f) (field b f)) [''kty'', ''crv'', ''x'', ''y'', ''n'', ''e'']"

definition rot_audit :: "audit_action \<Rightarrow> audit_severity option \<Rightarrow> string \<Rightarrow> string option \<Rightarrow> string option \<Rightarrow> audit_input" where
  "rot_audit act sev pairId err detail = \<lparr>ai_action = act, ai_severity = sev, ai_pairId = Some pairId, ai_error = err,
     ai_ip = None, ai_method = None, ai_path = None, ai_userAgent = None, ai_requestId = None, ai_detail = detail\<rparr>"

definition rot_write :: "webcrypto \<Rightarrow> int \<Rightarrow> audit_input \<Rightarrow> audit_log option \<Rightarrow> audit_log option" where
  "rot_write cr now i lg = map_option (audit_write cr now i) lg"

definition rot_invalid :: "rotation_request \<Rightarrow> bool" where
  "rot_invalid req = (ro_oldPairId req = [] \<or> MAX_PAIR_ID_LEN < length (ro_oldPairId req)
     \<or> ro_signedData req = [] \<or> MAX_SIGNED_DATA_LEN < length (ro_signedData req)
     \<or> ro_signature req = [] \<or> ROT_MAX_SIGNATURE_LEN < length (ro_signature req)
     \<or> \<not> isValidPublicJwk (ro_newPubJwk req))"

text \<open>Steps 3 to 5: decode, verify with the old key, bind the payload to the request.\<close>

definition rot_payload_error :: "webcrypto \<Rightarrow> rotation_request \<Rightarrow> stored_pair \<Rightarrow> string option" where
  "rot_payload_error cr req oldPair =
     (case and_then (b64url_atob (ro_signedData req)) json_parse of
        Inl e \<Rightarrow> Some ''invalid_signed_data''
      | Inr payload \<Rightarrow>
          if \<not> signature_valid cr (sp_pubJwk oldPair) payload (ro_signature req) then Some ''invalid_signature''
          else if field payload ''purpose'' \<noteq> Some (JStr ''rotation'') then Some ''payload_field_mismatch''
          else if field payload ''old_pair_id'' \<noteq> Some (JStr (ro_oldPairId req)) then Some ''payload_field_mismatch''
          else if field payload ''timestamp'' \<noteq> Some (JNum (ro_timestamp req)) then Some ''payload_field_mismatch''
          else (case field payload ''new_pub_jwk_json'' of
             Some (JStr newPubJwkJson) \<Rightarrow>
               (case json_parse newPubJwkJson of
                  Inl e \<Rightarrow> Some ''invalid_signed_data''
                | Inr parsedNewPubJwk \<Rightarrow>
                    if \<not> isValidPublicJwk parsedNewPubJwk then Some ''invalid_request''
                    else if \<not> sameJwk parsedNewPubJwk (ro_newPubJwk req) then Some ''payload_field_mismatch''
                    else None)
           | _ \<Rightarrow> Some ''payload_field_mismatch''))"

definition replacement_pair :: "stored_pair \<Rightarrow> string \<Rightarrow> json \<Rightarrow> int \<Rightarrow> stored_pair" where
  "replacement_pair oldPair newPairId newPubJwk created = \<lparr>sp_id = newPairId, sp_name = sp_name oldPair,
     sp_scope = sp_scope oldPair, sp_mode = sp_mode oldPair, sp_secretHash = sp_secretHash oldPair,
     sp_pubJwk = newPubJwk, sp_status = Active, sp_created = created, sp_lastActive = None, sp_requests = 0,
     sp_failedSigs = 0, sp_cumulativeFailures = None, sp_firstFailureAt = None, sp_expiresAt = sp_expiresAt oldPair,
     sp_maxRequests = sp_maxRequests oldPair, sp_kind = sp_kind oldPair, sp_canaryClass = sp_canaryClass oldPair\<rparr>"

definition rot_fail :: "webcrypto \<Rightarrow> rotation_request \<Rightarrow> int \<Rightarrow> string \<Rightarrow> 's \<times> audit_log option \<Rightarrow> rotation_result \<times> 's \<times> audit_log option" where
  "rot_fail cr req now error sl = (case sl of (st, lg) \<Rightarrow>
     (RotationFail error, st,
      if error = ''invalid_signature'' then rot_write cr now (rot_audit VerifyFail None (ro_oldPairId req) (Some error) None) lg else lg))"

definition handleRotation ::
    "webcrypto \<Rightarrow> ('s \<Rightarrow> string \<Rightarrow> stored_pair option) \<Rightarrow> (stored_pair \<Rightarrow> stored_pair \<Rightarrow> 's \<Rightarrow> bool throws \<times> 's) \<Rightarrow>
     int \<Rightarrow> int \<Rightarrow> bytes \<Rightarrow> ('s \<Rightarrow> 's) \<Rightarrow> rotation_request \<Rightarrow> 's \<times> audit_log option
       \<Rightarrow> rotation_result \<times> 's \<times> audit_log option" where
  "handleRotation cr get commit sigWindowMs now rand other req sl = (case sl of (st, lg) \<Rightarrow>
     if rot_invalid req then rot_fail cr req now ''invalid_request'' sl
     else if sigWindowMs < \<bar>now - ro_timestamp req\<bar> then rot_fail cr req now ''timestamp_expired'' sl
     else (case get st (ro_oldPairId req) of
        None \<Rightarrow> rot_fail cr req now ''unknown_pair'' sl
      | Some oldPair \<Rightarrow>
          if sp_status oldPair \<noteq> Active then rot_fail cr req now ''pair_not_active'' sl
          else (case rot_payload_error cr req oldPair of
             Some e \<Rightarrow> rot_fail cr req now e sl
           | None \<Rightarrow>
               (let newPairId = generateId ''pair'' rand;
                    newPair = replacement_pair oldPair newPairId (ro_newPubJwk req) now
                in (case commit oldPair newPair (other st) of
                      (Inl e, st') \<Rightarrow> (RotationFail ''rotation_persist_failed'', st',
                         rot_write cr now (rot_audit RotateAction (Some SevCritical) (ro_oldPairId req)
                           (Some ''new_pair_persist_failed'') (Some (stringify (JObj [(''attemptedNewPairId'', JStr newPairId)])))) lg)
                    | (Inr rotated, st') \<Rightarrow>
                        if \<not> rotated then rot_fail cr req now ''rotation_conflict'' (st', lg)
                        else (RotationOk newPairId, st',
                          rot_write cr now (rot_audit Register None newPairId None
                              (Some (stringify (JObj [(''rotatedFrom'', JStr (ro_oldPairId req))]))))
                            (rot_write cr now (rot_audit RotateAction None (ro_oldPairId req) None
                              (Some (stringify (JObj [(''newPairId'', JStr newPairId)])))) lg)))))))"

definition atomic_commit :: "stored_pair \<Rightarrow> stored_pair \<Rightarrow> mem_store \<Rightarrow> bool throws \<times> mem_store" where
  "atomic_commit old new st = map_prod returns id (ms_rotatePair old new st)"

definition compat_commit :: "stored_pair \<Rightarrow> stored_pair \<Rightarrow> mem_store \<Rightarrow> bool throws \<times> mem_store" where
  "compat_commit old new st = (returns True, ms_set new (ms_set (old\<lparr>sp_status := Rotated\<rparr>) st))"

section \<open>Safety\<close>

definition rotation_authorised :: "webcrypto \<Rightarrow> rotation_request \<Rightarrow> stored_pair \<Rightarrow> bool" where
  "rotation_authorised cr req old =
     (\<exists>payload key txt newJwk. and_then (b64url_atob (ro_signedData req)) json_parse = returns payload
      \<and> importPublicKeyFromJwk cr (sp_pubJwk old) = returns key \<and> verifyPayload cr key payload (ro_signature req)
      \<and> field payload ''purpose'' = Some (JStr ''rotation'') \<and> field payload ''old_pair_id'' = Some (JStr (ro_oldPairId req))
      \<and> field payload ''timestamp'' = Some (JNum (ro_timestamp req))
      \<and> field payload ''new_pub_jwk_json'' = Some (JStr txt) \<and> json_parse txt = returns newJwk
      \<and> isValidPublicJwk newJwk \<and> sameJwk newJwk (ro_newPubJwk req))"

lemma rot_payload_error_None: "rot_payload_error cr req old = None \<longleftrightarrow> rotation_authorised cr req old"
proof (cases "and_then (b64url_atob (ro_signedData req)) json_parse")
  case (Inr payload)
  show ?thesis
    by (simp add: rot_payload_error_def rotation_authorised_def Inr signature_valid_iff
        split: option.split json.split sum.split) blast
qed (simp add: rot_payload_error_def rotation_authorised_def)

lemma rot_fail_simps [simp]: "fst (rot_fail cr req now e sl) = RotationFail e" "fst (snd (rot_fail cr req now e sl)) = fst sl"
  by (cases sl; simp add: rot_fail_def)+

lemma handleRotation_cases:
  assumes "handleRotation cr get commit w now rand other req (st, lg) = (res, st', lg')"
  obtains (ok) old where "res = RotationOk (generateId ''pair'' rand)" "get st (ro_oldPairId req) = Some old"
      "sp_status old = Active" "\<not> rot_invalid req" "\<bar>now - ro_timestamp req\<bar> \<le> w" "rotation_authorised cr req old"
      "commit old (replacement_pair old (generateId ''pair'' rand) (ro_newPubJwk req) now) (other st) = (returns True, st')"
  | (early) e where "res = RotationFail e" "st' = st"
  | (conflict) old e r where "res = RotationFail e" "r \<noteq> returns True" "get st (ro_oldPairId req) = Some old"
      "commit old (replacement_pair old (generateId ''pair'' rand) (ro_newPubJwk req) now) (other st) = (r, st')"
proof -
  let ?new = "\<lambda>old. replacement_pair old (generateId ''pair'' rand) (ro_newPubJwk req) now"
  show ?thesis
  proof (cases "rot_invalid req \<or> w < \<bar>now - ro_timestamp req\<bar> \<or> get st (ro_oldPairId req) = None
      \<or> (\<exists>old. get st (ro_oldPairId req) = Some old \<and> (sp_status old \<noteq> Active \<or> rot_payload_error cr req old \<noteq> None))")
    case True
    then have "\<exists>e. res = RotationFail e \<and> st' = st"
      using assms by (auto simp: handleRotation_def rot_fail_def split: if_splits option.splits)
    then show ?thesis using early by blast
  next
    case False
    then obtain old where old: "get st (ro_oldPairId req) = Some old" "sp_status old = Active"
      "rot_payload_error cr req old = None" "\<not> rot_invalid req" "\<bar>now - ro_timestamp req\<bar> \<le> w" by auto
    obtain r s2 where c: "commit old (?new old) (other st) = (r, s2)" by fastforce
    show ?thesis
    proof (cases "r = returns True")
      case True
      with assms old c show ?thesis
        by (intro ok [of old]) (auto simp: handleRotation_def Let_def rot_payload_error_None [symmetric])
    next
      case False
      then have "\<exists>e. res = RotationFail e \<and> st' = s2"
        using assms old c by (cases r) (auto simp: handleRotation_def Let_def rot_fail_def)
      then show ?thesis using conflict [of _ r old] False old(1) c by blast
    qed
  qed
qed

text \<open>
  C11. Rotation is authorised and keeps the policy. When a rotation against the atomic store succeeds,
  whatever happened to the store between its read and its commit: the old pair was active and
  unchanged at commit time; the old key signed a fresh rotation payload naming the old pair, the
  timestamp and the material of the new key; afterwards the old pair is rotated, the new pair is
  active with the same name, scope, mode, secret, expiry, cap and kind and zeroed counters, and no
  other pair changed. A rotation never raises a privilege and never leaves two active keys.
\<close>
theorem rotation_safe:
  assumes "handleRotation cr ms_get atomic_commit w now rand other req (st, lg) = (RotationOk i, st', lg')"
    and "ms_get st (ro_oldPairId req) = Some old" "sp_id old = ro_oldPairId req"
  shows "i = generateId ''pair'' rand \<and> \<bar>now - ro_timestamp req\<bar> \<le> w \<and> rotation_authorised cr req old
    \<and> sp_status old = Active \<and> ms_get (other st) (ro_oldPairId req) = Some old \<and> ms_get (other st) i = None
    \<and> ms_get st' = (ms_get (other st))(ro_oldPairId req \<mapsto> old\<lparr>sp_status := Rotated\<rparr>,
         i \<mapsto> replacement_pair old i (ro_newPubJwk req) now)"
  using assms(1)
proof (cases rule: handleRotation_cases)
  case (ok old')
  let ?new = "replacement_pair old i (ro_newPubJwk req) now"
  have old: "old' = old" using ok(2) assms(2) by simp
  have nid: "sp_id ?new = i" by (simp add: replacement_pair_def)
  have "ms_rotatePair old ?new (other st) = (True, st')"
    using ok(1,7) old by (auto simp: atomic_commit_def map_prod_def split: prod.splits)
  then have "ms_get (other st) (sp_id old) = Some old \<and> ms_get (other st) i = None
      \<and> st' = put_pair i ?new (put_pair (sp_id old) (old\<lparr>sp_status := Rotated\<rparr>) (other st))"
    by (cases rule: rotate_store [of old ?new "other st"]) (auto simp: nid)
  then show ?thesis using ok old assms(3) by simp
qed auto

text \<open>
  A failed rotation changes nothing. Against the atomic store, a rotation that reports an error
  leaves every pair as other requests left it.
\<close>
theorem failed_rotation_changes_nothing:
  assumes "handleRotation cr ms_get atomic_commit w now rand other req (st, lg) = (RotationFail e, st', lg')"
  shows "st' = st \<or> st' = other st"
  using assms
proof (cases rule: handleRotation_cases)
  case (conflict old e' r)
  let ?new = "replacement_pair old (generateId ''pair'' rand) (ro_newPubJwk req) now"
  from conflict(2,4) show ?thesis
    by (cases rule: rotate_store [of old ?new "other st"]) (auto simp: atomic_commit_def)
qed auto

text \<open>
  A rotation to a key the verifier cannot use. \<open>handleRotation\<close> accepts any EC, OKP or RSA key
  that is structurally complete; when the accepted key is not an exact public P-256 key, every
  verification of a request for the new pair with well-formed headers, in the state the rotation
  left, rejects with the exception of \<open>canonicalAuthorizationJwk\<close> or is stopped before the pair is
  read: the rotated client is locked out, with its old pair already disabled.
\<close>
theorem rotation_to_unusable_key:
  assumes "handleRotation cr ms_get atomic_commit w now rand other req (st, lg) = (RotationOk i, st', lg')"
    and "ms_get st (ro_oldPairId req) = Some old"
    and "canonicalAuthorizationJwk (ro_newPubJwk req) = throw e"
    and "rq_pairId breq = Some i" "reg_store (srv_registry srv) = st'"
  shows "load_pair cr breq t srv = (Done (throw e), srv)
    \<and> \<not> (\<exists>r. fst (verifyBPCRequest cr cfg consume breq tm ev srv) = Inr r \<and> vr_ok r)"
proof -
  have "ms_get st' i = Some (replacement_pair old i (ro_newPubJwk req) now)"
    using assms(1)
  proof (cases rule: handleRotation_cases)
    case (ok old')
    then have "ms_rotatePair old (replacement_pair old i (ro_newPubJwk req) now) (other st) = (True, st')"
      using assms(2) by (auto simp: atomic_commit_def map_prod_def split: prod.splits)
    then show ?thesis
      by (cases rule: rotate_store [of old "replacement_pair old i (ro_newPubJwk req) now" "other st"])
         (auto simp: replacement_pair_def)
  qed auto
  then have g: "reg_get (srv_registry srv) (pair_id breq) = Some (replacement_pair old i (ro_newPubJwk req) now)"
    using assms(4,5) by (simp add: reg_get_def pair_id_def)
  have c: "captureAuthorizationContext (replacement_pair old i (ro_newPubJwk req) now) = throw e"
    using assms(3) by (simp add: captureAuthorizationContext_def replacement_pair_def)
  have no: "\<not> vr_ok r" if v: "verifyBPCRequest cr cfg consume breq tm ev srv = (Inr r, srv')" for r srv'
  proof
    assume "vr_ok r"
    from accepted_run [OF v this] obtain auth d s1 where "admit cr cfg breq (tm_admit tm) srv = (Go (auth, d), s1)" by metis
    from admit_Go [OF this] g c show False by auto
  qed
  have "load_pair cr breq t srv = (Done (throw e), srv)" using g c by (simp add: load_pair_def)
  moreover have "\<not> (\<exists>r. fst (verifyBPCRequest cr cfg consume breq tm ev srv) = Inr r \<and> vr_ok r)"
    using no by (cases "verifyBPCRequest cr cfg consume breq tm ev srv") auto
  ultimately show ?thesis ..
qed

section \<open>The client's rotation\<close>

definition rotation_of :: "string \<times> json \<times> string \<times> string \<times> int \<Rightarrow> rotation_request" where
  "rotation_of m = (case m of (i, jwk, sig, sd, ts) \<Rightarrow>
     \<lparr>ro_oldPairId = i, ro_newPubJwk = jwk, ro_signature = sig, ro_signedData = sd, ro_timestamp = ts\<rparr>)"

lemma client_rotation_authorised:
  assumes "client_rotate cr cl ts newJwk = returns m" "importPublicKeyFromJwk cr (sp_pubJwk old) = returns key"
    and "\<And>m. wc_verify cr key (wc_sign cr (cl_privateKey cl) m) m"
    and "isValidPublicJwk newJwk" "sameJwk newJwk newJwk" "wf_json newJwk"
    and "is_ascii (stringify newJwk)" "is_ascii (cl_pairId cl)"
  shows "rotation_authorised cr (rotation_of m) old"
proof -
  obtain canon sig kvs where s: "canonicalize (JObj kvs) = returns canon" "signPayload cr (cl_privateKey cl) (JObj kvs) = returns sig"
    "m = (cl_pairId cl, newJwk, sig, b64url (utf8 canon), ts)" "rotation_payload cl ts newJwk = JObj kvs"
    using assms(1) by (auto simp: client_rotate_def and_then_Inr_iff rotation_payload_def)
  have kvs: "kvs = [(''new_pub_jwk_json'', JStr (stringify newJwk)), (''old_pair_id'', JStr (cl_pairId cl)),
      (''purpose'', JStr ''rotation''), (''timestamp'', JNum ts)]"
    using s(4) by (simp add: rotation_payload_def)
  have "\<forall>(k, v) \<in> set kvs. is_ascii k \<and> is_ascii (stringify v)"
    using assms(7,8) is_ascii_quote is_ascii_dec by (simp add: kvs) (simp add: is_ascii_def)
  then have "is_ascii canon" by (rule ascii_canonical [OF s(1)])
  moreover have "distinct (map fst kvs)" by (simp add: kvs)
  ultimately obtain kvs' where d: "b64url_atob (b64url (utf8 canon)) = returns canon" "json_parse canon = returns (JObj kvs')"
    "map_of kvs' = map_of kvs" "verifyPayload cr key (JObj kvs') sig"
    using signed_round_trip [OF s(2,1) _ _ assms(3)] by metis
  show ?thesis unfolding rotation_authorised_def
    by (rule exI [of _ "JObj kvs'"], rule exI [of _ key], rule exI [of _ "stringify newJwk"], rule exI [of _ newJwk])
       (simp add: s(3) rotation_of_def d assms kvs json_parse_stringify)
qed

lemma client_rotation_ok:
  assumes "client_rotate cr cl ts newJwk = returns m" "importPublicKeyFromJwk cr (sp_pubJwk old) = returns key"
    and "\<And>m. wc_verify cr key (wc_sign cr (cl_privateKey cl) m) m"
    and "isValidPublicJwk newJwk" "sameJwk newJwk newJwk" "wf_json newJwk"
    and "is_ascii (stringify newJwk)" "is_ascii (cl_pairId cl)"
    and "\<not> rot_invalid (rotation_of m)" "\<bar>now - ts\<bar> \<le> w"
    and "ms_get st (cl_pairId cl) = Some old" "sp_id old = cl_pairId cl" "sp_status old = Active"
    and "ms_get st (generateId ''pair'' rand) = None"
  shows "fst (handleRotation cr ms_get atomic_commit w now rand (\<lambda>s. s) (rotation_of m) (st, lg))
    = RotationOk (generateId ''pair'' rand)"
proof -
  have r: "ro_oldPairId (rotation_of m) = cl_pairId cl" "ro_timestamp (rotation_of m) = ts"
    using assms(1) by (auto simp: client_rotate_def and_then_Inr_iff rotation_of_def)
  have e: "rot_payload_error cr (rotation_of m) old = None"
    unfolding rot_payload_error_None by (rule client_rotation_authorised [OF assms(1-8)])
  let ?new = "replacement_pair old (generateId ''pair'' rand) (ro_newPubJwk (rotation_of m)) now"
  have "fst (ms_rotatePair old ?new st)"
    using assms(11-14)
    by (simp add: ms_rotatePair_def replacement_pair_def hasInitialPairState_def rotationPolicyMatches_def jm_has_def ms_get_def)
  then obtain st' where "atomic_commit old ?new st = (returns True, st')"
    by (cases "ms_rotatePair old ?new st") (simp add: atomic_commit_def)
  with r e assms(9-13) show ?thesis by (simp add: handleRotation_def Let_def)
qed

text \<open>
  C23. The client's rotation request is accepted. A request built by \<open>BPCClient.rotate\<close> for an active
  pair with the client's key, delivered inside the window, with an ASCII key text and within the size
  limits, is accepted by \<open>handleRotation\<close> when the drawn identifier is unused.
\<close>
theorem client_rotation_accepted:
  assumes "client_rotate cr cl ts newJwk = returns m" "importPublicKeyFromJwk cr (sp_pubJwk old) = returns key"
    and "\<And>m. wc_verify cr key (wc_sign cr (cl_privateKey cl) m) m"
    and "isValidPublicJwk newJwk" "sameJwk newJwk newJwk" "wf_json newJwk"
    and "is_ascii (stringify newJwk)" "is_ascii (cl_pairId cl)"
    and "\<not> rot_invalid (rotation_of m)" "\<bar>now - ts\<bar> \<le> w"
    and "ms_get st (cl_pairId cl) = Some old" "sp_id old = cl_pairId cl" "sp_status old = Active"
    and "ms_get st (generateId ''pair'' rand) = None"
  shows "fst (handleRotation cr ms_get atomic_commit w now rand (\<lambda>s. s) (rotation_of m) (st, lg))
    = RotationOk (generateId ''pair'' rand)"
  by (rule client_rotation_ok [OF assms])

end
