(* ===== verification/Examples.thy ===== *)
theory Examples
  imports Rotation
begin

text \<open>
  Concrete runs: a client with a registered pair signs a request, a server verifies it, the client
  rotates its key. They witness that the hypotheses of the theorems of \<open>Middleware\<close>, \<open>Verifier\<close> and
  \<open>Rotation\<close> can hold together. The cryptography is a toy instance of the parameter \<open>webcrypto\<close>
  with 32-byte tags and 64-byte signatures, so that the size limits of the code are met.
\<close>

definition toy_crypto :: webcrypto where
  "toy_crypto = ex_crypto\<lparr>wc_sign := (\<lambda>k m. replicate 64 (of_nat (length m))),
     wc_verify := (\<lambda>k s m. s = replicate 64 (of_nat (length m)))\<rparr>"

definition client_of :: "string \<Rightarrow> bpc_client" where
  "client_of i = \<lparr>cl_serverUrl = ''https://h'', cl_pairId = i, cl_privateKey = ''k'', cl_secret = ''Secret-Secret-12''\<rparr>"

abbreviation ex_client :: bpc_client where
  "ex_client \<equiv> client_of ''p1''"

definition ex_nonce :: string where
  "ex_nonce = ''00000000-0000-4000-8000-000000000000''"

definition ex_text :: "string \<Rightarrow> string" where
  \<open>ex_text i = ''{"body_hash":"sha256:47DEQpj8HBSa-_TImW-5JCeuQeRkm5NMpJWZG3hSuFU","method":"GET",'' @
     ''"nonce":"00000000-0000-4000-8000-000000000000","pair_id":"'' @ i @ ''","path":"/x",'' @
     ''"secret_hmac":"AAAAAAAAAAAAAAAAAAAAAAAAAAAAAAAAAAAAAAAAAAA","timestamp":5,"version":"1.0"}''\<close>

definition headers_of :: "string \<Rightarrow> signed_headers" where
  "headers_of i = \<lparr>sh_pairIdHeader = i, sh_signature = b64url (wc_sign toy_crypto ''k'' (utf8 (ex_text i))),
     sh_signedData = b64url (utf8 (ex_text i)), sh_version = ''1.0''\<rparr>"

abbreviation ex_headers :: signed_headers where
  "ex_headers \<equiv> headers_of ''p1''"

text \<open>The identifiers the example clients use: a short one and a generated one.\<close>

definition example_id :: "string \<Rightarrow> bool" where
  "example_id i = (i \<in> {''p1'', ''pair_0000000000000000''})"

definition ex_request :: bpc_request where
  "ex_request = wire_request ex_headers ''GET'' ''/x'' EMPTY_BODY_HASH (Some ''9'')"

definition ex_server :: "nonce_mem server" where
  "ex_server = \<lparr>srv_registry = ex_registry, srv_anomaly = empty_anomaly, srv_nonces = [], srv_ipLimiter = None,
     srv_rateLimiter = None, srv_audit = None, srv_guard = None\<rparr>"

definition ex_time :: timing where
  "ex_time = \<lparr>tm_admit = 6, tm_check = 7, tm_consume = 8, tm_claim = 9\<rparr>"

section \<open>Signing\<close>

lemma zeros_b64url: "b64url (replicate 32 0) = replicate 43 (CHR ''A'')"
  by code_simp

text \<open>One pass over a text: no quote is followed by the first letters of a forbidden key.\<close>

fun safe_quotes :: "string \<Rightarrow> bool" where
  "safe_quotes (a # b # s) = ((if a = CHR 0x22 then b \<noteq> CHR ''_'' \<and> b \<noteq> CHR ''c''
     \<and> \<not> (b = CHR ''p'' \<and> s \<noteq> [] \<and> hd s = CHR ''r'') else True) \<and> safe_quotes (b # s))"
| "safe_quotes s = True"

lemma take_front: "take (Suc n) s = a # q \<Longrightarrow> s \<noteq> [] \<and> hd s = a"
  by (cases s) auto

lemma safe_quotes_includes:
  "safe_quotes s \<Longrightarrow> b = CHR ''_'' \<or> b = CHR ''c'' \<Longrightarrow> \<not> js_includes s (CHR 0x22 # b # q)"
  "safe_quotes s \<Longrightarrow> \<not> js_includes s (CHR 0x22 # CHR ''p'' # CHR ''r'' # q)"
  by (induction s rule: safe_quotes.induct) (auto dest!: take_front split: if_splits)

lemma safe_quotes_allowed: "safe_quotes s \<Longrightarrow> assertNoForbiddenKeys s = returns ()"
  using safe_quotes_includes [of s]
  by (simp add: assertNoForbiddenKeys_def assertNoForbiddenKeys_loop_iff FORBIDDEN_KEYS_def)

lemma ex_text_sizes:
  "list_all (\<lambda>i. 0 < length (ex_text i) \<and> length (ex_text i) < 1000) [''p1'', ''pair_0000000000000000'']"
  "list_all (\<lambda>i. is_ascii (ex_text i)) [''p1'', ''pair_0000000000000000'']"
  "list_all (\<lambda>i. safe_quotes (ex_text i)) [''p1'', ''pair_0000000000000000'']"
  by code_simp+

lemma ex_text_ok:
  assumes "example_id i"
  shows "0 < length (ex_text i)" "length (ex_text i) < 1000" "is_ascii (ex_text i)" "safe_quotes (ex_text i)"
  using assms ex_text_sizes unfolding example_id_def list_all_iff by auto

lemma ex_text_allowed: "example_id i \<Longrightarrow> assertNoForbiddenKeys (ex_text i) = returns ()"
  by (intro safe_quotes_allowed ex_text_ok)

lemma ex_nonce_ok: "UUID_RE ex_nonce" "is_ascii ex_nonce"
  by code_simp+


section \<open>The server's side\<close>

lemma toy_simps [simp]: "wc_hkdf toy_crypto s l i = replicate 32 0" "wc_hmac toy_crypto hk d = replicate 32 0"
  "wc_import toy_crypto j = returns ''k''" "wc_verify toy_crypto k (wc_sign toy_crypto k' m) m"
  "length (wc_sign toy_crypto k m) = 64"
  by (simp_all add: toy_crypto_def ex_crypto_def)

lemma ex_canonical_all: "list_all (\<lambda>i. canonicalize (request_payload EMPTY_BODY_HASH ''GET'' ex_nonce i ''/x'' (replicate 43 (CHR ''A'')) 5)
    = returns (ex_text i)) [''p1'', ''pair_0000000000000000'']"
  by code_simp

lemma ex_canonical: "example_id i \<Longrightarrow>
    canonicalize (request_payload EMPTY_BODY_HASH ''GET'' ex_nonce i ''/x'' (replicate 43 (CHR ''A'')) 5) = returns (ex_text i)"
  using ex_canonical_all unfolding example_id_def list_all_iff by auto

lemma ex_hmac: "hmacDerive toy_crypto (replicate 43 (CHR ''A'')) d = returns (replicate 43 (CHR ''A''))"
  unfolding hmacDerive_iff by (metis toy_simps(2) zeros_b64url b64urlDecode_b64url replicate_eq_replicate zero_neq_numeral length_0_conv length_replicate)

lemma ex_sign: "example_id i \<Longrightarrow> signRequest toy_crypto (client_of i) ex_nonce 5 ''GET'' ''/x'' None = returns (headers_of i)"
  unfolding signRequest_def body_hash_def client_of_def hashSecret_def
  by (simp add: zeros_b64url ex_hmac ex_canonical signPayload_def headers_of_def BPC_PROTOCOL_VERSION_def)

lemma ex_paired: "paired toy_crypto ex_client ex_pair"
proof -
  have "sp_pubJwk ex_pair = ex_jwk" "sp_id ex_pair = ''p1''" "sp_secretHash ex_pair = replicate 43 (CHR ''A'')"
    by (simp_all add: ex_defs)
  then show ?thesis
    by (simp add: paired_def client_of_def hashSecret_def zeros_b64url importPublicKeyFromJwk_def)
qed

lemma headers_of_allowed:
  "example_id i \<Longrightarrow> and_then (b64url_atob (sh_signedData (headers_of i))) assertNoForbiddenKeys = returns ()"
  using ex_text_allowed [of i] ex_text_ok(3) [of i] by (simp add: headers_of_def b64url_atob_b64url utf8_ascii)

lemma headers_of_fit:
  assumes "example_id i"
  shows "0 < length (sh_signedData (headers_of i))" "length (sh_signedData (headers_of i)) \<le> 4096"
    "length (sh_signature (headers_of i)) = 86"
proof -
  have l: "length (utf8 (ex_text i)) = length (ex_text i)" using utf8_ascii [OF ex_text_ok(3) [OF assms]] by (metis length_map)
  have "0 < length (b64url (utf8 (ex_text i)))" "length (b64url (utf8 (ex_text i))) \<le> 4096"
    unfolding length_b64url l using ex_text_ok [OF assms] by linarith+
  then show "0 < length (sh_signedData (headers_of i))" "length (sh_signedData (headers_of i)) \<le> 4096"
    by (simp_all add: headers_of_def)
  show "length (sh_signature (headers_of i)) = 86" by (simp add: headers_of_def length_b64url)
qed

lemma p1_example [simp]: "example_id ''p1''"
  by (simp add: example_id_def)

lemma ex_headers_fit: "length (sh_signedData ex_headers) \<le> 4096" "length (sh_signature ex_headers) = 86"
  "sh_signedData ex_headers \<noteq> []" "sh_signature ex_headers \<noteq> []"
  using headers_of_fit [OF p1_example] by auto

section \<open>An accepted run\<close>

lemma ex_request_fields [simp]: "rq_pairId ex_request = Some ''p1''" "rq_method ex_request = ''GET''"
  "rq_path ex_request = ''/x''" "rq_version ex_request = Some ''1.0''" "rq_ip ex_request = Some ''9''"
  "rq_bodyHash ex_request = Some EMPTY_BODY_HASH" "pair_id ex_request = ''p1''" "source_ip ex_request = ''9''"
  "rq_signedData ex_request = Some (sh_signedData ex_headers)" "rq_signature ex_request = Some (sh_signature ex_headers)"
  by (simp_all add: ex_request_def wire_request_def headers_of_def pair_id_def source_ip_def)

lemma ex_header_error: "header_error ex_request = None"
  using ex_headers_fit
  by (simp add: header_error_def ALLOWED_METHODS_def present_def opt_length_def MAX_PAIR_ID_LEN_def
      MAX_SIGNED_DATA_LEN_def MAX_SIGNATURE_LEN_def BPC_PROTOCOL_VERSION_def is_b64url_char_def is_alnum_def
      is_lower_def is_digit_def)

lemma ex_authentic: "\<exists>payload. authentic toy_crypto 60000 ex_request ex_pair 7 payload ex_nonce 5"
  unfolding ex_request_def
proof (rule client_authentic [OF ex_sign [OF p1_example]])
  show "body_hash toy_crypto None = returns EMPTY_BODY_HASH" by (simp add: body_hash_def)
  show "SCOPE_ALLOWED_METHODS (sp_scope ex_pair) = Some [''GET'', ''HEAD'', ''OPTIONS'']"
    by (simp add: ex_defs SCOPE_ALLOWED_METHODS_def)
  show "and_then (b64url_atob (sh_signedData ex_headers)) assertNoForbiddenKeys = returns ()"
    by (rule headers_of_allowed) simp
qed (use ex_paired ex_nonce_ok in \<open>simp_all add: is_ascii_def client_of_def\<close>)

lemma ex_pair_fields [simp]: "sp_id ex_pair = ''p1''" "sp_status ex_pair = Active" "kind_of (sp_kind ex_pair) = Legitimate"
  "sp_failedSigs ex_pair = 0" "sp_expiresAt ex_pair = None" "sp_maxRequests ex_pair = Some 2" "sp_requests ex_pair = 0"
  "sp_pubJwk ex_pair = ex_jwk" "sp_scope ex_pair = ''read''"
  by (simp_all add: ex_defs kind_of_def)

lemma ex_reg [simp]: "reg_get ex_registry ''p1'' = Some ex_pair"
  by (simp add: reg_get_def ms_get_def ex_registry_def)

lemma admissible_ex:
  assumes "header_error req = None" "rq_pairId req = Some ''p1''" "source_ip req = ''9''" "rq_ip req = Some ''9''"
  shows "admissible DEFAULT_SERVER_CONFIG req 6 ex_server ex_pair"
proof -
  have v: "fst (getVerdict 6 ''p1'' ''9'' (recordRequest 6 (Some ''p1'') empty_anomaly)) = Clean" by code_simp
  show ?thesis
    using v assms
    by (simp add: admissible_def ex_server_def limiter_allows_def shadowed_def isInShadowState_def empty_anomaly_def
        jm_has_def DEFAULT_SERVER_CONFIG_def cap_reached_def pair_id_def)
qed

lemma ex_auth: "\<exists>auth. captureAuthorizationContext ex_pair = returns auth"
  by (simp add: captureAuthorizationContext_def)

lemma ex_consume: "\<exists>ns. mem_consume 120000 8 ex_nonce [] = (Inr False, ns)"
  by (simp add: mem_consume_eq mem_checkAndConsume_def Let_def nonce_evict_def jm_has_def jm_keep_def)

lemma ex_ready:
  obtains payload auth ns where
    "admissible DEFAULT_SERVER_CONFIG ex_request (tm_admit ex_time) ex_server ex_pair"
    "captureAuthorizationContext ex_pair = returns auth"
    "authentic toy_crypto (sc_sigWindowMs DEFAULT_SERVER_CONFIG) ex_request ex_pair (tm_check ex_time) payload ex_nonce 5"
    "mem_consume 120000 (tm_consume ex_time) ex_nonce (srv_nonces ex_server) = (Inr False, ns)"
    "case srv_guard ex_server of None \<Rightarrow> True | Some g \<Rightarrow> assertAcceptable (tm_consume ex_time) g = Inr ()"
    "reg_wf (srv_registry ex_server)" "\<not> time_expired_at ex_pair (tm_claim ex_time)"
    "is_safe_integer (tm_claim ex_time)" "0 \<le> tm_claim ex_time"
proof -
  obtain payload where a: "authentic toy_crypto 60000 ex_request ex_pair 7 payload ex_nonce 5" using ex_authentic by blast
  obtain auth where c: "captureAuthorizationContext ex_pair = returns auth" using ex_auth by blast
  obtain ns where n: "mem_consume 120000 8 ex_nonce [] = (Inr False, ns)" using ex_consume by blast
  show ?thesis
  proof (rule that [OF _ c])
    show "mem_consume 120000 (tm_consume ex_time) ex_nonce (srv_nonces ex_server) = (Inr False, ns)"
      unfolding ex_time_def ex_server_def timing.simps server.simps by (rule n)
    show "authentic toy_crypto (sc_sigWindowMs DEFAULT_SERVER_CONFIG) ex_request ex_pair (tm_check ex_time) payload ex_nonce 5"
      using a by (simp add: DEFAULT_SERVER_CONFIG_def ex_time_def)
    show "admissible DEFAULT_SERVER_CONFIG ex_request (tm_admit ex_time) ex_server ex_pair"
      using admissible_ex [OF ex_header_error] by (simp add: ex_time_def)
  qed (use ex_wf(1) in \<open>simp_all add: ex_time_def ex_server_def time_expired_at_def is_safe_integer_def MAX_SAFE_INTEGER_def\<close>)
qed

abbreviation ex_verify :: "timing \<Rightarrow> nonce_mem server \<Rightarrow> verify_result throws \<times> nonce_mem server" where
  "ex_verify tm srv \<equiv> verifyBPCRequest toy_crypto DEFAULT_SERVER_CONFIG (mem_consume 120000) ex_request tm no_interference srv"

lemma ex_run:
  obtains r srv' where "ex_verify ex_time ex_server = (Inr r, srv')" "vr_ok r"
proof -
  obtain auth d where r: "fst (ex_verify ex_time ex_server) = returns (accepted ex_request auth (tm_check ex_time) d)"
    by (rule ex_ready) (use complete_run [where consume = "mem_consume 120000"] in blast)
  obtain res srv' where e: "ex_verify ex_time ex_server = (res, srv')" by (rule prod.exhaust)
  with r have "res = returns (accepted ex_request auth (tm_check ex_time) d)" unfolding e fst_conv by blast
  moreover have "vr_ok (accepted ex_request auth (tm_check ex_time) d)" by (simp add: accepted_def)
  ultimately show ?thesis using e that by blast
qed

section \<open>Witnesses for the verifier\<close>

lemma verify_complete_witness: "\<exists>auth d. fst (ex_verify ex_time ex_server) = returns (accepted ex_request auth (tm_check ex_time) d)"
  by (rule ex_ready) (use verify_complete [where consume = "mem_consume 120000"] in blast)

lemma ex_server_fields [simp]: "srv_registry ex_server = ex_registry" "srv_nonces ex_server = []"
  by (simp_all add: ex_server_def)

lemma verify_sound_witness:
  "\<exists>p payload nonce ts. reg_get ex_registry (sp_id p) = Some p \<and> authentic toy_crypto 60000 ex_request p 7 payload nonce ts"
proof -
  obtain r srv' where e: "ex_verify ex_time ex_server = (Inr r, srv')" "vr_ok r" by (rule ex_run)
  have "reg_wf (srv_registry ex_server)" using ex_wf(1) by simp
  from verify_sound [OF e this] obtain p payload nonce ts where
    "reg_get (srv_registry ex_server) (sp_id p) = Some p"
    "authentic toy_crypto (sc_sigWindowMs DEFAULT_SERVER_CONFIG) ex_request p (tm_check ex_time) payload nonce ts" by blast
  then have "reg_get ex_registry (sp_id p) = Some p \<and> authentic toy_crypto 60000 ex_request p 7 payload nonce ts"
    by (simp add: DEFAULT_SERVER_CONFIG_def ex_time_def)
  then show ?thesis by blast
qed

lemma accept_claims_checked_policy_witness:
  "\<exists>r srv' q. ex_verify ex_time ex_server = (Inr r, srv') \<and> reg_get (srv_registry srv') ''p1'' = Some (claim_pair q 9)"
proof -
  obtain r srv' where e: "ex_verify ex_time ex_server = (Inr r, srv')" "vr_ok r" by (rule ex_run)
  have "reg_atomic (srv_registry ex_server)" "reg_get (srv_registry ex_server) (pair_id ex_request) = Some ex_pair"
    by simp_all (simp add: ex_registry_def)
  with accept_claims_checked_policy [OF e _ _ _ _, of ex_pair]
  obtain q where "reg_get (srv_registry srv') (pair_id ex_request) = Some (claim_pair q (tm_claim ex_time))"
    by (auto simp: no_interference_def)
  with e(1) show ?thesis by (auto simp: ex_time_def)
qed

lemma accepted_at_most_once_witness:
  "\<exists>r srv1. ex_verify ex_time ex_server = (Inr r, srv1) \<and> vr_ok r
     \<and> \<not> (\<exists>r2. fst (ex_verify \<lparr>tm_admit = 10, tm_check = 10, tm_consume = 10, tm_claim = 10\<rparr> srv1) = Inr r2 \<and> vr_ok r2)"
proof -
  obtain r srv1 where e: "ex_verify ex_time ex_server = (Inr r, srv1)" "vr_ok r" by (rule ex_run)
  have "deriveNonceRetentionMs (sc_sigWindowMs DEFAULT_SERVER_CONFIG) 0 = returns 120000"
    by (simp add: deriveNonceRetentionMs_iff DEFAULT_SERVER_CONFIG_def is_safe_integer_def MAX_SAFE_INTEGER_def)
  moreover obtain n where "payload_nonce ex_request = Some n"
    by (rule accepted_consumes [OF e no_traffic])
  ultimately have "\<not> (\<exists>r2. fst (ex_verify \<lparr>tm_admit = 10, tm_check = 10, tm_consume = 10, tm_claim = 10\<rparr> srv1) = Inr r2 \<and> vr_ok r2)"
    using accepted_at_most_once [OF _ _ e no_traffic, where ?es = "[]" and ?srv2.0 = srv1 and ?ev2.0 = no_interference
      and ?tm2.0 = "\<lparr>tm_admit = 10, tm_check = 10, tm_consume = 10, tm_claim = 10\<rparr>" and ?req2.0 = ex_request and ?f1.0 = "[]" and ?f2.0 = "[]" and ?f3.0 = "[]"]
    by (simp add: no_traffic jm_wf_def ex_time_def)
  with e show ?thesis by blast
qed

definition ex_shadow_server :: "nonce_mem server" where
  "ex_shadow_server = with_anomaly (enterShadowState 0 ''p1'' ''9'' ''test'') ex_server"

lemma ex_shadowed: "shadowed ''p1'' (source_ip ex_request) ex_shadow_server"
  by (simp add: ex_shadow_server_def shadowed_frame isInShadowState_entered)

lemma ex_shadow_denied: "\<exists>r srv'. ex_verify ex_time ex_shadow_server = (Inr r, srv')"
proof -
  let ?s = "with_anomaly (recordRequest 6 (rq_pairId ex_request)) ex_shadow_server"
  have "srv_ipLimiter ?s = None" by (simp add: with_anomaly_def ex_shadow_server_def ex_server_def)
  then have "ip_limit toy_crypto ex_request 6 ?s = (Go (), ?s)" by (simp add: ip_limit_def)
  moreover have "isInShadowState ''p1'' ''9'' (srv_anomaly ?s)"
    using ex_shadowed by (simp add: shadowed_def with_anomaly_def)
  then have "\<exists>d s. shadow_gate toy_crypto DEFAULT_SERVER_CONFIG ex_request 6 ?s = (Done (returns (shadow_result ex_request ''shadow_denied'' d)), s)"
    by (simp add: shadow_gate_def shadow_enabled_def DEFAULT_SERVER_CONFIG_def present_def split: prod.split) blast
  ultimately obtain d s where "admit toy_crypto DEFAULT_SERVER_CONFIG ex_request (tm_admit ex_time) ex_shadow_server
      = (Done (returns (shadow_result ex_request ''shadow_denied'' d)), s)"
    by (auto simp: admit_def ex_time_def)
  then show ?thesis by (simp add: verifyBPCRequest_def)
qed

lemma shadow_state_sticks_witness: "\<exists>r srv'. ex_verify ex_time ex_shadow_server = (Inr r, srv') \<and> \<not> vr_ok r"
proof -
  obtain r srv' where e: "ex_verify ex_time ex_shadow_server = (Inr r, srv')" using ex_shadow_denied by blast
  have "shadow_enabled DEFAULT_SERVER_CONFIG" by (simp add: shadow_enabled_def DEFAULT_SERVER_CONFIG_def)
  from shadow_state_sticks [OF this ex_shadowed, where es = "[]" and consume = "mem_consume 120000" and cr = toy_crypto] e
  show ?thesis by auto
qed

definition ex_ghost :: auth_context where
  "ex_ghost = \<lparr>au_pairId = ''p1'', au_scope = ''read'', au_mode = ''production'', au_kind = Ghost,
     au_canaryClass = Some Docs, au_status = Active, au_failedSigs = 0, au_expiresAt = None, au_maxRequests = None,
     au_requests = 0, au_secretHash = ''s'', au_pubJwk = ex_jwk\<rparr>"

lemma ghost_pair_trips_witness:
  "shadowed ''p1'' ''9'' (snd (consume_nonce toy_crypto DEFAULT_SERVER_CONFIG (mem_consume 120000) ex_request ex_ghost 7 8 ex_nonce ex_server))"
proof -
  let ?c = "consume_nonce toy_crypto DEFAULT_SERVER_CONFIG (mem_consume 120000) ex_request ex_ghost 7 8 ex_nonce ex_server"
  obtain ns where n: "mem_consume 120000 8 ex_nonce (srv_nonces ex_server) = (Inr False, ns)"
    unfolding ex_server_fields using ex_consume by blast
  have "au_kind ex_ghost = Ghost" "case srv_guard ex_server of None \<Rightarrow> True | Some g \<Rightarrow> assertAcceptable 8 g = Inr ()"
    by (simp_all add: ex_ghost_def ex_server_def)
  from ghost_pair_trips [where consume = "mem_consume 120000", OF this(1) n this(2) prod.collapse [symmetric],
      of toy_crypto DEFAULT_SERVER_CONFIG ex_request 7]
  show ?thesis by simp
qed

definition null_request :: bpc_request where
  "null_request = ex_request\<lparr>rq_signedData := Some ''bnVsbA''\<rparr>"

lemma null_payload_rejects_witness:
  "fst (verifyBPCRequest toy_crypto DEFAULT_SERVER_CONFIG (mem_consume 120000) null_request ex_time no_interference ex_server)
     = throw ''TypeError''"
proof -
  have "header_error null_request = None"
    using ex_header_error by (simp add: header_error_def null_request_def present_def opt_length_def pair_id_def
      MAX_SIGNED_DATA_LEN_def split: if_splits)
  then have "admissible DEFAULT_SERVER_CONFIG null_request 6 ex_server ex_pair"
    by (rule admissible_ex) (simp_all add: null_request_def source_ip_def)
  moreover obtain auth where "captureAuthorizationContext ex_pair = returns auth" using ex_auth by blast
  ultimately obtain d s where a: "admit toy_crypto DEFAULT_SERVER_CONFIG null_request (tm_admit ex_time) ex_server = (Go (auth, d), s)"
    unfolding ex_time_def timing.simps using admit_admissible by blast
  have "rq_signedData null_request = Some ''bnVsbA''" by (simp add: null_request_def)
  moreover have "decode_payload ''bnVsbA'' = returns JNull" by code_simp
  ultimately have "verifyBPCRequest toy_crypto DEFAULT_SERVER_CONFIG (mem_consume 120000) null_request ex_time no_interference ex_server
      = (throw ''TypeError'', if_check no_interference s)" by (rule null_payload_rejects [OF a])
  then show ?thesis by simp
qed

lemma signature_failure_counted_twice_witness:
  "cnt_get 7 ''global:sig_fail'' (an_counters (srv_anomaly (snd (deny toy_crypto ex_request 7 ''e'' True ex_server))))
    = cnt_get 7 ''global:sig_fail'' (an_counters (srv_anomaly ex_server)) + 2"
  by (rule signature_failure_counted_twice) (simp add: present_def)

section \<open>Witnesses for rotation\<close>

definition ex_store :: mem_store where
  "ex_store = reg_store ex_registry"

definition ex_okp :: json where
  "ex_okp = JObj [(''kty'', JStr ''OKP''), (''crv'', JStr ''Ed25519''), (''x'', JStr ''AA'')]"

definition ex_rotation_text :: string where
  "ex_rotation_text = stringify (JObj (obj_order (sort_key fst
     [(''new_pub_jwk_json'', JStr (stringify ex_okp)), (''old_pair_id'', JStr ''p1''),
      (''purpose'', JStr ''rotation''), (''timestamp'', JNum 5)])))"

definition ex_rotation :: "string \<times> json \<times> string \<times> string \<times> int" where
  "ex_rotation = (''p1'', ex_okp, b64url (wc_sign toy_crypto ''k'' (utf8 ex_rotation_text)), b64url (utf8 ex_rotation_text), 5)"

lemma ex_rotate: "client_rotate toy_crypto ex_client 5 ex_okp = returns ex_rotation"
proof -
  have "canonicalize (rotation_payload ex_client 5 ex_okp) = returns ex_rotation_text"
    unfolding canonicalize_iff by (simp add: rotation_payload_def client_of_def FORBIDDEN_KEYS_def ex_rotation_text_def)
  then show ?thesis by (simp add: ex_rotation_def client_rotate_def signPayload_def client_of_def)
qed

lemma ex_rotation_text_ok: "0 < length ex_rotation_text" "length ex_rotation_text < 1000" "is_ascii ex_rotation_text"
  by code_simp+

lemma ex_okp_ok: "isValidPublicJwk ex_okp" "sameJwk ex_okp ex_okp" "wf_json ex_okp" "is_ascii (stringify ex_okp)"
  by code_simp+

lemma ex_rotation_valid: "\<not> rot_invalid (rotation_of ex_rotation)"
proof -
  have l: "length (utf8 ex_rotation_text) = length ex_rotation_text"
    using utf8_ascii [OF ex_rotation_text_ok(3)] by (metis length_map)
  have "0 < length (b64url (utf8 ex_rotation_text))" "length (b64url (utf8 ex_rotation_text)) \<le> 4096"
    unfolding length_b64url l using ex_rotation_text_ok(1,2) by linarith+
  moreover have "length (b64url (wc_sign toy_crypto ''k'' (utf8 ex_rotation_text))) = 86" by (simp add: length_b64url)
  ultimately show ?thesis using ex_okp_ok(1)
    by (auto simp: rot_invalid_def rotation_of_def ex_rotation_def MAX_PAIR_ID_LEN_def MAX_SIGNED_DATA_LEN_def
        ROT_MAX_SIGNATURE_LEN_def)
qed

abbreviation ex_id :: string where
  "ex_id \<equiv> generateId ''pair'' (replicate 16 0)"

abbreviation ex_rotate_at :: "int \<Rightarrow> rotation_result \<times> mem_store \<times> audit_log option" where
  "ex_rotate_at now \<equiv> handleRotation toy_crypto ms_get atomic_commit 60000 now (replicate 16 0) (\<lambda>s. s) (rotation_of ex_rotation) (ex_store, None)"

lemma ex_rotation_facts:
  "importPublicKeyFromJwk toy_crypto (sp_pubJwk ex_pair) = returns ''k''" "is_ascii (cl_pairId ex_client)"
  "ms_get ex_store (cl_pairId ex_client) = Some ex_pair" "sp_id ex_pair = cl_pairId ex_client" "sp_status ex_pair = Active"
  "ms_get ex_store ex_id = None" "ro_oldPairId (rotation_of ex_rotation) = ''p1''"
  by (simp_all add: importPublicKeyFromJwk_def client_of_def ex_store_def ex_get is_ascii_def rotation_of_def ex_rotation_def)
     (simp add: ex_registry_def ms_get_def generateId_def)

lemma client_rotation_accepted_witness: "fst (ex_rotate_at 6) = RotationOk ex_id"
  by (rule client_rotation_accepted [OF ex_rotate ex_rotation_facts(1) _ ex_okp_ok ex_rotation_facts(2)
        ex_rotation_valid _ ex_rotation_facts(3-6)]) (simp_all add: client_of_def)

lemma ex_rotated: obtains st' lg' where "ex_rotate_at 6 = (RotationOk ex_id, st', lg')"
proof -
  have "fst (ex_rotate_at 6) = RotationOk ex_id"
    by (rule client_rotation_ok [OF ex_rotate ex_rotation_facts(1) _ ex_okp_ok ex_rotation_facts(2)
          ex_rotation_valid _ ex_rotation_facts(3-6)]) (simp_all add: client_of_def)
  then show ?thesis using that by (metis prod.collapse)
qed

lemma rotation_safe_witness:
  "\<exists>st' lg'. ex_rotate_at 6 = (RotationOk ex_id, st', lg') \<and> ms_get st' ''p1'' = Some (ex_pair\<lparr>sp_status := Rotated\<rparr>)"
proof -
  obtain st' lg' where e: "ex_rotate_at 6 = (RotationOk ex_id, st', lg')" by (rule ex_rotated)
  have g: "ms_get ex_store (ro_oldPairId (rotation_of ex_rotation)) = Some ex_pair"
    "sp_id ex_pair = ro_oldPairId (rotation_of ex_rotation)"
    using ex_rotation_facts by (simp_all add: client_of_def)
  from rotation_safe [OF e g] have "ms_get st' = (ms_get ex_store)(''p1'' \<mapsto> ex_pair\<lparr>sp_status := Rotated\<rparr>,
      ex_id \<mapsto> replacement_pair ex_pair ex_id (ro_newPubJwk (rotation_of ex_rotation)) 6)"
    by (simp add: ex_rotation_facts)
  then have "ms_get st' ''p1'' = Some (ex_pair\<lparr>sp_status := Rotated\<rparr>)" by (simp add: generateId_def)
  with e show ?thesis by blast
qed

lemma failed_rotation_changes_nothing_witness:
  "\<exists>lg'. ex_rotate_at 100000 = (RotationFail ''timestamp_expired'', ex_store, lg')"
proof -
  have "fst (ex_rotate_at 100000) = RotationFail ''timestamp_expired''"
    using ex_rotation_valid by (simp add: handleRotation_def) (simp add: rotation_of_def ex_rotation_def)
  then obtain st' lg' where e: "ex_rotate_at 100000 = (RotationFail ''timestamp_expired'', st', lg')" by (metis prod.collapse)
  from failed_rotation_changes_nothing [OF e] e show ?thesis by auto
qed

lemma rotation_to_unusable_key_witness:
  "\<exists>st' lg'. ex_rotate_at 6 = (RotationOk ex_id, st', lg')
    \<and> \<not> (\<exists>r. fst (verifyBPCRequest toy_crypto DEFAULT_SERVER_CONFIG (mem_consume 120000) (ex_request\<lparr>rq_pairId := Some ex_id\<rparr>)
          ex_time no_interference (ex_server\<lparr>srv_registry := ex_registry\<lparr>reg_store := st'\<rparr>\<rparr>)) = Inr r \<and> vr_ok r)"
proof -
  obtain st' lg' where e: "ex_rotate_at 6 = (RotationOk ex_id, st', lg')" by (rule ex_rotated)
  have g: "ms_get ex_store (ro_oldPairId (rotation_of ex_rotation)) = Some ex_pair"
    using ex_rotation_facts by (simp add: client_of_def)
  have k: "canonicalAuthorizationJwk (ro_newPubJwk (rotation_of ex_rotation)) = throw ''pubJwk must be an exact public P-256 key''"
    by (simp add: rotation_of_def ex_rotation_def ex_okp_def canonicalAuthorizationJwk_def JWK_FIELDS_def)
  from rotation_to_unusable_key [OF e g k, where breq = "ex_request\<lparr>rq_pairId := Some ex_id\<rparr>"
      and srv = "ex_server\<lparr>srv_registry := ex_registry\<lparr>reg_store := st'\<rparr>\<rparr>"] e
  show ?thesis by simp
qed

end
