(* ===== verification/Errors.thy ===== *)
theory Errors
  imports Examples
begin

text \<open>
  \<^verbatim>\<open>packages/server/src/errors.ts\<close>: the table of error codes an HTTP adapter maps a denial with.
  The theorem: every answer of the verifier carries one of a fixed list of codes, each has an entry of
  the table apart from exactly five that have none, and which payloads make the verifier throw instead.
\<close>

text \<open>Code and HTTP status; the message, prose that repeats the code, is left out.\<close>

record bpc_error =
  be_code :: string
  be_httpStatus :: nat

definition err :: "string \<Rightarrow> nat \<Rightarrow> string \<times> bpc_error" where
  "err c status = (c, \<lparr>be_code = c, be_httpStatus = status\<rparr>)"

definition BPC_ERRORS :: "(string \<times> bpc_error) list" where
  "BPC_ERRORS = [
     err ''missing_headers'' 400,
     err ''invalid_signed_data'' 400,
     err ''invalid_body_hash'' 400,
     err ''version_mismatch'' 400,
     err ''method_path_mismatch'' 400,
     err ''pair_id_mismatch'' 400,
     err ''missing_body_hash'' 400,
     err ''unknown_pair'' 401,
     err ''pair_revoked'' 401,
     err ''pair_locked'' 401,
     err ''pair_expired'' 401,
     err ''pair_rotated'' 401,
     err ''shadow_denied'' 401,
     err ''ghost_pair_denied'' 401,
     err ''invalid_signature'' 401,
     err ''replay_detected'' 401,
     err ''replay_store_unavailable'' 503,
     err ''authorization_quarantined'' 503,
     err ''timestamp_expired'' 401,
     err ''scope_violation'' 403,
     err ''rate_limit_exceeded'' 429]"

definition listed_status :: "string \<Rightarrow> nat option" where
  "listed_status c = map_option be_httpStatus (map_of BPC_ERRORS c)"

text \<open>The codes the verifier uses beside the table.\<close>

definition UNLISTED :: "string list" where
  "UNLISTED = [''invalid_method'', ''missing_secret_hmac'', ''invalid_secret_hmac'',
     ''pair_state_changed_retry'', ''pair_usage_cap_exceeded'']"

definition known_code :: "string \<Rightarrow> bool" where
  "known_code c = (if c \<in> set UNLISTED then listed_status c = None
     else listed_status c \<in> {Some 400, Some 401, Some 403, Some 429, Some 503})"

section \<open>Every answer is coded\<close>

definition coded :: "verify_result \<Rightarrow> bool" where
  "coded r = (case vr_error r of None \<Rightarrow> vr_ok r | Some c \<Rightarrow> \<not> vr_ok r \<and> known_code c)"

definition coded_phase :: "'a phase \<times> 's \<Rightarrow> bool" where
  "coded_phase ps = (case fst ps of Done (Inr r) \<Rightarrow> coded r | _ \<Rightarrow> True)"

lemma coded_phase_simps [simp]:
  "coded_phase (Go a, s)" "coded_phase (Done (throw e), s)"
  "coded_phase (Done (returns r), s) \<longleftrightarrow> coded r"
  by (simp_all add: coded_phase_def)

lemma coded_deny [simp]: "coded_phase (deny cr req now e b s) \<longleftrightarrow> known_code e"
  by (simp add: deny_def Let_def coded_def denied_def)

lemma coded_shadow [simp]: "coded (shadow_result req e d) \<longleftrightarrow> known_code e"
  by (simp add: coded_def shadow_result_def)

lemma coded_accepted [simp]: "coded (accepted req auth v d)"
  by (simp add: coded_def accepted_def)

lemma known_codes [simp]:
  "known_code ''rate_limit_exceeded''" "known_code ''shadow_denied''" "known_code ''unknown_pair''"
  "known_code ''pair_revoked''" "known_code ''pair_locked''" "known_code ''pair_rotated''"
  "known_code ''pair_expired''" "known_code ''pair_state_changed_retry''"
  "known_code ''pair_usage_cap_exceeded''" "known_code ''invalid_method''" "known_code ''missing_headers''"
  "known_code ''invalid_signed_data''" "known_code ''version_mismatch''" "known_code ''method_path_mismatch''"
  "known_code ''pair_id_mismatch''" "known_code ''scope_violation''" "known_code ''missing_body_hash''"
  "known_code ''invalid_body_hash''" "known_code ''missing_secret_hmac''" "known_code ''invalid_secret_hmac''"
  "known_code ''timestamp_expired''" "known_code ''invalid_signature''" "known_code ''ghost_pair_denied''"
  "known_code ''authorization_quarantined''" "known_code ''replay_store_unavailable''" "known_code ''replay_detected''"
  by (simp_all add: known_code_def UNLISTED_def listed_status_def BPC_ERRORS_def err_def)

lemma coded_and: "coded_phase m \<Longrightarrow> (\<And>a s. coded_phase (f a s)) \<Longrightarrow> coded_phase (and_phase m f)"
  by (cases "(m, f)" rule: and_phase.cases) (auto simp: coded_phase_def split: sum.splits)

lemma coded_call: "(\<And>v s. coded_phase (k v s)) \<Longrightarrow> coded_phase (registry_call f s k)"
  by (auto simp: registry_call_def split: prod.splits sum.splits)

lemma header_error_known: "header_error req = Some e \<Longrightarrow> known_code e"
  by (auto simp: header_error_def split: if_splits)

lemma check_binding_known: "check_binding req auth payload = Some (e, b) \<Longrightarrow> known_code e"
  by (auto simp: check_binding_def Let_def split: if_splits option.splits json.splits)

lemma coded_lock [simp]: "coded_phase (lock_denial cr cfg req now r b s)"
  by (simp add: lock_denial_def split: prod.splits)

lemma coded_status: "coded_phase (check_status cr cfg req now auth s)"
  by (auto simp: check_status_def Let_def intro!: coded_call)

lemma coded_admit: "coded_phase (admit cr cfg req now s)"
  unfolding admit_def
  by (intro coded_and)
     (auto simp: ip_limit_def shadow_gate_def pair_limit_def check_headers_def load_pair_def tarpit_gate_def Let_def
       coded_status header_error_known split: option.splits prod.splits sum.splits verdict.splits)

lemma coded_check: "coded_phase (check_payload cr cfg req auth now s)"
  by (auto simp: check_payload_def check_binding_known split: sum.splits option.splits json.splits)

lemma coded_consume: "coded_phase (consume_nonce cr cfg c req auth v now n s)"
  by (auto simp: consume_nonce_def ghost_trap_def Let_def
    split: option.splits prod.splits sum.splits nonce_error.splits)

lemma coded_claim: "coded_phase (claim_use cr req auth d v now s)"
  by (auto simp: claim_use_def intro!: coded_call)

lemma coded_finish: "coded_phase ps \<Longrightarrow> fst (finish ps) = returns r \<Longrightarrow> coded r"
  by (cases ps rule: finish.cases) (auto simp: coded_phase_def)

lemma verifier_codes: "fst (verifyBPCRequest cr cfg consume req tm ev srv) = returns r \<Longrightarrow> coded r"
proof -
  have "coded_phase (and_phase (admit cr cfg req (tm_admit tm) srv) (\<lambda>(auth, delayMs) srv1.
      and_phase (check_payload cr cfg req auth (tm_check tm) (if_check ev srv1)) (\<lambda>rawNonce srv2.
      and_phase (consume_nonce cr cfg consume req auth (tm_check tm) (tm_consume tm) rawNonce (if_consume ev srv2)) (\<lambda>_ srv3.
        claim_use cr req auth delayMs (tm_check tm) (tm_claim tm) (if_claim ev srv3)))))"
    by (auto intro!: coded_and simp: coded_admit coded_check coded_consume coded_claim)
  then show "coded r" if "fst (verifyBPCRequest cr cfg consume req tm ev srv) = returns r"
    using that unfolding verifyBPCRequest_def by (rule coded_finish)
qed

section \<open>What throws\<close>

definition usable_keys :: "registry \<Rightarrow> bool" where
  "usable_keys r = (\<forall>i p. ms_get (reg_store r) i = Some p \<longrightarrow> \<not> isl (canonicalAuthorizationJwk (sp_pubJwk p)))"

lemma usable_keysD: "usable_keys r \<Longrightarrow> ms_get (reg_store r) i = Some p \<Longrightarrow> \<exists>jwk. canonicalAuthorizationJwk (sp_pubJwk p) = returns jwk"
  unfolding usable_keys_def by (metis sum.collapse(2))

definition keeps_keys :: "'n interference \<Rightarrow> bool" where
  "keeps_keys ev = (\<forall>s. usable_keys (srv_registry s) \<longrightarrow> usable_keys (srv_registry (if_check ev s))
     \<and> usable_keys (srv_registry (if_consume ev s)) \<and> usable_keys (srv_registry (if_claim ev s)))"

definition valid_time :: "int \<Rightarrow> bool" where
  "valid_time t = (is_safe_integer t \<and> 0 \<le> t)"

definition valid_lockout :: "server_config \<Rightarrow> bool" where
  "valid_lockout cfg = (let n = (case sc_lockoutCount cfg of None \<Rightarrow> 10 | Some n \<Rightarrow> n) in is_safe_integer n \<and> 1 \<le> n)"

text \<open>Signed data that decodes to \<open>null\<close>, or whose \<open>secret_hmac\<close> cannot be coerced to a string.\<close>

definition hostile_payload :: "bpc_request \<Rightarrow> bool" where
  "hostile_payload req = (case decode_payload (case rq_signedData req of None \<Rightarrow> [] | Some s \<Rightarrow> s) of
     Inl e \<Rightarrow> False
   | Inr payload \<Rightarrow> payload = JNull \<or> (case field payload ''secret_hmac'' of None \<Rightarrow> False | Some v \<Rightarrow> coercion_throws v))"

definition throws_only :: "bool \<Rightarrow> 'a phase \<times> 's \<Rightarrow> bool" where
  "throws_only hostile ps = (\<forall>e. fst ps = Done (throw e) \<longrightarrow> hostile \<and> e = ''TypeError'')"

lemma throws_only_throw [simp]: "throws_only h (Done (throw e), s) \<longleftrightarrow> h \<and> e = ''TypeError''"
  by (simp add: throws_only_def)

lemma throws_only_simps [simp]:
  "throws_only h (Go a, s)" "throws_only h (Done (returns r), s)" "throws_only h (deny cr req now e b s)"
  "throws_only h (lock_denial cr cfg req now e b s)"
  by (auto simp: throws_only_def deny_def lock_denial_def Let_def split: prod.splits)

lemma throws_and:
  "throws_only h m \<Longrightarrow> (\<And>a s. m = (Go a, s) \<Longrightarrow> throws_only h (f a s)) \<Longrightarrow> throws_only h (and_phase m f)"
  by (cases "(m, f)" rule: and_phase.cases) (auto simp: throws_only_def)

lemma throws_call:
  "\<not> isl (fst (f (srv_registry s))) \<Longrightarrow> (\<And>v s'. throws_only h (k v s')) \<Longrightarrow> throws_only h (registry_call f s k)"
  by (auto simp: registry_call_def split: prod.splits sum.splits)

lemma throws_status:
  assumes "valid_time now" "valid_lockout cfg"
  shows "throws_only h (check_status cr cfg req now auth s)"
proof -
  have "\<not> isl (fst (ensureLocked i (case sc_lockoutCount cfg of None \<Rightarrow> 10 | Some n \<Rightarrow> n) r))" for i r
    using assms(2) by (auto simp: ensureLocked_def ms_lockIfFailureThreshold_def valid_lockout_def Let_def split: option.splits)
  moreover have "\<not> isl (fst (markExpired now i r))" for i r
    using assms(1) by (auto simp: markExpired_def ms_expireIfElapsed_def valid_time_def split: option.splits)
  ultimately show ?thesis by (auto simp: check_status_def Let_def intro!: throws_call)
qed

lemma throws_gates:
  "throws_only h (ip_limit cr req now s)" "throws_only h (shadow_gate cr cfg req now s)" "throws_only h (pair_limit cr req now s)"
  "throws_only h (check_headers cr req now s)" "throws_only h (tarpit_gate cr cfg req now s)"
  by (auto simp: ip_limit_def shadow_gate_def pair_limit_def check_headers_def tarpit_gate_def Let_def
      split: option.splits prod.splits verdict.splits)

lemma throws_admit:
  assumes "valid_time now" "valid_lockout cfg" "usable_keys (srv_registry s)"
  shows "throws_only h (admit cr cfg req now s)"
proof -
  have load: "throws_only h (load_pair cr req now s')" if "srv_registry s' = srv_registry s" for s'
  proof (cases "ms_get (reg_store (srv_registry s)) (pair_id req)")
    case (Some p)
    with usable_keysD [OF assms(3)] obtain jwk where "canonicalAuthorizationJwk (sp_pubJwk p) = returns jwk" by blast
    with Some that show ?thesis by (simp add: load_pair_def reg_get_def captureAuthorizationContext_def)
  qed (simp add: load_pair_def reg_get_def that)
  show ?thesis unfolding admit_def
  proof (intro throws_and, goal_cases)
    case (5 a s1 b s2 c s3 d s4)
    have "same_core s s3" using ip_limit_Go [OF 5(1)] shadow_gate_Go [OF 5(2)] pair_limit_Go [OF 5(3)]
        same_core_anomaly(2) same_core_trans by metis
    with check_headers_Go [OF 5(4)] show ?case by (intro load) (simp add: same_core_def)
  qed (simp_all add: throws_status [OF assms(1,2)] throws_gates)
qed

lemma hmac_throws: "secret_hmac_valid cr k n t v = throw e \<Longrightarrow> coercion_throws v \<and> e = ''TypeError''"
  by (cases v) (auto simp: secret_hmac_valid_def split: if_splits)

lemma throws_check: "throws_only (hostile_payload req) (check_payload cr cfg req auth now s)"
proof (cases "decode_payload (case rq_signedData req of None \<Rightarrow> [] | Some s \<Rightarrow> s)")
  case (Inr payload)
  show ?thesis
  proof (cases "\<exists>n t v. payload \<noteq> JNull \<and> field payload ''nonce'' = Some (JStr n) \<and> UUID_RE n
      \<and> field payload ''timestamp'' = Some (JNum t) \<and> field payload ''secret_hmac'' = Some v")
    case True
    then obtain n t v where f: "payload \<noteq> JNull" "field payload ''nonce'' = Some (JStr n)" "UUID_RE n"
      "field payload ''timestamp'' = Some (JNum t)" "field payload ''secret_hmac'' = Some v" by blast
    show ?thesis
    proof (cases "secret_hmac_valid cr (au_secretHash auth) n t v")
      case (Inl e)
      with Inr f hmac_throws [OF Inl] show ?thesis by (simp add: check_payload_def hostile_payload_def)
    next
      case (Inr b)
      with f \<open>decode_payload _ = _\<close> show ?thesis by (simp add: check_payload_def split: option.split)
    qed
  next
    case False
    with Inr show ?thesis
      by (cases "payload = JNull") (auto simp: check_payload_def hostile_payload_def split: option.split json.split)
  qed
qed (simp add: check_payload_def)

lemma throws_consume: "throws_only h (consume_nonce cr cfg c req auth v now n s)"
  by (auto simp: consume_nonce_def ghost_trap_def Let_def split: option.splits prod.splits sum.splits nonce_error.splits)

lemma claim_returns:
  assumes "valid_time t" "usable_keys r" "canonicalAuthorizationJwk (up_pubJwk pol) = returns (up_pubJwk pol)"
  shows "\<not> isl (fst (claimSuccessfulUseOutcome i t pol r))"
proof -
  have "\<not> isl (successfulUsePolicyMatches p pol)" if m: "ms_get (reg_store r) i = Some p" for p
  proof -
    obtain jwk where "canonicalAuthorizationJwk (sp_pubJwk p) = returns jwk"
      using usable_keysD [OF assms(2) m] by blast
    with assms(3) show ?thesis by (simp add: successfulUsePolicyMatches_def sameCanonicalJwk_def)
  qed
  then show ?thesis using assms(1,3)
    by (auto simp: claimSuccessfulUseOutcome_def ms_claimSuccessfulUse_def compat_claim_def valid_time_def Let_def
        split: option.splits sum.splits)
qed

lemma throws_claim:
  assumes "valid_time now" "usable_keys (srv_registry s)" "captureAuthorizationContext p = returns auth"
  shows "throws_only h (claim_use cr req auth d v now s)"
proof -
  have "canonicalAuthorizationJwk (au_pubJwk auth) = returns (au_pubJwk auth)"
    using assms(3) canonicalAuthorizationJwk_idem by (auto simp: captureAuthorizationContext_def and_then_Inr_iff)
  then have "\<not> isl (fst (claimSuccessfulUseOutcome (pair_id req) now (expected_policy auth) (srv_registry s)))"
    by (intro claim_returns [OF assms(1,2)]) (simp add: expected_policy_def)
  then show ?thesis unfolding claim_use_def by (intro throws_call) (auto simp: throws_only_def deny_def Let_def)
qed

lemma finish_throws: "fst (finish ps) = throw e \<Longrightarrow> (\<exists>u s. ps = (Go u, s)) \<or> fst ps = Done (throw e)"
  by (cases ps rule: finish.cases) auto

lemma never_Go: "(\<And>a s'. f a s' \<noteq> (Go b, s)) \<Longrightarrow> and_phase m f \<noteq> (Go b, s)"
  by (simp add: and_phase_Go)

lemma verifier_throws:
  assumes "usable_keys (srv_registry srv)" "keeps_keys ev" "valid_time (tm_admit tm)" "valid_time (tm_claim tm)" "valid_lockout cfg"
    and "fst (verifyBPCRequest cr cfg consume req tm ev srv) = throw e"
  shows "e = ''TypeError'' \<and> hostile_payload req"
proof -
  note k = assms(2) [unfolded keeps_keys_def, rule_format]
  let ?P = "and_phase (admit cr cfg req (tm_admit tm) srv) (\<lambda>(auth, delayMs) srv1.
      and_phase (check_payload cr cfg req auth (tm_check tm) (if_check ev srv1)) (\<lambda>rawNonce srv2.
      and_phase (consume_nonce cr cfg consume req auth (tm_check tm) (tm_consume tm) rawNonce (if_consume ev srv2)) (\<lambda>_ srv3.
        claim_use cr req auth delayMs (tm_check tm) (tm_claim tm) (if_claim ev srv3))))"
  have "throws_only (hostile_payload req) ?P"
  proof (rule throws_and, goal_cases)
    case (2 ad s1)
    obtain auth d where ad: "ad = (auth, d)" by (cases ad)
    from admit_Go [OF 2 [unfolded ad]] obtain p where p: "captureAuthorizationContext p = returns auth" "usable_keys (srv_registry s1)"
      using assms(1) by (auto simp: same_core_def)
    have "throws_only (hostile_payload req) (and_phase (check_payload cr cfg req auth (tm_check tm) (if_check ev s1)) (\<lambda>rawNonce srv2.
      and_phase (consume_nonce cr cfg consume req auth (tm_check tm) (tm_consume tm) rawNonce (if_consume ev srv2)) (\<lambda>_ srv3.
        claim_use cr req auth d (tm_check tm) (tm_claim tm) (if_claim ev srv3))))"
    proof (intro throws_and throws_check throws_consume, goal_cases)
      case (1 nonce s2 u s3)
      have s2: "s2 = if_check ev s1" using check_payload_Go [OF 1(1)] by blast
      obtain ns where "s3 = (if_consume ev s2)\<lparr>srv_nonces := ns\<rparr>" using consume_nonce_Go [OF 1(2)] by blast
      then have "usable_keys (srv_registry s3)" using k [of s1] k [of s2] p(2) s2 by simp
      with k [of s3] show ?case by (intro throws_claim [OF assms(4) _ p(1)]) blast
    qed
    then show ?case by (simp add: ad)
  qed (rule throws_admit [OF assms(3,5,1)])
  moreover have "?P \<noteq> (Go u, s)" for u s
    by (rule never_Go, simp only: case_prod_unfold, (rule never_Go)+, rule claim_use_not_Go)
  then have "fst ?P = Done (throw e)"
    using finish_throws [OF assms(6) [unfolded verifyBPCRequest_def]] by blast
  ultimately show ?thesis unfolding throws_only_def by blast
qed

text \<open>
  C36. Whatever the request, the clocks, the nonce backend and the interference, an answer of
  \<open>verifyBPCRequest\<close> that is not an acceptance carries a code and an acceptance carries none. Five
  codes (\<open>UNLISTED\<close>) have no entry of \<open>BPC_ERRORS\<close>; every other code has one, with status 400, 401, 403, 429
  or 503. And the verifier throws only a \<open>TypeError\<close>, only for signed data that decodes to \<open>null\<close> or to an
  object whose \<open>secret_hmac\<close> is an object or array that cannot be coerced: if the clock readings are safe
  non-negative integers, the lockout count is a safe positive integer and every stored key is
  canonicalisable, at the start and after interference.
\<close>
theorem verifier_answers_are_coded:
  "case fst (verifyBPCRequest cr cfg consume req tm ev srv) of
     Inl e \<Rightarrow> usable_keys (srv_registry srv) \<and> keeps_keys ev \<and> valid_time (tm_admit tm) \<and> valid_time (tm_claim tm)
         \<and> valid_lockout cfg \<longrightarrow> e = ''TypeError'' \<and> hostile_payload req
   | Inr r \<Rightarrow> (case vr_error r of
       None \<Rightarrow> vr_ok r
     | Some c \<Rightarrow> \<not> vr_ok r \<and> (if c \<in> set UNLISTED then listed_status c = None
         else listed_status c \<in> {Some 400, Some 401, Some 403, Some 429, Some 503}))"
proof (cases "fst (verifyBPCRequest cr cfg consume req tm ev srv)")
  case (Inl e)
  with verifier_throws [of srv ev tm cfg cr consume req e] show ?thesis by simp
next
  case (Inr r)
  from verifier_codes [OF this] show ?thesis unfolding Inr sum.case coded_def known_code_def .
qed

lemma ex_usable_keys: "usable_keys ex_registry"
proof -
  obtain auth where "captureAuthorizationContext ex_pair = returns auth" using ex_auth by blast
  then have "\<not> isl (canonicalAuthorizationJwk (sp_pubJwk ex_pair))" by (auto simp: captureAuthorizationContext_def and_then_Inr_iff)
  then show ?thesis by (simp add: usable_keys_def ms_get_def ex_registry_def)
qed

lemma verifier_answers_are_coded_witness: "hostile_payload null_request"
proof -
  have "fst (verifyBPCRequest toy_crypto DEFAULT_SERVER_CONFIG (mem_consume 120000) null_request ex_time no_interference ex_server)
      = throw ''TypeError''" by (rule null_payload_rejects_witness)
  moreover have "usable_keys (srv_registry ex_server)" "keeps_keys (no_interference :: nonce_mem interference)" "valid_time (tm_admit ex_time)"
    "valid_time (tm_claim ex_time)" "valid_lockout DEFAULT_SERVER_CONFIG"
    by (simp_all add: ex_usable_keys keeps_keys_def no_interference_def valid_time_def valid_lockout_def ex_time_def DEFAULT_SERVER_CONFIG_def
      is_safe_integer_def MAX_SAFE_INTEGER_def)
  ultimately show ?thesis
    using verifier_answers_are_coded [where cr = toy_crypto and cfg = DEFAULT_SERVER_CONFIG and consume = "mem_consume 120000"
      and req = null_request and tm = ex_time and ev = no_interference and srv = ex_server]
    by simp
qed

end
