(* ===== verification/Hex.thy ===== *)
theory Hex
  imports Core
begin

text \<open>
  Hexadecimal text as \<^verbatim>\<open>node:crypto\<close> and \<open>Buffer\<close> write and read it. The replica signature, the
  cache seal and the digests of the outbox are compared through it.
\<close>

text \<open>\<open>Buffer.from(text, 'hex')\<close>: pairs of digits up to the first that is not one.\<close>

fun hex_decode :: "string \<Rightarrow> bytes" where
  "hex_decode (a # b # s) = (case (hex_val a, hex_val b) of
     (Some x, Some y) \<Rightarrow> word_of_nat (16 * x + y) # hex_decode s
   | _ \<Rightarrow> [])"
| "hex_decode _ = []"

lemma hex_decode_hex: "hex_decode (concat (map hex_byte bs)) = bs"
  by (induction bs) (simp_all add: hex_byte_def less_mult_imp_div_less)

lemma length_hex: "length (concat (map hex_byte bs)) = 2 * length bs"
  by (induction bs) (simp_all add: hex_byte_def)

lemma is_hex_digit: "d < 16 \<Longrightarrow> is_hex_char (hex_digit d)"
  by (auto simp: hex_digit_def is_hex_char_def is_digit_def)

lemma hex_is_hex: "list_all is_hex_char (concat (map hex_byte bs))"
  by (induction bs) (simp_all add: hex_byte_def is_hex_digit less_mult_imp_div_less)

end
