(* ===== verification/Promotion.thy ===== *)
theory Promotion
  imports Core
begin

text \<open>
  \<^verbatim>\<open>packages/server/src/promotion.ts\<close> and \<^verbatim>\<open>admin.ts\<close>: who may make a replica writable.
  A \<open>PromotionController\<close> is the record \<open>promotion\<close>; \<open>handlePromotionCommand\<close> is the guard's
  endpoint. \<open>timingSafeEqual\<close> on buffers of one length is equality. The theorems: a replica is
  writable exactly when the last authenticated command that succeeded was a promotion, and an
  administrative request is allowed exactly as the policy says.
\<close>

section \<open>promotion.ts\<close>

datatype node_role = PrimaryNode | ReplicaNode

record promotion =
  pm_role :: node_role
  pm_promoted :: bool
  pm_promotedAt :: "int option"
  pm_promotedBy :: "string option"
  pm_reason :: "json option"

definition new_promotion :: "node_role \<Rightarrow> promotion" where
  "new_promotion role = \<lparr>pm_role = role, pm_promoted = False, pm_promotedAt = None, pm_promotedBy = None, pm_reason = None\<rparr>"

definition isWritable :: "promotion \<Rightarrow> bool" where
  "isWritable c = (pm_role c = PrimaryNode \<or> pm_promoted c)"

text \<open>A snapshot is the writable flag with the fields of the controller.\<close>

definition promotion_snapshot :: "promotion \<Rightarrow> bool \<times> promotion" where
  "promotion_snapshot c = (isWritable c, c)"

definition promote :: "int \<Rightarrow> string \<Rightarrow> json \<Rightarrow> promotion \<Rightarrow> (bool \<times> promotion) throws \<times> promotion" where
  "promote now who reason c =
     (if pm_role c \<noteq> ReplicaNode then (throw ''promote: only a replica node can be promoted'', c)
      else let c' = c\<lparr>pm_promoted := True, pm_promotedAt := Some now, pm_promotedBy := Some who, pm_reason := Some reason\<rparr>
           in (returns (promotion_snapshot c'), c'))"

definition demote :: "string \<Rightarrow> json \<Rightarrow> promotion \<Rightarrow> (bool \<times> promotion) throws \<times> promotion" where
  "demote who reason c =
     (if pm_role c \<noteq> ReplicaNode then (throw ''demote: only a replica node can be demoted'', c)
      else let c' = c\<lparr>pm_promoted := False, pm_promotedAt := None, pm_promotedBy := Some who, pm_reason := Some reason\<rparr>
           in (returns (promotion_snapshot c'), c'))"

text \<open>The refusal carries the HTTP status 503.\<close>

definition assertWritable :: "promotion \<Rightarrow> (nat \<times> string) + unit" where
  "assertWritable c = (if isWritable c then Inr () else Inl (503, ''replica_not_promoted''))"

definition PM_MAX_TOKEN_LEN :: nat where
  "PM_MAX_TOKEN_LEN = 256"

text \<open>A header of a request: absent, one value, or an array of values.\<close>

datatype header = NoHeader | OneHeader string | ManyHeaders "string list"

definition constantTimeTokenMatch :: "string option \<Rightarrow> string \<Rightarrow> bool" where
  "constantTimeTokenMatch presented expected = (case presented of
     None \<Rightarrow> False
   | Some p \<Rightarrow>
       if p = [] then False
       else if PM_MAX_TOKEN_LEN < length p \<or> PM_MAX_TOKEN_LEN < length expected then False
       else let a = utf8 p; b = utf8 expected
            in if length b < 32 then False
               else if length a \<noteq> length b then False
               else a = b)"

datatype command_result = CommandOk "bool \<times> promotion" | CommandError string

definition nullish :: "json option \<Rightarrow> json \<Rightarrow> json" where
  "nullish v d = (case v of None \<Rightarrow> d | Some JNull \<Rightarrow> d | Some w \<Rightarrow> w)"

definition handlePromotionCommand ::
    "int \<Rightarrow> promotion \<Rightarrow> header \<Rightarrow> json option \<Rightarrow> string \<Rightarrow> (nat \<times> command_result) \<times> promotion" where
  "handlePromotionCommand now c raw body guardToken = (case raw of
     ManyHeaders hs \<Rightarrow> ((401, CommandError ''unauthorized''), c)
   | _ \<Rightarrow>
       if \<not> constantTimeTokenMatch (case raw of OneHeader h \<Rightarrow> Some h | _ \<Rightarrow> None) guardToken
       then ((401, CommandError ''unauthorized''), c)
       else (case body of
          None \<Rightarrow> ((400, CommandError ''invalid_body''), c)
        | Some b \<Rightarrow>
            if \<not> is_object b then ((400, CommandError ''invalid_body''), c)
            else if field b ''command'' \<notin> {Some (JStr ''promote''), Some (JStr ''demote'')}
            then ((400, CommandError ''invalid_command''), c)
            else (case field b ''by'' of
               Some (JStr who) \<Rightarrow>
                 if who = [] then ((400, CommandError ''missing_by''), c)
                 else (case (if field b ''command'' = Some (JStr ''promote'')
                             then promote now who (nullish (field b ''reason'') (JStr [])) c
                             else demote who (nullish (field b ''reason'') (JStr [])) c) of
                    (Inr snap, c') \<Rightarrow> ((200, CommandOk snap), c')
                  | (Inl e, c') \<Rightarrow> ((409, CommandError e), c'))
             | _ \<Rightarrow> ((400, CommandError ''missing_by''), c))))"

section \<open>admin.ts\<close>

text \<open>The deployment's verifier is a parameter; its answer is \<open>None\<close> when it rejects the promise.\<close>

record admin_config =
  ad_bearerToken :: "string option"
  ad_verifier :: "(header \<Rightarrow> bool throws) option"

definition bearer_of :: "string \<Rightarrow> string" where
  "bearer_of h = (if js_starts_with h ''Bearer '' then drop 7 h else h)"

definition bearer_passes :: "string option \<Rightarrow> header \<Rightarrow> bool" where
  "bearer_passes bearerToken authorization = (case bearerToken of
     None \<Rightarrow> True
   | Some t \<Rightarrow>
       let expected = utf8 t
       in if length expected < 32 then False
          else (case authorization of
             OneHeader authHeader \<Rightarrow>
               let presented = utf8 (bearer_of authHeader)
               in length presented = length expected \<and> presented = expected
           | _ \<Rightarrow> False))"

definition verifyAdminRequest :: "header \<Rightarrow> admin_config option \<Rightarrow> bool throws" where
  "verifyAdminRequest authorization config = (case config of
     None \<Rightarrow> returns False
   | Some cfg \<Rightarrow>
       if \<not> bearer_passes (ad_bearerToken cfg) authorization then returns False
       else and_then (case ad_verifier cfg of None \<Rightarrow> returns True | Some v \<Rightarrow> v authorization) (\<lambda>allowed.
         if \<not> allowed then returns False
         else if ad_bearerToken cfg \<in> {None, Some []} \<and> ad_verifier cfg = None then returns False
         else returns True))"

section \<open>Who makes a replica writable\<close>

type_synonym admin_command = "int \<times> header \<times> json option"

definition run_commands :: "string \<Rightarrow> promotion \<Rightarrow> admin_command list \<Rightarrow> promotion" where
  "run_commands guard c cmds = foldl (\<lambda>c (now, h, b). snd (handlePromotionCommand now c h b guard)) c cmds"

text \<open>The specification: the header is exactly the guard token, which is long enough, and the body
  names the command and a non-empty operator.\<close>

definition proves_guard :: "string \<Rightarrow> header \<Rightarrow> bool" where
  "proves_guard guard h = (h = OneHeader guard \<and> 32 \<le> length (utf8 guard) \<and> length guard \<le> PM_MAX_TOKEN_LEN)"

definition names_operator :: "json \<Rightarrow> bool" where
  "names_operator b = (case field b ''by'' of Some (JStr who) \<Rightarrow> who \<noteq> [] | _ \<Rightarrow> False)"

definition valid_command :: "string \<Rightarrow> string \<Rightarrow> admin_command \<Rightarrow> bool" where
  "valid_command guard cmd e = (case e of (now, h, b) \<Rightarrow> proves_guard guard h
     \<and> (case b of None \<Rightarrow> False | Some v \<Rightarrow> field v ''command'' = Some (JStr cmd) \<and> names_operator v))"

lemma constantTimeTokenMatch_iff:
  "constantTimeTokenMatch presented expected \<longleftrightarrow> presented = Some expected
     \<and> 32 \<le> length (utf8 expected) \<and> length expected \<le> PM_MAX_TOKEN_LEN"
  proof -
  have "32 \<le> length (utf8 expected) \<Longrightarrow> expected \<noteq> []" by (auto simp: utf8_def)
  then show ?thesis
    by (cases presented) (auto simp: constantTimeTokenMatch_def Let_def dest: utf8_inj)
qed

lemma field_Some_object: "field v k = Some w \<Longrightarrow> is_object v"
  by (cases v) auto

lemma handle_unproved:
  "\<not> proves_guard guard h \<Longrightarrow> snd (handlePromotionCommand now c h b guard) = c"
  by (cases h) (auto simp: handlePromotionCommand_def constantTimeTokenMatch_iff proves_guard_def)

lemma handle_proved:
  assumes "proves_guard guard h"
  shows "pm_role (snd (handlePromotionCommand now c h b guard)) = pm_role c"
    and "pm_role c = PrimaryNode \<Longrightarrow> snd (handlePromotionCommand now c h b guard) = c"
    and "pm_role c = ReplicaNode \<Longrightarrow> pm_promoted (snd (handlePromotionCommand now c h b guard)) =
     (if valid_command guard ''promote'' (now, h, b) then True
      else if valid_command guard ''demote'' (now, h, b) then False else pm_promoted c)"
  using assms
  by (auto simp: handlePromotionCommand_def constantTimeTokenMatch_iff proves_guard_def valid_command_def
      promote_def demote_def promotion_snapshot_def Let_def names_operator_def
      split: option.splits json.splits dest: field_Some_object)

lemma new_promotion_simps [simp]: "pm_role (new_promotion r) = r" "pm_promoted (new_promotion r) = False"
  by (simp_all add: new_promotion_def)

lemma run_commands_role: "pm_role (run_commands guard c cmds) = pm_role c"
proof (induction cmds rule: rev_induct)
  case (snoc e cmds)
  obtain now h b where e: "e = (now, h, b)" by (cases e)
  with snoc show ?case
    by (cases "proves_guard guard h") (simp_all add: run_commands_def handle_unproved handle_proved)
qed (simp add: run_commands_def)

text \<open>The last valid command of a list: \<open>Some True\<close> a promotion, \<open>Some False\<close> a demotion.\<close>

definition last_command :: "string \<Rightarrow> admin_command list \<Rightarrow> bool option" where
  "last_command guard cmds = foldl (\<lambda>l e. if valid_command guard ''promote'' e then Some True
     else if valid_command guard ''demote'' e then Some False else l) None cmds"

lemma run_commands_promoted:
  "pm_promoted (run_commands guard (new_promotion ReplicaNode) cmds) \<longleftrightarrow> last_command guard cmds = Some True"
proof (induction cmds rule: rev_induct)
  case Nil
  then show ?case by (simp add: run_commands_def new_promotion_def last_command_def)
next
  case (snoc e cmds)
  let ?c = "run_commands guard (new_promotion ReplicaNode) cmds"
  obtain now h b where e: "e = (now, h, b)" by (cases e)
  have run: "run_commands guard (new_promotion ReplicaNode) (cmds @ [e]) = snd (handlePromotionCommand now ?c h b guard)"
    by (simp add: run_commands_def e)
  have role: "pm_role ?c = ReplicaNode" by (simp add: run_commands_role new_promotion_def)
  have last: "last_command guard (cmds @ [e]) = (if valid_command guard ''promote'' e then Some True
     else if valid_command guard ''demote'' e then Some False else last_command guard cmds)"
    by (simp add: last_command_def)
  show ?case
  proof (cases "proves_guard guard h")
    case True
    with snoc role show ?thesis unfolding run last by (simp add: handle_proved e)
  next
    case False
    then have "\<not> valid_command guard cmd e" for cmd by (simp add: valid_command_def e)
    with False snoc show ?thesis unfolding run last by (simp add: handle_unproved)
  qed
qed

lemma last_command_promote:
  "last_command guard cmds = Some True \<longleftrightarrow> (\<exists>before e after. cmds = before @ e # after
     \<and> valid_command guard ''promote'' e \<and> list_all (\<lambda>d. \<not> valid_command guard ''demote'' d) after)"
  (is "?l cmds \<longleftrightarrow> ?r cmds")
proof (induction cmds rule: rev_induct)
  case Nil
  then show ?case by (simp add: last_command_def)
next
  case (snoc e cmds)
  have excl: "valid_command guard ''promote'' e \<Longrightarrow> \<not> valid_command guard ''demote'' e"
    by (auto simp: valid_command_def split: prod.splits option.splits)
  have "?r (cmds @ [e]) \<longleftrightarrow> valid_command guard ''promote'' e
      \<or> (\<not> valid_command guard ''demote'' e \<and> ?r cmds)" (is "_ \<longleftrightarrow> ?rhs")
  proof
    assume "?r (cmds @ [e])"
    then obtain before d after where d: "cmds @ [e] = before @ d # after"
      "valid_command guard ''promote'' d" "list_all (\<lambda>d. \<not> valid_command guard ''demote'' d) after" by blast
    show ?rhs
    proof (cases after rule: rev_cases)
      case (snoc later f)
      with d(1) have "cmds @ [e] = (before @ d # later) @ [f]" by simp
      then have "cmds = before @ d # later" "f = e" by (simp_all only: append1_eq_conv)
      moreover from d(3) snoc have "list_all (\<lambda>d. \<not> valid_command guard ''demote'' d) later"
        "\<not> valid_command guard ''demote'' f" by simp_all
      ultimately show ?thesis using d(2) by blast
    qed (use d in simp)
  next
    assume ?rhs
    then show "?r (cmds @ [e])"
    proof
      assume "valid_command guard ''promote'' e"
      then show ?thesis by (intro exI [of _ cmds] exI [of _ e] exI [of _ "[]"]) simp
    next
      assume "\<not> valid_command guard ''demote'' e \<and> ?r cmds"
      then obtain before d after where "cmds = before @ d # after" "\<not> valid_command guard ''demote'' e"
        "valid_command guard ''promote'' d" "list_all (\<lambda>d. \<not> valid_command guard ''demote'' d) after" by blast
      then show ?thesis by (intro exI [of _ before] exI [of _ d] exI [of _ "after @ [e]"]) simp
    qed
  qed
  moreover have "?l (cmds @ [e]) \<longleftrightarrow> valid_command guard ''promote'' e
      \<or> (\<not> valid_command guard ''demote'' e \<and> ?l cmds)"
    using excl by (simp add: last_command_def)
  ultimately show ?case using snoc by simp
qed

text \<open>
  C35. A primary is always writable and no administrative command changes that. A replica, started
  unpromoted, is writable after any sequence of commands exactly when some command that presented the
  exact guard token (at least 32 bytes and at most 256 characters) and named an operator was a
  promotion and no such command after it was a demotion; every other command, whatever its headers
  and body, leaves the role of the node as it was.
\<close>
theorem promotion_needs_the_guard:
  "isWritable (run_commands guard (new_promotion role) cmds) \<longleftrightarrow> role = PrimaryNode
     \<or> (\<exists>before e after. cmds = before @ e # after \<and> valid_command guard ''promote'' e
         \<and> list_all (\<lambda>d. \<not> valid_command guard ''demote'' d) after)"
  by (cases role) (simp_all only: isWritable_def run_commands_role run_commands_promoted last_command_promote new_promotion_simps node_role.simps simp_thms)

section \<open>Who may administrate\<close>

lemma bearer_of_iff: "bearer_of h = t \<longleftrightarrow> h = ''Bearer '' @ t \<or> (h = t \<and> \<not> js_starts_with h ''Bearer '')"
  by (auto simp: bearer_of_def js_starts_with_iff prefix_def)

lemma bearer_passes_iff:
  "bearer_passes (Some t) h \<longleftrightarrow> 32 \<le> length (utf8 t)
     \<and> (h = OneHeader (''Bearer '' @ t) \<or> (h = OneHeader t \<and> \<not> js_starts_with t ''Bearer ''))"
proof (cases h)
  case (OneHeader a)
  have "utf8 (bearer_of a) = utf8 t \<longleftrightarrow> bearer_of a = t" by (auto dest: utf8_inj)
  with OneHeader show ?thesis
    by (auto simp: bearer_passes_def Let_def bearer_of_iff)
qed (auto simp: bearer_passes_def Let_def)

text \<open>
  An administrative request is allowed exactly when there is a configuration with a token or
  a verifier, a configured token of at least 32 bytes is presented exactly, with or without the
  \<open>Bearer\<close> prefix, and a configured verifier answers true; without a configuration, or with an empty
  one, every request is refused.
\<close>
theorem admin_request_allowed:
  "verifyAdminRequest h config = returns True \<longleftrightarrow> (\<exists>cfg. config = Some cfg
     \<and> (case ad_bearerToken cfg of None \<Rightarrow> ad_verifier cfg \<noteq> None
        | Some t \<Rightarrow> 32 \<le> length (utf8 t)
            \<and> (h = OneHeader (''Bearer '' @ t) \<or> (h = OneHeader t \<and> \<not> js_starts_with t ''Bearer '')))
     \<and> (case ad_verifier cfg of None \<Rightarrow> True | Some v \<Rightarrow> v h = returns True))"
proof (cases config)
  case (Some cfg)
  have short: "\<not> 32 \<le> length (utf8 [])" by (simp add: utf8_def)
  have "bearer_passes None h" by (simp add: bearer_passes_def)
  with Some short show ?thesis
    by (auto simp: verifyAdminRequest_def bearer_passes_iff and_then_Inr_iff split: option.splits)
qed (simp add: verifyAdminRequest_def)

end
