(* ===== verification/Replica_Envelope.thy ===== *)
theory Replica_Envelope
  imports Audit_Log Hex Promotion Store
begin

text \<open>
  \<^verbatim>\<open>packages/server/src/replica-envelope.ts\<close>: the signed, sequenced envelope of one replicated
  operation and the guard that applies operations in order. An envelope is the JSON value on the
  wire; the HMAC and the hash of \<open>node:crypto\<close> are those of the platform record. \<open>timingSafeEqual\<close> on
  buffers of one length is equality. The interface \<open>apply_guard\<close> states the ordering contract of
  \<open>ReplicaApplyGuard\<close>; the in-memory guard implements it. The theorem: a signature is accepted
  exactly when it is the hexadecimal form of the HMAC of the canonical text, under a long key.
\<close>

section \<open>Constants and the sequence source\<close>

definition REPLICA_ENVELOPE_VERSION :: string where
  "REPLICA_ENVELOPE_VERSION = ''bpc.replica.v1''"

definition DEFAULT_REPLICA_FRESHNESS_MS :: int where
  "DEFAULT_REPLICA_FRESHNESS_MS = 60000"

definition new_sequence_source :: "int \<Rightarrow> int throws" where
  "new_sequence_source initialSequence =
     (if \<not> is_safe_integer initialSequence \<or> initialSequence < 0
      then throw ''initialSequence must be a non-negative safe integer'' else returns initialSequence)"

text \<open>The increment of a double: at \<open>2 ^ 53\<close> adding one changes nothing.\<close>

definition next_sequence :: "int \<Rightarrow> int" where
  "next_sequence n = (if n \<le> MAX_SAFE_INTEGER then n + 1 else n)"

section \<open>Canonical text and digest\<close>

definition ENVELOPE_FIELDS :: "string list" where
  "ENVELOPE_FIELDS = [''op'', ''sentAt'', ''sequence'', ''sourceId'', ''version'']"

text \<open>An absent field is \<open>undefined\<close>, which \<open>JSON.stringify\<close> leaves out.\<close>

definition canonicalReplicaEnvelope :: "json \<Rightarrow> string" where
  "canonicalReplicaEnvelope envelope = canonicalJson (JObj
     (map (\<lambda>k. (k, the (field envelope k))) (filter (\<lambda>k. field envelope k \<noteq> None) ENVELOPE_FIELDS)))"

definition isSafeIdentifier :: "string \<Rightarrow> bool" where
  "isSafeIdentifier s = (1 \<le> length s \<and> length s \<le> 128
     \<and> list_all (\<lambda>c. is_alnum c \<or> c \<in> set ''_.:-'') s)"

definition replicaOperationDigest :: "webcrypto \<Rightarrow> json \<Rightarrow> string" where
  "replicaOperationDigest cr op = sha256hex cr (canonicalJson op)"

section \<open>Signature\<close>

definition assertReplicaKey :: "string \<Rightarrow> unit throws" where
  "assertReplicaKey key = (if length (utf8 key) < 32
     then throw ''replication authentication key must contain at least 32 bytes'' else returns ())"

definition signReplicaEnvelope :: "webcrypto \<Rightarrow> json \<Rightarrow> string \<Rightarrow> string throws" where
  "signReplicaEnvelope cr envelope key = and_then (assertReplicaKey key) (\<lambda>_.
     returns (concat (map hex_byte (wc_hmac cr (utf8 key) (utf8 (canonicalReplicaEnvelope envelope))))))"

definition verifyReplicaEnvelopeSignature :: "webcrypto \<Rightarrow> json \<Rightarrow> string option \<Rightarrow> string \<Rightarrow> bool" where
  "verifyReplicaEnvelopeSignature cr envelope presentedSignature key = (case presentedSignature of
     None \<Rightarrow> False
   | Some presented \<Rightarrow>
       if length presented \<noteq> 64 \<or> \<not> list_all is_hex_char presented then False
       else (case signReplicaEnvelope cr envelope key of
          Inl e \<Rightarrow> False
        | Inr expected \<Rightarrow>
            let a = hex_decode presented; b = hex_decode expected
            in length a = length b \<and> a = b))"

section \<open>Validation\<close>

definition validateReplicaEnvelope :: "json \<Rightarrow> string \<Rightarrow> int \<Rightarrow> int \<Rightarrow> json throws" where
  "validateReplicaEnvelope body expectedSourceId nowMs freshnessMs =
     (case body of
        JObj kvs \<Rightarrow>
          (if field body ''version'' \<noteq> Some (JStr REPLICA_ENVELOPE_VERSION) then throw ''invalid_envelope_version''
           else if field body ''sourceId'' \<noteq> Some (JStr expectedSourceId) \<or> \<not> isSafeIdentifier expectedSourceId
           then throw ''invalid_replica_source''
           else if (case field body ''sequence'' of Some (JNum n) \<Rightarrow> \<not> is_safe_integer n \<or> n < 1 | _ \<Rightarrow> True)
           then throw ''invalid_replica_sequence''
           else (case field body ''sentAt'' of
              Some (JNum sentAt) \<Rightarrow>
                if freshnessMs < \<bar>nowMs - sentAt\<bar> then throw ''replica_request_expired''
                else if (case field body ''op'' of Some v \<Rightarrow> \<not> is_object v | None \<Rightarrow> True)
                then throw ''invalid_replica_op''
                else if length (canonicalJson body) > 65536 then throw ''replica_envelope_too_large''
                else returns body
            | _ \<Rightarrow> throw ''invalid_replica_timestamp''))
      | _ \<Rightarrow> throw ''invalid_envelope'')"

section \<open>The apply guard\<close>

datatype disposition = Applied | Duplicate | Conflict | Stale | Gap | ApplyFailed

fun disposition_text :: "disposition \<Rightarrow> string" where
  "disposition_text Applied = ''applied''"
| "disposition_text Duplicate = ''duplicate''"
| "disposition_text Conflict = ''conflict''"
| "disposition_text Stale = ''stale''"
| "disposition_text Gap = ''gap''"
| "disposition_text ApplyFailed = ''apply_failed''"

type_synonym mem_guard = "(string, int \<times> string) jsmap"

text \<open>The mutation is a function on the replica's store that may throw; the promise chain of the class
  is the atomicity of one call.\<close>

definition mem_applyIfNext ::
    "string \<Rightarrow> int \<Rightarrow> string \<Rightarrow> ('s \<Rightarrow> bool throws \<times> 's) \<Rightarrow> mem_guard \<Rightarrow> 's \<Rightarrow> disposition \<times> mem_guard \<times> 's"
where
  "mem_applyIfNext sourceId seq dig app g st =
     (let state = jm_get g sourceId; last = (case state of None \<Rightarrow> 0 | Some (n, d) \<Rightarrow> n)
      in if seq = last then (if map_option snd state = Some dig then Duplicate else Conflict, g, st)
         else if seq < last then (Stale, g, st)
         else if seq \<noteq> last + 1 then (Gap, g, st)
         else (case app st of
            (Inr True, st') \<Rightarrow> (Applied, jm_set sourceId (seq, dig) g, st')
          | (_, st') \<Rightarrow> (ApplyFailed, g, st')))"

definition lastSequence :: "mem_guard \<Rightarrow> string \<Rightarrow> int" where
  "lastSequence g sourceId = (case jm_get g sourceId of None \<Rightarrow> 0 | Some (n, d) \<Rightarrow> n)"


section \<open>The contract of a guard\<close>

text \<open>
  What \<open>ReplicaApplyGuard\<close> promises the receiver: the accepted sequence of a source advances by one
  exactly when the mutation succeeded, the accepted digest is kept with it, every refusal leaves
  guard and store as they were, an exact retry is recognised and the next operation is let through.
\<close>

locale apply_guard =
  fixes applyIfNext :: "string \<Rightarrow> int \<Rightarrow> string \<Rightarrow> ('s \<Rightarrow> bool throws \<times> 's) \<Rightarrow> 'g \<Rightarrow> 's \<Rightarrow> disposition \<times> 'g \<times> 's"
    and accepted_op :: "'g \<Rightarrow> string \<Rightarrow> (int \<times> string) option"
  assumes applied: "applyIfNext src n d app g s = (Applied, g', s') \<Longrightarrow>
      n = (case accepted_op g src of None \<Rightarrow> 0 | Some (k, _) \<Rightarrow> k) + 1 \<and> app s = (Inr True, s')
      \<and> accepted_op g' = (accepted_op g)(src \<mapsto> (n, d))"
    and failed: "applyIfNext src n d app g s = (ApplyFailed, g', s') \<Longrightarrow>
      snd (app s) = s' \<and> fst (app s) \<noteq> Inr True \<and> accepted_op g' = accepted_op g"
    and refused: "applyIfNext src n d app g s = (r, g', s') \<Longrightarrow> r \<noteq> Applied \<Longrightarrow> r \<noteq> ApplyFailed \<Longrightarrow>
      accepted_op g' = accepted_op g \<and> s' = s"
    and retry: "accepted_op g src = Some (n, d) \<Longrightarrow> fst (applyIfNext src n d app g s) = Duplicate"
    and admit_next: "n = (case accepted_op g src of None \<Rightarrow> 0 | Some (k, _) \<Rightarrow> k) + 1 \<Longrightarrow> fst (app s) = Inr True \<Longrightarrow>
      fst (applyIfNext src n d app g s) = Applied"
    and duplicate: "fst (applyIfNext src n d app g s) = Duplicate \<Longrightarrow>
      accepted_op g src = Some (n, d)"
begin

definition last_of :: "'g \<Rightarrow> string \<Rightarrow> int" where
  "last_of g src = (case accepted_op g src of None \<Rightarrow> 0 | Some (k, _) \<Rightarrow> k)"

lemma other_source:
  assumes "src' \<noteq> src"
  shows "accepted_op (fst (snd (applyIfNext src n d app g s))) src' = accepted_op g src'"
proof -
  obtain r g' s' where r: "applyIfNext src n d app g s = (r, g', s')" by (metis prod_cases3)
  then show ?thesis
    using applied [of src n d app g s g' s'] failed [of src n d app g s g' s'] refused [of src n d app g s r g' s'] assms
    by (cases r) auto
qed

lemma last_of_step:
  "last_of (fst (snd (applyIfNext src n d app g s))) src =
     (if fst (applyIfNext src n d app g s) = Applied then last_of g src + 1 else last_of g src)"
proof -
  obtain r g' s' where r: "applyIfNext src n d app g s = (r, g', s')" by (metis prod_cases3)
  then show ?thesis
    using applied [of src n d app g s g' s'] failed [of src n d app g s g' s'] refused [of src n d app g s r g' s']
    by (cases r) (auto simp: last_of_def)
qed

lemma last_of_mono: "last_of g src \<le> last_of (fst (snd (applyIfNext src n d app g s))) src"
  by (simp add: last_of_step)

lemma apply_once:
  assumes "fst (applyIfNext src n d app g s) = Applied"
  shows "fst (applyIfNext src n d app (fst (snd (applyIfNext src n d app g s))) s') = Duplicate"
proof -
  obtain g' t where "applyIfNext src n d app g s = (Applied, g', t)" using assms by (metis prod.collapse)
  then show ?thesis using applied [of src n d app g s g' t] by (auto intro: retry)
qed

end

text \<open>A guard state holds no entry with sequence 0; the map of the class starts empty.\<close>

lemma mem_guard_duplicate:
  "fst (mem_applyIfNext src n d app g s) = Duplicate \<longleftrightarrow> jm_get g src = Some (n, d)"
  by (auto simp: mem_applyIfNext_def Let_def split: option.splits sum.splits bool.splits prod.splits)

interpretation mem_guard: apply_guard mem_applyIfNext "jm_get :: mem_guard \<Rightarrow> _"
proof unfold_locales
  show "fst (mem_applyIfNext src n d app g s) = Duplicate \<Longrightarrow> jm_get g src = Some (n, d)" for src n d app g s
    by (simp add: mem_guard_duplicate)
qed (auto simp: mem_applyIfNext_def Let_def split: option.splits sum.splits bool.splits prod.splits if_splits)

section \<open>Signatures\<close>

lemma signReplicaEnvelope_iff:
  "signReplicaEnvelope cr envelope key = returns sig \<longleftrightarrow> 32 \<le> length (utf8 key)
     \<and> sig = concat (map hex_byte (wc_hmac cr (utf8 key) (utf8 (canonicalReplicaEnvelope envelope))))"
  by (auto simp: signReplicaEnvelope_def assertReplicaKey_def)

lemma verify_signature_iff:
  "verifyReplicaEnvelopeSignature cr envelope presented key \<longleftrightarrow> 32 \<le> length (utf8 key)
     \<and> (\<exists>p. presented = Some p \<and> length p = 64 \<and> list_all is_hex_char p
         \<and> hex_decode p = wc_hmac cr (utf8 key) (utf8 (canonicalReplicaEnvelope envelope)))"
  by (auto simp: verifyReplicaEnvelopeSignature_def signReplicaEnvelope_def assertReplicaKey_def Let_def
      hex_decode_hex split: option.splits)

lemma signed_verifies:
  assumes "signReplicaEnvelope cr envelope key = returns sig"
    and "length (wc_hmac cr (utf8 key) (utf8 (canonicalReplicaEnvelope envelope))) = 32"
  shows "verifyReplicaEnvelopeSignature cr envelope (Some sig) key"
  using assms by (auto simp: signReplicaEnvelope_iff verify_signature_iff hex_decode_hex length_hex hex_is_hex)

lemma validate_envelope_iff:
  "validateReplicaEnvelope body src now fresh = returns e \<longleftrightarrow> e = body
     \<and> (\<exists>kvs n t v. body = JObj kvs \<and> field body ''version'' = Some (JStr REPLICA_ENVELOPE_VERSION)
         \<and> field body ''sourceId'' = Some (JStr src) \<and> isSafeIdentifier src
         \<and> field body ''sequence'' = Some (JNum n) \<and> is_safe_integer n \<and> 1 \<le> n
         \<and> field body ''sentAt'' = Some (JNum t) \<and> \<bar>now - t\<bar> \<le> fresh
         \<and> field body ''op'' = Some v \<and> is_object v \<and> length (canonicalJson body) \<le> 65536)"
  by (auto simp: validateReplicaEnvelope_def simp del: field.simps split: json.splits option.splits if_splits)

end
