(* ===== verification/Replica_Receiver.thy ===== *)
theory Replica_Receiver
  imports Replica_Envelope Json_Laws
begin

text \<open>
  \<^verbatim>\<open>packages/server/src/replica-receiver.ts\<close>: the replica's side of replication. A pair and
  a registration are the JSON values that arrive on the wire; \<open>wire_store\<close> is the in-memory
  \<open>PairStore\<close> holding such values, keyed like the class's maps. The ingest handler is
  parametric in the guard. The lemmas: what an accepted envelope satisfied, and what each answer
  did to store and guard.
\<close>

section \<open>Operations and the store\<close>

datatype replica_op =
    OpSet (op_pair: json)
  | OpDelete (op_pairId: string)
  | OpSetPending (op_token: string) (op_registration: json) (op_requestedAt: int)
  | OpDeletePending (op_token: string)

fun op_json :: "replica_op \<Rightarrow> json" where
  "op_json (OpSet p) = JObj [(''op'', JStr ''set''), (''pair'', p)]"
| "op_json (OpDelete i) = JObj [(''op'', JStr ''delete''), (''pairId'', JStr i)]"
| "op_json (OpSetPending t r n) = JObj [(''op'', JStr ''setPending''), (''token'', JStr t),
     (''registration'', r), (''requestedAt'', JNum n)]"
| "op_json (OpDeletePending t) = JObj [(''op'', JStr ''deletePending''), (''token'', JStr t)]"

text \<open>The key of a pair is its \<open>id\<close> member, whatever it is; \<open>None\<close> is \<open>undefined\<close>.\<close>

record wire_store =
  ws_pairs :: "(json option, json) jsmap"
  ws_pending :: "(string, json \<times> int) jsmap"

definition empty_wire_store :: wire_store where
  "empty_wire_store = \<lparr>ws_pairs = [], ws_pending = []\<rparr>"

fun apply_op :: "wire_store \<Rightarrow> replica_op \<Rightarrow> wire_store" where
  "apply_op s (OpSet p) = s\<lparr>ws_pairs := jm_set (field p ''id'') p (ws_pairs s)\<rparr>"
| "apply_op s (OpDelete i) = s\<lparr>ws_pairs := jm_delete (Some (JStr i)) (ws_pairs s)\<rparr>"
| "apply_op s (OpSetPending t r n) = s\<lparr>ws_pending := jm_set t (r, n) (ws_pending s)\<rparr>"
| "apply_op s (OpDeletePending t) = s\<lparr>ws_pending := jm_delete t (ws_pending s)\<rparr>"

section \<open>Validation of an operation\<close>

definition RX_MAX_TOKEN_LEN :: nat where
  "RX_MAX_TOKEN_LEN = 256"

definition VALID_SCOPES :: "string list" where
  "VALID_SCOPES = [''read'', ''read-write'', ''admin'']"

definition VALID_MODES :: "string list" where
  "VALID_MODES = [''development'', ''production'']"

definition VALID_STATUSES :: "string list" where
  "VALID_STATUSES = [''active'', ''locked'', ''expired'', ''rotated'', ''revoked'']"

definition VALID_PAIR_KINDS :: "string list" where
  "VALID_PAIR_KINDS = [''legitimate'', ''ghost'']"

definition VALID_CANARY_CLASSES :: "string list" where
  "VALID_CANARY_CLASSES = [''env_file'', ''docs'', ''registry_exfil'']"

definition has_string :: "string list \<Rightarrow> json option \<Rightarrow> bool" where
  "has_string xs v = (case v of Some (JStr s) \<Rightarrow> s \<in> set xs | _ \<Rightarrow> False)"

definition str_where :: "(string \<Rightarrow> bool) \<Rightarrow> json option \<Rightarrow> bool" where
  "str_where P v = (case v of Some (JStr s) \<Rightarrow> P s | _ \<Rightarrow> False)"

definition safe_natural :: "json option \<Rightarrow> bool" where
  "safe_natural v = (case v of Some (JNum n) \<Rightarrow> is_safe_integer n \<and> 0 \<le> n | _ \<Rightarrow> False)"

definition b64url_43 :: "string \<Rightarrow> bool" where
  "b64url_43 s = (length s = 43 \<and> list_all is_b64url_char s)"

definition isValidPairId :: "json option \<Rightarrow> bool" where
  "isValidPairId v = str_where (\<lambda>s. 1 \<le> length s \<and> length s \<le> 64 \<and> list_all is_b64url_char s) v"

definition isValidJwk :: "json option \<Rightarrow> bool" where
  "isValidJwk v = (case v of
     Some (JObj kvs) \<Rightarrow> map_of kvs ''kty'' = Some (JStr ''EC'') \<and> map_of kvs ''crv'' = Some (JStr ''P-256'')
       \<and> str_where b64url_43 (map_of kvs ''x'') \<and> str_where b64url_43 (map_of kvs ''y'')
   | _ \<Rightarrow> False)"

definition isValidRegistration :: "json option \<Rightarrow> bool" where
  "isValidRegistration v = (case v of
     Some (JObj kvs) \<Rightarrow> str_where (\<lambda>s. 1 \<le> length s \<and> length s \<le> 128) (map_of kvs ''name'')
       \<and> has_string VALID_SCOPES (map_of kvs ''scope'') \<and> has_string VALID_MODES (map_of kvs ''mode'')
       \<and> str_where b64url_43 (map_of kvs ''secretHash'') \<and> isValidJwk (map_of kvs ''pubJwk'')
   | _ \<Rightarrow> False)"

definition isValidStoredPair :: "json option \<Rightarrow> bool" where
  "isValidStoredPair v = (isValidRegistration v \<and> (case v of
     Some (JObj kvs) \<Rightarrow>
       (let kind = nullish (map_of kvs ''kind'') (JStr ''legitimate'');
            canaryIsValid = (if kind = JStr ''ghost'' then has_string VALID_CANARY_CLASSES (map_of kvs ''canaryClass'')
              else map_of kvs ''canaryClass'' = None)
        in isValidPairId (map_of kvs ''id'') \<and> has_string VALID_STATUSES (map_of kvs ''status'')
          \<and> safe_natural (map_of kvs ''created'')
          \<and> (map_of kvs ''lastActive'' = Some JNull \<or> safe_natural (map_of kvs ''lastActive''))
          \<and> safe_natural (map_of kvs ''requests'') \<and> safe_natural (map_of kvs ''failedSigs'')
          \<and> (case map_of kvs ''cumulativeFailures'' of None \<Rightarrow> True | Some (JNum n) \<Rightarrow> 0 \<le> n | _ \<Rightarrow> False)
          \<and> (map_of kvs ''firstFailureAt'' \<in> {None, Some JNull} \<or> safe_natural (map_of kvs ''firstFailureAt''))
          \<and> (map_of kvs ''expiresAt'' = None \<or> safe_natural (map_of kvs ''expiresAt''))
          \<and> (map_of kvs ''maxRequests'' = None \<or> safe_natural (map_of kvs ''maxRequests''))
          \<and> has_string VALID_PAIR_KINDS (Some kind) \<and> canaryIsValid)
   | _ \<Rightarrow> False))"

definition valid_token :: "json option \<Rightarrow> bool" where
  "valid_token v = str_where (\<lambda>s. s \<noteq> [] \<and> length s \<le> RX_MAX_TOKEN_LEN) v"

definition validateReplicaOp :: "json \<Rightarrow> replica_op throws" where
  "validateReplicaOp body =
     (if \<not> is_object body then throw ''invalid_body''
      else (case field body ''op'' of
        Some (JStr op) \<Rightarrow>
          (if op = ''set'' then
             (if \<not> isValidStoredPair (field body ''pair'') then throw ''invalid_set''
              else returns (OpSet (the (field body ''pair''))))
           else if op = ''delete'' then
             (case field body ''pairId'' of
                Some (JStr i) \<Rightarrow> if isValidPairId (Some (JStr i)) then returns (OpDelete i) else throw ''invalid_delete''
              | _ \<Rightarrow> throw ''invalid_delete'')
           else if op = ''setPending'' then
             (if \<not> valid_token (field body ''token'') then throw ''invalid_pending_token''
              else if \<not> isValidRegistration (field body ''registration'') then throw ''invalid_pending_registration''
              else (case (field body ''token'', field body ''requestedAt'') of
                 (Some (JStr t), Some (JNum n)) \<Rightarrow> returns (OpSetPending t (the (field body ''registration'')) n)
               | _ \<Rightarrow> throw ''invalid_pending_requestedAt''))
           else if op = ''deletePending'' then
             (case field body ''token'' of
                Some (JStr t) \<Rightarrow> if valid_token (Some (JStr t)) then returns (OpDeletePending t) else throw ''invalid_pending_token''
              | _ \<Rightarrow> throw ''invalid_pending_token'')
           else throw ''unknown_op'')
      | _ \<Rightarrow> throw ''unknown_op''))"

section \<open>Ingest\<close>

definition authorizeReplica :: "webcrypto \<Rightarrow> header \<Rightarrow> json \<Rightarrow> string \<Rightarrow> bool" where
  "authorizeReplica cr raw envelope expectedKey = (case raw of
     ManyHeaders hs \<Rightarrow> False
   | OneHeader h \<Rightarrow> verifyReplicaEnvelopeSignature cr envelope (Some h) expectedKey
   | NoHeader \<Rightarrow> verifyReplicaEnvelopeSignature cr envelope None expectedKey)"

text \<open>The in-memory store does not throw.\<close>

definition applyReplicaOp :: "replica_op \<Rightarrow> wire_store \<Rightarrow> bool throws \<times> wire_store" where
  "applyReplicaOp op st = (returns True, apply_op st op)"

record ingest_reply =
  ir_status :: nat
  ir_ok :: bool
  ir_error :: "string option"

definition refusal :: "nat \<Rightarrow> string \<Rightarrow> ingest_reply" where
  "refusal status e = \<lparr>ir_status = status, ir_ok = False, ir_error = Some e\<rparr>"

definition disposition_reply :: "disposition \<Rightarrow> ingest_reply" where
  "disposition_reply d = (case d of
     Applied \<Rightarrow> \<lparr>ir_status = 200, ir_ok = True, ir_error = None\<rparr>
   | Duplicate \<Rightarrow> \<lparr>ir_status = 200, ir_ok = True, ir_error = Some ''duplicate_ignored''\<rparr>
   | ApplyFailed \<Rightarrow> refusal 500 ''apply_failed''
   | _ \<Rightarrow> refusal 409 (''replica_sequence_'' @ disposition_text d))"

definition seq_of :: "json \<Rightarrow> int" where
  "seq_of envelope = (case field envelope ''sequence'' of Some (JNum n) \<Rightarrow> n | _ \<Rightarrow> 0)"

definition handleReplicaIngest ::
    "webcrypto \<Rightarrow> (string \<Rightarrow> int \<Rightarrow> string \<Rightarrow> (wire_store \<Rightarrow> bool throws \<times> wire_store) \<Rightarrow> 'g \<Rightarrow> wire_store \<Rightarrow> disposition \<times> 'g \<times> wire_store)
       \<Rightarrow> header \<Rightarrow> json \<Rightarrow> string \<Rightarrow> string \<Rightarrow> int \<Rightarrow> 'g \<Rightarrow> wire_store \<Rightarrow> ingest_reply \<times> 'g \<times> wire_store"
where
  "handleReplicaIngest cr applyIfNext headers body expectedKey expectedSourceId nowMs g st =
     (case validateReplicaEnvelope body expectedSourceId nowMs DEFAULT_REPLICA_FRESHNESS_MS of
        Inl e \<Rightarrow> (refusal 400 e, g, st)
      | Inr envelope \<Rightarrow>
          if \<not> authorizeReplica cr headers envelope expectedKey then (refusal 401 ''unauthorized'', g, st)
          else (case validateReplicaOp (the (field envelope ''op'')) of
             Inl e \<Rightarrow> (refusal 400 e, g, st)
           | Inr op \<Rightarrow>
               (case applyIfNext expectedSourceId (seq_of envelope) (replicaOperationDigest cr (op_json op))
                       (applyReplicaOp op) g st of
                  (d, g', st') \<Rightarrow> (disposition_reply d, g', st'))))"


section \<open>What an answer means\<close>

text \<open>
  The conditions an envelope met when it was not refused: fresh, in the expected source's name,
  signed over its canonical text under the shared key, with a valid operation.
\<close>

definition authentic_envelope :: "webcrypto \<Rightarrow> header \<Rightarrow> json \<Rightarrow> string \<Rightarrow> string \<Rightarrow> int \<Rightarrow> replica_op \<Rightarrow> bool" where
  "authentic_envelope cr headers body key src now op =
     (validateReplicaEnvelope body src now DEFAULT_REPLICA_FRESHNESS_MS = returns body
      \<and> (\<exists>p. headers = OneHeader p \<and> verifyReplicaEnvelopeSignature cr body (Some p) key)
      \<and> (\<exists>v. field body ''op'' = Some v \<and> validateReplicaOp v = returns op))"

lemma authorizeReplica_iff:
  "authorizeReplica cr headers body key \<longleftrightarrow> (\<exists>p. headers = OneHeader p \<and> verifyReplicaEnvelopeSignature cr body (Some p) key)"
  by (cases headers) (auto simp: authorizeReplica_def verifyReplicaEnvelopeSignature_def)

text \<open>The receiver as a client of any guard.\<close>

locale replica_receiver = apply_guard applyIfNext accepted_op
  for applyIfNext :: "string \<Rightarrow> int \<Rightarrow> string \<Rightarrow> (wire_store \<Rightarrow> bool throws \<times> wire_store) \<Rightarrow> 'g \<Rightarrow> wire_store
      \<Rightarrow> disposition \<times> 'g \<times> wire_store"
    and accepted_op :: "'g \<Rightarrow> string \<Rightarrow> (int \<times> string) option"
begin

lemma ingest_cases:
  assumes "handleReplicaIngest cr applyIfNext headers body key src now g st = (r, g', st')"
  obtains (rejected) "ir_status r \<noteq> 200" "accepted_op g' = accepted_op g" "st' = st"
  | (accepted) op where "authentic_envelope cr headers body key src now op" "ir_status r = 200"
      "seq_of body = last_of g src + 1" "st' = apply_op st op"
      "accepted_op g' = (accepted_op g)(src \<mapsto> (seq_of body, replicaOperationDigest cr (op_json op)))"
  | (repeated) op where "authentic_envelope cr headers body key src now op" "ir_status r = 200"
      "accepted_op g src = Some (seq_of body, replicaOperationDigest cr (op_json op))"
      "accepted_op g' = accepted_op g" "st' = st"
proof (cases "validateReplicaEnvelope body src now DEFAULT_REPLICA_FRESHNESS_MS")
  case (Inl e)
  with assms show thesis by (intro rejected) (auto simp: handleReplicaIngest_def refusal_def)
next
  case (Inr envelope)
  then have env: "validateReplicaEnvelope body src now DEFAULT_REPLICA_FRESHNESS_MS = returns body"
    by (auto simp: validate_envelope_iff)
  then obtain v where v: "field body ''op'' = Some v" by (auto simp: validate_envelope_iff)
  show thesis
  proof (cases "authorizeReplica cr headers body key")
    case False
    with assms env show thesis by (intro rejected) (auto simp: handleReplicaIngest_def refusal_def)
  next
    case signed: True
    show thesis
    proof (cases "validateReplicaOp v")
      case (Inl e)
      with assms env signed v show thesis by (intro rejected) (auto simp: handleReplicaIngest_def refusal_def)
    next
      case (Inr op)
      let ?dig = "replicaOperationDigest cr (op_json op)"
      have auth: "authentic_envelope cr headers body key src now op"
        using env signed v Inr by (simp add: authentic_envelope_def authorizeReplica_iff)
      from assms env signed v Inr obtain d where
        d: "applyIfNext src (seq_of body) ?dig (applyReplicaOp op) g st = (d, g', st')" and r: "r = disposition_reply d"
        by (auto simp: handleReplicaIngest_def split: prod.splits)
      show thesis
      proof (cases "d = Applied")
        case True
        with applied [OF d [unfolded True]] r auth show thesis
          by (intro accepted) (auto simp: disposition_reply_def applyReplicaOp_def last_of_def)
      next
        case False
        have "d \<noteq> ApplyFailed" using failed [of src _ ?dig "applyReplicaOp op" g st g' st'] d
          by (auto simp: applyReplicaOp_def)
        with False have same: "accepted_op g' = accepted_op g" "st' = st"
          using refused [OF d] by auto
        show thesis
        proof (cases "d = Duplicate")
          case True
          with d duplicate [of src "seq_of body" ?dig "applyReplicaOp op" g st]
          have "accepted_op g src = Some (seq_of body, ?dig)" by simp
          with True auth same r show thesis by (intro repeated) (auto simp: disposition_reply_def)
        next
          case other: False
          with False \<open>d \<noteq> ApplyFailed\<close> r have "ir_status r \<noteq> 200"
            by (cases d) (auto simp: disposition_reply_def refusal_def)
          with same show thesis by (intro rejected) auto
        qed
      qed
    qed
  qed
qed

lemma ingest_next:
  assumes "authentic_envelope cr headers body key src now op" "seq_of body = last_of g src + 1"
  shows "\<exists>r g'. handleReplicaIngest cr applyIfNext headers body key src now g st = (r, g', apply_op st op)
    \<and> ir_status r = 200 \<and> accepted_op g' = (accepted_op g)(src \<mapsto> (seq_of body, replicaOperationDigest cr (op_json op)))"
proof -
  let ?dig = "replicaOperationDigest cr (op_json op)"
  from assms(1) obtain v where v: "field body ''op'' = Some v" "validateReplicaOp v = returns op"
    "validateReplicaEnvelope body src now DEFAULT_REPLICA_FRESHNESS_MS = returns body"
    "authorizeReplica cr headers body key"
    by (auto simp: authentic_envelope_def authorizeReplica_iff)
  have "fst (applyIfNext src (seq_of body) ?dig (applyReplicaOp op) g st) = Applied"
    using assms(2) by (intro admit_next) (auto simp: last_of_def applyReplicaOp_def)
  then obtain g' st' where d: "applyIfNext src (seq_of body) ?dig (applyReplicaOp op) g st = (Applied, g', st')"
    by (metis prod.collapse)
  with applied [OF d] v show ?thesis
    by (auto simp: handleReplicaIngest_def applyReplicaOp_def disposition_reply_def)
qed

lemma ingest_retry:
  assumes "authentic_envelope cr headers body key src now op"
    "accepted_op g src = Some (seq_of body, replicaOperationDigest cr (op_json op))"
  shows "\<exists>r g'. handleReplicaIngest cr applyIfNext headers body key src now g st = (r, g', st)
    \<and> ir_status r = 200 \<and> accepted_op g' = accepted_op g"
proof -
  let ?dig = "replicaOperationDigest cr (op_json op)"
  from assms(1) obtain v where v: "field body ''op'' = Some v" "validateReplicaOp v = returns op"
    "validateReplicaEnvelope body src now DEFAULT_REPLICA_FRESHNESS_MS = returns body"
    "authorizeReplica cr headers body key"
    by (auto simp: authentic_envelope_def authorizeReplica_iff)
  obtain d g' st' where d: "applyIfNext src (seq_of body) ?dig (applyReplicaOp op) g st = (d, g', st')"
    by (metis prod_cases3)
  with retry [OF assms(2), of "applyReplicaOp op" st] have "d = Duplicate" by simp
  with d refused [OF d] v show ?thesis
    by (auto simp: handleReplicaIngest_def disposition_reply_def)
qed

end

interpretation mem_receiver: replica_receiver mem_applyIfNext "jm_get :: mem_guard \<Rightarrow> _"
  by unfold_locales

lemma mem_last_of: "mem_guard.last_of g src = lastSequence g src"
  by (simp add: mem_guard.last_of_def lastSequence_def)


text \<open>
  C37. Whatever arrives, the replica answers 200 only to an envelope in the expected source's name, at
  most a minute old, whose header is the hexadecimal HMAC of its canonical text under a key of at
  least 32 bytes and whose operation passes the validation; it then applied exactly that operation
  as the next of its source, or recognised it as the last one and changed nothing. Every other answer
  leaves the store and the accepted operations of every source as they were.
\<close>
theorem replica_applies_only_signed_next:
  "case handleReplicaIngest cr mem_applyIfNext headers body key src now g st of (r, g', st') \<Rightarrow>
     if ir_status r = 200
     then \<exists>p op t. headers = OneHeader p \<and> 32 \<le> length (utf8 key)
       \<and> hex_decode p = wc_hmac cr (utf8 key) (utf8 (canonicalReplicaEnvelope body))
       \<and> field body ''sourceId'' = Some (JStr src) \<and> field body ''sentAt'' = Some (JNum t) \<and> \<bar>now - t\<bar> \<le> 60000
       \<and> validateReplicaOp (the (field body ''op'')) = returns op
       \<and> (seq_of body = lastSequence g src + 1 \<and> st' = apply_op st op
            \<and> map_of g' = (map_of g)(src \<mapsto> (seq_of body, replicaOperationDigest cr (op_json op)))
          \<or> map_of g src = Some (seq_of body, replicaOperationDigest cr (op_json op)) \<and> st' = st \<and> map_of g' = map_of g)
     else st' = st \<and> map_of g' = map_of g"
proof -
  obtain r g' st' where h: "handleReplicaIngest cr mem_applyIfNext headers body key src now g st = (r, g', st')"
    by (metis prod_cases3)
  then show ?thesis
  proof (cases rule: mem_receiver.ingest_cases)
    case rejected
    with h show ?thesis by simp
  next
    case (accepted op)
    with h show ?thesis
      by (auto simp: authentic_envelope_def validate_envelope_iff verify_signature_iff mem_last_of
        DEFAULT_REPLICA_FRESHNESS_MS_def)
  next
    case (repeated op)
    with h show ?thesis
      by (auto simp: authentic_envelope_def validate_envelope_iff verify_signature_iff DEFAULT_REPLICA_FRESHNESS_MS_def)
  qed
qed

end
