(* ===== verification/Replication.thy ===== *)
theory Replication
  imports Replica_Receiver
begin

text \<open>
  \<^verbatim>\<open>packages/server/src/replicating-store.ts\<close>: the primary's side of replication, and the system of
  primary, network and replica. \<open>repl_store\<close> is \<open>ReplicatingPairStore\<close>; the awaits of its drain loop
  are the phases \<open>Pushing\<close> (a request is in flight) and \<open>Sleeping\<close> (the backoff). A write is one step:
  the store's own queue keeps the order of concurrent writes. \<open>link\<close> joins it with a network that may
  lose, delay, duplicate and reorder messages and with the receiver. The theorems: under any
  schedule the replica is a prefix of the primary's writes; an operation the receiver rejects stops
  it for ever; a write that sheds the operation in flight loses another one; and without shedding
  the queue is delivered completely.
\<close>

section \<open>ReplicatingPairStore\<close>

record replica_target =
  rt_url :: string
  rt_sourceId :: string
  rt_token :: string
  rt_timeoutMs :: "int option"

record repl_options =
  rp_maxQueue :: int
  rp_backoffBaseMs :: int
  rp_backoffMaxMs :: int

definition REPL_DEFAULTS :: repl_options where
  "REPL_DEFAULTS = \<lparr>rp_maxQueue = 5000, rp_backoffBaseMs = 1000, rp_backoffMaxMs = 30000\<rparr>"

definition resolve_options :: "int option \<Rightarrow> int option \<Rightarrow> int option \<Rightarrow> repl_options" where
  "resolve_options maxQueue backoffBaseMs backoffMaxMs = \<lparr>
     rp_maxQueue = (case maxQueue of None \<Rightarrow> rp_maxQueue REPL_DEFAULTS | Some v \<Rightarrow> v),
     rp_backoffBaseMs = (case backoffBaseMs of None \<Rightarrow> rp_backoffBaseMs REPL_DEFAULTS | Some v \<Rightarrow> v),
     rp_backoffMaxMs = (case backoffMaxMs of None \<Rightarrow> rp_backoffMaxMs REPL_DEFAULTS | Some v \<Rightarrow> v)\<rparr>"

text \<open>The flag \<open>draining\<close> is set in every phase but \<open>Idle\<close>.\<close>

datatype drain_phase = Idle | Pushing "int \<times> replica_op" | Sleeping int

record repl_store =
  rs_primary :: wire_store
  rs_queue :: "(int \<times> replica_op) list"
  rs_phase :: drain_phase
  rs_attempt :: nat
  rs_sequence :: int
  rs_opts :: repl_options

definition new_repl_store :: "wire_store \<Rightarrow> int \<Rightarrow> repl_options \<Rightarrow> repl_store" where
  "new_repl_store primary sequenceSource opts = \<lparr>rs_primary = primary, rs_queue = [], rs_phase = Idle,
     rs_attempt = 0, rs_sequence = sequenceSource, rs_opts = opts\<rparr>"

text \<open>Reads go to the primary.\<close>

definition repl_get :: "repl_store \<Rightarrow> string \<Rightarrow> json option" where
  "repl_get rs pairId = jm_get (ws_pairs (rs_primary rs)) (Some (JStr pairId))"

definition repl_list :: "repl_store \<Rightarrow> json list" where
  "repl_list rs = map snd (ws_pairs (rs_primary rs))"

definition repl_getPending :: "repl_store \<Rightarrow> string \<Rightarrow> (json \<times> int) option" where
  "repl_getPending rs token = jm_get (ws_pending (rs_primary rs)) token"

definition repl_listPending :: "repl_store \<Rightarrow> (string \<times> json \<times> int) list" where
  "repl_listPending rs = ws_pending (rs_primary rs)"

definition queueDepth :: "repl_store \<Rightarrow> nat" where
  "queueDepth rs = length (rs_queue rs)"

text \<open>The turn of the drain loop: it pushes the head of the queue, or ends.\<close>

definition next_push :: "repl_store \<Rightarrow> repl_store \<times> (int \<times> replica_op) option" where
  "next_push rs = (case rs_queue rs of
     [] \<Rightarrow> (rs\<lparr>rs_phase := Idle\<rparr>, None)
   | queued # _ \<Rightarrow> (rs\<lparr>rs_phase := Pushing queued\<rparr>, Some queued))"

definition drain :: "repl_store \<Rightarrow> repl_store \<times> (int \<times> replica_op) option" where
  "drain rs = (if rs_phase rs \<noteq> Idle then (rs, None) else next_push rs)"

text \<open>The third result is the operation reported to \<open>onDrop\<close> with the queue depth.\<close>

definition enqueue :: "replica_op \<Rightarrow> repl_store \<Rightarrow> repl_store \<times> (int \<times> replica_op) option \<times> (replica_op \<times> nat) option" where
  "enqueue op rs =
     (let seq = next_sequence (rs_sequence rs);
          full = rp_maxQueue (rs_opts rs) \<le> int (length (rs_queue rs));
          kept = (if full then tl (rs_queue rs) else rs_queue rs);
          dropped = (if full \<and> rs_queue rs \<noteq> [] then Some (snd (hd (rs_queue rs)), length kept) else None);
          (rs', out) = drain (rs\<lparr>rs_sequence := seq, rs_queue := kept @ [(seq, op)]\<rparr>)
      in (rs', out, dropped))"

text \<open>\<open>set\<close>, \<open>delete\<close>, \<open>setPending\<close> and \<open>deletePending\<close>: the primary first, then the queue.\<close>

definition repl_write :: "replica_op \<Rightarrow> repl_store \<Rightarrow> repl_store \<times> (int \<times> replica_op) option \<times> (replica_op \<times> nat) option" where
  "repl_write op rs = enqueue op (rs\<lparr>rs_primary := apply_op (rs_primary rs) op\<rparr>)"

definition repl_set :: "json \<Rightarrow> repl_store \<Rightarrow> repl_store \<times> (int \<times> replica_op) option \<times> (replica_op \<times> nat) option" where
  "repl_set p rs = repl_write (OpSet p) rs"

definition repl_delete :: "string \<Rightarrow> repl_store \<Rightarrow> repl_store \<times> (int \<times> replica_op) option \<times> (replica_op \<times> nat) option" where
  "repl_delete pairId rs = repl_write (OpDelete pairId) rs"

definition repl_setPending :: "string \<Rightarrow> json \<Rightarrow> int \<Rightarrow> repl_store \<Rightarrow> repl_store \<times> (int \<times> replica_op) option \<times> (replica_op \<times> nat) option" where
  "repl_setPending token registration requestedAt rs = repl_write (OpSetPending token registration requestedAt) rs"

definition repl_deletePending :: "string \<Rightarrow> repl_store \<Rightarrow> repl_store \<times> (int \<times> replica_op) option \<times> (replica_op \<times> nat) option" where
  "repl_deletePending token rs = repl_write (OpDeletePending token) rs"

definition backoff :: "repl_store \<Rightarrow> int" where
  "backoff rs = min (rp_backoffBaseMs (rs_opts rs) * 2 ^ min (rs_attempt rs) 10) (rp_backoffMaxMs (rs_opts rs))"

text \<open>The push in flight resolves: on success the loop shifts the queue, whatever its head is by then.\<close>

definition push_result :: "bool \<Rightarrow> repl_store \<Rightarrow> repl_store \<times> (int \<times> replica_op) option" where
  "push_result ok rs =
     (if ok then next_push (rs\<lparr>rs_queue := tl (rs_queue rs), rs_attempt := 0\<rparr>)
      else let rs' = rs\<lparr>rs_attempt := rs_attempt rs + 1\<rparr> in (rs'\<lparr>rs_phase := Sleeping (backoff rs')\<rparr>, None))"

definition envelope_json :: "string \<Rightarrow> int \<Rightarrow> int \<Rightarrow> replica_op \<Rightarrow> json" where
  "envelope_json sourceId seq sentAt op = JObj [(''version'', JStr REPLICA_ENVELOPE_VERSION),
     (''sourceId'', JStr sourceId), (''sequence'', JNum seq), (''sentAt'', JNum sentAt), (''op'', op_json op)]"

text \<open>The body and the signature header of the request a push makes; a short key throws before it.\<close>

definition push_message :: "webcrypto \<Rightarrow> replica_target \<Rightarrow> int \<Rightarrow> int \<times> replica_op \<Rightarrow> (string \<times> string) throws" where
  "push_message cr target now q = (let envelope = envelope_json (rt_sourceId target) (fst q) now (snd q)
     in and_then (signReplicaEnvelope cr envelope (rt_token target)) (\<lambda>signature.
        returns (stringify envelope, signature)))"

section \<open>Primary, network and replica\<close>

text \<open>
  \<open>l_wire\<close> holds every request ever sent, \<open>l_flight\<close> the one the current push waits for, \<open>l_acked\<close>
  whether a 2xx answer to it exists.
\<close>

record link =
  l_store :: repl_store
  l_wire :: "(string \<times> string) list"
  l_flight :: "nat option"
  l_acked :: bool
  l_guard :: mem_guard
  l_replica :: wire_store

datatype link_event =
    LWrite replica_op int
  | LReply bool int
  | LWake int
  | LDeliver nat int

definition transmit :: "webcrypto \<Rightarrow> replica_target \<Rightarrow> int \<Rightarrow> repl_store \<times> (int \<times> replica_op) option \<Rightarrow> link \<Rightarrow> link" where
  "transmit cr target now r l = (case snd r of
     None \<Rightarrow> l\<lparr>l_store := fst r\<rparr>
   | Some q \<Rightarrow> (case push_message cr target now q of
       Inl e \<Rightarrow> l\<lparr>l_store := fst r, l_flight := None, l_acked := False\<rparr>
     | Inr m \<Rightarrow> l\<lparr>l_store := fst r, l_wire := l_wire l @ [m], l_flight := Some (length (l_wire l)), l_acked := False\<rparr>))"

definition deliver :: "webcrypto \<Rightarrow> replica_target \<Rightarrow> nat \<Rightarrow> int \<Rightarrow> link \<Rightarrow> link" where
  "deliver cr target i now l =
     (if length (l_wire l) \<le> i then l
      else (case json_parse (fst (l_wire l ! i)) of
        Inl e \<Rightarrow> l
      | Inr body \<Rightarrow>
          (case handleReplicaIngest cr mem_applyIfNext (OneHeader (snd (l_wire l ! i))) body (rt_token target)
                  (rt_sourceId target) now (l_guard l) (l_replica l) of
             (r, g', st') \<Rightarrow> l\<lparr>l_guard := g', l_replica := st',
               l_acked := l_acked l \<or> (l_flight l = Some i \<and> ir_status r = 200)\<rparr>)))"

fun link_step :: "webcrypto \<Rightarrow> replica_target \<Rightarrow> link \<Rightarrow> link_event \<Rightarrow> link" where
  "link_step cr target l (LWrite op now) = (case repl_write op (l_store l) of
     (rs, out, dropped) \<Rightarrow> transmit cr target now (rs, out) l)"
| "link_step cr target l (LReply arrived now) = (case rs_phase (l_store l) of
     Pushing q \<Rightarrow> transmit cr target now (push_result (arrived \<and> l_acked l) (l_store l)) l
   | _ \<Rightarrow> l)"
| "link_step cr target l (LWake now) = (case rs_phase (l_store l) of
     Sleeping ms \<Rightarrow> transmit cr target now (next_push (l_store l)) l
   | _ \<Rightarrow> l)"
| "link_step cr target l (LDeliver i now) = deliver cr target i now l"

definition new_link :: "wire_store \<Rightarrow> repl_options \<Rightarrow> link" where
  "new_link snapshot opts = \<lparr>l_store = new_repl_store snapshot 0 opts, l_wire = [], l_flight = None,
     l_acked = False, l_guard = [], l_replica = snapshot\<rparr>"

definition link_run :: "webcrypto \<Rightarrow> replica_target \<Rightarrow> link \<Rightarrow> link_event list \<Rightarrow> link" where
  "link_run cr target l es = foldl (link_step cr target) l es"

fun writes_of :: "link_event list \<Rightarrow> replica_op list" where
  "writes_of [] = []"
| "writes_of (LWrite op now # es) = op # writes_of es"
| "writes_of (_ # es) = writes_of es"

section \<open>Messages\<close>

definition receivable :: "replica_op \<Rightarrow> bool" where
  "receivable op = (validateReplicaOp (op_json op) = returns op)"

definition wf_op :: "replica_op \<Rightarrow> bool" where
  "wf_op op = wf_json (op_json op)"

lemma validated_op: "validateReplicaOp (op_json op) = returns op' \<Longrightarrow> op' = op"
  by (cases op) (auto simp: validateReplicaOp_def isValidPairId_def split: if_splits option.splits json.splits)

lemma not_receivable: "\<not> receivable op \<Longrightarrow> \<exists>e. validateReplicaOp (op_json op) = throw e"
  unfolding receivable_def by (cases "validateReplicaOp (op_json op)") (auto dest: validated_op)

lemma envelope_fields:
  "field (envelope_json src s t op) ''version'' = Some (JStr REPLICA_ENVELOPE_VERSION)"
  "field (envelope_json src s t op) ''sourceId'' = Some (JStr src)"
  "field (envelope_json src s t op) ''sequence'' = Some (JNum s)"
  "field (envelope_json src s t op) ''sentAt'' = Some (JNum t)"
  "field (envelope_json src s t op) ''op'' = Some (op_json op)"
  by (simp_all add: envelope_json_def)

lemma seq_of_envelope [simp]: "seq_of (envelope_json src s t op) = s"
  by (simp add: seq_of_def envelope_fields)

lemma wf_envelope: "wf_op op \<Longrightarrow> wf_json (envelope_json src s t op)"
  by (simp add: wf_op_def envelope_json_def obj_order_def is_index_key_def is_digit_def)

lemma is_object_op [simp]: "is_object (op_json op)"
  by (cases op) auto

section \<open>Numbering\<close>

text \<open>The number of the \<open>k\<close>-th write: the counter of a double stops at \<open>2 ^ 53\<close>.\<close>

definition nth_seq :: "nat \<Rightarrow> int" where
  "nth_seq k = min (int k) (MAX_SAFE_INTEGER + 1)"

lemma next_nth_seq: "next_sequence (nth_seq k) = nth_seq (Suc k)"
  by (auto simp: next_sequence_def nth_seq_def MAX_SAFE_INTEGER_def)

lemma nth_seq_safe: "is_safe_integer (nth_seq k) \<Longrightarrow> nth_seq k = int k"
  by (auto simp: is_safe_integer_def nth_seq_def MAX_SAFE_INTEGER_def)

definition numbered :: "replica_op list \<Rightarrow> int \<times> replica_op \<Rightarrow> bool" where
  "numbered ws q = (\<exists>i < length ws. q = (nth_seq (Suc i), ws ! i))"

lemma numbered_append: "numbered ws q \<Longrightarrow> numbered (ws @ ops) q"
  by (auto simp: numbered_def nth_append)

lemma numbered_new: "numbered (ws @ [op]) (nth_seq (Suc (length ws)), op)"
  by (auto simp: numbered_def intro!: exI [of _ "length ws"])

section \<open>The invariant of every schedule\<close>

text \<open>The primary holds all writes, whatever is queued, in flight or on the network is a numbered write,
  and the replica holds the writes up to the sequence its guard accepted, all of them receivable.\<close>

definition sent_ok :: "replica_target \<Rightarrow> replica_op list \<Rightarrow> string \<times> string \<Rightarrow> bool" where
  "sent_ok target ws m = (\<exists>s t op. numbered ws (s, op) \<and> fst m = stringify (envelope_json (rt_sourceId target) s t op))"

definition store_ok :: "wire_store \<Rightarrow> replica_op list \<Rightarrow> repl_store \<Rightarrow> bool" where
  "store_ok st0 ws rs = (rs_primary rs = foldl apply_op st0 ws \<and> rs_sequence rs = nth_seq (length ws)
     \<and> list_all (numbered ws) (rs_queue rs))"

definition replica_ok :: "replica_target \<Rightarrow> wire_store \<Rightarrow> replica_op list \<Rightarrow> link \<Rightarrow> nat \<Rightarrow> bool" where
  "replica_ok target st0 ws l n = (n \<le> length ws \<and> l_replica l = foldl apply_op st0 (take n ws)
     \<and> lastSequence (l_guard l) (rt_sourceId target) = int n \<and> list_all receivable (take n ws))"

definition link_ok :: "replica_target \<Rightarrow> wire_store \<Rightarrow> replica_op list \<Rightarrow> link \<Rightarrow> bool" where
  "link_ok target st0 ws l = (list_all wf_op ws \<and> store_ok st0 ws (l_store l)
     \<and> list_all (sent_ok target ws) (l_wire l) \<and> (\<exists>n. replica_ok target st0 ws l n))"

lemma sent_ok_append: "sent_ok target ws m \<Longrightarrow> sent_ok target (ws @ ops) m"
  unfolding sent_ok_def by (blast intro: numbered_append)

lemma replica_ok_append: "replica_ok target st0 ws l n \<Longrightarrow> replica_ok target st0 (ws @ ops) l n"
  by (simp add: replica_ok_def)

lemma push_message_text:
  "push_message cr target now q = returns m \<Longrightarrow> fst m = stringify (envelope_json (rt_sourceId target) (fst q) now (snd q))"
  by (cases "signReplicaEnvelope cr (envelope_json (rt_sourceId target) (fst q) now (snd q)) (rt_token target)")
     (auto simp: push_message_def Let_def)

lemma next_push_out: "next_push rs = (rs', out) \<Longrightarrow> rs_primary rs' = rs_primary rs \<and> rs_sequence rs' = rs_sequence rs
    \<and> rs_queue rs' = rs_queue rs \<and> (case out of None \<Rightarrow> True | Some q \<Rightarrow> q \<in> set (rs_queue rs))"
  by (auto simp: next_push_def split: list.splits)

lemma drain_out: "drain rs = (rs', out) \<Longrightarrow> rs_primary rs' = rs_primary rs \<and> rs_sequence rs' = rs_sequence rs
    \<and> rs_queue rs' = rs_queue rs \<and> (case out of None \<Rightarrow> True | Some q \<Rightarrow> q \<in> set (rs_queue rs))"
  by (auto simp: drain_def next_push_out split: if_splits)

lemma list_all_tl: "list_all P xs \<Longrightarrow> list_all P (tl xs)"
  by (cases xs) auto

definition kept :: "repl_store \<Rightarrow> (int \<times> replica_op) list" where
  "kept rs = (if rp_maxQueue (rs_opts rs) \<le> int (length (rs_queue rs)) then tl (rs_queue rs) else rs_queue rs)"

lemma list_all_kept: "list_all P (rs_queue rs) \<Longrightarrow> list_all P (kept rs)"
  by (simp add: kept_def list_all_tl)

lemma repl_write_drain:
  "repl_write op rs = (rs', out, dropped) \<Longrightarrow>
     drain (rs\<lparr>rs_primary := apply_op (rs_primary rs) op, rs_sequence := next_sequence (rs_sequence rs),
       rs_queue := kept rs @ [(next_sequence (rs_sequence rs), op)]\<rparr>) = (rs', out)"
  by (cases "rp_maxQueue (rs_opts rs) \<le> int (length (rs_queue rs))")
     (simp_all add: repl_write_def enqueue_def kept_def Let_def split: prod.splits)

lemma store_ok_write:
  assumes "store_ok st0 ws rs" "repl_write op rs = (rs', out, dropped)"
  shows "store_ok st0 (ws @ [op]) rs' \<and> (case out of None \<Rightarrow> True | Some q \<Rightarrow> numbered (ws @ [op]) q)"
proof -
  have "list_all (numbered (ws @ [op])) (rs_queue rs)"
    using assms(1) by (auto simp: store_ok_def list_all_iff intro: numbered_append)
  then have "list_all (numbered (ws @ [op])) (kept rs @ [(nth_seq (Suc (length ws)), op)])"
    by (simp add: list_all_kept numbered_new)
  with assms(1) drain_out [OF repl_write_drain [OF assms(2)]] show ?thesis
    by (auto simp: store_ok_def next_nth_seq list_all_iff split: option.splits)
qed

lemma store_ok_push:
  assumes "store_ok st0 ws rs" "push_result ok rs = (rs', out)"
  shows "store_ok st0 ws rs' \<and> (case out of None \<Rightarrow> True | Some q \<Rightarrow> numbered ws q)"
  using assms list_all_tl [of "numbered ws" "rs_queue rs"]
  by (auto simp: push_result_def store_ok_def Let_def list_all_iff split: if_splits option.splits dest!: next_push_out)

lemma store_ok_next:
  assumes "store_ok st0 ws rs" "next_push rs = (rs', out)"
  shows "store_ok st0 ws rs' \<and> (case out of None \<Rightarrow> True | Some q \<Rightarrow> numbered ws q)"
  using assms by (auto simp: store_ok_def list_all_iff split: option.splits dest!: next_push_out)

lemma link_ok_transmit:
  assumes "list_all wf_op ws" "store_ok st0 ws (fst r)" "case snd r of None \<Rightarrow> True | Some q \<Rightarrow> numbered ws q"
    "list_all (sent_ok target ws) (l_wire l)" "replica_ok target st0 ws l n"
  shows "link_ok target st0 ws (transmit cr target now r l)"
proof (cases "snd r")
  case None
  with assms show ?thesis by (auto simp: transmit_def link_ok_def replica_ok_def)
next
  case (Some q)
  then have "numbered ws (fst q, snd q)" using assms(3) by simp
  then have "push_message cr target now q = returns m \<Longrightarrow> sent_ok target ws m" for m
    unfolding sent_ok_def by (blast dest: push_message_text)
  with Some assms show ?thesis
    by (auto simp: transmit_def link_ok_def replica_ok_def split: sum.splits)
qed

lemma authentic_sent:
  assumes "authentic_envelope cr h (envelope_json src s t op) key src' now op'"
  shows "op' = op" "receivable op" "is_safe_integer s"
proof -
  from assms have v: "validateReplicaOp (op_json op) = returns op'"
    by (auto simp: authentic_envelope_def envelope_fields)
  then show "op' = op" by (rule validated_op)
  with v show "receivable op" by (simp add: receivable_def)
  from assms show "is_safe_integer s"
    by (auto simp: authentic_envelope_def validate_envelope_iff envelope_fields)
qed

lemma lastSequence_upd: "map_of g' = (map_of g)(src \<mapsto> (s, d)) \<Longrightarrow> lastSequence g' src = s"
  by (simp add: lastSequence_def)

lemma replica_ok_ingest:
  assumes "replica_ok target st0 ws l n" "numbered ws (s, op)"
    and h: "handleReplicaIngest cr mem_applyIfNext hdr (envelope_json (rt_sourceId target) s t op) key (rt_sourceId target) now
      (l_guard l) (l_replica l) = (r, g', st')"
  shows "\<exists>n'. replica_ok target st0 ws (l\<lparr>l_guard := g', l_replica := st', l_acked := a\<rparr>) n'"
  using h
proof (cases rule: mem_receiver.ingest_cases)
  case rejected
  with assms(1) show ?thesis by (intro exI [of _ n]) (simp add: replica_ok_def lastSequence_def)
next
  case (accepted op')
  note same = authentic_sent [OF accepted(1)]
  from assms(1) have n: "lastSequence (l_guard l) (rt_sourceId target) = int n" by (simp add: replica_ok_def)
  from assms(2) obtain j where j: "j < length ws" "s = nth_seq (Suc j)" "op = ws ! j"
    by (auto simp: numbered_def)
  with same(3) have "s = int (Suc j)" using nth_seq_safe [of "Suc j"] by simp
  with accepted(3) n have "j = n" by (simp add: mem_last_of)
  with j have t: "take (Suc n) ws = take n ws @ [op]" by (simp add: take_Suc_conv_app_nth)
  have "lastSequence g' (rt_sourceId target) = s" using accepted(5) by (simp add: lastSequence_def)
  with t j assms(1) same accepted(4) \<open>j = n\<close> \<open>s = int (Suc j)\<close> show ?thesis
    by (intro exI [of _ "Suc n"]) (simp add: replica_ok_def)
next
  case (repeated op')
  with assms(1) show ?thesis by (intro exI [of _ n]) (simp add: replica_ok_def lastSequence_def)
qed

lemma link_ok_deliver:
  assumes "link_ok target st0 ws l"
  shows "link_ok target st0 ws (deliver cr target i now l)"
proof (cases "length (l_wire l) \<le> i")
  case True
  with assms show ?thesis by (simp add: deliver_def)
next
  case False
  with assms have "sent_ok target ws (l_wire l ! i)" by (auto simp: link_ok_def list_all_length)
  then obtain s t op where m: "numbered ws (s, op)" "fst (l_wire l ! i) = stringify (envelope_json (rt_sourceId target) s t op)"
    by (auto simp: sent_ok_def)
  with assms have "wf_op op" by (auto simp: numbered_def link_ok_def list_all_length)
  with m have parse: "json_parse (fst (l_wire l ! i)) = returns (envelope_json (rt_sourceId target) s t op)"
    by (simp add: json_parse_stringify wf_envelope)
  from assms obtain n where n: "replica_ok target st0 ws l n" by (auto simp: link_ok_def)
  obtain r g' st' where h: "handleReplicaIngest cr mem_applyIfNext (OneHeader (snd (l_wire l ! i)))
      (envelope_json (rt_sourceId target) s t op) (rt_token target) (rt_sourceId target) now (l_guard l) (l_replica l) = (r, g', st')"
    by (metis prod_cases3)
  from replica_ok_ingest [OF n m(1) h] False parse h assms show ?thesis
    by (auto simp: deliver_def link_ok_def)
qed

fun log_of :: "replica_op list \<Rightarrow> link_event \<Rightarrow> replica_op list" where
  "log_of ws (LWrite op now) = ws @ [op]"
| "log_of ws _ = ws"

lemma writes_of_append: "writes_of (es @ [e]) = log_of (writes_of es) e"
  by (induction es rule: writes_of.induct) (cases e; simp)+

lemma link_ok_step:
  assumes "link_ok target st0 ws l" "list_all wf_op (log_of ws e)"
  shows "link_ok target st0 (log_of ws e) (link_step cr target l e)"
proof (cases e)
  case (LWrite op now)
  obtain rs out dropped where w: "repl_write op (l_store l) = (rs, out, dropped)" by (metis prod_cases3)
  from assms obtain n where n: "replica_ok target st0 (ws @ [op]) l n" by (auto simp: link_ok_def intro: replica_ok_append)
  have sent: "list_all (sent_ok target (ws @ [op])) (l_wire l)"
    using assms(1) by (auto simp: link_ok_def list_all_iff intro: sent_ok_append)
  from store_ok_write [OF _ w] assms LWrite
  have "store_ok st0 (ws @ [op]) rs" "case out of None \<Rightarrow> True | Some q \<Rightarrow> numbered (ws @ [op]) q"
    by (auto simp: link_ok_def)
  with link_ok_transmit [OF _ _ _ sent n, of "(rs, out)"] assms(2) LWrite w show ?thesis by simp
next
  case (LReply arrived now)
  obtain rs out where p: "push_result (arrived \<and> l_acked l) (l_store l) = (rs, out)" by fastforce
  with assms LReply show ?thesis using store_ok_push [OF _ p]
    by (auto simp: link_ok_def [of _ _ _ l] intro!: link_ok_transmit split: drain_phase.split)
next
  case (LWake now)
  obtain rs out where p: "next_push (l_store l) = (rs, out)" by fastforce
  with assms LWake show ?thesis using store_ok_next [OF _ p]
    by (auto simp: link_ok_def [of _ _ _ l] intro!: link_ok_transmit split: drain_phase.split)
next
  case (LDeliver i now)
  with assms show ?thesis by (simp add: link_ok_deliver)
qed

lemma list_all_log_of: "list_all P (log_of ws e) \<Longrightarrow> list_all P ws"
  by (cases e) auto

lemma link_ok_new: "link_ok target st0 [] (new_link st0 opts)"
  by (simp add: link_ok_def new_link_def store_ok_def new_repl_store_def replica_ok_def lastSequence_def nth_seq_def
      MAX_SAFE_INTEGER_def)

lemma link_ok_run:
  "list_all wf_op (writes_of es) \<Longrightarrow> link_ok target st0 (writes_of es) (link_run cr target (new_link st0 opts) es)"
proof (induction es rule: rev_induct)
  case Nil
  then show ?case by (simp add: link_run_def link_ok_new)
next
  case (snoc e es)
  then show ?case
    by (simp add: link_run_def writes_of_append link_ok_step list_all_log_of)
qed

lemma link_run_prefix:
  assumes "list_all wf_op (writes_of es)" "l = link_run cr target (new_link snapshot opts) es"
  shows "rs_primary (l_store l) = foldl apply_op snapshot (writes_of es)
    \<and> (\<exists>n \<le> length (writes_of es). l_replica l = foldl apply_op snapshot (take n (writes_of es))
         \<and> lastSequence (l_guard l) (rt_sourceId target) = int n \<and> list_all receivable (take n (writes_of es)))"
  using link_ok_run [OF assms(1), of target snapshot cr opts] unfolding assms(2) link_ok_def store_ok_def replica_ok_def by blast

section \<open>Delivery of one push\<close>

text \<open>What a push needs to be accepted: a long key, a 32-byte tag, a safe source name, a safe number, an
  envelope of at most 64 KiB and an operation the receiver validates.\<close>

definition deliverable :: "webcrypto \<Rightarrow> replica_target \<Rightarrow> int \<Rightarrow> int \<times> replica_op \<Rightarrow> bool" where
  "deliverable cr target now q = (let e = envelope_json (rt_sourceId target) (fst q) now (snd q)
     in wf_op (snd q) \<and> receivable (snd q) \<and> 32 \<le> length (utf8 (rt_token target))
       \<and> length (wc_hmac cr (utf8 (rt_token target)) (utf8 (canonicalReplicaEnvelope e))) = 32
       \<and> isSafeIdentifier (rt_sourceId target) \<and> is_safe_integer (fst q) \<and> 1 \<le> fst q
       \<and> length (canonicalJson e) \<le> 65536)"

lemma deliverable_message:
  assumes "deliverable cr target now q"
  obtains sig where
    "push_message cr target now q = returns (stringify (envelope_json (rt_sourceId target) (fst q) now (snd q)), sig)"
    "json_parse (stringify (envelope_json (rt_sourceId target) (fst q) now (snd q))) =
       returns (envelope_json (rt_sourceId target) (fst q) now (snd q))"
    "authentic_envelope cr (OneHeader sig) (envelope_json (rt_sourceId target) (fst q) now (snd q))
       (rt_token target) (rt_sourceId target) now (snd q)"
proof -
  let ?e = "envelope_json (rt_sourceId target) (fst q) now (snd q)"
  from assms obtain sig where sig: "signReplicaEnvelope cr ?e (rt_token target) = returns sig"
    by (simp add: deliverable_def Let_def signReplicaEnvelope_iff)
  moreover from assms sig have "verifyReplicaEnvelopeSignature cr ?e (Some sig) (rt_token target)"
    by (intro signed_verifies) (auto simp: deliverable_def Let_def)
  moreover have "validateReplicaEnvelope ?e (rt_sourceId target) now DEFAULT_REPLICA_FRESHNESS_MS = returns ?e"
    using assms by (auto simp: validate_envelope_iff envelope_fields deliverable_def Let_def
        DEFAULT_REPLICA_FRESHNESS_MS_def) (simp add: envelope_json_def)
  moreover have "json_parse (stringify ?e) = returns ?e"
    using assms by (simp add: json_parse_stringify wf_envelope deliverable_def Let_def)
  ultimately show thesis
    using assms by (intro that) (auto simp: push_message_def Let_def authentic_envelope_def envelope_fields
        deliverable_def receivable_def)
qed

lemma deliver_next:
  assumes "i < length (l_wire l)" "deliverable cr target now q" "push_message cr target now q = returns (l_wire l ! i)"
    "fst q = lastSequence (l_guard l) (rt_sourceId target) + 1"
  shows "\<exists>g'. deliver cr target i now l = l\<lparr>l_guard := g', l_replica := apply_op (l_replica l) (snd q),
       l_acked := l_acked l \<or> l_flight l = Some i\<rparr>
     \<and> map_of g' = (map_of (l_guard l))(rt_sourceId target \<mapsto> (fst q, replicaOperationDigest cr (op_json (snd q))))"
proof -
  obtain sig where sig: "l_wire l ! i = (stringify (envelope_json (rt_sourceId target) (fst q) now (snd q)), sig)"
    "json_parse (fst (l_wire l ! i)) = returns (envelope_json (rt_sourceId target) (fst q) now (snd q))"
    "authentic_envelope cr (OneHeader sig) (envelope_json (rt_sourceId target) (fst q) now (snd q))
       (rt_token target) (rt_sourceId target) now (snd q)"
    using deliverable_message [OF assms(2)] assms(3) by (metis fst_conv sum.inject(2))
  from mem_receiver.ingest_next [OF sig(3), of "l_guard l" "l_replica l"] assms(1,4) sig(1,2)
  show ?thesis by (auto simp: deliver_def mem_last_of)
qed

section \<open>Theorems for every schedule\<close>

text \<open>
  C38. The replica refines a prefix. Start the replica from the primary's snapshot. After any schedule
  of writes, lost or late answers, wake-ups and deliveries (in any order, repeated, or never), and
  with any queue bound, the primary holds all writes and the replica holds exactly the first
  \<open>n\<close> of them, in order, where \<open>n\<close> is the sequence its guard has accepted, each of them valid.
\<close>
theorem replica_is_a_prefix:
  assumes "list_all wf_op (writes_of es)" "l = link_run cr target (new_link snapshot opts) es"
  shows "rs_primary (l_store l) = foldl apply_op snapshot (writes_of es)
    \<and> (\<exists>n \<le> length (writes_of es). l_replica l = foldl apply_op snapshot (take n (writes_of es))
         \<and> lastSequence (l_guard l) (rt_sourceId target) = int n \<and> list_all receivable (take n (writes_of es)))"
  by (rule link_run_prefix [OF assms])

text \<open>
  Head-of-line blocking. A write the receiver's validation rejects stops replication for ever:
  whatever is written, retried or delivered afterwards, the replica keeps a prefix of the writes before it.
\<close>
theorem rejected_write_blocks_replication:
  assumes "list_all wf_op (writes_of es)" "writes_of es = before @ op # after" "\<not> receivable op"
  shows "\<exists>n \<le> length before. l_replica (link_run cr target (new_link snapshot opts) es)
     = foldl apply_op snapshot (take n before)"
proof -
  from link_run_prefix [OF assms(1) refl, of cr target snapshot opts] obtain n where
    n: "l_replica (link_run cr target (new_link snapshot opts) es) = foldl apply_op snapshot (take n (writes_of es))"
    "list_all receivable (take n (writes_of es))" by blast
  have "n \<le> length before"
  proof (rule ccontr)
    assume "\<not> n \<le> length before"
    then have "take n (writes_of es) = before @ op # take (n - Suc (length before)) after"
      by (simp add: assms(2) take_Cons')
    with n(2) assms(3) show False by simp
  qed
  with n(1) show ?thesis by (intro exI [of _ n]) (simp add: assms(2))
qed

text \<open>
  Shedding while a push is in flight loses a write silently. With room for one entry, a second
  write that arrives while the first is in flight sheds the first from the queue; when the push of
  the first then succeeds, the loop removes the head of the queue, which by now is the second. The
  queue is empty and idle, so the lag gauge reads zero, and the second write was never sent.
\<close>
theorem shedding_in_flight_loses_a_write:
  assumes "deliverable cr target now (1, a)" "rp_maxQueue opts = 1"
    and "es = [LWrite a now, LWrite b now, LDeliver 0 now, LReply True now]"
  shows "queueDepth (l_store (link_run cr target (new_link snapshot opts) es)) = 0
    \<and> rs_phase (l_store (link_run cr target (new_link snapshot opts) es)) = Idle
    \<and> length (l_wire (link_run cr target (new_link snapshot opts) es)) = 1
    \<and> l_replica (link_run cr target (new_link snapshot opts) es) = apply_op snapshot a
    \<and> rs_primary (l_store (link_run cr target (new_link snapshot opts) es)) = apply_op (apply_op snapshot a) b"
proof -
  obtain m where m: "push_message cr target now (1, a) = returns m"
    using deliverable_message [OF assms(1)] by metis
  define l2 where "l2 = link_run cr target (new_link snapshot opts) [LWrite a now, LWrite b now]"
  have l2: "l2 = new_link snapshot opts\<lparr>l_store := \<lparr>rs_primary = apply_op (apply_op snapshot a) b,
       rs_queue = [(2, b)], rs_phase = Pushing (1, a), rs_attempt = 0, rs_sequence = 2, rs_opts = opts\<rparr>,
      l_wire := [m], l_flight := Some 0\<rparr>"
    using m assms(2) by (simp add: l2_def link_run_def repl_write_def enqueue_def drain_def next_push_def Let_def
        new_link_def new_repl_store_def next_sequence_def MAX_SAFE_INTEGER_def transmit_def)
  obtain g where g: "deliver cr target 0 now l2 = l2\<lparr>l_guard := g, l_replica := apply_op snapshot a, l_acked := True\<rparr>"
    using deliver_next [of 0 l2 cr target now "(1, a)"] assms(1) m by (auto simp: l2 new_link_def lastSequence_def)
  have run: "link_run cr target (new_link snapshot opts) es = link_step cr target (deliver cr target 0 now l2) (LReply True now)"
    by (simp add: assms(3) l2_def link_run_def)
  show ?thesis
    unfolding run g unfolding l2
    by (simp add: push_result_def next_push_def transmit_def queueDepth_def new_link_def)
qed

section \<open>Catching up\<close>

text \<open>
  While nothing is shed the queue is the tail of the writes from some write \<open>m\<close> on, and the replica
  has \<open>m\<close> or \<open>m + 1\<close> of them: only the head may have been applied without its answer being known.
\<close>

definition pending :: "replica_op list \<Rightarrow> nat \<Rightarrow> (int \<times> replica_op) list" where
  "pending ws m = map (\<lambda>i. (nth_seq (Suc i), ws ! i)) [m..<length ws]"

definition push_text :: "replica_target \<Rightarrow> replica_op list \<Rightarrow> nat \<Rightarrow> int \<Rightarrow> string" where
  "push_text target ws j t = stringify (envelope_json (rt_sourceId target) (nth_seq (Suc j)) t (ws ! j))"

definition replica_at :: "webcrypto \<Rightarrow> replica_target \<Rightarrow> wire_store \<Rightarrow> replica_op list \<Rightarrow> link \<Rightarrow> nat \<Rightarrow> bool" where
  "replica_at cr target st0 ws l n = (n \<le> length ws \<and> l_replica l = foldl apply_op st0 (take n ws)
     \<and> map_of (l_guard l) (rt_sourceId target) = (if n = 0 then None
         else Some (int n, replicaOperationDigest cr (op_json (ws ! (n - 1))))))"

definition sent_upto :: "replica_target \<Rightarrow> replica_op list \<Rightarrow> nat \<Rightarrow> string \<times> string \<Rightarrow> bool" where
  "sent_upto target ws m msg = (\<exists>j t. j \<le> m \<and> j < length ws \<and> fst msg = push_text target ws j t)"

text \<open>Queue and replica, apart from the push in flight.\<close>

definition in_step :: "webcrypto \<Rightarrow> replica_target \<Rightarrow> wire_store \<Rightarrow> replica_op list \<Rightarrow> nat \<Rightarrow> nat \<Rightarrow> link \<Rightarrow> bool" where
  "in_step cr target st0 ws m n l = (list_all wf_op ws \<and> m \<le> n \<and> n \<le> Suc m \<and> m \<le> length ws
     \<and> rs_primary (l_store l) = foldl apply_op st0 ws
     \<and> rs_queue (l_store l) = pending ws m \<and> rs_sequence (l_store l) = nth_seq (length ws)
     \<and> list_all (sent_upto target ws m) (l_wire l) \<and> replica_at cr target st0 ws l n)"

definition flight_ok :: "replica_target \<Rightarrow> replica_op list \<Rightarrow> nat \<Rightarrow> nat \<Rightarrow> link \<Rightarrow> bool" where
  "flight_ok target ws m n l = (case rs_phase (l_store l) of
     Idle \<Rightarrow> m = length ws
   | Sleeping ms \<Rightarrow> m < length ws
   | Pushing q \<Rightarrow> m < length ws \<and> (l_acked l \<longrightarrow> n = Suc m)
       \<and> (case l_flight l of None \<Rightarrow> True
          | Some i \<Rightarrow> i < length (l_wire l) \<and> (\<exists>t. fst (l_wire l ! i) = push_text target ws m t)))"

lemma pending_snoc: "m \<le> length ws \<Longrightarrow> pending (ws @ [op]) m = pending ws m @ [(nth_seq (Suc (length ws)), op)]"
  by (auto simp: pending_def nth_append)

lemma pending_Cons: "m < length ws \<Longrightarrow> pending ws m = (nth_seq (Suc m), ws ! m) # pending ws (Suc m)"
  by (simp add: pending_def upt_conv_Cons)

lemma pending_Nil: "pending ws m = [] \<longleftrightarrow> length ws \<le> m"
  by (auto simp: pending_def)

lemma push_text_append: "j < length ws \<Longrightarrow> push_text target (ws @ ops) j t = push_text target ws j t"
  by (simp add: push_text_def nth_append)

lemma sent_upto_append: "sent_upto target ws m msg \<Longrightarrow> sent_upto target (ws @ ops) m msg"
  unfolding sent_upto_def by (metis push_text_append length_append trans_less_add1)

lemma replica_at_append: "replica_at cr target st0 ws l n \<Longrightarrow> replica_at cr target st0 (ws @ ops) l n"
  by (auto simp: replica_at_def nth_append)

lemma sent_upto_Suc: "sent_upto target ws m msg \<Longrightarrow> sent_upto target ws (Suc m) msg"
  unfolding sent_upto_def using le_SucI by blast

text \<open>A turn of the drain loop sends the head, if there is one.\<close>

lemma in_step_push:
  assumes "in_step cr target st0 ws m n (l\<lparr>l_store := rs\<rparr>)" "next_push rs = (rs', out)"
  shows "in_step cr target st0 ws m n (transmit cr target now (rs', out) l)
    \<and> flight_ok target ws m n (transmit cr target now (rs', out) l)"
proof (cases "m < length ws")
  case False
  then have "pending ws m = []" "m \<le> length ws \<Longrightarrow> m = length ws" by (simp_all add: pending_Nil)
  with assms show ?thesis
    by (auto simp: in_step_def next_push_def transmit_def flight_ok_def replica_at_def)
next
  case True
  then have out: "rs' = rs\<lparr>rs_phase := Pushing (nth_seq (Suc m), ws ! m)\<rparr>" "out = Some (nth_seq (Suc m), ws ! m)"
    using assms by (auto simp: in_step_def next_push_def pending_Cons)
  show ?thesis
  proof (cases "push_message cr target now (nth_seq (Suc m), ws ! m)")
    case (Inl e)
    with assms(1) out True show ?thesis
      by (auto simp: in_step_def transmit_def flight_ok_def replica_at_def)
  next
    case (Inr msg)
    from push_message_text [OF this] have "fst msg = push_text target ws m now" by (simp add: push_text_def)
    with True have "sent_upto target ws m msg" "\<exists>t. fst msg = push_text target ws m t"
      by (auto simp: sent_upto_def)
    with Inr assms(1) out True show ?thesis
      by (auto simp: in_step_def transmit_def flight_ok_def replica_at_def)
  qed
qed

lemma in_step_write:
  assumes "in_step cr target st0 ws m n l" "flight_ok target ws m n l" "wf_op op"
    "int (queueDepth (l_store l)) < rp_maxQueue (rs_opts (l_store l))"
  shows "in_step cr target st0 (ws @ [op]) m n (link_step cr target l (LWrite op now))
    \<and> flight_ok target (ws @ [op]) m n (link_step cr target l (LWrite op now))"
proof -
  obtain rs' out d where w: "repl_write op (l_store l) = (rs', out, d)" by (metis prod_cases3)
  let ?rs = "(l_store l)\<lparr>rs_primary := apply_op (rs_primary (l_store l)) op,
    rs_sequence := next_sequence (rs_sequence (l_store l)),
    rs_queue := kept (l_store l) @ [(next_sequence (rs_sequence (l_store l)), op)]\<rparr>"
  from assms(4) have "kept (l_store l) = rs_queue (l_store l)" by (simp add: kept_def queueDepth_def)
  with assms(1,3) have base: "in_step cr target st0 (ws @ [op]) m n (l\<lparr>l_store := ?rs\<rparr>)"
    by (auto simp: in_step_def pending_snoc next_nth_seq list_all_iff replica_at_def nth_append intro: sent_upto_append)
  show ?thesis
  proof (cases "rs_phase (l_store l) = Idle")
    case True
    then have "next_push ?rs = (rs', out)" using repl_write_drain [OF w] by (simp add: drain_def)
    with in_step_push [OF base this] w show ?thesis by simp
  next
    case False
    then have "rs' = ?rs" "out = None" using repl_write_drain [OF w] by (auto simp: drain_def)
    with base w assms(2) False show ?thesis
      by (auto simp: transmit_def flight_ok_def push_text_append split: drain_phase.splits option.splits)
  qed
qed

lemma in_step_reply:
  assumes "in_step cr target st0 ws m n l" "flight_ok target ws m n l" "rs_phase (l_store l) = Pushing q"
    "push_result ok (l_store l) = (rs, out)" "ok \<Longrightarrow> l_acked l"
  shows "in_step cr target st0 ws (if ok then Suc m else m) n (transmit cr target now (rs, out) l)
    \<and> flight_ok target ws (if ok then Suc m else m) n (transmit cr target now (rs, out) l)"
proof (cases ok)
  case True
  let ?rs = "(l_store l)\<lparr>rs_queue := tl (rs_queue (l_store l)), rs_attempt := 0\<rparr>"
  from True assms have m: "m < length ws" "n = Suc m" by (auto simp: flight_ok_def)
  have "list_all (sent_upto target ws (Suc m)) (l_wire l)"
    using assms(1) by (auto simp: in_step_def list_all_iff intro: sent_upto_Suc)
  with assms(1) m have "in_step cr target st0 ws (Suc m) n (l\<lparr>l_store := ?rs\<rparr>)"
    by (auto simp: in_step_def pending_Cons replica_at_def)
  moreover have "next_push ?rs = (rs, out)" using True assms(4) by (simp add: push_result_def)
  ultimately show ?thesis using in_step_push True by simp
next
  case False
  with assms show ?thesis
    by (auto simp: push_result_def Let_def transmit_def in_step_def flight_ok_def replica_at_def)
qed

lemma in_step_deliver:
  assumes "in_step cr target st0 ws m n l" "flight_ok target ws m n l"
  shows "\<exists>n'. in_step cr target st0 ws m n' (deliver cr target i now l) \<and> flight_ok target ws m n' (deliver cr target i now l)"
proof (cases "length (l_wire l) \<le> i")
  case True
  with assms show ?thesis by (auto simp: deliver_def)
next
  case False
  then have "sent_upto target ws m (l_wire l ! i)" using assms(1) by (auto simp: in_step_def list_all_length)
  moreover have "\<exists>t. fst (l_wire l ! i) = push_text target ws m t"
    if "l_flight l = Some i" "rs_phase (l_store l) = Pushing q" for q
    using that assms(2) by (simp add: flight_ok_def)
  moreover have "m < length ws" if "rs_phase (l_store l) = Pushing q" for q
    using that assms(2) by (simp add: flight_ok_def)
  ultimately obtain j t where j: "j \<le> m" "j < length ws" "fst (l_wire l ! i) = push_text target ws j t"
    "\<And>q. l_flight l = Some i \<Longrightarrow> rs_phase (l_store l) = Pushing q \<Longrightarrow> j = m"
    unfolding sent_upto_def by (cases "l_flight l = Some i \<and> (\<exists>q. rs_phase (l_store l) = Pushing q)") blast+
  let ?e = "envelope_json (rt_sourceId target) (nth_seq (Suc j)) t (ws ! j)"
  from assms(1) j(2) have "wf_op (ws ! j)" by (auto simp: in_step_def list_all_length)
  then have parse: "json_parse (fst (l_wire l ! i)) = returns ?e"
    by (simp add: j(3) push_text_def json_parse_stringify wf_envelope)
  obtain r g' st' where h: "handleReplicaIngest cr mem_applyIfNext (OneHeader (snd (l_wire l ! i))) ?e
      (rt_token target) (rt_sourceId target) now (l_guard l) (l_replica l) = (r, g', st')"
    by (metis prod_cases3)
  have d: "deliver cr target i now l = l\<lparr>l_guard := g', l_replica := st',
      l_acked := l_acked l \<or> (l_flight l = Some i \<and> ir_status r = 200)\<rparr>"
    using False parse h by (simp add: deliver_def)
  from assms(1) have mn: "m \<le> n" "n \<le> Suc m" and at: "replica_at cr target st0 ws l n" by (simp_all add: in_step_def)
  from at have last: "lastSequence (l_guard l) (rt_sourceId target) = int n"
    by (auto simp: replica_at_def lastSequence_def)
  from h show ?thesis
  proof (cases rule: mem_receiver.ingest_cases)
    case rejected
    with assms d show ?thesis
      by (intro exI [of _ n]) (auto simp: in_step_def flight_ok_def replica_at_def split: drain_phase.splits option.splits)
  next
    case (accepted op)
    note same = authentic_sent [OF accepted(1)]
    with nth_seq_safe have s: "nth_seq (Suc j) = int (Suc j)" by blast
    with accepted(3) last have "j = n" by (simp add: mem_last_of)
    with j(1) mn have jm: "j = m" "n = m" by auto
    with j(2) have t: "take (Suc m) ws = take m ws @ [ws ! m]" by (simp add: take_Suc_conv_app_nth)
    with at accepted same s jm j(2) have "replica_at cr target st0 ws (deliver cr target i now l) (Suc m)"
      by (simp add: d replica_at_def)
    with assms d jm j(2) show ?thesis
      by (intro exI [of _ "Suc m"]) (auto simp: in_step_def flight_ok_def split: drain_phase.splits option.splits)
  next
    case (repeated op)
    note same = authentic_sent [OF repeated(1)]
    with nth_seq_safe have s: "nth_seq (Suc j) = int (Suc j)" by blast
    with repeated(3) at have "n = Suc j" by (auto simp: replica_at_def split: if_splits)
    with repeated assms d j(4) show ?thesis
      by (intro exI [of _ n]) (auto simp: in_step_def flight_ok_def replica_at_def split: drain_phase.splits option.splits)
  qed
qed

lemma drain_opts: "drain rs = (rs', out) \<Longrightarrow> rs_opts rs' = rs_opts rs"
  by (auto simp: drain_def next_push_def split: if_splits list.splits)

lemma transmit_store [simp]: "l_store (transmit cr target now r l) = fst r"
  by (simp add: transmit_def split: option.split sum.split)

lemma link_step_opts: "rs_opts (l_store (link_step cr target l e)) = rs_opts (l_store l)"
proof (cases e)
  case (LWrite op now)
  obtain rs' out d where w: "repl_write op (l_store l) = (rs', out, d)" by (metis prod_cases3)
  with LWrite drain_opts [OF repl_write_drain [OF w]] show ?thesis by simp
qed (auto simp: deliver_def push_result_def next_push_def Let_def split: drain_phase.split list.split sum.split prod.split)

text \<open>No write of the schedule finds the queue full, so none sheds an older operation.\<close>

fun sheds_nothing :: "webcrypto \<Rightarrow> replica_target \<Rightarrow> link \<Rightarrow> link_event list \<Rightarrow> bool" where
  "sheds_nothing cr target l [] = True"
| "sheds_nothing cr target l (e # es) =
     ((case e of LWrite op now \<Rightarrow> int (queueDepth (l_store l)) < rp_maxQueue (rs_opts (l_store l)) | _ \<Rightarrow> True)
      \<and> sheds_nothing cr target (link_step cr target l e) es)"

lemma sheds_nothing_snoc:
  "sheds_nothing cr target l (es @ [e]) \<longleftrightarrow> sheds_nothing cr target l es \<and> (case e of
     LWrite op now \<Rightarrow> int (queueDepth (l_store (link_run cr target l es))) < rp_maxQueue (rs_opts (l_store (link_run cr target l es)))
   | _ \<Rightarrow> True)"
  by (induction es arbitrary: l) (auto simp: link_run_def split: link_event.splits)

lemma in_step_run:
  assumes "list_all wf_op (writes_of es)" "sheds_nothing cr target (new_link st0 opts) es"
  shows "\<exists>m n. in_step cr target st0 (writes_of es) m n (link_run cr target (new_link st0 opts) es)
    \<and> flight_ok target (writes_of es) m n (link_run cr target (new_link st0 opts) es)
    \<and> rs_opts (l_store (link_run cr target (new_link st0 opts) es)) = opts"
  using assms
proof (induction es rule: rev_induct)
  case Nil
  show ?case
    by (intro exI [of _ 0]) (simp add: in_step_def flight_ok_def link_run_def new_link_def new_repl_store_def pending_def
      nth_seq_def MAX_SAFE_INTEGER_def replica_at_def)
next
  case (snoc e es)
  let ?l = "link_run cr target (new_link st0 opts) es" and ?ws = "writes_of es"
  from snoc obtain m n where l: "in_step cr target st0 ?ws m n ?l" "flight_ok target ?ws m n ?l" "rs_opts (l_store ?l) = opts"
    by (auto simp: writes_of_append sheds_nothing_snoc dest: list_all_log_of)
  have run: "link_run cr target (new_link st0 opts) (es @ [e]) = link_step cr target ?l e" by (simp add: link_run_def)
  have "\<exists>m n. in_step cr target st0 (log_of ?ws e) m n (link_step cr target ?l e)
      \<and> flight_ok target (log_of ?ws e) m n (link_step cr target ?l e)"
  proof (cases e)
    case (LWrite op now)
    with in_step_write [OF l(1,2), of op now] snoc.prems show ?thesis by (auto simp: writes_of_append sheds_nothing_snoc)
  next
    case (LReply arrived now)
    obtain rs out where p: "push_result (arrived \<and> l_acked ?l) (l_store ?l) = (rs, out)" by fastforce
    show ?thesis
    proof (cases "rs_phase (l_store ?l)")
      case (Pushing q)
      with in_step_reply [OF l(1,2) Pushing p, of now] LReply p show ?thesis by auto
    qed (use LReply l in auto)
  next
    case (LWake now)
    obtain rs out where p: "next_push (l_store ?l) = (rs, out)" by fastforce
    with LWake l in_step_push [OF _ p, of cr target st0 ?ws m n ?l now] show ?thesis
      by (cases "rs_phase (l_store ?l)") auto
  next
    case (LDeliver i now)
    with in_step_deliver [OF l(1,2), of i now] show ?thesis by simp blast
  qed
  with l(3) show ?case by (simp add: run link_step_opts writes_of_append)
qed

text \<open>A push that was just made at time \<open>now\<close> for the head of the queue.\<close>

definition fresh_push :: "webcrypto \<Rightarrow> replica_target \<Rightarrow> int \<Rightarrow> replica_op list \<Rightarrow> nat \<Rightarrow> link \<Rightarrow> bool" where
  "fresh_push cr target now ws m l = (m < length ws \<longrightarrow>
     rs_phase (l_store l) = Pushing (nth_seq (Suc m), ws ! m) \<and> l_wire l \<noteq> []
     \<and> l_flight l = Some (length (l_wire l) - 1)
     \<and> push_message cr target now (nth_seq (Suc m), ws ! m) = returns (last (l_wire l)))"

lemma fresh_push_next:
  assumes "rs_queue rs = pending ws m" "next_push rs = (rs', out)"
    "m < length ws \<Longrightarrow> deliverable cr target now (nth_seq (Suc m), ws ! m)"
  shows "fresh_push cr target now ws m (transmit cr target now (rs', out) l)
    \<and> (m < length ws \<longrightarrow> length (l_wire (transmit cr target now (rs', out) l)) = Suc (length (l_wire l)))"
proof (cases "m < length ws")
  case True
  obtain sig where "push_message cr target now (nth_seq (Suc m), ws ! m) = returns
      (stringify (envelope_json (rt_sourceId target) (nth_seq (Suc m)) now (ws ! m)), sig)"
    using deliverable_message [OF assms(3) [OF True]] by auto
  with True assms(1,2) show ?thesis
    by (auto simp: fresh_push_def next_push_def pending_Cons transmit_def)
qed (simp add: fresh_push_def)

text \<open>Delivering it is acknowledged, whether it is applied now or was applied before.\<close>

lemma fresh_push_acked:
  assumes "in_step cr target st0 ws m n l" "fresh_push cr target now ws m l" "m < length ws"
    "deliverable cr target now (nth_seq (Suc m), ws ! m)"
  shows "l_acked (deliver cr target (length (l_wire l) - 1) now l)"
proof -
  let ?q = "(nth_seq (Suc m), ws ! m)"
  define i where "i = length (l_wire l) - 1"
  from assms(2,3) have "l_wire l \<noteq> []" and f: "l_flight l = Some i" "push_message cr target now ?q = returns (l_wire l ! i)"
    by (auto simp: fresh_push_def i_def last_conv_nth)
  then have i: "i < length (l_wire l)" by (simp add: i_def)
  from f(2) obtain sig where m: "l_wire l ! i = (stringify (envelope_json (rt_sourceId target) (fst ?q) now (snd ?q)), sig)"
    "json_parse (fst (l_wire l ! i)) = returns (envelope_json (rt_sourceId target) (fst ?q) now (snd ?q))"
    "authentic_envelope cr (OneHeader sig) (envelope_json (rt_sourceId target) (fst ?q) now (snd ?q))
       (rt_token target) (rt_sourceId target) now (snd ?q)"
    using deliverable_message [OF assms(4)] by (metis fst_conv sum.inject(2))
  have s: "nth_seq (Suc m) = int (Suc m)"
    using authentic_sent(3) [OF m(3)] by (intro nth_seq_safe) simp
  from assms(1) have n: "n = m \<or> n = Suc m" "replica_at cr target st0 ws l n" by (auto simp: in_step_def)
  from n(1) have "l_acked (deliver cr target i now l)"
  proof
    assume "n = m"
    with n(2) have "lastSequence (l_guard l) (rt_sourceId target) = int m"
      by (auto simp: replica_at_def lastSequence_def)
    with s mem_receiver.ingest_next [OF m(3), of "l_guard l" "l_replica l"] m(1,2) f(1) i show ?thesis
      by (auto simp: deliver_def mem_last_of)
  next
    assume "n = Suc m"
    with n(2) have "jm_get (l_guard l) (rt_sourceId target) =
        Some (int (Suc m), replicaOperationDigest cr (op_json (ws ! m)))" by (simp add: replica_at_def)
    with s mem_receiver.ingest_retry [OF m(3), of "l_guard l" "l_replica l"] m(1,2) f(1) i show ?thesis
      by (auto simp: deliver_def)
  qed
  then show ?thesis by (simp add: i_def)
qed

lemma deliver_keeps: "l_wire (deliver cr target i now l) = l_wire l" "l_store (deliver cr target i now l) = l_store l"
  by (simp_all add: deliver_def split: sum.split prod.split)

fun rounds :: "int \<Rightarrow> nat \<Rightarrow> nat \<Rightarrow> link_event list" where
  "rounds now w 0 = []"
| "rounds now w (Suc k) = LDeliver w now # LReply True now # rounds now (Suc w) k"

lemma rounds_deliver:
  assumes "in_step cr target st0 ws m n l" "flight_ok target ws m n l" "fresh_push cr target now ws m l"
    "k = length ws - m" "m < length ws \<Longrightarrow> length (l_wire l) = Suc w"
    "list_all (deliverable cr target now) (pending ws 0)"
  shows "\<exists>n. in_step cr target st0 ws (length ws) n (link_run cr target l (rounds now w k))
    \<and> flight_ok target ws (length ws) n (link_run cr target l (rounds now w k))"
  using assms
proof (induction k arbitrary: m n l w)
  case 0
  then have "m = length ws" by (auto simp: in_step_def)
  with 0 show ?case by (auto simp: link_run_def)
next
  case (Suc k)
  then have m: "m < length ws" by simp
  then have d: "deliverable cr target now (nth_seq (Suc j), ws ! j)" if "j < length ws" for j
    using Suc.prems(6) that by (auto simp: pending_def list_all_iff)
  let ?d = "deliver cr target w now l"
  from Suc.prems(5) m have w: "w = length (l_wire l) - 1" by simp
  from in_step_deliver [OF Suc.prems(1,2)] obtain n' where
    n': "in_step cr target st0 ws m n' ?d" "flight_ok target ws m n' ?d" by blast
  have ack: "l_acked ?d" using fresh_push_acked [OF Suc.prems(1,3) m d [OF m]] w by simp
  from Suc.prems(3) m have ph: "rs_phase (l_store ?d) = Pushing (nth_seq (Suc m), ws ! m)"
    by (simp add: fresh_push_def deliver_keeps)
  obtain rs out where p: "push_result True (l_store ?d) = (rs, out)" by fastforce
  let ?l = "transmit cr target now (rs, out) ?d"
  have step: "link_run cr target l (rounds now w (Suc k)) = link_run cr target ?l (rounds now (Suc w) k)"
    using ack ph p by (simp add: link_run_def)
  from in_step_reply [OF n' ph p ack] have l': "in_step cr target st0 ws (Suc m) n' ?l" "flight_ok target ws (Suc m) n' ?l"
    by simp_all
  have q: "next_push ((l_store ?d)\<lparr>rs_queue := tl (rs_queue (l_store ?d)), rs_attempt := 0\<rparr>) = (rs, out)"
    using p by (simp add: push_result_def)
  have "rs_queue ((l_store ?d)\<lparr>rs_queue := tl (rs_queue (l_store ?d)), rs_attempt := 0\<rparr>) = pending ws (Suc m)"
    using n'(1) m by (simp add: in_step_def pending_Cons)
  from fresh_push_next [OF this q d, where l = ?d] have
    "fresh_push cr target now ws (Suc m) ?l" "Suc m < length ws \<Longrightarrow> length (l_wire ?l) = Suc (length (l_wire ?d))"
    by auto
  moreover have "k = length ws - Suc m" using Suc.prems(4) by arith
  moreover have "length (l_wire ?d) = Suc w" using Suc.prems(5) m by (simp add: deliver_keeps)
  ultimately show ?case unfolding step by (intro Suc.IH [OF l' _ _ _ Suc.prems(6)]) simp_all
qed

lemma settled:
  assumes "in_step cr target st0 ws m n l" "flight_ok target ws m n l"
    "m < length ws \<Longrightarrow> deliverable cr target now (nth_seq (Suc m), ws ! m)"
  defines "l' \<equiv> link_run cr target l [LReply False now, LWake now]"
  shows "in_step cr target st0 ws m n l' \<and> flight_ok target ws m n l' \<and> fresh_push cr target now ws m l'
    \<and> (m < length ws \<longrightarrow> length (l_wire l') = Suc (length (l_wire l)))"
proof (cases "rs_phase (l_store l)")
  case Idle
  with assms show ?thesis by (simp add: link_run_def flight_ok_def fresh_push_def)
next
  case (Sleeping ms)
  obtain rs out where p: "next_push (l_store l) = (rs, out)" by fastforce
  have "rs_queue (l_store l) = pending ws m" using assms(1) by (simp add: in_step_def)
  with in_step_push [OF _ p, of cr target st0 ws m n l now] fresh_push_next [OF _ p assms(3), where l = l] assms Sleeping p
  show ?thesis by (simp add: link_run_def)
next
  case (Pushing q)
  obtain rs out where r: "push_result False (l_store l) = (rs, out)" by fastforce
  let ?l = "transmit cr target now (rs, out) l"
  from in_step_reply [OF assms(1,2) Pushing r] have l: "in_step cr target st0 ws m n ?l" by simp
  have s: "\<exists>ms. rs_phase rs = Sleeping ms" "out = None" using r by (auto simp: push_result_def Let_def)
  obtain rs' out' where p: "next_push rs = (rs', out')" by fastforce
  have "rs_queue rs = pending ws m" using l by (simp add: in_step_def)
  with in_step_push [OF _ p, of cr target st0 ws m n ?l now] fresh_push_next [OF _ p assms(3), where l = ?l] l s
  have "in_step cr target st0 ws m n (transmit cr target now (rs', out') ?l)
      \<and> flight_ok target ws m n (transmit cr target now (rs', out') ?l)
      \<and> fresh_push cr target now ws m (transmit cr target now (rs', out') ?l)
      \<and> (m < length ws \<longrightarrow> length (l_wire (transmit cr target now (rs', out') ?l)) = Suc (length (l_wire ?l)))"
    by (simp add: transmit_def)
  moreover have "l' = transmit cr target now (rs', out') ?l"
    using Pushing r p s by (auto simp: l'_def link_run_def)
  moreover have "l_wire ?l = l_wire l" using s(2) by (simp add: transmit_def)
  ultimately show ?thesis by simp
qed

text \<open>
  C39. Without shedding the queue is delivered. After any schedule in which no write found the queue full, let
  the pending request be answered with a failure and the loop wake up; then one delivery and one answer per
  queued operation empty the queue and make the replica equal to the primary, provided every write of the
  schedule is deliverable at that time: its envelope can be signed and is not too long, and the receiver
  accepts its operation. In particular a lost answer never lets an operation be applied twice or skipped.
\<close>
theorem queue_is_delivered:
  assumes "list_all (deliverable cr target now) (pending (writes_of es) 0)"
    "sheds_nothing cr target (new_link snapshot opts) es"
    "l = link_run cr target (new_link snapshot opts) es"
    "l' = link_run cr target l (LReply False now # LWake now # rounds now (length (l_wire l)) (queueDepth (l_store l)))"
  shows "queueDepth (l_store l') = 0 \<and> rs_phase (l_store l') = Idle
    \<and> l_replica l' = rs_primary (l_store l') \<and> l_replica l' = foldl apply_op snapshot (writes_of es)"
proof -
  let ?ws = "writes_of es"
  have d: "deliverable cr target now (nth_seq (Suc j), ?ws ! j)" if "j < length ?ws" for j
    using assms(1) that by (auto simp: pending_def list_all_iff)
  then have "list_all wf_op ?ws" by (auto simp: list_all_length deliverable_def Let_def)
  from in_step_run [OF this assms(2)] obtain m n where
    l: "in_step cr target snapshot ?ws m n l" "flight_ok target ?ws m n l" unfolding assms(3) by blast
  have k: "queueDepth (l_store l) = length ?ws - m" using l(1) by (simp add: in_step_def pending_def queueDepth_def)
  let ?s = "link_run cr target l [LReply False now, LWake now]"
  from settled [OF l d] have s: "in_step cr target snapshot ?ws m n ?s" "flight_ok target ?ws m n ?s"
    "fresh_push cr target now ?ws m ?s" "m < length ?ws \<Longrightarrow> length (l_wire ?s) = Suc (length (l_wire l))" by auto
  have "l' = link_run cr target ?s (rounds now (length (l_wire l)) (queueDepth (l_store l)))"
    by (simp add: assms(4) link_run_def)
  with rounds_deliver [OF s(1-3) k s(4) assms(1)] obtain n' where
    "in_step cr target snapshot ?ws (length ?ws) n' l'" "flight_ok target ?ws (length ?ws) n' l'" by blast
  then show ?thesis
    by (auto simp: in_step_def flight_ok_def pending_def queueDepth_def replica_at_def split: drain_phase.splits)
qed

section \<open>Witnesses\<close>

definition ex_target :: replica_target where
  "ex_target = \<lparr>rt_url = ''https://r'', rt_sourceId = ''p'', rt_token = replicate 32 (CHR ''k''), rt_timeoutMs = None\<rparr>"

definition ex_delete :: replica_op where
  "ex_delete = OpDelete ''p1''"

text \<open>A pair whose secret hash has 44 characters: the registry accepts it, the receiver does not.\<close>

definition ex_long_hash :: replica_op where
  "ex_long_hash = OpSet (JObj [(''id'', JStr ''p2''), (''name'', JStr ''n''), (''scope'', JStr ''read''),
     (''mode'', JStr ''production''), (''secretHash'', JStr (replicate 44 (CHR ''A''))),
     (''pubJwk'', cjwk (replicate 43 (CHR ''A'')) (replicate 43 (CHR ''A''))), (''status'', JStr ''active''),
     (''created'', JNum 5), (''lastActive'', JNull), (''requests'', JNum 0), (''failedSigs'', JNum 0)])"

lemma wf_delete [simp]: "wf_op ex_delete"
  by (simp add: ex_delete_def wf_op_def obj_order_def is_index_key_def is_digit_def)

lemma wf_long_hash [simp]: "wf_op ex_long_hash"
  by (simp add: ex_long_hash_def wf_op_def obj_order_def is_index_key_def is_digit_def)

lemma delete_receivable: "receivable ex_delete"
  by (simp add: ex_delete_def receivable_def validateReplicaOp_def isValidPairId_def str_where_def is_b64url_char_def
      is_alnum_def is_lower_def is_upper_def is_digit_def)

lemma long_hash_rejected: "\<not> receivable ex_long_hash"
  by (simp add: ex_long_hash_def receivable_def validateReplicaOp_def isValidStoredPair_def isValidRegistration_def
      str_where_def b64url_43_def)

lemma ex_size: "length (canonicalJson (envelope_json ''p'' 1 5 ex_delete)) \<le> 200"
  by code_simp

lemma ex_deliverable: "deliverable ex_crypto ex_target 5 (1, ex_delete)"
  using ex_size delete_receivable
  by (simp add: deliverable_def Let_def ex_target_def utf8_def utf8_char_def ex_crypto_def isSafeIdentifier_def
      is_alnum_def is_lower_def is_upper_def is_digit_def is_safe_integer_def MAX_SAFE_INTEGER_def)

lemma replica_is_a_prefix_witness:
  "\<exists>n \<le> 2. l_replica (link_run ex_crypto ex_target (new_link empty_wire_store REPL_DEFAULTS)
       [LWrite ex_delete 5, LWrite ex_long_hash 6, LDeliver 0 7]) = foldl apply_op empty_wire_store (take n [ex_delete, ex_long_hash])"
  using replica_is_a_prefix [of "[LWrite ex_delete 5, LWrite ex_long_hash 6, LDeliver 0 7]", OF _ refl,
      of ex_crypto ex_target empty_wire_store REPL_DEFAULTS] by (auto simp: numeral_2_eq_2)

lemma rejected_write_blocks_replication_witness:
  "\<exists>n \<le> 1. l_replica (link_run ex_crypto ex_target (new_link empty_wire_store REPL_DEFAULTS)
       [LWrite ex_delete 5, LWrite ex_long_hash 6, LDeliver 0 7, LReply True 7, LDeliver 1 8]) = foldl apply_op empty_wire_store (take n [ex_delete])"
  using rejected_write_blocks_replication [of "[LWrite ex_delete 5, LWrite ex_long_hash 6, LDeliver 0 7, LReply True 7, LDeliver 1 8]"
      "[ex_delete]" ex_long_hash "[]" ex_crypto ex_target empty_wire_store REPL_DEFAULTS] by (simp add: long_hash_rejected)

lemma shedding_in_flight_loses_a_write_witness:
  "queueDepth (l_store (link_run ex_crypto ex_target (new_link empty_wire_store (REPL_DEFAULTS\<lparr>rp_maxQueue := 1\<rparr>))
     [LWrite ex_delete 5, LWrite ex_long_hash 5, LDeliver 0 5, LReply True 5])) = 0"
  using shedding_in_flight_loses_a_write [OF ex_deliverable _ refl, of "REPL_DEFAULTS\<lparr>rp_maxQueue := 1\<rparr>"] by simp

lemma queue_is_delivered_witness:
  "l_replica (link_run ex_crypto ex_target (link_run ex_crypto ex_target (new_link empty_wire_store REPL_DEFAULTS) [LWrite ex_delete 5])
     (LReply False 5 # LWake 5 # rounds 5
       (length (l_wire (link_run ex_crypto ex_target (new_link empty_wire_store REPL_DEFAULTS) [LWrite ex_delete 5])))
       (queueDepth (l_store (link_run ex_crypto ex_target (new_link empty_wire_store REPL_DEFAULTS) [LWrite ex_delete 5])))))
   = apply_op empty_wire_store ex_delete"
proof -
  have "pending (writes_of [LWrite ex_delete 5]) 0 = [(1, ex_delete)]"
    by (simp add: pending_def nth_seq_def MAX_SAFE_INTEGER_def)
  then have "list_all (deliverable ex_crypto ex_target 5) (pending (writes_of [LWrite ex_delete 5]) 0)"
    by (simp add: ex_deliverable)
  moreover have "sheds_nothing ex_crypto ex_target (new_link empty_wire_store REPL_DEFAULTS) [LWrite ex_delete 5]"
    by (simp add: new_link_def new_repl_store_def queueDepth_def REPL_DEFAULTS_def)
  ultimately show ?thesis
    using queue_is_delivered [OF _ _ refl refl, of ex_crypto ex_target 5 "[LWrite ex_delete 5]" empty_wire_store REPL_DEFAULTS]
    unfolding writes_of.simps foldl_Cons foldl_Nil by blast
qed

end
