(* ===== verification/Principal.thy ===== *)
theory Principal
  imports Nonce Audit_Log Hex
begin

text \<open>
  \<^verbatim>\<open>packages/server/src/principal-session.ts\<close>: the in-memory ledger of agent principals (sessions
  bound by a signed proof, hash-linked event streams, hash-linked checkpoints over the stream heads)
  and the sealed cache for fallback authorization. The ledger's four maps and its set of consumed
  nonces are the record \<open>ledger\<close>; the class hands out its records by reference, so an update of a
  principal or a stream is an update of the map. A bound session is one step: the awaits of the
  resolver and of WebCrypto do not read the ledger. Its theorems are in \<open>Principal_Laws\<close>.
\<close>

section \<open>Data\<close>

definition PRINCIPAL_GENESIS_HASH :: string where
  "PRINCIPAL_GENESIS_HASH = replicate 64 (CHR ''0'')"

definition PRINCIPAL_BINDING_PURPOSE :: string where
  "PRINCIPAL_BINDING_PURPOSE = ''bpc.principal.session.bind.v1''"

text \<open>An authorization context is a plain object.\<close>

record principal_record =
  pr_principalId :: string
  pr_keyFingerprint :: string
  pr_publicKeyJwk :: json
  pr_createdAt :: int
  pr_updatedAt :: int
  pr_authorizationContext :: json
  pr_keyVersion :: int
  pr_sessionIds :: "string list"
  pr_activeSessionIds :: "string list"
  pr_streamIds :: "string list"
  pr_checkpointHead :: string
  pr_checkpointSeq :: int

record stream_record =
  ps_principalId :: string
  ps_streamId :: string
  ps_provider :: string
  ps_agentInstanceId :: string
  ps_providerSessionIds :: "string list"
  ps_seq :: int
  ps_headHash :: string

record session_proof =
  pf_challengeNonce :: string
  pf_signedAt :: int
  pf_signature :: string

record bind_input =
  bi_publicKeyJwk :: json
  bi_proof :: session_proof
  bi_provider :: string
  bi_providerSessionId :: string
  bi_agentInstanceId :: "string option"
  bi_policyDigest :: string
  bi_runtimeMetadata :: "json option"
  bi_authorizationContext :: "json option"
  bi_maxProofAgeMs :: "int option"

datatype event_type = SessionBound | SessionEvent | SessionClosed | KeyRotated | AuthorizationUpdated

fun event_type_text :: "event_type \<Rightarrow> string" where
  "event_type_text SessionBound = ''session_bound''"
| "event_type_text SessionEvent = ''session_event''"
| "event_type_text SessionClosed = ''session_closed''"
| "event_type_text KeyRotated = ''key_rotated''"
| "event_type_text AuthorizationUpdated = ''authorization_updated''"

record stream_event =
  pe_principalId :: string
  pe_streamId :: string
  pe_provider :: string
  pe_providerSessionId :: "string option"
  pe_agentInstanceId :: string
  pe_seq :: int
  pe_timestamp :: int
  pe_eventType :: event_type
  pe_policyDigest :: "string option"
  pe_proofDigest :: "string option"
  pe_payloadHash :: string
  pe_payload :: json
  pe_prevHash :: string
  pe_chainHash :: string
  pe_bindingHash :: "string option"

record checkpoint =
  pc_principalId :: string
  pc_seq :: int
  pc_timestamp :: int
  pc_streamHeads :: "(string, int \<times> string) jsmap"
  pc_prevHash :: string
  pc_checkpointHash :: string

record session_binding =
  sb_principalId :: string
  sb_streamId :: string
  sb_provider :: string
  sb_providerSessionId :: string
  sb_agentInstanceId :: string
  sb_boundAt :: int
  sb_policyDigest :: string
  sb_authorizationContext :: json
  sb_runtime :: json
  sb_prevHash :: string
  sb_bindingHash :: string
  sb_checkpointHash :: string

datatype continuity = Continuous | Discontinuous "string option" string

record ledger =
  pl_principals :: "(string, principal_record) jsmap"
  pl_streams :: "(string, stream_record) jsmap"
  pl_events :: "(string, stream_event list) jsmap"
  pl_checkpoints :: "(string, checkpoint list) jsmap"
  pl_consumedProofNonces :: "string list"

definition new_ledger :: ledger where
  "new_ledger = \<lparr>pl_principals = [], pl_streams = [], pl_events = [], pl_checkpoints = [],
     pl_consumedProofNonces = []\<rparr>"

section \<open>Identifiers and hashes\<close>

definition principalIdFromFingerprint :: "webcrypto \<Rightarrow> string \<Rightarrow> string" where
  "principalIdFromFingerprint cr keyFingerprint =
     ''principal_'' @ take 24 (sha256hex cr (''bpc-principal-v1:'' @ keyFingerprint))"

definition makeStreamId :: "webcrypto \<Rightarrow> string \<Rightarrow> string \<Rightarrow> string \<Rightarrow> string" where
  "makeStreamId cr principalId provider agentInstanceId =
     ''stream_'' @ take 24 (sha256hex cr (principalId @ '':'' @ provider @ '':'' @ agentInstanceId))"

definition heads_json :: "(string, int \<times> string) jsmap \<Rightarrow> json" where
  "heads_json heads = JObj (map (\<lambda>(k, n, h). (k, JObj [(''seq'', JNum n), (''chainHash'', JStr h)])) heads)"

definition computeStreamEventHash :: "webcrypto \<Rightarrow> stream_event \<Rightarrow> string" where
  "computeStreamEventHash cr e = sha256hex cr (canonicalJson (JArr [JNum (pe_seq e), JStr (pe_prevHash e),
     JStr (pe_principalId e), JStr (pe_streamId e), JStr (pe_provider e), or_null (pe_providerSessionId e),
     JStr (pe_agentInstanceId e), JNum (pe_timestamp e), JStr (event_type_text (pe_eventType e)),
     or_null (pe_policyDigest e), or_null (pe_proofDigest e), JStr (pe_payloadHash e),
     (if pe_payload e = JNull then JObj [] else pe_payload e)]))"

definition computeCheckpointHash :: "webcrypto \<Rightarrow> checkpoint \<Rightarrow> string" where
  "computeCheckpointHash cr c = sha256hex cr (canonicalJson (JArr [JNum (pc_seq c), JStr (pc_prevHash c),
     JStr (pc_principalId c), JNum (pc_timestamp c), heads_json (pc_streamHeads c)]))"

section \<open>The proof of possession\<close>

definition blank :: "string \<Rightarrow> bool" where
  "blank s = (js_trim s = [])"

definition assertBindingInput :: "bind_input \<Rightarrow> unit throws" where
  "assertBindingInput i =
     (if blank (bi_provider i) then throw ''provider is required''
      else if blank (bi_providerSessionId i) then throw ''providerSessionId is required''
      else if blank (bi_policyDigest i) then throw ''policyDigest is required''
      else returns ())"

definition agent_instance :: "bind_input \<Rightarrow> string" where
  "agent_instance i = (case bi_agentInstanceId i of
     None \<Rightarrow> bi_provider i @ '':'' @ bi_providerSessionId i | Some a \<Rightarrow> a)"

definition or_empty :: "json option \<Rightarrow> json" where
  "or_empty v = (case v of None \<Rightarrow> JObj [] | Some w \<Rightarrow> w)"

definition buildPrincipalSessionProofPayload :: "webcrypto \<Rightarrow> string \<Rightarrow> bind_input \<Rightarrow> json" where
  "buildPrincipalSessionProofPayload cr fingerprint i = JObj [
     (''purpose'', JStr PRINCIPAL_BINDING_PURPOSE),
     (''key_fingerprint'', JStr fingerprint),
     (''provider'', JStr (bi_provider i)),
     (''provider_session_id'', JStr (bi_providerSessionId i)),
     (''agent_instance_id'', JStr (agent_instance i)),
     (''policy_digest'', JStr (bi_policyDigest i)),
     (''authorization_context_hash'', JStr (sha256hex cr (canonicalJson (sanitizeCaptureValue (or_empty (bi_authorizationContext i)) [])))),
     (''runtime_metadata_hash'', JStr (sha256hex cr (canonicalJson (sanitizeCaptureValue (or_empty (bi_runtimeMetadata i)) [])))),
     (''challenge_nonce'', JStr (pf_challengeNonce (bi_proof i))),
     (''signed_at'', JNum (pf_signedAt (bi_proof i)))]"

definition verifyPrincipalSessionProof :: "webcrypto \<Rightarrow> int \<Rightarrow> bind_input \<Rightarrow> string \<Rightarrow> unit throws" where
  "verifyPrincipalSessionProof cr now i fingerprint =
     (let maxProofAgeMs = (case bi_maxProofAgeMs i of None \<Rightarrow> 5 * 60000 | Some v \<Rightarrow> v);
          age = \<bar>now - pf_signedAt (bi_proof i)\<bar>
      in if maxProofAgeMs < age then throw ''principal session proof expired''
         else if length (pf_challengeNonce (bi_proof i)) < 16 then throw ''principal session proof nonce too short''
         else and_then (importPublicKeyFromJwk cr (bi_publicKeyJwk i)) (\<lambda>publicKey.
           if \<not> verifyPayload cr publicKey (buildPrincipalSessionProofPayload cr fingerprint i) (pf_signature (bi_proof i))
           then throw ''principal session proof invalid'' else returns ()))"

section \<open>Streams and checkpoints\<close>

definition get_list :: "(string, 'a list) jsmap \<Rightarrow> string \<Rightarrow> 'a list" where
  "get_list m k = (case jm_get m k of None \<Rightarrow> [] | Some xs \<Rightarrow> xs)"

definition put_principal :: "principal_record \<Rightarrow> ledger \<Rightarrow> ledger" where
  "put_principal p led = led\<lparr>pl_principals := jm_set (pr_principalId p) p (pl_principals led)\<rparr>"

definition upsertPrincipal :: "webcrypto \<Rightarrow> int \<Rightarrow> json \<Rightarrow> string \<Rightarrow> json \<Rightarrow> ledger \<Rightarrow> principal_record \<times> ledger" where
  "upsertPrincipal cr now publicKeyJwk keyFingerprint authorizationContext led =
     (let principalId = principalIdFromFingerprint cr keyFingerprint
      in (case jm_get (pl_principals led) principalId of
            Some existing \<Rightarrow> (existing, led)
          | None \<Rightarrow>
              let p = \<lparr>pr_principalId = principalId, pr_keyFingerprint = keyFingerprint, pr_publicKeyJwk = publicKeyJwk,
                    pr_createdAt = now, pr_updatedAt = now, pr_authorizationContext = authorizationContext,
                    pr_keyVersion = 1, pr_sessionIds = [], pr_activeSessionIds = [], pr_streamIds = [],
                    pr_checkpointHead = PRINCIPAL_GENESIS_HASH, pr_checkpointSeq = 0\<rparr>
              in (p, (put_principal p led)\<lparr>pl_checkpoints := jm_set principalId [] (pl_checkpoints led)\<rparr>)))"

definition add_once :: "string \<Rightarrow> string list \<Rightarrow> string list" where
  "add_once x xs = (if x \<in> set xs then xs else xs @ [x])"

definition upsertStream ::
    "principal_record \<Rightarrow> string \<Rightarrow> string \<Rightarrow> string \<Rightarrow> string \<Rightarrow> ledger \<Rightarrow> stream_record \<times> principal_record \<times> ledger" where
  "upsertStream p streamId provider agentInstanceId providerSessionId led =
     (case jm_get (pl_streams led) streamId of
        Some existing \<Rightarrow>
          let st = existing\<lparr>ps_providerSessionIds := add_once providerSessionId (ps_providerSessionIds existing)\<rparr>
          in (st, p, led\<lparr>pl_streams := jm_set streamId st (pl_streams led)\<rparr>)
      | None \<Rightarrow>
          let st = \<lparr>ps_principalId = pr_principalId p, ps_streamId = streamId, ps_provider = provider,
                ps_agentInstanceId = agentInstanceId, ps_providerSessionIds = [providerSessionId], ps_seq = 0,
                ps_headHash = PRINCIPAL_GENESIS_HASH\<rparr>;
              p' = p\<lparr>pr_streamIds := pr_streamIds p @ [streamId]\<rparr>
          in (st, p', put_principal p' (led\<lparr>pl_streams := jm_set streamId st (pl_streams led),
                pl_events := jm_set streamId [] (pl_events led)\<rparr>)))"

record event_options =
  eo_providerSessionId :: "string option"
  eo_policyDigest :: "string option"
  eo_proofDigest :: "string option"
  eo_binding :: bool

definition no_options :: event_options where
  "no_options = \<lparr>eo_providerSessionId = None, eo_policyDigest = None, eo_proofDigest = None, eo_binding = False\<rparr>"

definition make_event :: "webcrypto \<Rightarrow> int \<Rightarrow> stream_record \<Rightarrow> event_type \<Rightarrow> json \<Rightarrow> event_options \<Rightarrow> stream_event" where
  "make_event cr now st eventType payload opts =
     (let sanitizedPayload = sanitizeCaptureValue payload [];
          base = \<lparr>pe_principalId = ps_principalId st, pe_streamId = ps_streamId st, pe_provider = ps_provider st,
            pe_providerSessionId = eo_providerSessionId opts, pe_agentInstanceId = ps_agentInstanceId st,
            pe_seq = ps_seq st + 1, pe_timestamp = now, pe_eventType = eventType,
            pe_policyDigest = eo_policyDigest opts, pe_proofDigest = eo_proofDigest opts,
            pe_payloadHash = sha256hex cr (canonicalJson sanitizedPayload), pe_payload = sanitizedPayload,
            pe_prevHash = ps_headHash st, pe_chainHash = [], pe_bindingHash = None\<rparr>;
          chainHash = computeStreamEventHash cr base
      in base\<lparr>pe_chainHash := chainHash, pe_bindingHash := (if eo_binding opts then Some chainHash else None)\<rparr>)"

definition appendEventToStream ::
    "webcrypto \<Rightarrow> int \<Rightarrow> stream_record \<Rightarrow> event_type \<Rightarrow> json \<Rightarrow> event_options \<Rightarrow> ledger \<Rightarrow> stream_event \<times> ledger" where
  "appendEventToStream cr now st eventType payload opts led =
     (let e = make_event cr now st eventType payload opts
      in (e, led\<lparr>pl_events := jm_set (ps_streamId st) (get_list (pl_events led) (ps_streamId st) @ [e]) (pl_events led),
            pl_streams := jm_set (ps_streamId st) (st\<lparr>ps_seq := pe_seq e, ps_headHash := pe_chainHash e\<rparr>) (pl_streams led)\<rparr>))"

definition stream_heads :: "ledger \<Rightarrow> string list \<Rightarrow> (string, int \<times> string) jsmap" where
  "stream_heads led ids = fold (\<lambda>i heads. case jm_get (pl_streams led) i of
     None \<Rightarrow> heads | Some st \<Rightarrow> jm_set i (ps_seq st, ps_headHash st) heads) ids []"

definition appendCheckpoint :: "webcrypto \<Rightarrow> int \<Rightarrow> principal_record \<Rightarrow> ledger \<Rightarrow> checkpoint \<times> ledger" where
  "appendCheckpoint cr now p led =
     (let base = \<lparr>pc_principalId = pr_principalId p, pc_seq = pr_checkpointSeq p + 1, pc_timestamp = now,
            pc_streamHeads = stream_heads led (pr_streamIds p), pc_prevHash = pr_checkpointHead p, pc_checkpointHash = []\<rparr>;
          full = base\<lparr>pc_checkpointHash := computeCheckpointHash cr base\<rparr>;
          p' = p\<lparr>pr_checkpointSeq := pc_seq full, pr_checkpointHead := pc_checkpointHash full, pr_updatedAt := pc_timestamp full\<rparr>
      in (full, put_principal p' (led\<lparr>pl_checkpoints := jm_set (pr_principalId p)
            (get_list (pl_checkpoints led) (pr_principalId p) @ [full]) (pl_checkpoints led)\<rparr>)))"


section \<open>MemoryPrincipalSessionLedger\<close>

text \<open>The times of one binding: what \<open>Date.now()\<close> answers to the four reads.\<close>

record bind_times =
  bt_proof :: int
  bt_principal :: int
  bt_event :: int
  bt_checkpoint :: int

definition merge_context :: "json \<Rightarrow> json \<Rightarrow> json" where
  "merge_context a b = (case (a, b) of (JObj xs, JObj ys) \<Rightarrow> JObj (assign_all (xs @ ys)) | _ \<Rightarrow> b)"

definition proof_json :: "session_proof \<Rightarrow> json" where
  "proof_json p = JObj [(''challengeNonce'', JStr (pf_challengeNonce p)), (''signedAt'', JNum (pf_signedAt p)),
     (''signature'', JStr (pf_signature p))]"

definition bind_payload :: "bind_input \<Rightarrow> json \<Rightarrow> json \<Rightarrow> json" where
  "bind_payload i runtime context = JObj [(''provider'', JStr (bi_provider i)),
     (''providerSessionId'', JStr (bi_providerSessionId i)), (''agentInstanceId'', JStr (agent_instance i)),
     (''policyDigest'', JStr (bi_policyDigest i)), (''runtime'', runtime), (''authorizationContext'', context)]"

text \<open>What the binding does once proof and resolver have answered.\<close>

definition bind_commit ::
    "webcrypto \<Rightarrow> bind_times \<Rightarrow> bind_input \<Rightarrow> string \<Rightarrow> json \<Rightarrow> ledger \<Rightarrow> session_binding \<times> ledger" where
  "bind_commit cr tm i fingerprint context led =
     (let (p, led1) = upsertPrincipal cr (bt_principal tm) (bi_publicKeyJwk i) fingerprint context led;
          streamId = makeStreamId cr (pr_principalId p) (bi_provider i) (agent_instance i);
          (st, p1, led2) = upsertStream p streamId (bi_provider i) (agent_instance i) (bi_providerSessionId i) led1;
          p2 = p1\<lparr>pr_sessionIds := add_once (bi_providerSessionId i) (pr_sessionIds p1),
            pr_activeSessionIds := add_once (bi_providerSessionId i) (pr_activeSessionIds p1),
            pr_authorizationContext := (if context = JObj [] then pr_authorizationContext p1
              else merge_context (pr_authorizationContext p1) context)\<rparr>;
          runtime = sanitizeCaptureValue (or_empty (bi_runtimeMetadata i)) [];
          (e, led3) = appendEventToStream cr (bt_event tm) st SessionBound
            (bind_payload i runtime (pr_authorizationContext p2))
            \<lparr>eo_providerSessionId = Some (bi_providerSessionId i), eo_policyDigest = Some (bi_policyDigest i),
             eo_proofDigest = Some (sha256hex cr (canonicalJson (proof_json (bi_proof i)))), eo_binding = True\<rparr>
            (put_principal p2 led2);
          (c, led4) = appendCheckpoint cr (bt_checkpoint tm) p2 led3
      in (\<lparr>sb_principalId = pr_principalId p2, sb_streamId = streamId, sb_provider = bi_provider i,
           sb_providerSessionId = bi_providerSessionId i, sb_agentInstanceId = agent_instance i,
           sb_boundAt = pe_timestamp e, sb_policyDigest = bi_policyDigest i,
           sb_authorizationContext = pr_authorizationContext p2, sb_runtime = runtime,
           sb_prevHash = pe_prevHash e, sb_bindingHash = pe_chainHash e, sb_checkpointHash = pc_checkpointHash c\<rparr>, led4))"

type_synonym context_resolver = "string \<Rightarrow> string \<Rightarrow> string \<Rightarrow> json \<Rightarrow> json throws"

definition bindSession ::
    "webcrypto \<Rightarrow> context_resolver \<Rightarrow> bind_times \<Rightarrow> bind_input \<Rightarrow> ledger \<Rightarrow> session_binding throws \<times> ledger" where
  "bindSession cr resolve tm i led =
     (case and_then (assertBindingInput i) (\<lambda>_. and_then (computeFingerprint cr (bi_publicKeyJwk i)) (\<lambda>fingerprint.
             and_then (verifyPrincipalSessionProof cr (bt_proof tm) i fingerprint) (\<lambda>_. returns fingerprint))) of
        Inl e \<Rightarrow> (throw e, led)
      | Inr fingerprint \<Rightarrow>
          let proofNonceDigest = sha256hex cr (pf_challengeNonce (bi_proof i))
          in if proofNonceDigest \<in> set (pl_consumedProofNonces led)
             then (throw ''principal session proof replayed'', led)
             else let led1 = led\<lparr>pl_consumedProofNonces := pl_consumedProofNonces led @ [proofNonceDigest]\<rparr>
                  in (case resolve (principalIdFromFingerprint cr fingerprint) fingerprint (bi_policyDigest i)
                            (or_empty (bi_authorizationContext i)) of
                        Inl e \<Rightarrow> (throw e, led1)
                      | Inr context \<Rightarrow> map_prod Inr id (bind_commit cr tm i fingerprint context led1)))"

definition mustPrincipal :: "ledger \<Rightarrow> string \<Rightarrow> principal_record throws" where
  "mustPrincipal led principalId = (case jm_get (pl_principals led) principalId of
     None \<Rightarrow> throw (''Unknown principal: '' @ principalId) | Some p \<Rightarrow> returns p)"

definition appendStreamEvent ::
    "webcrypto \<Rightarrow> int \<Rightarrow> int \<Rightarrow> string \<Rightarrow> string \<Rightarrow> event_type \<Rightarrow> json \<Rightarrow> ledger \<Rightarrow> stream_event throws \<times> ledger" where
  "appendStreamEvent cr t1 t2 principalId streamId eventType payload led =
     (case mustPrincipal led principalId of
        Inl e \<Rightarrow> (throw e, led)
      | Inr p \<Rightarrow>
          (case jm_get (pl_streams led) streamId of
             None \<Rightarrow> (throw (''Unknown stream for principal: '' @ streamId), led)
           | Some st \<Rightarrow>
               if ps_principalId st \<noteq> principalId then (throw (''Unknown stream for principal: '' @ streamId), led)
               else (case appendEventToStream cr t1 st eventType payload no_options led of
                  (e, led1) \<Rightarrow> (returns e, snd (appendCheckpoint cr t2 p led1)))))"

definition closeSession ::
    "webcrypto \<Rightarrow> int \<Rightarrow> int \<Rightarrow> string \<Rightarrow> string \<Rightarrow> string \<Rightarrow> ledger \<Rightarrow> unit throws \<times> ledger" where
  "closeSession cr t1 t2 principalId streamId providerSessionId led =
     (case mustPrincipal led principalId of
        Inl e \<Rightarrow> (throw e, led)
      | Inr p \<Rightarrow> map_prod (map_sum id (\<lambda>_. ())) id (appendStreamEvent cr t1 t2 principalId streamId SessionClosed
            (JObj [(''providerSessionId'', JStr providerSessionId)])
            (put_principal (p\<lparr>pr_activeSessionIds := filter (\<lambda>x. x \<noteq> providerSessionId) (pr_activeSessionIds p)\<rparr>) led)))"

text \<open>The new key is stored before its fingerprint is computed, which may throw.\<close>

definition rotatePrincipalKey ::
    "webcrypto \<Rightarrow> int \<Rightarrow> int \<Rightarrow> string \<Rightarrow> json \<Rightarrow> int option \<Rightarrow> ledger \<Rightarrow> principal_record throws \<times> ledger" where
  "rotatePrincipalKey cr t1 t2 principalId publicKeyJwk keyVersion led =
     (case mustPrincipal led principalId of
        Inl e \<Rightarrow> (throw e, led)
      | Inr p \<Rightarrow>
          let p1 = p\<lparr>pr_publicKeyJwk := publicKeyJwk\<rparr>
          in (case computeFingerprint cr publicKeyJwk of
                Inl e \<Rightarrow> (throw e, put_principal p1 led)
              | Inr fp \<Rightarrow>
                  let p2 = p1\<lparr>pr_keyFingerprint := fp,
                        pr_keyVersion := (case keyVersion of None \<Rightarrow> pr_keyVersion p + 1 | Some v \<Rightarrow> v), pr_updatedAt := t1\<rparr>;
                      led1 = snd (appendCheckpoint cr t2 p2 led)
                  in (returns (the (jm_get (pl_principals led1) principalId)), led1)))"

definition getPrincipal :: "ledger \<Rightarrow> string \<Rightarrow> principal_record option" where
  "getPrincipal led principalId = jm_get (pl_principals led) principalId"

definition snapshotStream :: "ledger \<Rightarrow> string \<Rightarrow> stream_event list" where
  "snapshotStream led streamId = get_list (pl_events led) streamId"

definition snapshotCheckpoints :: "ledger \<Rightarrow> string \<Rightarrow> checkpoint list" where
  "snapshotCheckpoints led principalId = get_list (pl_checkpoints led) principalId"

text \<open>The comparison by time, then \<open>localeCompare\<close> of the stream (a parameter), then sequence.\<close>

definition event_order :: "(string \<Rightarrow> string \<Rightarrow> int) \<Rightarrow> stream_event \<Rightarrow> stream_event \<Rightarrow> int" where
  "event_order localeCompare a b =
     (if pe_timestamp a \<noteq> pe_timestamp b then pe_timestamp a - pe_timestamp b
      else if localeCompare (pe_streamId a) (pe_streamId b) \<noteq> 0 then localeCompare (pe_streamId a) (pe_streamId b)
      else pe_seq a - pe_seq b)"

fun insert_by :: "('a \<Rightarrow> 'a \<Rightarrow> int) \<Rightarrow> 'a \<Rightarrow> 'a list \<Rightarrow> 'a list" where
  "insert_by c x [] = [x]"
| "insert_by c x (y # ys) = (if c x y \<le> 0 then x # y # ys else y # insert_by c x ys)"

definition slice_last :: "int \<Rightarrow> 'a list \<Rightarrow> 'a list" where
  "slice_last limit xs = (if 0 < limit then drop (length xs - nat limit) xs else drop (nat (- limit)) xs)"

definition queryPrincipalEvents ::
    "(string \<Rightarrow> string \<Rightarrow> int) \<Rightarrow> ledger \<Rightarrow> string \<Rightarrow> int \<Rightarrow> stream_event list throws" where
  "queryPrincipalEvents localeCompare led principalId limit = and_then (mustPrincipal led principalId) (\<lambda>p. returns
     (slice_last limit (foldr (insert_by (event_order localeCompare))
       (concat (map (get_list (pl_events led)) (pr_streamIds p))) [])))"

section \<open>Continuity\<close>

fun check_events :: "webcrypto \<Rightarrow> string \<Rightarrow> int \<Rightarrow> string \<Rightarrow> stream_event list \<Rightarrow> (string option \<times> string) + string" where
  "check_events cr streamId i prev [] = Inr prev"
| "check_events cr streamId i prev (e # es) =
     (let loc = Some (streamId @ '':'' @ int_to_dec (pe_seq e))
      in if pe_seq e \<noteq> i then Inl (loc, ''non_contiguous_stream_seq'')
         else if pe_prevHash e \<noteq> prev then Inl (loc, ''broken_stream_link'')
         else if computeStreamEventHash cr e \<noteq> pe_chainHash e then Inl (loc, ''stream_entry_hash_mismatch'')
         else check_events cr streamId (i + 1) (pe_chainHash e) es)"

fun check_streams ::
    "webcrypto \<Rightarrow> ledger \<Rightarrow> string list \<Rightarrow> (string, int \<times> string) jsmap \<Rightarrow> (string option \<times> string) + (string, int \<times> string) jsmap" where
  "check_streams cr led [] heads = Inr heads"
| "check_streams cr led (i # is) heads =
     (case jm_get (pl_streams led) i of
        None \<Rightarrow> Inl (Some i, ''stream_missing'')
      | Some st \<Rightarrow>
          (case check_events cr i 1 PRINCIPAL_GENESIS_HASH (get_list (pl_events led) i) of
             Inl b \<Rightarrow> Inl b
           | Inr prev \<Rightarrow>
               if ps_seq st \<noteq> int (length (get_list (pl_events led) i)) \<or> ps_headHash st \<noteq> prev
               then Inl (Some i, ''stream_head_mismatch'')
               else check_streams cr led is (jm_set i (ps_seq st, ps_headHash st) heads)))"

fun check_checkpoints :: "webcrypto \<Rightarrow> int \<Rightarrow> string \<Rightarrow> checkpoint list \<Rightarrow> (string option \<times> string) option" where
  "check_checkpoints cr i prev [] = None"
| "check_checkpoints cr i prev (c # cs) =
     (let loc = Some (''checkpoint:'' @ int_to_dec (pc_seq c))
      in if pc_seq c \<noteq> i then Some (loc, ''non_contiguous_checkpoint_seq'')
         else if pc_prevHash c \<noteq> prev then Some (loc, ''broken_checkpoint_link'')
         else if computeCheckpointHash cr c \<noteq> pc_checkpointHash c then Some (loc, ''checkpoint_hash_mismatch'')
         else check_checkpoints cr (i + 1) (pc_checkpointHash c) cs)"

definition verifyPrincipalContinuity :: "webcrypto \<Rightarrow> ledger \<Rightarrow> string \<Rightarrow> continuity" where
  "verifyPrincipalContinuity cr led principalId =
     (case jm_get (pl_principals led) principalId of
        None \<Rightarrow> Discontinuous None ''principal_not_found''
      | Some p \<Rightarrow>
          (case check_streams cr led (pr_streamIds p) [] of
             Inl (loc, reason) \<Rightarrow> Discontinuous loc reason
           | Inr currentHeads \<Rightarrow>
               (let checkpoints = get_list (pl_checkpoints led) principalId
                in (case check_checkpoints cr 1 PRINCIPAL_GENESIS_HASH checkpoints of
                      Some (loc, reason) \<Rightarrow> Discontinuous loc reason
                    | None \<Rightarrow>
                        if checkpoints = [] \<or> pc_checkpointHash (last checkpoints) \<noteq> pr_checkpointHead p
                          \<or> pc_seq (last checkpoints) \<noteq> pr_checkpointSeq p
                        then Discontinuous (Some ''checkpoint:head'') ''principal_checkpoint_head_mismatch''
                        else if canonicalJson (heads_json (pc_streamHeads (last checkpoints))) \<noteq> canonicalJson (heads_json currentHeads)
                        then Discontinuous (Some ''checkpoint:latest'') ''checkpoint_stream_heads_mismatch''
                        else Continuous))))"

section \<open>The sealed cache\<close>

record sealed_cache =
  sc_version :: string
  sc_source :: string
  sc_principalId :: string
  sc_policyDigest :: string
  sc_checkpointHash :: string
  sc_issuedAt :: int
  sc_expiresAt :: int
  sc_consumedNonceDigests :: "string list"
  sc_authorizationContext :: json
  sc_seal :: string

definition cache_body :: "sealed_cache \<Rightarrow> json" where
  "cache_body c = JObj [(''version'', JStr (sc_version c)), (''source'', JStr (sc_source c)),
     (''principalId'', JStr (sc_principalId c)), (''policyDigest'', JStr (sc_policyDigest c)),
     (''checkpointHash'', JStr (sc_checkpointHash c)), (''issuedAt'', JNum (sc_issuedAt c)),
     (''expiresAt'', JNum (sc_expiresAt c)), (''consumedNonceDigests'', JArr (map JStr (sc_consumedNonceDigests c))),
     (''authorizationContext'', sc_authorizationContext c)]"

definition computeCacheSeal :: "webcrypto \<Rightarrow> sealed_cache \<Rightarrow> string \<Rightarrow> string" where
  "computeCacheSeal cr c sealKey =
     concat (map hex_byte (wc_hmac cr (utf8 sealKey) (utf8 (canonicalJson (cache_body c)))))"

definition sealPrincipalCache :: "webcrypto \<Rightarrow> sealed_cache \<Rightarrow> string \<Rightarrow> sealed_cache" where
  "sealPrincipalCache cr input sealKey = (let c = input\<lparr>sc_version := ''1''\<rparr>
     in c\<lparr>sc_seal := computeCacheSeal cr c sealKey\<rparr>)"

definition constantTimeHexEqual :: "string \<Rightarrow> string \<Rightarrow> bool" where
  "constantTimeHexEqual a b = (let aBuf = hex_decode a; bBuf = hex_decode b
     in if length aBuf \<noteq> length bBuf then False else aBuf = bBuf)"

datatype fallback_result = FallbackOk string json | FallbackError string

text \<open>A nonce store that rejects the promise rejects the call.\<close>

definition verifyFallbackAuthorization ::
    "webcrypto \<Rightarrow> (int \<Rightarrow> string \<Rightarrow> 'n \<Rightarrow> (nonce_error + bool) \<times> 'n) \<Rightarrow> sealed_cache \<Rightarrow> string \<Rightarrow> string \<Rightarrow> string \<Rightarrow> string
       \<Rightarrow> bool \<Rightarrow> int \<Rightarrow> 'n \<Rightarrow> (nonce_error + fallback_result) \<times> 'n" where
  "verifyFallbackAuthorization cr consume c sealKey requestedPolicyDigest expectedCheckpointHash challengeNonce proofVerified now st =
     (if \<not> constantTimeHexEqual (sc_seal c) (computeCacheSeal cr c sealKey) then (Inr (FallbackError ''cache_seal_invalid''), st)
      else if now < sc_issuedAt c then (Inr (FallbackError ''cache_not_yet_valid''), st)
      else if sc_expiresAt c \<le> now then (Inr (FallbackError ''cache_expired''), st)
      else if sc_policyDigest c \<noteq> requestedPolicyDigest then (Inr (FallbackError ''policy_mismatch''), st)
      else if sc_checkpointHash c \<noteq> expectedCheckpointHash then (Inr (FallbackError ''checkpoint_mismatch''), st)
      else if \<not> proofVerified then (Inr (FallbackError ''fresh_proof_required''), st)
      else if length challengeNonce < 16 then (Inr (FallbackError ''nonce_too_short''), st)
      else if sha256hex cr challengeNonce \<in> set (sc_consumedNonceDigests c) then (Inr (FallbackError ''nonce_replay''), st)
      else (case consume now challengeNonce st of
         (Inl e, st') \<Rightarrow> (Inl e, st')
       | (Inr True, st') \<Rightarrow> (Inr (FallbackError ''nonce_replay''), st')
       | (Inr False, st') \<Rightarrow> (Inr (FallbackOk (sc_source c) (sc_authorizationContext c)), st')))"

end
