(* ===== verification/Principal_Laws.thy ===== *)
theory Principal_Laws
  imports Principal
begin

text \<open>
  What the ledger of \<open>Principal\<close> guarantees. An invariant (\<open>base\<close>, \<open>clean\<close>) is kept by every operation,
  so every principal's continuity verifies after any run; a signed proof binds at most one session; a
  key rotation retires no key; a fallback authorization is honoured once.
\<close>

section \<open>The ledger keeps its chains\<close>

text \<open>
  \<open>base\<close>: every stream and checkpoint chain is intact and every stream belongs to the principal that
  lists it. \<open>clean\<close>: the last checkpoint of a principal records the current heads of its streams.
\<close>

definition stream_ok :: "webcrypto \<Rightarrow> ledger \<Rightarrow> string \<Rightarrow> string \<Rightarrow> bool" where
  "stream_ok cr led k i = (case map_of (pl_streams led) i of
     None \<Rightarrow> False
   | Some st \<Rightarrow> ps_streamId st = i \<and> ps_principalId st = k
       \<and> check_events cr i 1 PRINCIPAL_GENESIS_HASH (get_list (pl_events led) i) = Inr (ps_headHash st)
       \<and> ps_seq st = int (length (get_list (pl_events led) i)))"

definition chain_ok :: "webcrypto \<Rightarrow> checkpoint list \<Rightarrow> principal_record \<Rightarrow> bool" where
  "chain_ok cr cs p = (check_checkpoints cr 1 PRINCIPAL_GENESIS_HASH cs = None
     \<and> pr_checkpointSeq p = int (length cs)
     \<and> pr_checkpointHead p = (if cs = [] then PRINCIPAL_GENESIS_HASH else pc_checkpointHash (last cs))
     \<and> (cs = [] \<or> pc_seq (last cs) = int (length cs)))"

definition principal_ok :: "webcrypto \<Rightarrow> ledger \<Rightarrow> string \<Rightarrow> principal_record \<Rightarrow> bool" where
  "principal_ok cr led k p = (pr_principalId p = k \<and> list_all (stream_ok cr led k) (pr_streamIds p)
     \<and> chain_ok cr (get_list (pl_checkpoints led) k) p)"

definition clean :: "ledger \<Rightarrow> string \<Rightarrow> bool" where
  "clean led k = (case map_of (pl_principals led) k of
     None \<Rightarrow> True
   | Some p \<Rightarrow> get_list (pl_checkpoints led) k \<noteq> []
       \<and> pc_streamHeads (last (get_list (pl_checkpoints led) k)) = stream_heads led (pr_streamIds p))"

definition base :: "webcrypto \<Rightarrow> ledger \<Rightarrow> bool" where
  "base cr led = ((\<forall>k p. map_of (pl_principals led) k = Some p \<longrightarrow> principal_ok cr led k p)
     \<and> (\<forall>i st. map_of (pl_streams led) i = Some st \<longrightarrow>
          (\<exists>p. map_of (pl_principals led) (ps_principalId st) = Some p \<and> i \<in> set (pr_streamIds p))))"

definition clean_but :: "ledger \<Rightarrow> string \<Rightarrow> bool" where
  "clean_but led k = (\<forall>j. j \<noteq> k \<longrightarrow> clean led j)"

definition head_of :: "ledger \<Rightarrow> string \<Rightarrow> (int \<times> string) option" where
  "head_of led i = map_option (\<lambda>st. (ps_seq st, ps_headHash st)) (map_of (pl_streams led) i)"

lemma stream_heads_alt:
  "stream_heads led ids = fold (\<lambda>i heads. case head_of led i of None \<Rightarrow> heads | Some h \<Rightarrow> jm_set i h heads) ids []"
  unfolding stream_heads_def head_of_def by (rule fold_cong) (auto split: option.splits)

lemma stream_heads_cong: "(\<And>i. i \<in> set ids \<Longrightarrow> head_of led i = head_of led' i) \<Longrightarrow> stream_heads led ids = stream_heads led' ids"
  unfolding stream_heads_alt by (rule fold_cong) auto

lemma clean_iff:
  "clean led k \<longleftrightarrow> (\<forall>p. map_of (pl_principals led) k = Some p \<longrightarrow> get_list (pl_checkpoints led) k \<noteq> []
     \<and> pc_streamHeads (last (get_list (pl_checkpoints led) k)) = stream_heads led (pr_streamIds p))"
  by (simp add: clean_def split: option.split)

lemma stream_ok_iff:
  "stream_ok cr led k i \<longleftrightarrow> (\<exists>st. map_of (pl_streams led) i = Some st \<and> ps_streamId st = i \<and> ps_principalId st = k
     \<and> check_events cr i 1 PRINCIPAL_GENESIS_HASH (get_list (pl_events led) i) = Inr (ps_headHash st)
     \<and> ps_seq st = int (length (get_list (pl_events led) i)))"
  by (simp add: stream_ok_def split: option.split)

lemma get_list_set [simp]: "get_list (jm_set k v m) j = (if j = k then v else get_list m j)"
  by (simp add: get_list_def)

lemma check_streams_ok:
  "list_all (stream_ok cr led k) ids \<Longrightarrow> check_streams cr led ids heads =
     Inr (fold (\<lambda>i heads. case head_of led i of None \<Rightarrow> heads | Some h \<Rightarrow> jm_set i h heads) ids heads)"
  by (induction ids arbitrary: heads) (auto simp: stream_ok_def head_of_def split: option.splits)

lemma verifies:
  assumes "base cr led" "clean led k" "map_of (pl_principals led) k = Some p"
  shows "verifyPrincipalContinuity cr led k = Continuous"
proof -
  from assms(1,3) have p: "principal_ok cr led k p" by (auto simp: base_def)
  then have "check_streams cr led (pr_streamIds p) [] = Inr (stream_heads led (pr_streamIds p))"
    by (simp add: principal_ok_def check_streams_ok [where k = k] stream_heads_alt)
  with assms p show ?thesis
    by (auto simp: verifyPrincipalContinuity_def clean_def principal_ok_def chain_ok_def Let_def)
qed

subsection \<open>Appending\<close>

lemma check_events_snoc:
  "check_events cr i n prev (es @ [e]) = (case check_events cr i n prev es of
     Inl b \<Rightarrow> Inl b | Inr h \<Rightarrow> check_events cr i (n + int (length es)) h [e])"
  by (induction cr i n prev es rule: check_events.induct) (auto simp: Let_def add.assoc split: sum.split)

lemma check_checkpoints_snoc:
  "check_checkpoints cr n prev cs = None \<Longrightarrow> check_checkpoints cr n prev (cs @ [c]) =
     check_checkpoints cr (n + int (length cs)) (if cs = [] then prev else pc_checkpointHash (last cs)) [c]"
  by (induction cr n prev cs rule: check_checkpoints.induct) (auto simp: Let_def add.assoc split: if_splits)

lemma event_hash_cong [simp]:
  "computeStreamEventHash cr (e\<lparr>pe_chainHash := h, pe_bindingHash := b\<rparr>) = computeStreamEventHash cr e"
  by (simp add: computeStreamEventHash_def)

lemma checkpoint_hash_cong [simp]: "computeCheckpointHash cr (c\<lparr>pc_checkpointHash := h\<rparr>) = computeCheckpointHash cr c"
  by (simp add: computeCheckpointHash_def)

lemma make_event_fields:
  "pe_seq (make_event cr now st t pl opts) = ps_seq st + 1"
  "pe_prevHash (make_event cr now st t pl opts) = ps_headHash st"
  "pe_chainHash (make_event cr now st t pl opts) = computeStreamEventHash cr (make_event cr now st t pl opts)"
  by (simp_all add: make_event_def Let_def computeStreamEventHash_def)

text \<open>Two records of a principal with the same chain and streams.\<close>

definition same_chain :: "principal_record \<Rightarrow> principal_record \<Rightarrow> bool" where
  "same_chain p q = (pr_principalId p = pr_principalId q \<and> pr_streamIds p = pr_streamIds q
     \<and> pr_checkpointHead p = pr_checkpointHead q \<and> pr_checkpointSeq p = pr_checkpointSeq q)"

lemma chain_ok_same: "same_chain p q \<Longrightarrow> chain_ok cr cs p = chain_ok cr cs q"
  by (simp add: chain_ok_def same_chain_def)

lemma principal_ok_same: "same_chain p q \<Longrightarrow> principal_ok cr led k p = principal_ok cr led k q"
  using chain_ok_same [of p q cr "get_list (pl_checkpoints led) k"] by (simp add: principal_ok_def same_chain_def)

lemma stream_ok_cong:
  "map_of (pl_streams led) i = map_of (pl_streams led') i \<Longrightarrow> get_list (pl_events led) i = get_list (pl_events led') i
     \<Longrightarrow> stream_ok cr led k i = stream_ok cr led' k i"
  by (simp add: stream_ok_def split: option.split)

lemma base_updateI:
  assumes "base cr led" "map_of (pl_principals led) k = Some p" "set (pr_streamIds p) \<subseteq> set (pr_streamIds q)"
    "map_of (pl_principals led') = (map_of (pl_principals led))(k \<mapsto> q)" "map_of (pl_streams led') = map_of (pl_streams led)"
    "principal_ok cr led' k q" "\<And>j r. j \<noteq> k \<Longrightarrow> principal_ok cr led j r \<Longrightarrow> principal_ok cr led' j r"
  shows "base cr led'"
  unfolding base_def
proof (intro conjI allI impI)
  fix j r
  assume "map_of (pl_principals led') j = Some r"
  with assms show "principal_ok cr led' j r" by (cases "j = k") (auto simp: base_def)
next
  fix i st
  assume "map_of (pl_streams led') i = Some st"
  with assms(1,5) obtain r where "map_of (pl_principals led) (ps_principalId st) = Some r" "i \<in> set (pr_streamIds r)"
    unfolding base_def by (metis assms(5))
  with assms(2-4) show "\<exists>r. map_of (pl_principals led') (ps_principalId st) = Some r \<and> i \<in> set (pr_streamIds r)"
    by (cases "ps_principalId st = k") auto
qed

lemma base_put:
  assumes "base cr led" "map_of (pl_principals led) k = Some p" "same_chain p q"
  shows "base cr (put_principal q led) \<and> (\<forall>j. clean (put_principal q led) j = clean led j)"
proof -
  from assms(1,2) have p: "principal_ok cr led k p" by (simp add: base_def)
  with assms(3) have q: "pr_principalId q = k" by (simp add: principal_ok_def same_chain_def)
  have s: "stream_ok cr (put_principal q led) j i = stream_ok cr led j i" "stream_heads (put_principal q led) ids = stream_heads led ids" for i j ids
    by (rule stream_ok_cong, simp_all add: put_principal_def stream_heads_def)
  then have s': "stream_ok cr (put_principal q led) = stream_ok cr led" by blast
  have "principal_ok cr (put_principal q led) j p' = principal_ok cr led j p'" for j p'
    unfolding principal_ok_def s' by (simp add: put_principal_def)
  moreover from p assms(3) have "principal_ok cr led k q" by (simp add: principal_ok_same)
  ultimately have "base cr (put_principal q led)"
    using assms(3) q by (intro base_updateI [OF assms(1,2), of q]) (simp_all add: put_principal_def same_chain_def)
  moreover have "clean (put_principal q led) j = clean led j" for j
    unfolding clean_iff s using assms q
    by (cases "j = k") (simp_all add: put_principal_def same_chain_def)
  ultimately show ?thesis by blast
qed

lemma base_checkpoint:
  assumes "base cr led" "map_of (pl_principals led) k = Some p0" "same_chain p0 p" "clean_but led k"
  shows "base cr (snd (appendCheckpoint cr now p led)) \<and> (\<forall>j. clean (snd (appendCheckpoint cr now p led)) j)"
proof -
  let ?cs = "get_list (pl_checkpoints led) k"
  let ?b = "\<lparr>pc_principalId = pr_principalId p, pc_seq = pr_checkpointSeq p + 1, pc_timestamp = now,
      pc_streamHeads = stream_heads led (pr_streamIds p), pc_prevHash = pr_checkpointHead p, pc_checkpointHash = []\<rparr>"
  let ?c = "?b\<lparr>pc_checkpointHash := computeCheckpointHash cr ?b\<rparr>"
  let ?p = "p\<lparr>pr_checkpointSeq := pc_seq ?c, pr_checkpointHead := pc_checkpointHash ?c, pr_updatedAt := pc_timestamp ?c\<rparr>"
  let ?l = "snd (appendCheckpoint cr now p led)"
  from assms(1,2) have "principal_ok cr led k p0" by (simp add: base_def)
  with assms(3) have p: "principal_ok cr led k p" by (simp add: principal_ok_same)
  then have p1: "pr_principalId p = k" by (simp add: principal_ok_def)
  have l: "?l = led\<lparr>pl_principals := jm_set k ?p (pl_principals led), pl_checkpoints := jm_set k (?cs @ [?c]) (pl_checkpoints led)\<rparr>"
    by (simp add: appendCheckpoint_def Let_def put_principal_def p1)
  have s: "stream_ok cr ?l = stream_ok cr led" "stream_heads ?l ids = stream_heads led ids" for ids
    by (auto simp: l stream_heads_def fun_eq_iff intro!: stream_ok_cong)
  from p have "chain_ok cr (?cs @ [?c]) ?p"
    by (auto simp: chain_ok_def principal_ok_def check_checkpoints_snoc Let_def computeCheckpointHash_def)
  with p have k: "principal_ok cr ?l k ?p" unfolding principal_ok_def s by (simp add: l)
  have "principal_ok cr ?l j q = principal_ok cr led j q" if "j \<noteq> k" for j q
    unfolding principal_ok_def s using that by (simp add: l)
  with k assms(3) have "base cr ?l"
    by (intro base_updateI [OF assms(1,2), of ?p]) (simp_all add: same_chain_def, simp_all add: l)
  moreover have "clean ?l j" for j
  proof (cases "j = k")
    case False
    with assms(4) have "clean led j" by (simp add: clean_but_def)
    with False show ?thesis unfolding clean_iff s by (simp add: l)
  qed (simp add: clean_iff s, simp add: l)
  ultimately show ?thesis by blast
qed

lemma base_streamD:
  assumes "base cr led" "map_of (pl_streams led) i = Some st"
  shows "stream_ok cr led (ps_principalId st) i \<and> ps_streamId st = i"
proof -
  from assms obtain p where "map_of (pl_principals led) (ps_principalId st) = Some p" "i \<in> set (pr_streamIds p)"
    unfolding base_def by blast
  with assms(1) have "stream_ok cr led (ps_principalId st) i" by (auto simp: base_def principal_ok_def list_all_iff)
  with assms(2) show ?thesis by (simp add: stream_ok_iff)
qed

lemma base_event:
  assumes "base cr led" "map_of (pl_streams led) i = Some st" "ps_principalId st = k" "clean_but led k"
    "appendEventToStream cr now st t pl opts led = (e, led')"
  shows "base cr led' \<and> clean_but led' k \<and> pl_principals led' = pl_principals led"
proof -
  from base_streamD [OF assms(1,2)] assms(3) have st: "stream_ok cr led k i" and id: "ps_streamId st = i" by simp_all
  let ?st = "st\<lparr>ps_seq := pe_seq e, ps_headHash := pe_chainHash e\<rparr>"
  have e: "e = make_event cr now st t pl opts" and
    l: "led' = led\<lparr>pl_events := jm_set i (get_list (pl_events led) i @ [e]) (pl_events led),
        pl_streams := jm_set i ?st (pl_streams led)\<rparr>"
    using assms(5) by (auto simp: appendEventToStream_def Let_def id)
  have ok: "stream_ok cr led' k i"
    using st assms(2,3) make_event_fields [of cr now st t pl opts]
    by (auto simp: stream_ok_def l check_events_snoc Let_def simp flip: e)
  have other: "stream_ok cr led' j i' = stream_ok cr led j i'" if "i' \<noteq> i" for j i'
    using that by (intro stream_ok_cong) (simp_all add: l)
  have own: "i \<notin> set (pr_streamIds q)" if "map_of (pl_principals led) j = Some q" "j \<noteq> k" for j q
  proof
    assume "i \<in> set (pr_streamIds q)"
    with that(1) assms(1) have "stream_ok cr led j i" by (auto simp: base_def principal_ok_def list_all_iff)
    with assms(2,3) that(2) show False by (simp add: stream_ok_def)
  qed
  have pok: "principal_ok cr led' j q" if "map_of (pl_principals led) j = Some q" for j q
  proof -
    from that assms(1) have q: "principal_ok cr led j q" by (auto simp: base_def)
    have "stream_ok cr led' j x" if "x \<in> set (pr_streamIds q)" for x
      using that q ok other own [OF \<open>map_of (pl_principals led) j = Some q\<close>] by (cases "x = i"; cases "j = k") (auto simp: principal_ok_def list_all_iff)
    with q show ?thesis by (simp add: principal_ok_def list_all_iff l)
  qed
  then have "base cr led'" using assms(1,2) by (auto simp: base_def l)
  moreover have "clean led' j" if "j \<noteq> k" for j
  proof (cases "map_of (pl_principals led) j")
    case (Some q)
    have "stream_heads led' (pr_streamIds q) = stream_heads led (pr_streamIds q)"
      using own [OF Some that] by (intro stream_heads_cong) (auto simp: head_of_def l)
    with Some assms(4) that show ?thesis by (auto simp: clean_but_def clean_iff l)
  qed (simp add: clean_iff l)
  ultimately show ?thesis by (simp add: clean_but_def l)
qed

subsection \<open>Binding\<close>

definition owned :: "(string \<times> string) list \<Rightarrow> ledger \<Rightarrow> bool" where
  "owned ids led = (\<forall>i st. map_of (pl_streams led) i = Some st \<longrightarrow> (ps_principalId st, i) \<in> set ids)"

lemma owned_mono: "owned ids led \<Longrightarrow> owned (ids @ ids2) led"
  by (auto simp: owned_def)

lemma base_frame:
  "pl_principals led' = pl_principals led \<Longrightarrow> pl_streams led' = pl_streams led \<Longrightarrow> pl_events led' = pl_events led
     \<Longrightarrow> pl_checkpoints led' = pl_checkpoints led \<Longrightarrow> base cr led' = base cr led \<and> clean led' = clean led"
proof -
  assume eq: "pl_principals led' = pl_principals led" "pl_streams led' = pl_streams led" "pl_events led' = pl_events led"
    "pl_checkpoints led' = pl_checkpoints led"
  have "stream_ok cr led' = stream_ok cr led" by (intro ext stream_ok_cong) (simp_all add: eq)
  then have "principal_ok cr led' = principal_ok cr led" by (intro ext) (simp add: principal_ok_def eq)
  moreover have "stream_heads led' = stream_heads led" by (intro ext) (simp add: stream_heads_def eq)
  moreover have "clean led' = clean led" by (intro ext) (simp add: clean_iff calculation eq)
  ultimately show ?thesis by (simp add: base_def eq)
qed

lemma base_upsertPrincipal:
  assumes "base cr led" "\<forall>j. clean led j" "upsertPrincipal cr now jwk fp ctx led = (p, led')"
  defines "k \<equiv> principalIdFromFingerprint cr fp"
  shows "base cr led' \<and> clean_but led' k \<and> map_of (pl_principals led') k = Some p \<and> pr_principalId p = k
    \<and> pl_streams led' = pl_streams led"
proof (cases "map_of (pl_principals led) k")
  case (Some q)
  with assms(3) have "p = q" "led' = led" by (simp_all add: upsertPrincipal_def Let_def flip: k_def)
  moreover from Some assms(1) have "pr_principalId q = k" by (simp add: base_def principal_ok_def)
  ultimately show ?thesis using Some assms(1,2) by (simp add: clean_but_def)
next
  case None
  let ?p = "\<lparr>pr_principalId = k, pr_keyFingerprint = fp, pr_publicKeyJwk = jwk, pr_createdAt = now, pr_updatedAt = now,
      pr_authorizationContext = ctx, pr_keyVersion = 1, pr_sessionIds = [], pr_activeSessionIds = [], pr_streamIds = [],
      pr_checkpointHead = PRINCIPAL_GENESIS_HASH, pr_checkpointSeq = 0\<rparr>"
  from None assms(3) have l: "p = ?p" "led' = led\<lparr>pl_principals := jm_set k ?p (pl_principals led),
      pl_checkpoints := jm_set k [] (pl_checkpoints led)\<rparr>"
    by (auto simp: upsertPrincipal_def Let_def put_principal_def simp flip: k_def)
  have s: "stream_ok cr led' = stream_ok cr led" "stream_heads led' ids = stream_heads led ids" for ids
    by (auto simp: l stream_heads_def fun_eq_iff intro!: stream_ok_cong)
  have "principal_ok cr led' k ?p" by (simp add: principal_ok_def chain_ok_def l)
  moreover have "principal_ok cr led' j q" if "principal_ok cr led j q" "j \<noteq> k" for j q
    using that unfolding principal_ok_def s by (simp add: l)
  ultimately have pok: "principal_ok cr led' j q" if "map_of (pl_principals led') j = Some q" for j q
    using that assms(1) by (cases "j = k") (auto simp: l base_def)
  have "\<exists>q. map_of (pl_principals led') (ps_principalId st) = Some q \<and> i \<in> set (pr_streamIds q)"
    if "map_of (pl_streams led') i = Some st" for i st
  proof -
    from that assms(1) obtain q where "map_of (pl_principals led) (ps_principalId st) = Some q" "i \<in> set (pr_streamIds q)"
      unfolding base_def l by force
    with None show ?thesis by (cases "ps_principalId st = k") (auto simp: l)
  qed
  with pok have "base cr led'" by (simp add: base_def)
  moreover have "clean_but led' k"
    using assms(2) unfolding clean_but_def clean_iff s by (simp add: l)
  ultimately show ?thesis by (simp add: l)
qed

lemma base_upsertStream:
  assumes "base cr led" "clean_but led k" "map_of (pl_principals led) k = Some p" "pr_principalId p = k"
    "\<And>st. map_of (pl_streams led) i = Some st \<Longrightarrow> ps_principalId st = k"
    "upsertStream p i prov agent sid led = (st, p', led')"
  shows "base cr led' \<and> clean_but led' k \<and> map_of (pl_principals led') k = Some p' \<and> pr_principalId p' = k
    \<and> map_of (pl_streams led') i = Some st \<and> ps_principalId st = k
    \<and> (\<forall>j. j \<noteq> i \<longrightarrow> map_of (pl_streams led') j = map_of (pl_streams led) j)"
proof (cases "map_of (pl_streams led) i")
  case (Some st0)
  with assms(6) have l: "p' = p" "st = st0\<lparr>ps_providerSessionIds := add_once sid (ps_providerSessionIds st0)\<rparr>"
    "led' = led\<lparr>pl_streams := jm_set i st (pl_streams led)\<rparr>"
    by (auto simp: upsertStream_def Let_def)
  have "stream_ok cr led' j x = stream_ok cr led j x" for j x
    using Some by (cases "x = i") (simp_all add: l stream_ok_iff)
  moreover have "stream_heads led' ids = stream_heads led ids" for ids
    using Some by (intro stream_heads_cong) (simp add: l head_of_def)
  ultimately have s: "stream_ok cr led' = stream_ok cr led" "stream_heads led' = stream_heads led"
    by (auto simp: fun_eq_iff)
  have pok: "principal_ok cr led' = principal_ok cr led"
    unfolding principal_ok_def s by (simp add: l)
  have "base cr led'"
    using assms(1) Some unfolding base_def pok by (simp add: l)
  moreover have "clean led' = clean led"
    by (intro ext) (simp add: clean_iff s, simp add: l)
  ultimately show ?thesis using assms(2-5) Some by (simp add: l clean_but_def)
next
  case None
  let ?st = "\<lparr>ps_principalId = pr_principalId p, ps_streamId = i, ps_provider = prov, ps_agentInstanceId = agent,
      ps_providerSessionIds = [sid], ps_seq = 0, ps_headHash = PRINCIPAL_GENESIS_HASH\<rparr>"
  let ?p = "p\<lparr>pr_streamIds := pr_streamIds p @ [i]\<rparr>"
  from None assms(4,6) have l: "st = ?st" "p' = ?p" "led' = led\<lparr>pl_streams := jm_set i ?st (pl_streams led),
      pl_events := jm_set i [] (pl_events led), pl_principals := jm_set k ?p (pl_principals led)\<rparr>"
    by (auto simp: upsertStream_def Let_def put_principal_def)
  have new: "i \<notin> set (pr_streamIds q)" if "map_of (pl_principals led) j = Some q" for j q
    using that assms(1) None by (fastforce simp: base_def principal_ok_def list_all_iff stream_ok_iff)
  have ok: "stream_ok cr led' j x" if "stream_ok cr led j x" for j x
    using that None by (cases "x = i") (auto simp: stream_ok_iff l)
  have "stream_ok cr led' k i" by (simp add: stream_ok_iff l assms(4))
  moreover from assms(1,3) have "principal_ok cr led k p" by (simp add: base_def)
  ultimately have k: "principal_ok cr led' k ?p"
    using ok by (auto simp: principal_ok_def chain_ok_def l list_all_iff)
  have j: "principal_ok cr led' j q" if "principal_ok cr led j q" for j q
    using that ok by (auto simp: principal_ok_def l list_all_iff)
  have pok: "principal_ok cr led' j q" if "map_of (pl_principals led') j = Some q" for j q
    using that assms(1) k j by (cases "j = k") (auto simp: l base_def)
  have "\<exists>q. map_of (pl_principals led') (ps_principalId s) = Some q \<and> x \<in> set (pr_streamIds q)"
    if "map_of (pl_streams led') x = Some s" for x s
  proof (cases "x = i")
    case True
    with that assms(4) show ?thesis by (auto simp: l)
  next
    case False
    with that have "map_of (pl_streams led) x = Some s" by (simp add: l)
    with assms(1) obtain q where "map_of (pl_principals led) (ps_principalId s) = Some q" "x \<in> set (pr_streamIds q)"
      unfolding base_def by blast
    with assms(3) show ?thesis by (cases "ps_principalId s = k") (auto simp: l)
  qed
  with pok have "base cr led'" by (simp add: base_def)
  moreover have "clean led' j" if "j \<noteq> k" for j
  proof (cases "map_of (pl_principals led) j")
    case (Some q)
    have "stream_heads led' (pr_streamIds q) = stream_heads led (pr_streamIds q)"
      using new [OF Some] by (intro stream_heads_cong) (auto simp: head_of_def l)
    with Some that assms(2) show ?thesis by (simp add: clean_but_def clean_iff l)
  qed (use that in \<open>simp add: clean_iff l\<close>)
  ultimately show ?thesis using assms(4) by (simp add: l clean_but_def)
qed

lemma bind_commit_steps:
  obtains p led1 st p1 led2 p2 payload opts e led3 c led4 b where
    "upsertPrincipal cr (bt_principal tm) (bi_publicKeyJwk i) fp ctx led = (p, led1)"
    "upsertStream p (makeStreamId cr (pr_principalId p) (bi_provider i) (agent_instance i)) (bi_provider i) (agent_instance i)
       (bi_providerSessionId i) led1 = (st, p1, led2)"
    "same_chain p1 p2" "appendEventToStream cr (bt_event tm) st SessionBound payload opts (put_principal p2 led2) = (e, led3)"
    "appendCheckpoint cr (bt_checkpoint tm) p2 led3 = (c, led4)" "bind_commit cr tm i fp ctx led = (b, led4)"
    "sb_principalId b = pr_principalId p2"
proof -
  obtain p led1 where 1: "upsertPrincipal cr (bt_principal tm) (bi_publicKeyJwk i) fp ctx led = (p, led1)" by fastforce
  obtain st p1 led2 where 2: "upsertStream p (makeStreamId cr (pr_principalId p) (bi_provider i) (agent_instance i))
      (bi_provider i) (agent_instance i) (bi_providerSessionId i) led1 = (st, p1, led2)" by (metis prod_cases3)
  define p2 where "p2 = p1\<lparr>pr_sessionIds := add_once (bi_providerSessionId i) (pr_sessionIds p1),
      pr_activeSessionIds := add_once (bi_providerSessionId i) (pr_activeSessionIds p1),
      pr_authorizationContext := (if ctx = JObj [] then pr_authorizationContext p1
        else merge_context (pr_authorizationContext p1) ctx)\<rparr>"
  define payload where "payload = bind_payload i (sanitizeCaptureValue (or_empty (bi_runtimeMetadata i)) []) (pr_authorizationContext p2)"
  define opts where "opts = \<lparr>eo_providerSessionId = Some (bi_providerSessionId i), eo_policyDigest = Some (bi_policyDigest i),
      eo_proofDigest = Some (sha256hex cr (canonicalJson (proof_json (bi_proof i)))), eo_binding = True\<rparr>"
  obtain e led3 where 3: "appendEventToStream cr (bt_event tm) st SessionBound payload opts (put_principal p2 led2) = (e, led3)"
    by fastforce
  obtain c led4 where 4: "appendCheckpoint cr (bt_checkpoint tm) p2 led3 = (c, led4)" by fastforce
  obtain b where b: "bind_commit cr tm i fp ctx led = (b, led4)" "sb_principalId b = pr_principalId p2"
    unfolding bind_commit_def Let_def 1 prod.case 2 p2_def [symmetric] payload_def [symmetric] opts_def [symmetric] 3 4
    by fastforce
  have "same_chain p1 p2" by (simp add: same_chain_def p2_def)
  with 1 2 3 4 b show ?thesis using that by blast
qed

lemma bind_commit_ok:
  assumes "base cr led" "\<forall>j. clean led j" "owned ids led" "bind_commit cr tm i fp ctx led = (b, led')"
  defines "k \<equiv> principalIdFromFingerprint cr fp"
  defines "s \<equiv> makeStreamId cr k (bi_provider i) (agent_instance i)"
  assumes "\<And>j. (j, s) \<in> set ids \<Longrightarrow> j = k"
  shows "base cr led' \<and> (\<forall>j. clean led' j) \<and> owned (ids @ [(k, s)]) led'"
proof -
  obtain p led1 st p1 led2 p2 payload opts e led3 c where
    1: "upsertPrincipal cr (bt_principal tm) (bi_publicKeyJwk i) fp ctx led = (p, led1)" and
    2: "upsertStream p (makeStreamId cr (pr_principalId p) (bi_provider i) (agent_instance i)) (bi_provider i) (agent_instance i)
       (bi_providerSessionId i) led1 = (st, p1, led2)" and
    same: "same_chain p1 p2" and
    3: "appendEventToStream cr (bt_event tm) st SessionBound payload opts (put_principal p2 led2) = (e, led3)" and
    4: "appendCheckpoint cr (bt_checkpoint tm) p2 led3 = (c, led')"
    using bind_commit_steps [of cr tm i fp ctx led] assms(4) by (metis prod.inject)
  from base_upsertPrincipal [OF assms(1,2) 1] have l1: "base cr led1" "clean_but led1 k" "map_of (pl_principals led1) k = Some p"
    "pr_principalId p = k" "pl_streams led1 = pl_streams led" by (simp_all add: k_def)
  note 2 = 2 [unfolded l1(4), folded s_def]
  have "ps_principalId st = k" if "map_of (pl_streams led1) s = Some st" for st
    using that l1(5) assms(3,7) by (auto simp: owned_def)
  from base_upsertStream [OF l1(1-4) this 2] have l2: "base cr led2" "clean_but led2 k" "map_of (pl_principals led2) k = Some p1"
    "pr_principalId p1 = k" "map_of (pl_streams led2) s = Some st" "ps_principalId st = k"
    "\<And>j. j \<noteq> s \<Longrightarrow> map_of (pl_streams led2) j = map_of (pl_streams led) j" by (simp_all add: l1(5))
  from base_put [OF l2(1,3) same] l2(2) have l3: "base cr (put_principal p2 led2)" "clean_but (put_principal p2 led2) k"
    by (simp_all add: clean_but_def)
  have m3: "map_of (pl_streams (put_principal p2 led2)) s = Some st" "map_of (pl_principals (put_principal p2 led2)) k = Some p2"
    using l2(4,5) same by (simp_all add: put_principal_def same_chain_def)
  from base_event [OF l3(1) m3(1) l2(6) l3(2) 3] have l4: "base cr led3" "clean_but led3 k"
    "pl_principals led3 = pl_principals (put_principal p2 led2)" by simp_all
  from base_streamD [OF l2(1,5)] have id: "ps_streamId st = s" ..
  from 4 have led': "led' = snd (appendCheckpoint cr (bt_checkpoint tm) p2 led3)" by simp
  from base_checkpoint [OF l4(1) _ _ l4(2), of p2 p2] m3(2) l4(3) have "base cr led'" "\<forall>j. clean led' j"
    by (simp_all add: led' same_chain_def)
  moreover have "pl_streams led' = pl_streams led3"
    by (simp add: led' appendCheckpoint_def Let_def put_principal_def)
  then have "owned (ids @ [(k, s)]) led'"
    using assms(3) l2(6,7) 3 id by (auto simp: owned_def appendEventToStream_def Let_def put_principal_def split: if_splits)
  ultimately show ?thesis by blast
qed

subsection \<open>Every operation\<close>

text \<open>The operations of the ledger with the times, inputs and resolver answers they get.\<close>

datatype ledger_op =
    BindSession context_resolver bind_times bind_input
  | AppendEvent int int string string event_type json
  | CloseSession int int string string string
  | RotateKey int int string json "int option"

fun ledger_step :: "webcrypto \<Rightarrow> ledger_op \<Rightarrow> ledger \<Rightarrow> ledger" where
  "ledger_step cr (BindSession resolve tm i) led = snd (bindSession cr resolve tm i led)"
| "ledger_step cr (AppendEvent t1 t2 k s et pl) led = snd (appendStreamEvent cr t1 t2 k s et pl led)"
| "ledger_step cr (CloseSession t1 t2 k s ps) led = snd (closeSession cr t1 t2 k s ps led)"
| "ledger_step cr (RotateKey t1 t2 k jwk v) led = snd (rotatePrincipalKey cr t1 t2 k jwk v led)"

definition ledger_run :: "webcrypto \<Rightarrow> ledger_op list \<Rightarrow> ledger" where
  "ledger_run cr ops = fold (ledger_step cr) ops new_ledger"

text \<open>The principal and stream a binding names; two of them may share the 24 hexadecimal digits.\<close>

fun stream_claim :: "webcrypto \<Rightarrow> ledger_op \<Rightarrow> (string \<times> string) list" where
  "stream_claim cr (BindSession resolve tm i) = (case computeFingerprint cr (bi_publicKeyJwk i) of
     Inl e \<Rightarrow> []
   | Inr fp \<Rightarrow> let k = principalIdFromFingerprint cr fp in [(k, makeStreamId cr k (bi_provider i) (agent_instance i))])"
| "stream_claim cr _ = []"

definition streams_collide :: "(string \<times> string) list \<Rightarrow> bool" where
  "streams_collide ids = list_ex (\<lambda>(k, s). list_ex (\<lambda>(k', s'). k \<noteq> k' \<and> s = s') ids) ids"

lemma streams_collide_iff: "streams_collide ids \<longleftrightarrow> (\<exists>k k' s. (k, s) \<in> set ids \<and> (k', s) \<in> set ids \<and> k \<noteq> k')"
  by (auto simp: streams_collide_def list_ex_iff)

definition good :: "webcrypto \<Rightarrow> (string \<times> string) list \<Rightarrow> ledger \<Rightarrow> bool" where
  "good cr ids led = (base cr led \<and> (\<forall>j. clean led j) \<and> owned ids led)"

lemma good_frame:
  "pl_principals led' = pl_principals led \<Longrightarrow> pl_streams led' = pl_streams led \<Longrightarrow> pl_events led' = pl_events led
     \<Longrightarrow> pl_checkpoints led' = pl_checkpoints led \<Longrightarrow> good cr ids led' = good cr ids led"
  using base_frame [of led' led cr] by (simp add: good_def owned_def)

lemma good_put:
  assumes "good cr ids led" "map_of (pl_principals led) k = Some p" "same_chain p q"
  shows "good cr ids (put_principal q led)"
  using base_put [of cr led k p q] assms by (simp add: good_def owned_def) (simp add: put_principal_def)

lemma good_checkpoint:
  assumes "good cr ids led" "map_of (pl_principals led) k = Some p" "same_chain p q"
  shows "good cr ids (snd (appendCheckpoint cr now q led))"
  using base_checkpoint [of cr led k p q now] assms
  by (simp add: good_def clean_but_def) (simp add: owned_def appendCheckpoint_def Let_def put_principal_def)

lemma good_event:
  assumes "good cr ids led"
  shows "good cr ids (snd (appendStreamEvent cr t1 t2 k s et pl led))"
proof (cases "map_of (pl_principals led) k")
  case None
  with assms show ?thesis by (simp add: appendStreamEvent_def mustPrincipal_def)
next
  case (Some p)
  show ?thesis
  proof (cases "\<exists>st. map_of (pl_streams led) s = Some st \<and> ps_principalId st = k")
    case False
    with assms Some show ?thesis by (auto simp: appendStreamEvent_def mustPrincipal_def split: option.split)
  next
    case True
    then obtain st where st: "map_of (pl_streams led) s = Some st" "ps_principalId st = k" by blast
    obtain e led1 where e: "appendEventToStream cr t1 st et pl no_options led = (e, led1)" by fastforce
    from assms have g: "base cr led" "clean_but led k" "owned ids led" by (simp_all add: good_def clean_but_def)
    from base_event [OF g(1) st g(2) e] have l1: "base cr led1" "clean_but led1 k" "pl_principals led1 = pl_principals led"
      by simp_all
    have "owned ids led1"
      using g(3) st e base_streamD [OF g(1) st(1)] by (auto simp: owned_def appendEventToStream_def Let_def split: if_splits)
    then have "owned ids (snd (appendCheckpoint cr t2 p led1))"
      by (simp add: owned_def appendCheckpoint_def Let_def put_principal_def)
    moreover from base_checkpoint [OF l1(1) _ _ l1(2), of p p] Some
    have "base cr (snd (appendCheckpoint cr t2 p led1)) \<and> (\<forall>j. clean (snd (appendCheckpoint cr t2 p led1)) j)"
      by (simp add: l1(3) same_chain_def)
    ultimately show ?thesis using Some st e by (simp add: appendStreamEvent_def mustPrincipal_def good_def)
  qed
qed

lemma good_close:
  assumes "good cr ids led"
  shows "good cr ids (snd (closeSession cr t1 t2 k s ps led))"
proof (cases "map_of (pl_principals led) k")
  case (Some p)
  let ?q = "p\<lparr>pr_activeSessionIds := filter (\<lambda>x. x \<noteq> ps) (pr_activeSessionIds p)\<rparr>"
  from good_put [OF assms Some, of ?q] have "good cr ids (put_principal ?q led)" by (simp add: same_chain_def)
  from good_event [OF this] Some show ?thesis by (simp add: closeSession_def mustPrincipal_def)
qed (use assms in \<open>simp add: closeSession_def mustPrincipal_def\<close>)

lemma good_rotate:
  assumes "good cr ids led"
  shows "good cr ids (snd (rotatePrincipalKey cr t1 t2 k jwk v led))"
proof (cases "map_of (pl_principals led) k")
  case (Some p)
  show ?thesis
  proof (cases "computeFingerprint cr jwk")
    case (Inl e)
    with good_put [OF assms Some, of "p\<lparr>pr_publicKeyJwk := jwk\<rparr>"] Some show ?thesis
      by (simp add: rotatePrincipalKey_def mustPrincipal_def same_chain_def)
  next
    case (Inr fp)
    with good_checkpoint [OF assms Some] Some show ?thesis
      by (simp add: rotatePrincipalKey_def mustPrincipal_def same_chain_def Let_def)
  qed
qed (use assms in \<open>simp add: rotatePrincipalKey_def mustPrincipal_def\<close>)

lemma good_mono: "good cr ids led \<Longrightarrow> good cr (ids @ ids') led"
  by (simp add: good_def owned_mono)

lemma bind_proof_steps:
  "and_then (assertBindingInput i) (\<lambda>_. and_then (computeFingerprint cr (bi_publicKeyJwk i)) (\<lambda>fingerprint.
     and_then (verifyPrincipalSessionProof cr now i fingerprint) (\<lambda>_. returns fingerprint))) = Inr fp
   \<Longrightarrow> computeFingerprint cr (bi_publicKeyJwk i) = Inr fp"
  by (simp add: and_then_Inr_iff)

lemma good_bind:
  assumes "good cr ids led" "\<not> streams_collide (ids @ stream_claim cr (BindSession resolve tm i))"
  shows "good cr (ids @ stream_claim cr (BindSession resolve tm i)) (snd (bindSession cr resolve tm i led))"
proof (cases "and_then (assertBindingInput i) (\<lambda>_. and_then (computeFingerprint cr (bi_publicKeyJwk i)) (\<lambda>fingerprint.
     and_then (verifyPrincipalSessionProof cr (bt_proof tm) i fingerprint) (\<lambda>_. returns fingerprint)))")
  case (Inl e)
  with good_mono [OF assms(1)] show ?thesis by (simp add: bindSession_def)
next
  case (Inr fp)
  let ?d = "sha256hex cr (pf_challengeNonce (bi_proof i))"
  let ?l = "led\<lparr>pl_consumedProofNonces := pl_consumedProofNonces led @ [?d]\<rparr>"
  let ?r = "resolve (principalIdFromFingerprint cr fp) fp (bi_policyDigest i) (or_empty (bi_authorizationContext i))"
  from assms(1) have l: "good cr ids ?l" by (subst good_frame [of _ led]) simp_all
  show ?thesis
  proof (cases "?d \<in> set (pl_consumedProofNonces led) \<or> isl ?r")
    case True
    then consider "?d \<in> set (pl_consumedProofNonces led)" | e where "?d \<notin> set (pl_consumedProofNonces led)" "?r = Inl e"
      by (cases ?r) auto
    then show ?thesis
      using Inr good_mono [OF l, of "stream_claim cr (BindSession resolve tm i)"]
        good_mono [OF assms(1), of "stream_claim cr (BindSession resolve tm i)"]
      by cases (simp_all add: bindSession_def Let_def)
  next
    case False
    then obtain ctx where ctx: "?r = Inr ctx" "?d \<notin> set (pl_consumedProofNonces led)" by (cases ?r) auto
    obtain b led' where b: "bind_commit cr tm i fp ctx ?l = (b, led')" by fastforce
    let ?k = "principalIdFromFingerprint cr fp"
    let ?s = "makeStreamId cr ?k (bi_provider i) (agent_instance i)"
    have c: "stream_claim cr (BindSession resolve tm i) = [(?k, ?s)]"
      using bind_proof_steps [OF Inr] by (simp add: Let_def)
    have "j = ?k" if "(j, ?s) \<in> set ids" for j
      using that assms(2) unfolding c streams_collide_iff by auto
    with bind_commit_ok [OF _ _ _ b, of ids] l have "good cr (ids @ [(?k, ?s)]) led'" by (simp add: good_def)
    with c b ctx Inr show ?thesis by (simp add: bindSession_def Let_def)
  qed
qed

lemma good_step:
  assumes "good cr ids led" "\<not> streams_collide (ids @ stream_claim cr op)"
  shows "good cr (ids @ stream_claim cr op) (ledger_step cr op led)"
  using assms good_bind good_event good_close good_rotate by (cases op) (simp_all del: stream_claim.simps(1))

lemma streams_collide_append: "\<not> streams_collide (ids @ ids') \<Longrightarrow> \<not> streams_collide ids"
  by (auto simp: streams_collide_iff)

lemma good_fold:
  "good cr ids led \<Longrightarrow> \<not> streams_collide (ids @ concat (map (stream_claim cr) ops))
     \<Longrightarrow> good cr (ids @ concat (map (stream_claim cr) ops)) (fold (ledger_step cr) ops led)"
proof (induction ops arbitrary: ids led)
  case (Cons op ops)
  from Cons.prems(2) streams_collide_append [of "ids @ stream_claim cr op"] have "\<not> streams_collide (ids @ stream_claim cr op)"
    by simp
  from Cons.IH [OF good_step [OF Cons.prems(1) this]] Cons.prems(2) show ?case by simp
qed simp

lemma good_new: "good cr [] new_ledger"
  by (simp add: good_def base_def clean_iff owned_def new_ledger_def)

text \<open>
  C27. After any sequence of bindings, events, closings and key rotations, with any inputs, every principal
  the ledger knows verifies as continuous, unless two bindings of different principals got the same
  truncated stream identifier.
\<close>
theorem principal_continuity:
  "getPrincipal (ledger_run cr ops) k = None
     \<or> verifyPrincipalContinuity cr (ledger_run cr ops) k = Continuous
     \<or> streams_collide (concat (map (stream_claim cr) ops))"
proof (cases "streams_collide (concat (map (stream_claim cr) ops))")
  case False
  with good_fold [OF good_new] have "good cr (concat (map (stream_claim cr) ops)) (ledger_run cr ops)"
    by (simp add: ledger_run_def)
  then show ?thesis
    using verifies [of cr "ledger_run cr ops" k] by (cases "map_of (pl_principals (ledger_run cr ops)) k") (simp_all add: good_def getPrincipal_def)
qed simp

section \<open>Key rotation\<close>

definition keyed :: "ledger \<Rightarrow> bool" where
  "keyed led = (\<forall>k p. map_of (pl_principals led) k = Some p \<longrightarrow> pr_principalId p = k)"

lemma keyed_put: "keyed led \<Longrightarrow> pl_principals led = pl_principals led' \<Longrightarrow> keyed (put_principal p led')"
  by (simp add: keyed_def put_principal_def)

lemma keyed_upsertPrincipal:
  "keyed led \<Longrightarrow> upsertPrincipal cr now jwk fp ctx led = (p, led')
     \<Longrightarrow> keyed led' \<and> pr_principalId p = principalIdFromFingerprint cr fp"
  by (auto simp: upsertPrincipal_def Let_def put_principal_def keyed_def split: option.splits if_splits)

lemma keyed_upsertStream:
  "keyed led \<Longrightarrow> upsertStream p s prov agent ps led = (st, p', led') \<Longrightarrow> keyed led' \<and> pr_principalId p' = pr_principalId p"
  by (auto simp: upsertStream_def Let_def put_principal_def keyed_def split: option.splits if_splits)

lemma keyed_appendEvent: "keyed led \<Longrightarrow> appendEventToStream cr now st et pl opts led = (e, led') \<Longrightarrow> keyed led'"
  by (auto simp: appendEventToStream_def Let_def keyed_def)

lemma keyed_checkpoint: "keyed led \<Longrightarrow> keyed (snd (appendCheckpoint cr now p led))"
  by (simp add: appendCheckpoint_def Let_def keyed_def put_principal_def)

lemma keyed_bind_commit:
  assumes "keyed led"
  shows "keyed (snd (bind_commit cr tm i fp ctx led))
    \<and> sb_principalId (fst (bind_commit cr tm i fp ctx led)) = principalIdFromFingerprint cr fp"
proof -
  obtain p led1 st p1 led2 p2 payload opts e led3 c led4 b where
    1: "upsertPrincipal cr (bt_principal tm) (bi_publicKeyJwk i) fp ctx led = (p, led1)" and
    2: "upsertStream p (makeStreamId cr (pr_principalId p) (bi_provider i) (agent_instance i)) (bi_provider i) (agent_instance i)
       (bi_providerSessionId i) led1 = (st, p1, led2)" and
    same: "same_chain p1 p2" and
    3: "appendEventToStream cr (bt_event tm) st SessionBound payload opts (put_principal p2 led2) = (e, led3)" and
    4: "appendCheckpoint cr (bt_checkpoint tm) p2 led3 = (c, led4)" and
    b: "bind_commit cr tm i fp ctx led = (b, led4)" "sb_principalId b = pr_principalId p2"
    by (rule bind_commit_steps)
  from keyed_upsertPrincipal [OF assms 1] have k1: "keyed led1" "pr_principalId p = principalIdFromFingerprint cr fp" by simp_all
  from keyed_upsertStream [OF k1(1) 2] have k2: "keyed led2" "pr_principalId p1 = pr_principalId p" by simp_all
  from keyed_appendEvent [OF keyed_put [OF k2(1) refl] 3] have "keyed led3" .
  from keyed_checkpoint [OF this, of cr "bt_checkpoint tm" p2] have "keyed led4" by (simp add: 4)
  with b same k1(2) k2(2) show ?thesis by (simp add: same_chain_def)
qed

lemma keyed_bind:
  assumes "keyed led"
  shows "keyed (snd (bindSession cr resolve tm i led))"
proof -
  have "keyed (led\<lparr>pl_consumedProofNonces := ns\<rparr>)" for ns using assms by (simp add: keyed_def)
  with assms show ?thesis by (simp add: bindSession_def Let_def keyed_bind_commit split: sum.split)
qed

lemma keyed_event: "keyed led \<Longrightarrow> keyed (snd (appendStreamEvent cr t1 t2 k s et pl led))"
  by (auto simp: appendStreamEvent_def mustPrincipal_def split: option.split prod.split intro: keyed_checkpoint keyed_appendEvent)

lemma keyed_rotate: "keyed led \<Longrightarrow> keyed (snd (rotatePrincipalKey cr t1 t2 k jwk v led))"
  by (auto simp: rotatePrincipalKey_def mustPrincipal_def Let_def split: option.split sum.split intro: keyed_checkpoint keyed_put)

lemma keyed_step: "keyed led \<Longrightarrow> keyed (ledger_step cr op led)"
  by (cases op) (auto simp: keyed_bind keyed_event keyed_rotate closeSession_def mustPrincipal_def
      split: option.split intro!: keyed_event keyed_put)

lemma keyed_run: "keyed (ledger_run cr ops)"
proof -
  have "keyed led \<Longrightarrow> keyed (fold (ledger_step cr) ops led)" for led
    by (induction ops arbitrary: led) (simp_all add: keyed_step)
  moreover have "keyed new_ledger" by (simp add: keyed_def new_ledger_def)
  ultimately show ?thesis by (simp add: ledger_run_def)
qed

lemma bind_answer:
  "keyed led \<Longrightarrow> map_sum id sb_principalId (fst (bindSession cr resolve tm i led)) =
     (case and_then (assertBindingInput i) (\<lambda>_. and_then (computeFingerprint cr (bi_publicKeyJwk i)) (\<lambda>fingerprint.
             and_then (verifyPrincipalSessionProof cr (bt_proof tm) i fingerprint) (\<lambda>_. returns fingerprint))) of
        Inl e \<Rightarrow> Inl e
      | Inr fp \<Rightarrow> if sha256hex cr (pf_challengeNonce (bi_proof i)) \<in> set (pl_consumedProofNonces led)
          then throw ''principal session proof replayed''
          else map_sum id (\<lambda>_. principalIdFromFingerprint cr fp) (resolve (principalIdFromFingerprint cr fp) fp (bi_policyDigest i)
                 (or_empty (bi_authorizationContext i))))"
proof -
  assume led: "keyed led"
  have "keyed (led\<lparr>pl_consumedProofNonces := ns\<rparr>)" for ns using led by (simp add: keyed_def)
  then show ?thesis by (simp add: bindSession_def Let_def keyed_bind_commit split: sum.split)
qed

lemma rotate_consumed: "pl_consumedProofNonces (snd (rotatePrincipalKey cr t1 t2 k jwk v led)) = pl_consumedProofNonces led"
  by (simp add: rotatePrincipalKey_def mustPrincipal_def Let_def appendCheckpoint_def put_principal_def split: option.split sum.split)

text \<open>
  C32. Rotating the key of a principal does not change who may bind: any binding input, signed with the old
  key or with the new one, gets the same answer and the same principal as without the rotation.
\<close>
theorem rotation_retires_no_key:
  "map_sum id sb_principalId (fst (bindSession cr resolve tm i (snd (rotatePrincipalKey cr t1 t2 k jwk v (ledger_run cr ops)))))
     = map_sum id sb_principalId (fst (bindSession cr resolve tm i (ledger_run cr ops)))"
  unfolding bind_answer [OF keyed_run] bind_answer [OF keyed_rotate [OF keyed_run]] rotate_consumed ..

section \<open>Fallback authorization\<close>

abbreviation server_nonces :: "int \<Rightarrow> int \<Rightarrow> string \<Rightarrow> nonce_mem \<Rightarrow> (nonce_error + bool) \<times> nonce_mem" where
  "server_nonces windowMs \<equiv> server_checkAndConsume mem_backend windowMs"

lemma server_nonces_mem: "server_nonces w now n st = map_prod Inr id (mem_checkAndConsume now n w st)"
  by (cases "mem_checkAndConsume now n w st") (simp add: server_checkAndConsume_def mem_backend_def)

lemma fallback_ok:
  "verifyFallbackAuthorization cr (server_nonces w) c key pol chk n pv now st = (Inr (FallbackOk src ctx), st') \<longleftrightarrow>
     hex_decode (sc_seal c) = wc_hmac cr (utf8 key) (utf8 (canonicalJson (cache_body c)))
     \<and> sc_issuedAt c \<le> now \<and> now < sc_expiresAt c \<and> sc_policyDigest c = pol \<and> sc_checkpointHash c = chk
     \<and> pv \<and> 16 \<le> length n \<and> sha256hex cr n \<notin> set (sc_consumedNonceDigests c)
     \<and> src = sc_source c \<and> ctx = sc_authorizationContext c \<and> mem_checkAndConsume now n w st = (False, st')"
  by (cases "mem_checkAndConsume now n w st") (auto simp: verifyFallbackAuthorization_def constantTimeHexEqual_def
      computeCacheSeal_def hex_decode_hex Let_def server_nonces_mem split: bool.split)

text \<open>
  C29. A fallback authorization is honoured only for a cache whose seal is the HMAC of its body, within its
  validity, for the requested policy and checkpoint, with a verified proof and a nonce that is neither
  in the cache nor in the store; while the nonce store sheds no live entry the same nonce is then
  refused for its retention, with any cache and any request.
\<close>
theorem fallback_authorization_once:
  assumes "jm_wf st"
    "verifyFallbackAuthorization cr (server_nonces w) c key pol chk n pv t0 st = (Inr (FallbackOk src ctx), st1)"
    "nonce_fits mem_checkAndConsume nonce_room w st1 es" "\<forall>(now, m) \<in> set es. now \<le> t" "t \<le> t0 + w" "0 \<le> w"
  shows "hex_decode (sc_seal c) = wc_hmac cr (utf8 key) (utf8 (canonicalJson (cache_body c)))
    \<and> sc_issuedAt c \<le> t0 \<and> t0 < sc_expiresAt c \<and> sc_policyDigest c = pol \<and> sc_checkpointHash c = chk \<and> pv
    \<and> sha256hex cr n \<notin> set (sc_consumedNonceDigests c)
    \<and> (\<exists>e. fst (verifyFallbackAuthorization cr (server_nonces w) c' key' pol' chk' n pv' t
          (nonce_run mem_checkAndConsume w st1 es)) = Inr (FallbackError e))"
proof -
  from assms(2) have ok: "mem_checkAndConsume t0 n w st = (False, st1)" by (simp add: fallback_ok)
  from memnonce.second_use_is_replay [OF assms(1) ok assms(3-6)]
  have "fst (mem_checkAndConsume t n w (nonce_run mem_checkAndConsume w st1 es))" .
  then have "fst (server_nonces w t n (nonce_run mem_checkAndConsume w st1 es)) = Inr True"
    by (simp add: server_nonces_mem)
  then have "\<exists>e. fst (verifyFallbackAuthorization cr (server_nonces w) c' key' pol' chk' n pv' t
          (nonce_run mem_checkAndConsume w st1 es)) = Inr (FallbackError e)"
    by (auto simp: verifyFallbackAuthorization_def split: prod.split)
  with assms(2) show ?thesis by (simp add: fallback_ok)
qed

section \<open>A proof binds once\<close>

lemma consumed_appendCheckpoint [simp]:
  "pl_consumedProofNonces (snd (appendCheckpoint cr now p led)) = pl_consumedProofNonces led"
  by (simp add: appendCheckpoint_def Let_def put_principal_def)

lemma consumed_put [simp]: "pl_consumedProofNonces (put_principal p led) = pl_consumedProofNonces led"
  by (simp add: put_principal_def)

lemma consumed_bind_commit: "pl_consumedProofNonces (snd (bind_commit cr tm i fp ctx led)) = pl_consumedProofNonces led"
proof -
  obtain p led1 st p1 led2 p2 payload opts e led3 c led4 b where
    1: "upsertPrincipal cr (bt_principal tm) (bi_publicKeyJwk i) fp ctx led = (p, led1)" and
    2: "upsertStream p (makeStreamId cr (pr_principalId p) (bi_provider i) (agent_instance i)) (bi_provider i) (agent_instance i)
       (bi_providerSessionId i) led1 = (st, p1, led2)" and
    3: "appendEventToStream cr (bt_event tm) st SessionBound payload opts (put_principal p2 led2) = (e, led3)" and
    4: "appendCheckpoint cr (bt_checkpoint tm) p2 led3 = (c, led4)" and
    b: "bind_commit cr tm i fp ctx led = (b, led4)"
    by (rule bind_commit_steps)
  from 1 have "pl_consumedProofNonces led1 = pl_consumedProofNonces led"
    by (auto simp: upsertPrincipal_def Let_def split: option.splits)
  moreover from 2 have "pl_consumedProofNonces led2 = pl_consumedProofNonces led1"
    by (auto simp: upsertStream_def Let_def split: option.splits)
  moreover from 3 have "pl_consumedProofNonces led3 = pl_consumedProofNonces led2"
    by (auto simp: appendEventToStream_def Let_def)
  ultimately show ?thesis using consumed_appendCheckpoint [of cr "bt_checkpoint tm" p2 led3] by (simp add: 4 b)
qed

lemma consumed_event: "pl_consumedProofNonces (snd (appendStreamEvent cr t1 t2 k s et pl led)) = pl_consumedProofNonces led"
  by (auto simp: appendStreamEvent_def mustPrincipal_def appendEventToStream_def Let_def split: option.split)

lemma consumed_step: "set (pl_consumedProofNonces led) \<subseteq> set (pl_consumedProofNonces (ledger_step cr op led))"
proof (cases op)
  case (BindSession resolve tm i)
  then show ?thesis by (auto simp: bindSession_def Let_def consumed_bind_commit split: sum.split)
next
  case CloseSession
  then show ?thesis by (simp add: closeSession_def mustPrincipal_def consumed_event split: option.split)
qed (simp_all add: consumed_event rotate_consumed)

lemma consumed_fold: "set (pl_consumedProofNonces led) \<subseteq> set (pl_consumedProofNonces (fold (ledger_step cr) ops led))"
proof (induction ops arbitrary: led)
  case (Cons op ops)
  from consumed_step [of led cr op] Cons.IH [of "ledger_step cr op led"] show ?case by auto
qed simp

lemma map_prod_Inr_iff: "map_prod Inr id x = (Inr b, l) \<longleftrightarrow> x = (b, l)"
  by (cases x) simp

lemma bind_ok_iff:
  "bindSession cr resolve tm i led = (Inr b, led1) \<longleftrightarrow> (\<exists>fp ctx.
     assertBindingInput i = Inr () \<and> computeFingerprint cr (bi_publicKeyJwk i) = Inr fp
     \<and> verifyPrincipalSessionProof cr (bt_proof tm) i fp = Inr ()
     \<and> sha256hex cr (pf_challengeNonce (bi_proof i)) \<notin> set (pl_consumedProofNonces led)
     \<and> resolve (principalIdFromFingerprint cr fp) fp (bi_policyDigest i) (or_empty (bi_authorizationContext i)) = Inr ctx
     \<and> bind_commit cr tm i fp ctx
         (led\<lparr>pl_consumedProofNonces := pl_consumedProofNonces led @ [sha256hex cr (pf_challengeNonce (bi_proof i))]\<rparr>) = (b, led1))"
proof (cases "and_then (assertBindingInput i) (\<lambda>_. and_then (computeFingerprint cr (bi_publicKeyJwk i)) (\<lambda>fingerprint.
     and_then (verifyPrincipalSessionProof cr (bt_proof tm) i fingerprint) (\<lambda>_. returns fingerprint)))")
  case (Inl e)
  then have "\<not> (assertBindingInput i = Inr () \<and> computeFingerprint cr (bi_publicKeyJwk i) = Inr fp
     \<and> verifyPrincipalSessionProof cr (bt_proof tm) i fp = Inr ())" for fp by auto
  with Inl show ?thesis by (auto simp: bindSession_def)
next
  case (Inr fp)
  then have "assertBindingInput i = Inr ()" "computeFingerprint cr (bi_publicKeyJwk i) = Inr fp"
    "verifyPrincipalSessionProof cr (bt_proof tm) i fp = Inr ()" by (auto simp: and_then_Inr_iff)
  with Inr show ?thesis by (auto simp: bindSession_def Let_def map_prod_Inr_iff split: sum.splits)
qed

text \<open>
  C28. A successful binding carried a signature of the presented key over exactly this binding, with a
  challenge nonce of at least 16 characters, and no later binding with that nonce succeeds, whatever
  operations and key rotations come between.
\<close>
theorem session_proof_binds_once:
  assumes "bindSession cr resolve tm i led = (Inr b, led1)" "pf_challengeNonce (bi_proof j) = pf_challengeNonce (bi_proof i)"
  shows "(\<exists>fp publicKey. computeFingerprint cr (bi_publicKeyJwk i) = Inr fp
      \<and> importPublicKeyFromJwk cr (bi_publicKeyJwk i) = Inr publicKey
      \<and> verifyPayload cr publicKey (buildPrincipalSessionProofPayload cr fp i) (pf_signature (bi_proof i)))
    \<and> 16 \<le> length (pf_challengeNonce (bi_proof i))
    \<and> isl (fst (bindSession cr resolve' tm' j (fold (ledger_step cr) ops led1)))"
proof -
  let ?d = "sha256hex cr (pf_challengeNonce (bi_proof i))"
  from assms(1) obtain fp ctx where fp: "computeFingerprint cr (bi_publicKeyJwk i) = Inr fp"
    "verifyPrincipalSessionProof cr (bt_proof tm) i fp = Inr ()"
    and b: "bind_commit cr tm i fp ctx (led\<lparr>pl_consumedProofNonces := pl_consumedProofNonces led @ [?d]\<rparr>) = (b, led1)"
    unfolding bind_ok_iff by blast
  from consumed_bind_commit [of cr tm i fp ctx "led\<lparr>pl_consumedProofNonces := pl_consumedProofNonces led @ [?d]\<rparr>"]
  have "?d \<in> set (pl_consumedProofNonces led1)" by (simp add: b)
  with consumed_fold [of led1 cr ops] have d: "?d \<in> set (pl_consumedProofNonces (fold (ledger_step cr) ops led1))" by blast
  have "isl (fst (bindSession cr resolve' tm' j (fold (ledger_step cr) ops led1)))"
  proof (cases "bindSession cr resolve' tm' j (fold (ledger_step cr) ops led1)")
    case (Pair r led2)
    with d assms(2) show ?thesis using bind_ok_iff [of cr resolve' tm' j "fold (ledger_step cr) ops led1" _ led2] by (cases r) auto
  qed
  moreover from fp(2) have "16 \<le> length (pf_challengeNonce (bi_proof i))"
    "\<exists>publicKey. importPublicKeyFromJwk cr (bi_publicKeyJwk i) = Inr publicKey
      \<and> verifyPayload cr publicKey (buildPrincipalSessionProofPayload cr fp i) (pf_signature (bi_proof i))"
    by (auto simp: verifyPrincipalSessionProof_def Let_def and_then_Inr_iff split: if_splits)
  ultimately show ?thesis using fp(1) by blast
qed

section \<open>Examples\<close>

definition ex_cache :: sealed_cache where
  "ex_cache = \<lparr>sc_version = ''1'', sc_source = ''cache'', sc_principalId = ''p'', sc_policyDigest = ''d'', sc_checkpointHash = ''h'',
     sc_issuedAt = 0, sc_expiresAt = 1000, sc_consumedNonceDigests = [], sc_authorizationContext = JObj [],
     sc_seal = concat (map hex_byte (replicate 32 0))\<rparr>"

lemma fallback_authorization_once_witness:
  "\<exists>e. fst (verifyFallbackAuthorization ex_crypto (server_nonces 100) ex_cache ''k'' ''d'' ''h'' ''0123456789abcdef'' True 50
     (nonce_run mem_checkAndConsume 100 [(''0123456789abcdef'', 110)] [(20, ''m'')])) = Inr (FallbackError e)"
proof -
  have 1: "mem_checkAndConsume 10 ''0123456789abcdef'' 100 [] = (False, [(''0123456789abcdef'', 110)])"
    by (simp add: mem_checkAndConsume_def nonce_evict_def jm_keep_def jm_has_def MAX_NONCE_ENTRIES_def)
  have "nonce_fits mem_checkAndConsume nonce_room 100 [(''0123456789abcdef'', 110)] [(20, ''m'')]"
    by (simp add: nonce_room_def nonce_evict_def jm_keep_def MAX_NONCE_ENTRIES_def)
  moreover have "verifyFallbackAuthorization ex_crypto (server_nonces 100) ex_cache ''k'' ''d'' ''h'' ''0123456789abcdef'' True 10 [] =
      (Inr (FallbackOk ''cache'' (JObj [])), [(''0123456789abcdef'', 110)])"
    using hex_decode_hex [of "replicate 32 0"] unfolding fallback_ok by (simp add: 1 ex_cache_def ex_crypto_def)
  ultimately show ?thesis
    using fallback_authorization_once [of "[]" ex_crypto 100 ex_cache "''k''" "''d''" "''h''" "''0123456789abcdef''" True 10 "''cache''"
        "JObj []" "[(''0123456789abcdef'', 110)]" "[(20, ''m'')]" 50 ex_cache "''k''" "''d''" "''h''" True] by simp
qed

definition ex_bind :: bind_input where
  "ex_bind = \<lparr>bi_publicKeyJwk = JObj [(''crv'', JStr ''P-256''), (''kty'', JStr ''EC''), (''x'', JStr ''a''), (''y'', JStr ''b'')],
     bi_proof = \<lparr>pf_challengeNonce = ''0123456789abcdef'', pf_signedAt = 0, pf_signature = []\<rparr>, bi_provider = ''p'',
     bi_providerSessionId = ''s'', bi_agentInstanceId = None, bi_policyDigest = ''d'', bi_runtimeMetadata = None,
     bi_authorizationContext = None, bi_maxProofAgeMs = None\<rparr>"

definition ex_times :: bind_times where
  "ex_times = \<lparr>bt_proof = 1, bt_principal = 1, bt_event = 1, bt_checkpoint = 1\<rparr>"

definition signing_crypto :: webcrypto where
  "signing_crypto = ex_crypto\<lparr>wc_verify := (\<lambda>k s m. True)\<rparr>"

lemma ex_bind_steps:
  "assertBindingInput ex_bind = Inr ()"
  "computeFingerprint signing_crypto (bi_publicKeyJwk ex_bind) = Inr (take 20 (b64url (utf8 (stringify (bi_publicKeyJwk ex_bind)))))"
  "verifyPrincipalSessionProof signing_crypto 1 ex_bind (take 20 (b64url (utf8 (stringify (bi_publicKeyJwk ex_bind))))) = Inr ()"
  by code_simp+

lemma session_proof_binds_once_witness:
  "\<exists>b led1. bindSession signing_crypto (\<lambda>k f d c. returns c) ex_times ex_bind new_ledger = (Inr b, led1)
     \<and> isl (fst (bindSession signing_crypto (\<lambda>k f d c. returns c) ex_times ex_bind
          (fold (ledger_step signing_crypto) [RotateKey 2 3 (sb_principalId b) (JObj []) None] led1)))"
proof -
  let ?l = "new_ledger\<lparr>pl_consumedProofNonces := [sha256hex signing_crypto (pf_challengeNonce (bi_proof ex_bind))]\<rparr>"
  obtain b led1 where "bind_commit signing_crypto ex_times ex_bind
      (take 20 (b64url (utf8 (stringify (bi_publicKeyJwk ex_bind))))) (JObj []) ?l = (b, led1)" by fastforce
  then have "bindSession signing_crypto (\<lambda>k f d c. returns c) ex_times ex_bind new_ledger = (Inr b, led1)"
    unfolding bind_ok_iff using ex_bind_steps by (simp add: new_ledger_def ex_times_def or_empty_def ex_bind_def)
  then show ?thesis using session_proof_binds_once by blast
qed

end
