(* ===== verification/Governed.thy ===== *)
theory Governed
  imports Continuity
begin

text \<open>
  \<^verbatim>\<open>packages/server/src/redis-governed.ts\<close>: replay protection whose continuity state, shared quarantine
  and nonces live in Redis and are read and written by two Lua scripts, each atomic. The scripts are
  functions on the record \<open>redis\<close> at the server's time; the gate, the backend, the factory and its
  reconciliation are functions over the reply of an external client (\<open>raw_reply\<close>, \<open>None\<close> a rejection or
  a timeout).
\<close>

section \<open>Redis\<close>

text \<open>
  The keys of one namespace. A key with expiry \<open>e\<close> is there up to the time \<open>e\<close>. The numbers of the scripts
  are integers: a stored configuration with numbers beyond the range of Redis's \<open>PX\<close> argument, where the
  script itself fails, is not modelled.
\<close>

record redis =
  rk_epoch :: "string option"
  rk_config :: "string option"
  rk_quarantine :: "(string \<times> int option) option"
  rk_nonces :: "(string, int) jsmap"

definition get_quarantine :: "int \<Rightarrow> redis \<Rightarrow> string option" where
  "get_quarantine now r = (case rk_quarantine r of
     None \<Rightarrow> None
   | Some (v, None) \<Rightarrow> Some v
   | Some (v, Some e) \<Rightarrow> if now \<le> e then Some v else None)"

definition pttl_quarantine :: "int \<Rightarrow> redis \<Rightarrow> int" where
  "pttl_quarantine now r = (case rk_quarantine r of
     None \<Rightarrow> -2
   | Some (v, None) \<Rightarrow> -1
   | Some (v, Some e) \<Rightarrow> if now \<le> e then e - now else -2)"

definition nonce_present :: "int \<Rightarrow> string \<Rightarrow> redis \<Rightarrow> bool" where
  "nonce_present now k r = (case jm_get (rk_nonces r) k of None \<Rightarrow> False | Some e \<Rightarrow> now \<le> e)"

type_synonym lua_reply = "string \<times> string \<times> int"

definition quarantine_at_least :: "int \<Rightarrow> string \<Rightarrow> int \<Rightarrow> redis \<Rightarrow> int \<times> redis" where
  "quarantine_at_least now epoch minimum_ms r =
     (let ttl = pttl_quarantine now r;
          duration = (if minimum_ms < ttl then ttl else minimum_ms);
          r' = r\<lparr>rk_quarantine := Some (epoch, Some (now + duration))\<rparr>
      in (pttl_quarantine now r', r'))"

text \<open>\<open>string.match(config, '^(%d+):(%d+)$')\<close> and \<open>tonumber\<close> of both.\<close>

definition parse_config :: "string \<Rightarrow> (nat \<times> nat) option" where
  "parse_config s = (let a = takeWhile is_digit s; rest = dropWhile is_digit s
     in if a \<noteq> [] \<and> rest \<noteq> [] \<and> hd rest = CHR '':'' \<and> tl rest \<noteq> [] \<and> list_all is_digit (tl rest)
        then Some (dec_to_nat a, dec_to_nat (tl rest)) else None)"

definition or_string :: "string option \<Rightarrow> string \<Rightarrow> string" where
  "or_string x d = (case x of None \<Rightarrow> d | Some s \<Rightarrow> s)"

text \<open>The common check of the stored configuration: the status and the minimum of the quarantine it asks for.\<close>

definition config_problem :: "string \<Rightarrow> string \<Rightarrow> int \<Rightarrow> (string \<times> int) option" where
  "config_problem config expected quarantine_ms = (case parse_config config of
     None \<Rightarrow> Some (''CONFIG_INVALID'', quarantine_ms)
   | Some (r, q) \<Rightarrow>
       if r = 0 \<or> q = 0 then Some (''CONFIG_INVALID'', quarantine_ms)
       else if config \<noteq> expected
       then Some (''CONFIG_MISMATCH'', if quarantine_ms < int q then int q else quarantine_ms)
       else None)"

record reconcile_args =
  ra_fresh :: string
  ra_quarantineMs :: int
  ra_expected :: string
  ra_config :: string

text \<open>The end of the reconciliation: from the test of the expected epoch on.\<close>

definition reconcile_tail :: "reconcile_args \<Rightarrow> int \<Rightarrow> string \<Rightarrow> string \<Rightarrow> redis \<Rightarrow> lua_reply \<times> redis" where
  "reconcile_tail a now status epoch r =
     (let changed = (ra_expected a \<noteq> [] \<and> epoch \<noteq> ra_expected a);
          r1 = (if changed then snd (quarantine_at_least now epoch (ra_quarantineMs a) r) else r);
          status1 = (if changed then ''EPOCH_CHANGED'' else status);
          ttl = pttl_quarantine now r1
      in (case get_quarantine now r1 of
            None \<Rightarrow> ((status1, epoch, ttl), r1)
          | Some q \<Rightarrow>
              if q \<noteq> epoch \<or> ttl \<le> 0
              then (case quarantine_at_least now epoch (ra_quarantineMs a) r1 of (ttl2, r2) \<Rightarrow> ((status1, epoch, ttl2), r2))
              else ((status1, epoch, ttl), r1)))"

definition reconcile_script :: "reconcile_args \<Rightarrow> int \<Rightarrow> redis \<Rightarrow> lua_reply \<times> redis" where
  "reconcile_script a now r =
     (if ra_quarantineMs a \<le> 0 then ((''INVALID'', [], -2), r)
      else let epoch = rk_epoch r;
               shown = or_string epoch (ra_fresh a);
               (config, status, r1) = (case rk_config r of
                  Some c \<Rightarrow> (c, ''OK'', r)
                | None \<Rightarrow> (ra_config a, ''CONFIG_ESTABLISHED'',
                    (snd (quarantine_at_least now shown (ra_quarantineMs a) r))\<lparr>rk_config := Some (ra_config a)\<rparr>))
           in (case config_problem config (ra_config a) (ra_quarantineMs a) of
                 Some (problem, minimum) \<Rightarrow>
                   (case quarantine_at_least now shown minimum r1 of (ttl, r2) \<Rightarrow> ((problem, shown, ttl), r2))
               | None \<Rightarrow>
                   (case epoch of
                      None \<Rightarrow> reconcile_tail a now ''MISSING'' (ra_fresh a)
                        ((snd (quarantine_at_least now (ra_fresh a) (ra_quarantineMs a) r1))\<lparr>rk_epoch := Some (ra_fresh a)\<rparr>)
                    | Some e \<Rightarrow> reconcile_tail a now status e r1)))"

record consume_args =
  ca_expected :: string
  ca_fresh :: string
  ca_quarantineMs :: int
  ca_ttlMs :: int
  ca_config :: string
  ca_nonce :: string

definition consume_script :: "consume_args \<Rightarrow> int \<Rightarrow> redis \<Rightarrow> lua_reply \<times> redis" where
  "consume_script a now r =
     (let shown = or_string (rk_epoch r) (ca_fresh a)
      in if ca_quarantineMs a \<le> 0 then ((''INVALID'', [], -2), r)
         else (case rk_config r of
           None \<Rightarrow> (case quarantine_at_least now shown (ca_quarantineMs a) r of
             (ttl, r1) \<Rightarrow> ((''CONFIG_MISSING'', shown, ttl), r1\<lparr>rk_config := Some (ca_config a)\<rparr>))
         | Some config \<Rightarrow>
             (case config_problem config (ca_config a) (ca_quarantineMs a) of
                Some (problem, minimum) \<Rightarrow>
                  (case quarantine_at_least now shown minimum r of (ttl, r1) \<Rightarrow> ((problem, shown, ttl), r1))
              | None \<Rightarrow>
                  (case rk_epoch r of
                     None \<Rightarrow> (case quarantine_at_least now (ca_fresh a) (ca_quarantineMs a) r of
                       (ttl, r1) \<Rightarrow> ((''MISSING'', ca_fresh a, ttl), r1\<lparr>rk_epoch := Some (ca_fresh a)\<rparr>))
                   | Some epoch \<Rightarrow>
                       if epoch \<noteq> ca_expected a
                       then (case quarantine_at_least now epoch (ca_quarantineMs a) r of
                         (ttl, r1) \<Rightarrow> ((''EPOCH_CHANGED'', epoch, ttl), r1))
                       else (case get_quarantine now r of
                         Some q \<Rightarrow>
                           if q \<noteq> epoch \<or> pttl_quarantine now r \<le> 0
                           then (case quarantine_at_least now epoch (ca_quarantineMs a) r of
                             (ttl, r1) \<Rightarrow> ((''MALFORMED'', epoch, ttl), r1))
                           else ((''QUARANTINED'', epoch, pttl_quarantine now r), r)
                       | None \<Rightarrow>
                           if nonce_present now (ca_nonce a) r then ((''REPLAY'', epoch, -2), r)
                           else ((''FRESH'', epoch, -2),
                             r\<lparr>rk_nonces := jm_set (ca_nonce a) (now + ca_ttlMs a) (rk_nonces r)\<rparr>))))))"

section \<open>Replies\<close>

text \<open>
  What the client hands back: an array of two strings and a number (or its text; \<open>None\<close> when \<open>Number\<close> of it
  is not an integer), or anything else.
\<close>

datatype raw_reply = RawTriple string string "int option" | RawOther

definition validateEpoch :: "string \<Rightarrow> string \<Rightarrow> string throws" where
  "validateEpoch epoch label =
     (if epoch = [] \<or> 128 < length epoch \<or> \<not> list_all (\<lambda>c. is_alnum c \<or> c \<in> set ''._-'') epoch
      then throw (label @ '' must be 1-128 ASCII letters, digits, dot, underscore, or hyphen'')
      else returns epoch)"

definition nonNegativeSafeInteger :: "int \<Rightarrow> string \<Rightarrow> int throws" where
  "nonNegativeSafeInteger v label = (if \<not> is_safe_integer v \<or> v < 0
     then throw (label @ '' must be a non-negative safe integer'') else returns v)"

definition parseReply :: "raw_reply \<Rightarrow> lua_reply throws" where
  "parseReply raw = (case raw of
     RawOther \<Rightarrow> throw ''Redis governed script returned an invalid response''
   | RawTriple status epoch None \<Rightarrow> throw ''Redis governed script returned an invalid TTL''
   | RawTriple status epoch (Some ttlMs) \<Rightarrow>
       if \<not> is_safe_integer ttlMs \<or> ttlMs < -2 then throw ''Redis governed script returned an invalid TTL''
       else returns (status, epoch, ttlMs))"

definition DEFAULT_REDIS_NONCE_TIMEOUT_MS :: int where
  "DEFAULT_REDIS_NONCE_TIMEOUT_MS = 2000"

section \<open>SharedContinuityGate\<close>

text \<open>\<open>sg_until = None\<close> is \<open>Number.POSITIVE_INFINITY\<close>.\<close>

record shared_gate =
  sg_epoch :: "string option"
  sg_until :: "int option"
  sg_reason :: quarantine_reason
  sg_stopped :: bool

definition new_gate :: shared_gate where
  "new_gate = \<lparr>sg_epoch = None, sg_until = None, sg_reason = StoreUnavailable, sg_stopped = False\<rparr>"

definition gate_continuityEpoch :: "shared_gate \<Rightarrow> nonce_error + string" where
  "gate_continuityEpoch g = (case sg_epoch g of
     None \<Rightarrow> Inl (AuthorizationQuarantineError (sg_reason g)) | Some e \<Rightarrow> Inr e)"

definition gate_assertAcceptable :: "int \<Rightarrow> shared_gate \<Rightarrow> nonce_error + unit" where
  "gate_assertAcceptable nowMs g =
     (if sg_stopped g \<or> sg_epoch g = None \<or> (case sg_until g of None \<Rightarrow> True | Some u \<Rightarrow> nowMs < u)
      then Inl (AuthorizationQuarantineError (sg_reason g)) else Inr ())"

definition gate_expectedEpoch :: "int \<Rightarrow> shared_gate \<Rightarrow> nonce_error + string" where
  "gate_expectedEpoch nowMs g = (case gate_assertAcceptable nowMs g of
     Inl e \<Rightarrow> Inl e | Inr _ \<Rightarrow> gate_continuityEpoch g)"

text \<open>After \<open>validateEpoch\<close>, which every caller has already passed.\<close>

definition gate_apply :: "int \<Rightarrow> string \<Rightarrow> int \<Rightarrow> quarantine_reason \<Rightarrow> shared_gate \<Rightarrow> shared_gate" where
  "gate_apply now epoch ttlMs reason g =
     (if sg_stopped g then g
      else g\<lparr>sg_epoch := Some epoch, sg_reason := reason, sg_until := Some (if 0 < ttlMs then now + ttlMs else 0)\<rparr>)"

definition gate_failClosed :: "quarantine_reason \<Rightarrow> shared_gate \<Rightarrow> shared_gate" where
  "gate_failClosed reason g = g\<lparr>sg_reason := reason, sg_until := None\<rparr>"

definition gate_close :: "shared_gate \<Rightarrow> shared_gate" where
  "gate_close g = gate_failClosed StoreUnavailable (g\<lparr>sg_stopped := True\<rparr>)"

section \<open>AtomicContinuityNonceStore\<close>

definition QUARANTINE_STATUSES :: "string list" where
  "QUARANTINE_STATUSES = [''MISSING'', ''EPOCH_CHANGED'', ''MALFORMED'', ''QUARANTINED'', ''CONFIG_MISSING'',
     ''CONFIG_MISMATCH'', ''CONFIG_INVALID'']"

definition consume_reason :: "string \<Rightarrow> quarantine_reason" where
  "consume_reason status = (if status = ''EPOCH_CHANGED'' then EpochChanged
     else if js_starts_with status ''CONFIG_'' then ConfigMismatch else MarkerLost)"

text \<open>What the backend makes of a reply: the result and the gate.\<close>

definition consume_answer :: "int \<Rightarrow> string \<Rightarrow> raw_reply option \<Rightarrow> shared_gate \<Rightarrow> (nonce_error + bool) \<times> shared_gate" where
  "consume_answer now expectedEpoch raw g =
     (let unavailable = (Inl NonceStoreUnavailableError, gate_failClosed StoreUnavailable g)
      in case raw of None \<Rightarrow> unavailable
       | Some reply \<Rightarrow> (case parseReply reply of Inl e \<Rightarrow> unavailable
          | Inr (status, epoch, quarantineTtlMs) \<Rightarrow>
              if status = ''FRESH'' \<or> status = ''REPLAY''
              then if epoch \<noteq> expectedEpoch \<or> quarantineTtlMs \<noteq> -2 then unavailable else (Inr (status = ''REPLAY''), g)
              else if status \<in> set QUARANTINE_STATUSES
              then (case validateEpoch epoch ''Redis governed epoch'' of Inl e \<Rightarrow> unavailable
                 | Inr _ \<Rightarrow> if quarantineTtlMs \<le> 0 then unavailable
                     else (Inl (AuthorizationQuarantineError (consume_reason status)),
                           gate_apply now epoch quarantineTtlMs (consume_reason status) g))
              else unavailable))"

record governed_config =
  gc_retentionMs :: int
  gc_quarantineMs :: int
  gc_commandTimeoutMs :: int
  gc_intervalMs :: int
  gc_keyPrefix :: string
  gc_continuityKey :: string
  gc_quarantineKey :: string
  gc_continuityConfigKey :: string
  gc_config :: string

definition governed_checkAndConsume ::
    "(consume_args \<Rightarrow> 'r \<Rightarrow> raw_reply option \<times> 'r) \<Rightarrow> governed_config \<Rightarrow> int \<Rightarrow> int \<Rightarrow> string \<Rightarrow> string \<Rightarrow> int
       \<Rightarrow> shared_gate \<Rightarrow> 'r \<Rightarrow> (nonce_error + bool) \<times> shared_gate \<times> 'r" where
  "governed_checkAndConsume eval c now now2 newEpoch nonce ttlMs g st =
     (case positiveSafeInteger ttlMs ''ttlMs'' of Inl e \<Rightarrow> (Inl (OtherError e), g, st)
      | Inr _ \<Rightarrow> (case gate_expectedEpoch now g of Inl e \<Rightarrow> (Inl e, g, st)
      | Inr expectedEpoch \<Rightarrow> (case validateEpoch newEpoch ''newEpoch() result'' of Inl e \<Rightarrow> (Inl (OtherError e), g, st)
      | Inr replacementEpoch \<Rightarrow>
          (case eval \<lparr>ca_expected = expectedEpoch, ca_fresh = replacementEpoch, ca_quarantineMs = gc_quarantineMs c,
                ca_ttlMs = ttlMs, ca_config = gc_config c,
                ca_nonce = gc_keyPrefix c @ nonce\<rparr> st of
             (raw, st') \<Rightarrow> (case consume_answer now2 expectedEpoch raw g of (res, g') \<Rightarrow> (res, g', st'))))))"

section \<open>createGovernedRedisBackedNonceStore\<close>

datatype governed_error = GovernedConfigurationError string | GovernedContinuityError continuity_error
  | GovernedNonceError nonce_error | GovernedError string

definition KNOWN_STATUSES :: "string list" where
  "KNOWN_STATUSES = [''OK'', ''CONFIG_ESTABLISHED'', ''MISSING'', ''EPOCH_CHANGED'']"

definition ttl_fits_status :: "string \<Rightarrow> int \<Rightarrow> bool" where
  "ttl_fits_status status ttlMs = (\<not> ((status \<noteq> ''OK'' \<and> ttlMs \<le> 0) \<or> (status = ''OK'' \<and> ttlMs \<noteq> -2 \<and> ttlMs \<le> 0)))"

definition establish_reason :: "string \<Rightarrow> quarantine_reason" where
  "establish_reason status = (if status = ''EPOCH_CHANGED'' then EpochChanged
     else if status = ''CONFIG_ESTABLISHED'' then ConfigMismatch else MarkerLost)"

text \<open>What a reconciliation makes of its reply: the epoch, the quarantine and the reason the gate applies.\<close>

definition reconcile_answer :: "string \<Rightarrow> raw_reply option \<Rightarrow> governed_error + string \<times> int \<times> quarantine_reason" where
  "reconcile_answer expectedEpoch raw = (case raw of
     None \<Rightarrow> Inl (GovernedNonceError NonceStoreUnavailableError)
   | Some reply \<Rightarrow> (case parseReply reply of
       Inl e \<Rightarrow> Inl (GovernedNonceError NonceStoreUnavailableError)
     | Inr (status, epoch, ttlMs) \<Rightarrow>
         if status = ''CONFIG_MISMATCH'' \<or> status = ''CONFIG_INVALID'' then Inl (GovernedConfigurationError status)
         else if status \<notin> set KNOWN_STATUSES then Inl (GovernedError (''Unknown continuity reconcile status: '' @ status))
         else (case validateEpoch epoch (''Redis continuity '' @ status @ '' epoch'') of
           Inl e \<Rightarrow> Inl (GovernedError e)
         | Inr _ \<Rightarrow>
             if \<not> ttl_fits_status status ttlMs
             then Inl (GovernedError (''Redis continuity '' @ status @ '' response had an invalid quarantine TTL''))
             else if (status = ''OK'' \<or> status = ''CONFIG_ESTABLISHED'') \<and> epoch \<noteq> expectedEpoch
             then Inl (GovernedError (''Redis continuity '' @ status @ '' response violated the expected epoch''))
             else if status = ''EPOCH_CHANGED'' \<and> epoch = expectedEpoch
             then Inl (GovernedError ''Redis continuity EPOCH_CHANGED response retained the expected epoch'')
             else Inr (epoch, ttlMs, establish_reason status))))"

text \<open>
  \<open>policy\<close> is the reply to \<open>CONFIG GET maxmemory-policy\<close> (\<open>None\<close> a failure or a timeout); \<open>eval\<close> runs the
  script. A failure anywhere closes the gate and is thrown; a rejection of the client itself is
  \<open>NonceStoreUnavailableError\<close> here, as a timeout is.
\<close>

definition governed_reconcile ::
    "(reconcile_args \<Rightarrow> 'r \<Rightarrow> raw_reply option \<times> 'r) \<Rightarrow> governed_config \<Rightarrow> int \<Rightarrow> json option \<Rightarrow> string
       \<Rightarrow> shared_gate \<Rightarrow> 'r \<Rightarrow> (governed_error + unit) \<times> shared_gate \<times> 'r" where
  "governed_reconcile eval c now policy newEpoch g st =
     (let failed = (\<lambda>e s. (Inl e, gate_failClosed StoreUnavailable g, s))
      in case policy of None \<Rightarrow> failed (GovernedNonceError NonceStoreUnavailableError) st
       | Some raw \<Rightarrow> (case assertNoEvictionPolicy raw of Inl e \<Rightarrow> failed (GovernedContinuityError e) st
       | Inr _ \<Rightarrow> (case gate_continuityEpoch g of Inl e \<Rightarrow> failed (GovernedNonceError e) st
       | Inr expectedEpoch \<Rightarrow> (case validateEpoch newEpoch ''newEpoch() result'' of Inl e \<Rightarrow> failed (GovernedError e) st
       | Inr fresh \<Rightarrow>
           (case eval \<lparr>ra_fresh = fresh, ra_quarantineMs = gc_quarantineMs c, ra_expected = expectedEpoch,
                 ra_config = gc_config c\<rparr> st of
              (raw, st') \<Rightarrow> (case reconcile_answer expectedEpoch raw of
                 Inl e \<Rightarrow> failed e st'
               | Inr (epoch, ttlMs, reason) \<Rightarrow> (Inr (), gate_apply now epoch ttlMs reason g, st')))))))"

record governed_options =
  go_namespace :: string
  go_sigWindowMs :: int
  go_safetyBufferMs :: int
  go_safetyAllowanceMs :: "int option"
  go_commandTimeoutMs :: "int option"
  go_reconcileIntervalMs :: "int option"
  go_expectedEpoch :: "string option"

definition defaulted :: "int option \<Rightarrow> int \<Rightarrow> int" where
  "defaulted x d = (case x of None \<Rightarrow> d | Some v \<Rightarrow> v)"

text \<open>The options up to the first reply: the configuration, the initial and the expected epoch.\<close>

definition governed_options_check :: "governed_options \<Rightarrow> string \<Rightarrow> (governed_config \<times> string \<times> string) throws" where
  "governed_options_check opts newEpoch =
     (if \<not> NAMESPACE_RE (go_namespace opts)
      then throw ''namespace must be 1-64 ASCII letters, digits, dot, underscore, or hyphen''
      else and_then (deriveNonceRetentionMs (go_sigWindowMs opts) (go_safetyBufferMs opts)) (\<lambda>retentionMs.
        and_then (nonNegativeSafeInteger (defaulted (go_safetyAllowanceMs opts) DEFAULT_CONTINUITY_SAFETY_ALLOWANCE_MS)
            ''continuitySafetyAllowanceMs'') (\<lambda>allowanceMs.
        and_then (positiveSafeInteger (retentionMs + allowanceMs) ''quarantineMs'') (\<lambda>quarantineMs.
        and_then (positiveSafeInteger (defaulted (go_commandTimeoutMs opts) DEFAULT_REDIS_NONCE_TIMEOUT_MS)
            ''commandTimeoutMs'') (\<lambda>commandTimeoutMs.
        and_then (positiveSafeInteger (defaulted (go_reconcileIntervalMs opts) (min 5000 (max 1 (retentionMs div 2))))
            ''reconcileIntervalMs'') (\<lambda>intervalMs.
        if retentionMs \<le> intervalMs then throw ''reconcileIntervalMs must be shorter than nonce retentionMs''
        else and_then (validateEpoch newEpoch ''newEpoch() result'') (\<lambda>initialEpoch.
        and_then (case go_expectedEpoch opts of None \<Rightarrow> returns [] | Some e \<Rightarrow> validateEpoch e ''expectedEpoch'') (\<lambda>expectedEpoch.
        let tag = ''{'' @ go_namespace opts @ ''}''
        in returns (\<lparr>gc_retentionMs = retentionMs, gc_quarantineMs = quarantineMs,
             gc_commandTimeoutMs = commandTimeoutMs, gc_intervalMs = intervalMs,
             gc_keyPrefix = ''bpc:'' @ tag @ '':nonce:'',
             gc_continuityKey = ''bpc:'' @ tag @ '':continuity:v2'',
             gc_quarantineKey = ''bpc:'' @ tag @ '':continuity-quarantine:v2'',
             gc_continuityConfigKey = ''bpc:'' @ tag @ '':continuity-config:v2'',
             gc_config = int_to_dec retentionMs @ '':'' @ int_to_dec quarantineMs\<rparr>, initialEpoch, expectedEpoch)))))))))"

definition bootstrap_answer :: "string \<Rightarrow> raw_reply option \<Rightarrow> governed_error + string \<times> int \<times> quarantine_reason" where
  "bootstrap_answer expectedEpoch raw =
     (let unavailable = Inl (GovernedNonceError NonceStoreUnavailableError)
      in case raw of None \<Rightarrow> unavailable
       | Some reply \<Rightarrow> (case parseReply reply of Inl e \<Rightarrow> unavailable
          | Inr (status, epoch, ttlMs) \<Rightarrow>
              if status = ''CONFIG_MISMATCH'' \<or> status = ''CONFIG_INVALID'' then Inl (GovernedConfigurationError status)
              else if status \<notin> set KNOWN_STATUSES then unavailable
              else (case validateEpoch epoch (''Redis continuity '' @ status @ '' epoch'') of
                Inl e \<Rightarrow> Inl (GovernedError e)
              | Inr _ \<Rightarrow>
                  if \<not> ttl_fits_status status ttlMs then unavailable
                  else if expectedEpoch \<noteq> [] \<and> (status = ''OK'' \<or> status = ''CONFIG_ESTABLISHED'') \<and> epoch \<noteq> expectedEpoch
                  then unavailable
                  else if status = ''EPOCH_CHANGED'' \<and> (expectedEpoch = [] \<or> epoch = expectedEpoch) then unavailable
                  else Inr (epoch, ttlMs, establish_reason status))))"

definition createGovernedRedisBackedNonceStore ::
    "(reconcile_args \<Rightarrow> 'r \<Rightarrow> raw_reply option \<times> 'r) \<Rightarrow> governed_options \<Rightarrow> int \<Rightarrow> json option \<Rightarrow> string \<Rightarrow> 'r
       \<Rightarrow> (governed_error + governed_config \<times> shared_gate) \<times> 'r" where
  "createGovernedRedisBackedNonceStore eval opts now policy newEpoch st =
     (case governed_options_check opts newEpoch of Inl e \<Rightarrow> (Inl (GovernedError e), st)
      | Inr (c, initialEpoch, expectedEpoch) \<Rightarrow>
          (case policy of None \<Rightarrow> (Inl (GovernedNonceError NonceStoreUnavailableError), st)
         | Some raw \<Rightarrow> (case assertNoEvictionPolicy raw of Inl e \<Rightarrow> (Inl (GovernedContinuityError e), st)
         | Inr _ \<Rightarrow>
             (case eval \<lparr>ra_fresh = initialEpoch, ra_quarantineMs = gc_quarantineMs c, ra_expected = expectedEpoch,
                   ra_config = gc_config c\<rparr> st of
                (raw, st') \<Rightarrow> (case bootstrap_answer expectedEpoch raw of
                   Inl e \<Rightarrow> (Inl e, st')
                 | Inr (epoch, ttlMs, reason) \<Rightarrow>
                     (case server_nonce_store (gc_retentionMs c) of Inl e \<Rightarrow> (Inl (GovernedError e), st')
                    | Inr _ \<Rightarrow> (case reconcile_loop_options (gc_intervalMs c) (gc_retentionMs c) of
                        Inl e \<Rightarrow> (Inl (GovernedContinuityError e), st')
                      | Inr _ \<Rightarrow> (Inr (c, gate_apply now epoch ttlMs reason new_gate), st'))))))))"

definition governed_stop :: "shared_gate \<Rightarrow> shared_gate" where
  "governed_stop g = gate_close (gate_close g)"

end
