(* ===== verification/Governed_Laws.thy ===== *)
theory Governed_Laws
  imports Governed
begin

text \<open>
  Laws of the governed nonce store: an invariant of the Redis state kept by every script and every loss of
  data (\<open>shielded\<close>), and from it at most one acceptance of a nonce, the quarantine after a loss, the gate
  that fails closed, and recovery.
\<close>

section \<open>Histories\<close>

text \<open>
  What happens to the keys of a namespace: the scripts of any number of processes, each with its own
  configuration, and losses of all the data (a restart without persistence, a flush, a failover to an
  empty node).
\<close>

datatype gov_event = Consumes consume_args | Reconciles reconcile_args | DataLost

definition empty_redis :: redis where
  "empty_redis = \<lparr>rk_epoch = None, rk_config = None, rk_quarantine = None, rk_nonces = []\<rparr>"

fun gov_step :: "redis \<Rightarrow> int \<times> gov_event \<Rightarrow> redis" where
  "gov_step r (now, Consumes a) = snd (consume_script a now r)"
| "gov_step r (now, Reconciles a) = snd (reconcile_script a now r)"
| "gov_step r (now, DataLost) = empty_redis"

text \<open>An event up to the time \<open>T\<close>, of a process whose quarantine reaches beyond \<open>T\<close>.\<close>

fun covers :: "int \<Rightarrow> int \<times> gov_event \<Rightarrow> bool" where
  "covers T (now, Consumes a) = (now \<le> T \<and> T \<le> now + ca_quarantineMs a)"
| "covers T (now, Reconciles a) = (now \<le> T \<and> T \<le> now + ra_quarantineMs a)"
| "covers T (now, DataLost) = (now \<le> T)"

definition quarantine_until :: "int \<Rightarrow> redis \<Rightarrow> bool" where
  "quarantine_until T r = (case rk_quarantine r of
     None \<Rightarrow> False | Some (v, None) \<Rightarrow> True | Some (v, Some e) \<Rightarrow> T \<le> e)"

definition nonce_until :: "int \<Rightarrow> string \<Rightarrow> redis \<Rightarrow> bool" where
  "nonce_until T k r = (case jm_get (rk_nonces r) k of None \<Rightarrow> False | Some e \<Rightarrow> T \<le> e)"

text \<open>Up to \<open>T\<close>, the nonce \<open>k\<close> (when one is named) or everything is refused.\<close>

definition shielded :: "string option \<Rightarrow> int \<Rightarrow> redis \<Rightarrow> bool" where
  "shielded k T r = (rk_config r = None \<or> rk_epoch r = None \<or> quarantine_until T r
     \<or> (case k of None \<Rightarrow> False | Some n \<Rightarrow> nonce_until T n r))"

lemma qal_keeps [simp]:
  "rk_config (snd (quarantine_at_least now e m r)) = rk_config r"
  "rk_epoch (snd (quarantine_at_least now e m r)) = rk_epoch r"
  "rk_nonces (snd (quarantine_at_least now e m r)) = rk_nonces r"
  by (simp_all add: quarantine_at_least_def Let_def)

lemma qal_until: "T \<le> now + m \<Longrightarrow> quarantine_until T (snd (quarantine_at_least now e m r))"
  by (simp add: quarantine_at_least_def Let_def quarantine_until_def)

lemma qal_ttl:
  "fst (quarantine_at_least now e m r) = (if m < pttl_quarantine now r then pttl_quarantine now r else m)" if "0 \<le> m"
  using that by (simp add: quarantine_at_least_def Let_def pttl_quarantine_def)

lemma until_updates [simp]:
  "quarantine_until T (r\<lparr>rk_config := c\<rparr>) = quarantine_until T r"
  "quarantine_until T (r\<lparr>rk_epoch := e\<rparr>) = quarantine_until T r"
  "quarantine_until T (r\<lparr>rk_nonces := ns\<rparr>) = quarantine_until T r"
  by (simp_all add: quarantine_until_def)

lemma shielded_qal: "T \<le> now + m \<Longrightarrow> shielded k T (snd (quarantine_at_least now e m r))"
  by (simp add: shielded_def qal_until)

lemma config_problem_minimum: "config_problem c x q = Some (p, m) \<Longrightarrow> q \<le> m \<and> p \<noteq> ''FRESH''"
  by (auto simp: config_problem_def split: option.splits if_splits)

lemma quarantine_seen: "quarantine_until T r \<Longrightarrow> now \<le> T \<Longrightarrow> get_quarantine now r \<noteq> None"
  by (auto simp: quarantine_until_def get_quarantine_def split: option.splits)

lemma nonce_seen: "nonce_until T k r \<Longrightarrow> now \<le> T \<Longrightarrow> nonce_present now k r"
  by (auto simp: nonce_until_def nonce_present_def split: option.splits)

text \<open>The one branch that accepts, read off the script.\<close>

lemma fresh_iff:
  "fst (fst (consume_script a now r)) = ''FRESH'' \<longleftrightarrow>
     0 < ca_quarantineMs a \<and> rk_epoch r = Some (ca_expected a)
     \<and> (\<exists>c. rk_config r = Some c \<and> config_problem c (ca_config a) (ca_quarantineMs a) = None)
     \<and> get_quarantine now r = None \<and> \<not> nonce_present now (ca_nonce a) r"
  by (auto simp: consume_script_def Let_def split: option.splits prod.splits dest: config_problem_minimum)

lemma fresh_reply:
  assumes "fst (fst (consume_script a now r)) = ''FRESH''"
  shows "consume_script a now r = ((''FRESH'', ca_expected a, -2),
    r\<lparr>rk_nonces := jm_set (ca_nonce a) (now + ca_ttlMs a) (rk_nonces r)\<rparr>)"
  using assms unfolding fresh_iff by (auto simp: consume_script_def Let_def)

lemma shielded_not_fresh:
  "shielded (Some (ca_nonce a)) T r \<Longrightarrow> now \<le> T \<Longrightarrow> fst (fst (consume_script a now r)) \<noteq> ''FRESH''"
  "shielded None T r \<Longrightarrow> now \<le> T \<Longrightarrow> fst (fst (consume_script a now r)) \<noteq> ''FRESH''"
  unfolding fresh_iff by (auto simp: shielded_def dest: quarantine_seen nonce_seen)

text \<open>A script that does not accept leaves the state, or quarantines it for at least its own time.\<close>

lemma consume_writes:
  assumes "fst (fst (consume_script a now r)) \<noteq> ''FRESH''"
  shows "snd (consume_script a now r) = r \<or>
    (rk_nonces (snd (consume_script a now r)) = rk_nonces r
     \<and> (\<forall>T. T \<le> now + ca_quarantineMs a \<longrightarrow> quarantine_until T (snd (consume_script a now r))))"
proof -
  have q: "quarantine_until T (snd (quarantine_at_least now e m r))" if "T \<le> now + ca_quarantineMs a" "ca_quarantineMs a \<le> m"
    for T e m using that by (intro qal_until) simp
  show ?thesis using assms
    by (auto simp: consume_script_def Let_def split_beta split: option.splits if_splits dest: config_problem_minimum intro: q)
qed

lemma tail_writes:
  "snd (reconcile_tail a now s e r) = r \<or>
    (rk_nonces (snd (reconcile_tail a now s e r)) = rk_nonces r \<and> rk_config (snd (reconcile_tail a now s e r)) = rk_config r
     \<and> rk_epoch (snd (reconcile_tail a now s e r)) = rk_epoch r
     \<and> (\<forall>T. T \<le> now + ra_quarantineMs a \<longrightarrow> quarantine_until T (snd (reconcile_tail a now s e r))))"
  by (auto simp: reconcile_tail_def Let_def split_beta split: option.splits if_splits intro: qal_until)

lemma reconcile_writes:
  "snd (reconcile_script a now r) = r \<or>
    (rk_nonces (snd (reconcile_script a now r)) = rk_nonces r
     \<and> (\<forall>T. T \<le> now + ra_quarantineMs a \<longrightarrow> quarantine_until T (snd (reconcile_script a now r))))"
proof -
  have q: "quarantine_until T (snd (quarantine_at_least now e m s))" if "T \<le> now + ra_quarantineMs a" "ra_quarantineMs a \<le> m"
    for T e m s using that by (intro qal_until) simp
  have t: "rk_nonces (snd (reconcile_tail a now s e r')) = rk_nonces r'
      \<and> (T \<le> now + ra_quarantineMs a \<longrightarrow> quarantine_until T r' \<longrightarrow> quarantine_until T (snd (reconcile_tail a now s e r')))"
    for s e r' T using tail_writes [of a now s e r'] by auto
  show ?thesis
    using tail_writes [of a now "''OK''" _ r]
    by (auto simp: reconcile_script_def Let_def split_beta t q split: option.splits if_splits dest: config_problem_minimum)
qed

lemma shielded_step:
  assumes "covers T ev" "shielded k T r"
  shows "shielded k T (gov_step r ev)"
proof (cases "(T, ev)" rule: covers.cases)
  case (1 T' now a)
  then have c: "now \<le> T" "T \<le> now + ca_quarantineMs a" and ev: "ev = (now, Consumes a)" using assms(1) by auto
  show ?thesis
  proof (cases "fst (fst (consume_script a now r)) = ''FRESH''")
    case True
    then have "quarantine_until T r \<Longrightarrow> False" and "k \<noteq> Some (ca_nonce a) \<or> \<not> nonce_until T (ca_nonce a) r"
      using fresh_iff quarantine_seen [OF _ c(1)] nonce_seen [OF _ c(1)] by auto
    moreover have "nonce_until T n (r\<lparr>rk_nonces := jm_set (ca_nonce a) e (rk_nonces r)\<rparr>) = nonce_until T n r"
      if "n \<noteq> ca_nonce a" for n e
      using that by (simp add: nonce_until_def jsmap_simps)
    ultimately show ?thesis using assms(2) fresh_reply [OF True] ev
      by (cases "k = Some (ca_nonce a)") (auto simp: shielded_def split: option.splits)
  next
    case False
    from consume_writes [OF this] show ?thesis using assms(2) ev c
      by (auto simp: shielded_def nonce_until_def split: option.splits)
  qed
next
  case (2 T' now a)
  then show ?thesis using assms reconcile_writes [of a now r]
    by (auto simp: shielded_def nonce_until_def split: option.splits)
qed (simp add: shielded_def empty_redis_def)

lemma shielded_run: "list_all (covers T) evs \<Longrightarrow> shielded k T r \<Longrightarrow> shielded k T (foldl gov_step r evs)"
  by (induction evs arbitrary: r) (simp_all add: shielded_step)

section \<open>At most one acceptance\<close>

text \<open>
  The scripts at the Redis time \<open>t\<close>, as the client sees them: the reply may be lost on the way
  (\<open>lost\<close>: a timeout or a broken connection), the writes are made all the same.
\<close>

definition redis_eval :: "('a \<Rightarrow> int \<Rightarrow> redis \<Rightarrow> lua_reply \<times> redis) \<Rightarrow> int \<Rightarrow> bool \<Rightarrow> 'a \<Rightarrow> redis \<Rightarrow> raw_reply option \<times> redis" where
  "redis_eval script t lost a r = (case script a t r of
     ((status, epoch, ttl), r') \<Rightarrow> (if lost then None else Some (RawTriple status epoch (Some ttl)), r'))"

lemma consume_answer_fresh:
  "fst (consume_answer now e raw g) = Inr False \<Longrightarrow> raw = Some (RawTriple ''FRESH'' e (Some (-2)))"
  by (auto simp: consume_answer_def parseReply_def Let_def
      split: option.splits sum.splits raw_reply.splits if_splits)

lemma governed_fresh:
  assumes "fst (governed_checkAndConsume (redis_eval consume_script t lost) c now now2 ne nonce ttl g r) = Inr False"
  obtains a where "ca_nonce a = gc_keyPrefix c @ nonce" "ca_ttlMs a = ttl" "ca_quarantineMs a = gc_quarantineMs c"
    "0 < ttl" "fst (fst (consume_script a t r)) = ''FRESH''"
    "snd (snd (governed_checkAndConsume (redis_eval consume_script t lost) c now now2 ne nonce ttl g r))
      = snd (consume_script a t r)"
proof -
  obtain e where e: "gate_expectedEpoch now g = Inr e" and p: "0 < ttl"
    using assms by (auto simp: governed_checkAndConsume_def positiveSafeInteger_def split: sum.splits if_splits)
  obtain f where f: "validateEpoch ne ''newEpoch() result'' = Inr f"
    using assms e by (auto simp: governed_checkAndConsume_def split: sum.splits)
  define a where "a = \<lparr>ca_expected = e, ca_fresh = f, ca_quarantineMs = gc_quarantineMs c, ca_ttlMs = ttl,
    ca_config = gc_config c, ca_nonce = gc_keyPrefix c @ nonce\<rparr>"
  have "fst (consume_answer now2 e (fst (redis_eval consume_script t lost a r)) g) = Inr False"
    and s: "snd (snd (governed_checkAndConsume (redis_eval consume_script t lost) c now now2 ne nonce ttl g r))
      = snd (redis_eval consume_script t lost a r)"
    using assms e f
    by (auto simp: governed_checkAndConsume_def a_def split_beta split: sum.splits)
  from consume_answer_fresh [OF this(1)] have "fst (fst (consume_script a t r)) = ''FRESH''"
    by (auto simp: redis_eval_def split_beta split: if_splits)
  moreover have "snd (redis_eval consume_script t lost a r) = snd (consume_script a t r)"
    by (simp add: redis_eval_def split_beta)
  ultimately show thesis using that [of a] s p by (simp add: a_def)
qed

text \<open>The events of a history in the \<open>q\<close> milliseconds from \<open>s\<close> on, every process quarantining at least that long.\<close>

definition guarded_history :: "int \<Rightarrow> int \<Rightarrow> (int \<times> gov_event) list \<Rightarrow> bool" where
  "guarded_history s q evs = list_all (\<lambda>(now, ev). s \<le> now \<and> now \<le> s + q
     \<and> (case ev of Consumes a \<Rightarrow> q \<le> ca_quarantineMs a | Reconciles a \<Rightarrow> q \<le> ra_quarantineMs a | DataLost \<Rightarrow> True)) evs"

lemma guarded_covers: "guarded_history s q evs \<Longrightarrow> list_all (covers (s + q)) evs"
proof (induction evs)
  case (Cons e evs)
  then show ?case by (cases "(s + q, e)" rule: covers.cases) (auto simp: guarded_history_def)
qed simp

text \<open>
  C13. Governed replay protection. Once a verifier has accepted a nonce (at the Redis time \<open>t0\<close>, for
  \<open>ttl\<close>), no verifier on the same namespace accepts it again while it is retained, whatever happens in
  between: scripts of any processes, any number of complete losses of the data, lost replies. It is
  enough that every process quarantines for at least the retention.
\<close>
theorem governed_no_replay:
  assumes "governed_checkAndConsume (redis_eval consume_script t0 lost) c now now2 ne nonce ttl g r = (Inr False, g', r')"
    and "guarded_history t0 ttl evs"
    and "t \<le> t0 + ttl" "gc_keyPrefix c' = gc_keyPrefix c"
  shows "fst (governed_checkAndConsume (redis_eval consume_script t lost') c' now' now2' ne' nonce ttl' h (foldl gov_step r' evs))
    \<noteq> Inr False"
proof
  assume again: "fst (governed_checkAndConsume (redis_eval consume_script t lost') c' now' now2' ne' nonce ttl' h
    (foldl gov_step r' evs)) = Inr False"
  obtain a where a: "ca_nonce a = gc_keyPrefix c @ nonce" "ca_ttlMs a = ttl"
      "fst (fst (consume_script a t0 r)) = ''FRESH''" "r' = snd (consume_script a t0 r)"
    by (rule governed_fresh [of t0 lost c now now2 ne nonce ttl g r]) (use assms(1) in auto)
  have "shielded (Some (gc_keyPrefix c @ nonce)) (t0 + ttl) r'"
    using fresh_reply [OF a(3)] a by (simp add: shielded_def nonce_until_def jsmap_simps)
  then have sh: "shielded (Some (gc_keyPrefix c @ nonce)) (t0 + ttl) (foldl gov_step r' evs)"
    by (rule shielded_run [OF guarded_covers [OF assms(2)]])
  obtain b where "ca_nonce b = gc_keyPrefix c' @ nonce"
      "fst (fst (consume_script b t (foldl gov_step r' evs))) = ''FRESH''"
    by (rule governed_fresh [OF again])
  then show False using shielded_not_fresh(1) [of b "t0 + ttl"] sh assms(3,4) by simp
qed

text \<open>
  C14. A loss quarantines the whole namespace. After all data is lost, no verifier accepts any nonce,
  new or old, until the quarantine of every process has gone by: the first script that runs after the
  loss sets it, and no later one shortens it.
\<close>
theorem loss_quarantines:
  assumes "guarded_history lost_at q evs"
    and "fst (governed_checkAndConsume (redis_eval consume_script t lost) c now now2 ne nonce ttl g
      (foldl gov_step empty_redis evs)) = Inr False"
  shows "lost_at + q < t"
proof (rule ccontr)
  assume "\<not> lost_at + q < t"
  then have t: "t \<le> lost_at + q" by simp
  have sh: "shielded None (lost_at + q) (foldl gov_step empty_redis evs)"
    by (rule shielded_run [OF guarded_covers [OF assms(1)]]) (simp add: shielded_def empty_redis_def)
  obtain b where "fst (fst (consume_script b t (foldl gov_step empty_redis evs))) = ''FRESH''"
    by (rule governed_fresh [OF assms(2)])
  then show False using shielded_not_fresh(2) [OF sh t] by simp
qed

section \<open>Failing closed\<close>

lemma gate_closed:
  "gate_assertAcceptable now (gate_failClosed reason g) = Inl (AuthorizationQuarantineError reason)"
  by (simp add: gate_assertAcceptable_def gate_failClosed_def)

lemma consume_answer_unavailable:
  "fst (consume_answer now e raw g) = Inl NonceStoreUnavailableError \<Longrightarrow>
    snd (consume_answer now e raw g) = gate_failClosed StoreUnavailable g"
  by (auto simp: consume_answer_def Let_def split: option.splits sum.splits if_splits prod.splits)

text \<open>
  The gate fails closed. When the store answers a request with unavailability, or a reconciliation
  throws, the process sends no further nonce script and accepts nothing, at any time, until a
  reconciliation succeeds; and after \<open>stop\<close> it never does again, whatever reconciliations still in
  flight report.
\<close>
theorem gate_fails_closed:
  assumes "(\<exists>c now now2 ne nonce ttl g st st'.
        governed_checkAndConsume eval c now now2 ne nonce ttl g st = (Inl NonceStoreUnavailableError, g', st'))
    \<or> (\<exists>c now policy ne g st e st'. governed_reconcile reval c now policy ne g st = (Inl e, g', st'))
    \<or> (\<exists>g rs. g' = foldl (\<lambda>h (c, now, policy, ne, st). fst (snd (governed_reconcile reval c now policy ne h st))) (governed_stop g) rs)"
  shows "\<exists>e. governed_checkAndConsume any c2 now2 now3 ne2 nonce2 ttl2 g' st2 = (Inl e, g', st2)"
proof -
  have refuses: "\<exists>e. governed_checkAndConsume any c2 now2 now3 ne2 nonce2 ttl2 h st2 = (Inl e, h, st2)"
    if "\<exists>e. gate_assertAcceptable now2 h = Inl e" for h
    using that by (auto simp: governed_checkAndConsume_def gate_expectedEpoch_def split: sum.splits)
  have stopped: "sg_stopped (fst (snd (governed_reconcile reval c now policy ne h st)))" if "sg_stopped h" for c now policy ne h st
    using that by (simp add: governed_reconcile_def gate_failClosed_def gate_apply_def Let_def
        split: option.split sum.split prod.split)
  have run: "sg_stopped (foldl (\<lambda>h (c, now, policy, ne, st). fst (snd (governed_reconcile reval c now policy ne h st))) h rs)"
    if "sg_stopped h" for h rs using that by (induction rs arbitrary: h) (simp_all add: stopped split_beta)
  from assms consider
      (consume) c now n2 ne nonce ttl g st st' where
        "governed_checkAndConsume eval c now n2 ne nonce ttl g st = (Inl NonceStoreUnavailableError, g', st')"
    | (reconcile) c now policy ne g st e st' where "governed_reconcile reval c now policy ne g st = (Inl e, g', st')"
    | (stop) "sg_stopped g'"
    using run [of "governed_stop _"] by (auto simp: governed_stop_def gate_close_def gate_failClosed_def)
  then show ?thesis
  proof cases
    case consume
    then have "g' = gate_failClosed StoreUnavailable g"
      by (auto simp: governed_checkAndConsume_def gate_expectedEpoch_def gate_assertAcceptable_def
          gate_continuityEpoch_def split_beta split: sum.splits option.splits if_splits dest: consume_answer_unavailable)
    then show ?thesis using gate_closed by (intro refuses) blast
  next
    case reconcile
    then have "g' = gate_failClosed StoreUnavailable g"
      by (auto simp: governed_reconcile_def Let_def split_beta split: sum.splits option.splits prod.splits)
    then show ?thesis using gate_closed by (intro refuses) blast
  next
    case stop
    then show ?thesis by (intro refuses) (simp add: gate_assertAcceptable_def)
  qed
qed


section \<open>Recovery\<close>

lemma parse_config_dec: "parse_config (nat_to_dec m @ CHR '':'' # nat_to_dec n) = Some (m, n)"
proof -
  have d: "is_digit c" if "c \<in> set (nat_to_dec k)" for c k using nat_to_dec_digits [of k] that by (auto simp: list_all_iff)
  have "\<not> is_digit (CHR '':'')" by (simp add: is_digit_def)
  then have "takeWhile is_digit (nat_to_dec m @ CHR '':'' # nat_to_dec n) = nat_to_dec m"
      "dropWhile is_digit (nat_to_dec m @ CHR '':'' # nat_to_dec n) = CHR '':'' # nat_to_dec n"
    using d by (simp_all add: takeWhile_append dropWhile_append)
  then show ?thesis by (simp add: parse_config_def nat_to_dec_digits)
qed

lemma validateEpoch_id: "validateEpoch e l = Inr e' \<Longrightarrow> e' = e \<and> e \<noteq> [] \<and> (\<forall>l'. validateEpoch e l' = Inr e)"
  by (auto simp: validateEpoch_def split: if_splits)

lemma options_config:
  assumes "governed_options_check opts ne = returns (c, e0, x0)"
  shows "config_problem (gc_config c) (gc_config c) (gc_quarantineMs c) = None"
    "0 < gc_retentionMs c" "gc_retentionMs c \<le> gc_quarantineMs c" "is_safe_integer (gc_quarantineMs c)"
    "0 < gc_intervalMs c" "gc_intervalMs c < gc_retentionMs c"
proof -
  obtain r q where c: "gc_config c = int_to_dec r @ '':'' @ int_to_dec q" "r = gc_retentionMs c" "q = gc_quarantineMs c"
      "0 < r" "r \<le> q" "is_safe_integer q" "0 < gc_intervalMs c" "gc_intervalMs c < r"
    using assms
    by (auto simp: governed_options_check_def and_then_Inr_iff deriveNonceRetentionMs_iff positiveSafeInteger_def
        nonNegativeSafeInteger_def Let_def split: if_splits)
  then show "config_problem (gc_config c) (gc_config c) (gc_quarantineMs c) = None"
    using parse_config_dec [of "nat r" "nat q"] by (simp add: config_problem_def int_to_dec_def)
  show "0 < gc_retentionMs c" "gc_retentionMs c \<le> gc_quarantineMs c" "is_safe_integer (gc_quarantineMs c)"
    "0 < gc_intervalMs c" "gc_intervalMs c < gc_retentionMs c" using c by auto
qed

text \<open>The reconciliation of an empty Redis, and of one whose quarantine has gone by.\<close>

lemma reconcile_empty:
  assumes "0 < ra_quarantineMs a" "config_problem (ra_config a) (ra_config a) (ra_quarantineMs a) = None"
  shows "reconcile_script a now empty_redis =
    ((if ra_expected a \<noteq> [] \<and> ra_fresh a \<noteq> ra_expected a then ''EPOCH_CHANGED'' else ''MISSING'', ra_fresh a, ra_quarantineMs a),
     \<lparr>rk_epoch = Some (ra_fresh a), rk_config = Some (ra_config a),
      rk_quarantine = Some (ra_fresh a, Some (now + ra_quarantineMs a)), rk_nonces = []\<rparr>)"
  using assms
  by (auto simp: reconcile_script_def reconcile_tail_def empty_redis_def quarantine_at_least_def or_string_def
      pttl_quarantine_def get_quarantine_def Let_def)

lemma reconcile_settled:
  assumes "0 < ra_quarantineMs a" "config_problem (ra_config a) (ra_config a) (ra_quarantineMs a) = None"
    and "rk_epoch r = Some (ra_expected a)" "rk_config r = Some (ra_config a)"
    and "rk_quarantine r = Some (v, Some e)" "e < now"
  shows "reconcile_script a now r = ((''OK'', ra_expected a, -2), r)"
  using assms
  by (auto simp: reconcile_script_def reconcile_tail_def pttl_quarantine_def get_quarantine_def Let_def)

text \<open>
  C22. The namespace recovers from a loss by itself. After all data is lost, a running process's next
  reconciliation publishes a replacement epoch under quarantine; the first one after that quarantine
  reopens the gate; and from then on a request with a nonce the new state has not seen is accepted. The
  refusal of \<open>loss_quarantines\<close> is therefore not for ever.
\<close>
theorem governed_recovers:
  assumes "governed_options_check opts ne0 = returns (c, e0, x0)" "sg_epoch g = Some old" "\<not> sg_stopped g"
    and "assertNoEvictionPolicy policy = Inr ()"
    and "validateEpoch ne1 ''newEpoch() result'' = returns ne1" "validateEpoch ne2 ''newEpoch() result'' = returns ne2"
      "validateEpoch ne3 ''newEpoch() result'' = returns ne3"
    and "t1 + gc_quarantineMs c < t2" "t2 \<le> t3" "0 \<le> now3" "0 < ttl" "is_safe_integer ttl"
  shows "\<exists>g1 r1 g2 r2 g3 r3.
    governed_reconcile (redis_eval reconcile_script t1 False) c now1 (Some policy) ne1 g empty_redis = (Inr (), g1, r1)
    \<and> sg_until g1 = Some (now1 + gc_quarantineMs c)
    \<and> governed_reconcile (redis_eval reconcile_script t2 False) c now2 (Some policy) ne2 g1 r1 = (Inr (), g2, r2)
    \<and> governed_checkAndConsume (redis_eval consume_script t3 False) c now3 now4 ne3 nonce ttl g2 r2 = (Inr False, g3, r3)"
proof -
  note c = options_config [OF assms(1)]
  have q: "0 < gc_quarantineMs c" using c(2,3) by simp
  have ne: "ne1 \<noteq> []" "validateEpoch ne1 l = Inr ne1" for l using validateEpoch_id [OF assms(5)] by auto
  define a1 where "a1 = \<lparr>ra_fresh = ne1, ra_quarantineMs = gc_quarantineMs c, ra_expected = old, ra_config = gc_config c\<rparr>"
  define r1 where "r1 = \<lparr>rk_epoch = Some ne1, rk_config = Some (gc_config c),
      rk_quarantine = Some (ne1, Some (t1 + gc_quarantineMs c)), rk_nonces = []\<rparr>"
  define st1 where "st1 = (if old \<noteq> [] \<and> ne1 \<noteq> old then ''EPOCH_CHANGED'' else ''MISSING'')"
  have s1: "reconcile_script a1 t1 empty_redis = ((st1, ne1, gc_quarantineMs c), r1)"
    using reconcile_empty [of a1 t1] q c(1) by (simp add: a1_def r1_def st1_def)
  have a1: "reconcile_answer old (Some (RawTriple st1 ne1 (Some (gc_quarantineMs c))))
      = Inr (ne1, gc_quarantineMs c, establish_reason st1)"
    using q c(4) ne by (simp add: reconcile_answer_def parseReply_def st1_def KNOWN_STATUSES_def ttl_fits_status_def)
  define g1 where "g1 = gate_apply now1 ne1 (gc_quarantineMs c) (establish_reason st1) g"
  have 1: "governed_reconcile (redis_eval reconcile_script t1 False) c now1 (Some policy) ne1 g empty_redis = (Inr (), g1, r1)"
    using assms(2,4) ne s1 a1
    by (simp add: governed_reconcile_def gate_continuityEpoch_def redis_eval_def a1_def [symmetric] g1_def)
  have g1: "sg_epoch g1 = Some ne1" "\<not> sg_stopped g1" "sg_until g1 = Some (now1 + gc_quarantineMs c)"
    using assms(3) q by (simp_all add: g1_def gate_apply_def)
  define a2 where "a2 = \<lparr>ra_fresh = ne2, ra_quarantineMs = gc_quarantineMs c, ra_expected = ne1, ra_config = gc_config c\<rparr>"
  have s2: "reconcile_script a2 t2 r1 = ((''OK'', ne1, -2), r1)"
    using reconcile_settled [of a2 r1 ne1 "t1 + gc_quarantineMs c" t2] q c(1) assms(8) by (simp add: a2_def r1_def)
  have a2: "reconcile_answer ne1 (Some (RawTriple ''OK'' ne1 (Some (-2)))) = Inr (ne1, -2, MarkerLost)"
    using ne by (simp add: reconcile_answer_def parseReply_def KNOWN_STATUSES_def ttl_fits_status_def establish_reason_def
        is_safe_integer_def MAX_SAFE_INTEGER_def)
  define g2 where "g2 = gate_apply now2 ne1 (-2) MarkerLost g1"
  have 2: "governed_reconcile (redis_eval reconcile_script t2 False) c now2 (Some policy) ne2 g1 r1 = (Inr (), g2, r1)"
    using assms(4,6) g1(1) s2 a2
    by (simp add: governed_reconcile_def gate_continuityEpoch_def redis_eval_def a2_def [symmetric] g2_def)
  have e: "gate_expectedEpoch now3 g2 = Inr ne1"
    using g1(2) assms(10)
    by (simp add: gate_expectedEpoch_def gate_assertAcceptable_def gate_continuityEpoch_def g2_def gate_apply_def)
  define a3 where "a3 = \<lparr>ca_expected = ne1, ca_fresh = ne3, ca_quarantineMs = gc_quarantineMs c, ca_ttlMs = ttl,
    ca_config = gc_config c, ca_nonce = gc_keyPrefix c @ nonce\<rparr>"
  have "fst (fst (consume_script a3 t3 r1)) = ''FRESH''"
    unfolding fresh_iff using q c(1) assms(8,9) by (simp add: a3_def r1_def get_quarantine_def nonce_present_def)
  from fresh_reply [OF this] have s3: "fst (consume_script a3 t3 r1) = (''FRESH'', ne1, -2)" by (simp add: a3_def)
  have a3: "consume_answer now4 ne1 (Some (RawTriple ''FRESH'' ne1 (Some (-2)))) g2 = (Inr False, g2)"
    by (simp add: consume_answer_def parseReply_def is_safe_integer_def MAX_SAFE_INTEGER_def)
  have "governed_checkAndConsume (redis_eval consume_script t3 False) c now3 now4 ne3 nonce ttl g2 r1
      = (Inr False, g2, snd (consume_script a3 t3 r1))"
    using e assms(7,11,12) s3 a3
    by (simp add: governed_checkAndConsume_def positiveSafeInteger_def redis_eval_def a3_def [symmetric] split_beta)
  with 1 2 g1(3) show ?thesis by blast
qed

section \<open>Examples\<close>

definition ex_gopts :: governed_options where
  "ex_gopts = \<lparr>go_namespace = ''a'', go_sigWindowMs = 2, go_safetyBufferMs = 1, go_safetyAllowanceMs = Some 1,
     go_commandTimeoutMs = None, go_reconcileIntervalMs = None, go_expectedEpoch = None\<rparr>"

definition ex_gc :: governed_config where
  "ex_gc = \<lparr>gc_retentionMs = 5, gc_quarantineMs = 6, gc_commandTimeoutMs = 2000, gc_intervalMs = 2,
     gc_keyPrefix = ''bpc:{a}:nonce:'', gc_continuityKey = ''bpc:{a}:continuity:v2'',
     gc_quarantineKey = ''bpc:{a}:continuity-quarantine:v2'',
     gc_continuityConfigKey = ''bpc:{a}:continuity-config:v2'', gc_config = ''5:6''\<rparr>"

lemma ex_gopts_check: "governed_options_check ex_gopts ''e0'' = returns (ex_gc, ''e0'', [])"
  by (simp add: governed_options_check_def ex_gopts_def ex_gc_def NAMESPACE_RE_def is_alnum_def is_lower_def is_digit_def
      deriveNonceRetentionMs_def positiveSafeInteger_def nonNegativeSafeInteger_def is_safe_integer_def
      MAX_SAFE_INTEGER_def defaulted_def DEFAULT_REDIS_NONCE_TIMEOUT_MS_def validateEpoch_def int_to_dec_def nat_to_dec.simps digit_char_def char_of_def bit_0)

definition ex_redis :: redis where
  "ex_redis = \<lparr>rk_epoch = Some ''e1'', rk_config = Some ''5:6'', rk_quarantine = None, rk_nonces = []\<rparr>"

definition ex_gate :: "string \<Rightarrow> shared_gate" where
  "ex_gate e = \<lparr>sg_epoch = Some e, sg_until = Some 0, sg_reason = MarkerLost, sg_stopped = False\<rparr>"

definition ex_ra :: reconcile_args where
  "ex_ra = \<lparr>ra_fresh = ''e2'', ra_quarantineMs = 6, ra_expected = ''e1'', ra_config = ''5:6''\<rparr>"

lemma ex_epochs:
  "validateEpoch ''e0'' l = returns ''e0''" "validateEpoch ''e1'' l = returns ''e1''"
  "validateEpoch ''e2'' l = returns ''e2''" "validateEpoch ''e3'' l = returns ''e3''"
  by (simp_all add: validateEpoch_def is_alnum_def is_lower_def is_digit_def)

lemma ex_config [simp]: "config_problem ''5:6'' ''5:6'' 6 = None"
  using options_config(1) [OF ex_gopts_check] by (simp add: ex_gc_def)

lemma ex_gate_open: "gate_expectedEpoch 0 (ex_gate e) = Inr e"
  by (simp add: gate_expectedEpoch_def gate_assertAcceptable_def gate_continuityEpoch_def ex_gate_def)

lemma ex_gov_consume:
  assumes "rk_epoch r = Some e" "rk_config r = Some ''5:6''" "get_quarantine t r = None"
    "\<not> nonce_present t ''bpc:{a}:nonce:n'' r" "e \<in> {''e1'', ''e2''}"
  shows "\<exists>r'. governed_checkAndConsume (redis_eval consume_script t False) ex_gc 0 0 ''e3'' ''n'' 5 (ex_gate e) r
    = (Inr False, ex_gate e, r')"
proof -
  define a where "a = \<lparr>ca_expected = e, ca_fresh = ''e3'', ca_quarantineMs = 6, ca_ttlMs = 5,
    ca_config = ''5:6'', ca_nonce = ''bpc:{a}:nonce:n''\<rparr>"
  have "fst (fst (consume_script a t r)) = ''FRESH''" unfolding fresh_iff using assms by (simp add: a_def)
  from fresh_reply [OF this] have "fst (consume_script a t r) = (''FRESH'', e, -2)" by (simp add: a_def)
  then have "governed_checkAndConsume (redis_eval consume_script t False) ex_gc 0 0 ''e3'' ''n'' 5 (ex_gate e) r
      = (Inr False, ex_gate e, snd (consume_script a t r))"
    by (simp add: governed_checkAndConsume_def ex_gate_open ex_epochs positiveSafeInteger_def is_safe_integer_def
        MAX_SAFE_INTEGER_def redis_eval_def split_beta ex_gc_def a_def [symmetric] consume_answer_def parseReply_def)
  then show ?thesis by blast
qed

theorem governed_no_replay_witness:
  "\<exists>r'. governed_checkAndConsume (redis_eval consume_script 0 False) ex_gc 0 0 ''e3'' ''n'' 5 (ex_gate ''e1'') ex_redis
      = (Inr False, ex_gate ''e1'', r')
    \<and> fst (governed_checkAndConsume (redis_eval consume_script 4 False) ex_gc 0 0 ''e3'' ''n'' 5 (ex_gate ''e2'')
        (foldl gov_step r' [(1, DataLost), (2, Reconciles ex_ra)])) \<noteq> Inr False"
proof -
  obtain r' where r': "governed_checkAndConsume (redis_eval consume_script 0 False) ex_gc 0 0 ''e3'' ''n'' 5
      (ex_gate ''e1'') ex_redis = (Inr False, ex_gate ''e1'', r')"
    using ex_gov_consume [of ex_redis "''e1''" 0] by (auto simp: ex_redis_def get_quarantine_def nonce_present_def)
  have h: "guarded_history 0 5 [(1, DataLost), (2, Reconciles ex_ra)]" by (simp add: guarded_history_def ex_ra_def)
  show ?thesis using governed_no_replay [OF r' h] r' by simp
qed

theorem loss_quarantines_witness:
  "fst (governed_checkAndConsume (redis_eval consume_script 8 False) ex_gc 0 0 ''e3'' ''n'' 5 (ex_gate ''e2'')
      (foldl gov_step empty_redis [(1, Reconciles ex_ra)])) = Inr False \<and> 1 + 6 < (8::int)"
proof -
  have h: "guarded_history 1 6 [(1, Reconciles ex_ra)]" by (simp add: guarded_history_def ex_ra_def)
  have r: "foldl gov_step empty_redis [(1, Reconciles ex_ra)] = \<lparr>rk_epoch = Some ''e2'', rk_config = Some ''5:6'',
      rk_quarantine = Some (''e2'', Some 7), rk_nonces = []\<rparr>"
    using reconcile_empty [of ex_ra 1] by (simp add: ex_ra_def)
  have f: "fst (governed_checkAndConsume (redis_eval consume_script 8 False) ex_gc 0 0 ''e3'' ''n'' 5 (ex_gate ''e2'')
      (foldl gov_step empty_redis [(1, Reconciles ex_ra)])) = Inr False"
    unfolding r using ex_gov_consume [of "\<lparr>rk_epoch = Some ''e2'', rk_config = Some ''5:6'',
      rk_quarantine = Some (''e2'', Some 7), rk_nonces = []\<rparr>" "''e2''" 8]
    by (auto simp: get_quarantine_def nonce_present_def)
  show ?thesis using loss_quarantines [OF h f] f by simp
qed

theorem gate_fails_closed_witness:
  "\<exists>e. governed_checkAndConsume (redis_eval consume_script 5 False) ex_gc 9 9 ''e3'' ''m'' 5
      (gate_failClosed StoreUnavailable (ex_gate ''e1'')) ex_redis
    = (Inl e, gate_failClosed StoreUnavailable (ex_gate ''e1''), ex_redis)"
proof -
  have "governed_checkAndConsume (\<lambda>a (r::redis). (None, r)) ex_gc 0 0 ''e3'' ''n'' 5 (ex_gate ''e1'') ex_redis
      = (Inl NonceStoreUnavailableError, gate_failClosed StoreUnavailable (ex_gate ''e1''), ex_redis)"
    by (simp add: governed_checkAndConsume_def ex_gate_open ex_epochs positiveSafeInteger_def is_safe_integer_def
        MAX_SAFE_INTEGER_def consume_answer_def)
  then have "\<exists>c now now2 ne nonce ttl g st st'.
      governed_checkAndConsume (\<lambda>a (r::redis). (None, r)) c now now2 ne nonce ttl g st
      = (Inl NonceStoreUnavailableError, gate_failClosed StoreUnavailable (ex_gate ''e1''), st')"
    by (intro exI)
  from gate_fails_closed [OF disjI1 [OF this]] show ?thesis .
qed

theorem governed_recovers_witness:
  "\<exists>g1 r1 g2 r2 g3 r3.
    governed_reconcile (redis_eval reconcile_script 1 False) ex_gc 1 (Some (JArr [JStr ''maxmemory-policy'', JStr ''noeviction'']))
      ''e1'' (ex_gate ''e0'') empty_redis = (Inr (), g1, r1)
    \<and> sg_until g1 = Some 7
    \<and> governed_reconcile (redis_eval reconcile_script 8 False) ex_gc 8 (Some (JArr [JStr ''maxmemory-policy'', JStr ''noeviction'']))
      ''e2'' g1 r1 = (Inr (), g2, r2)
    \<and> governed_checkAndConsume (redis_eval consume_script 9 False) ex_gc 9 9 ''e3'' ''n'' 5 g2 r2 = (Inr False, g3, r3)"
proof -
  have p: "assertNoEvictionPolicy (JArr [JStr ''maxmemory-policy'', JStr ''noeviction'']) = Inr ()"
    by (simp add: assertNoEvictionPolicy_def policy_of_def)
  have g: "sg_epoch (ex_gate ''e0'') = Some ''e0''" "\<not> sg_stopped (ex_gate ''e0'')" by (simp_all add: ex_gate_def)
  have q: "gc_quarantineMs ex_gc = 6" by (simp add: ex_gc_def)
  have n: "is_safe_integer 5" by (simp add: is_safe_integer_def MAX_SAFE_INTEGER_def)
  have "1 + gc_quarantineMs ex_gc < 8" "(8::int) \<le> 9" "(0::int) \<le> 9" "(0::int) < 5" using q by simp_all
  from governed_recovers [OF ex_gopts_check g p ex_epochs(2,3,4) this n, where ?now1.0 = 1 and ?now2.0 = 8 and ?now4.0 = 9
      and nonce = "''n''"] show ?thesis
    unfolding q by simp
qed

end
