(* ===== verification/Utf16.thy ===== *)
theory Utf16
  imports Json
begin

text \<open>
  JavaScript strings as they are: lists of UTF-16 code units. The outbox contract is written for all of
  them (it rejects lone surrogates), so it uses this type and not the 8-bit strings of the rest. Here are
  the code points, the UTF-8 encoding of \<open>Buffer.from(s, 'utf8')\<close>, and the locale of codes that can be
  read back from a concatenation: UTF-8, the escapes of a string literal and the length-prefixed frames
  of a digest are such codes.
\<close>

type_synonym unit16 = "16 word"
type_synonym ustr = "unit16 list"

definition units :: "string \<Rightarrow> ustr" where
  "units s = map (\<lambda>c. word_of_nat (code c)) s"

definition high_surrogate :: "unit16 \<Rightarrow> bool" where
  "high_surrogate c = (0xD800 \<le> c \<and> c \<le> 0xDBFF)"

definition low_surrogate :: "unit16 \<Rightarrow> bool" where
  "low_surrogate c = (0xDC00 \<le> c \<and> c \<le> 0xDFFF)"

text \<open>The code points of a string; a lone surrogate is written as U+FFFD.\<close>

definition single_point :: "unit16 \<Rightarrow> nat" where
  "single_point c = (if high_surrogate c \<or> low_surrogate c then 0xFFFD else unat c)"

definition pair_point :: "unit16 \<Rightarrow> unit16 \<Rightarrow> nat" where
  "pair_point c d = 0x10000 + (unat c - 0xD800) * 1024 + (unat d - 0xDC00)"

fun code_points :: "ustr \<Rightarrow> nat list" where
  "code_points [] = []"
| "code_points [c] = [single_point c]"
| "code_points (c # d # s) =
     (if high_surrogate c \<and> low_surrogate d then pair_point c d # code_points s
      else single_point c # code_points (d # s))"

definition utf8_nats :: "nat \<Rightarrow> nat list" where
  "utf8_nats n =
     (if n < 0x80 then [n]
      else if n < 0x800 then [0xC0 + n div 64, 0x80 + n mod 64]
      else if n < 0x10000 then [0xE0 + n div 4096, 0x80 + n div 64 mod 64, 0x80 + n mod 64]
      else [0xF0 + n div 262144, 0x80 + n div 4096 mod 64, 0x80 + n div 64 mod 64, 0x80 + n mod 64])"

definition utf8_point :: "nat \<Rightarrow> bytes" where
  "utf8_point n = map word_of_nat (utf8_nats n)"

definition utf8_units :: "ustr \<Rightarrow> bytes" where
  "utf8_units s = concat (map utf8_point (code_points s))"

section \<open>Codes that can be read back\<close>

locale prefix_code =
  fixes enc :: "'a \<Rightarrow> 'b list" and ok :: "'a \<Rightarrow> bool"
  assumes nonempty: "ok a \<Longrightarrow> enc a \<noteq> []"
    and prefix_free: "ok a \<Longrightarrow> ok b \<Longrightarrow> enc a @ x = enc b @ y \<Longrightarrow> a = b"
begin

lemma head_tail: "ok a \<Longrightarrow> ok b \<Longrightarrow> enc a @ x = enc b @ y \<Longrightarrow> a = b \<and> x = y"
  using prefix_free [of a b x y] by auto

lemma concat_inj:
  "list_all ok xs \<Longrightarrow> list_all ok ys \<Longrightarrow> concat (map enc xs) = concat (map enc ys) \<Longrightarrow> xs = ys"
proof (induction xs arbitrary: ys)
  case Nil
  then show ?case using nonempty by (cases ys) auto
next
  case (Cons a xs)
  from Cons.prems nonempty [of a] obtain b ys' where ys: "ys = b # ys'" by (cases ys) auto
  with Cons.prems have "a = b \<and> concat (map enc xs) = concat (map enc ys')"
    by (intro head_tail) simp_all
  with Cons ys show ?case by simp
qed

text \<open>The same before a terminator that starts no code word.\<close>

lemma concat_until:
  assumes "list_all ok xs" "list_all ok ys" "concat (map enc xs) @ z # r = concat (map enc ys) @ z # r'"
    and "\<And>a. ok a \<Longrightarrow> hd (enc a) \<noteq> z"
  shows "xs = ys \<and> r = r'"
  using assms(1-3)
proof (induction xs arbitrary: ys)
  case Nil
  with nonempty assms(4) show ?case by (cases ys) (auto simp: neq_Nil_conv, fastforce)
next
  case (Cons a xs)
  have "ys \<noteq> []"
  proof
    assume "ys = []"
    with Cons.prems(3) have "hd (enc a @ concat (map enc xs) @ z # r) = z" by (metis append_assoc append_Nil concat.simps list.map list.sel(1))
    with Cons.prems(1) nonempty [of a] assms(4) [of a] show False by simp
  qed
  then obtain b ys' where ys: "ys = b # ys'" by (cases ys) auto
  with Cons.prems have "a = b \<and> concat (map enc xs) @ z # r = concat (map enc ys') @ z # r'"
    by (intro head_tail) simp_all
  with Cons ys show ?case by simp
qed

end

section \<open>UTF-8 is such a code\<close>

lemma byte_inj: "m < 256 \<Longrightarrow> n < 256 \<Longrightarrow> word_of_nat m = (word_of_nat n :: byte) \<Longrightarrow> m = n"
  by (simp add: word_of_nat_eq_iff take_bit_nat_def)

lemma bytes_inj:
  "list_all (\<lambda>n. n < 256) ms \<Longrightarrow> list_all (\<lambda>n. n < 256) ns
     \<Longrightarrow> map word_of_nat ms = (map word_of_nat ns :: bytes) \<Longrightarrow> ms = ns"
  by (rule map_inj_on [where f = "word_of_nat :: nat \<Rightarrow> byte"])
    (auto simp: list_all_iff inj_on_def intro: byte_inj)

lemma utf8_nats_bound: "n < 0x110000 \<Longrightarrow> list_all (\<lambda>b. b < 256) (utf8_nats n)"
proof -
  assume n: "n < 0x110000"
  have m: "m mod 64 < 64" for m :: nat by simp
  show ?thesis using n m [of n] m [of "n div 64"] m [of "n div 4096"]
    by (simp add: utf8_nats_def; linarith?)
qed

text \<open>The first byte gives the length.\<close>

definition utf8_length :: "nat \<Rightarrow> nat" where
  "utf8_length b = (if b < 0xC0 then 1 else if b < 0xE0 then 2 else if b < 0xF0 then 3 else 4)"

lemma utf8_nats_length: "n < 0x110000 \<Longrightarrow> length (utf8_nats n) = utf8_length (hd (utf8_nats n))"
  by (simp add: utf8_nats_def utf8_length_def; linarith)

definition utf8_value :: "nat list \<Rightarrow> nat" where
  "utf8_value bs = (case bs of [a] \<Rightarrow> a | [a, b] \<Rightarrow> (a - 0xC0) * 64 + (b - 0x80)
     | [a, b, c] \<Rightarrow> (a - 0xE0) * 4096 + (b - 0x80) * 64 + (c - 0x80)
     | [a, b, c, d] \<Rightarrow> (a - 0xF0) * 262144 + (b - 0x80) * 4096 + (c - 0x80) * 64 + (d - 0x80) | _ \<Rightarrow> 0)"

lemma utf8_value_nats: "utf8_value (utf8_nats n) = n"
proof -
  have d: "n div 4096 = n div 64 div 64" "n div 262144 = n div 64 div 64 div 64" by (simp_all add: div_mult2_eq [symmetric])
  note e = div_mult_mod_eq [of n 64] div_mult_mod_eq [of "n div 64" 64] div_mult_mod_eq [of "n div 64 div 64" 64]
  have "n div 4096 * 4096 + n div 64 mod 64 * 64 + n mod 64 = n" unfolding d using e by linarith
  moreover have "n div 262144 * 262144 + n div 4096 mod 64 * 4096 + n div 64 mod 64 * 64 + n mod 64 = n"
    unfolding d using e by linarith
  ultimately show ?thesis by (simp add: utf8_nats_def utf8_value_def)
qed

interpretation utf8_code: prefix_code utf8_point "\<lambda>n. n < 0x110000"
proof (unfold_locales, goal_cases)
  case (1 a)
  then show ?case by (simp add: utf8_point_def utf8_nats_def)
next
  case (2 a b x y)
  have ne: "utf8_nats n \<noteq> []" for n by (simp add: utf8_nats_def)
  then have "word_of_nat (hd (utf8_nats a)) = (word_of_nat (hd (utf8_nats b)) :: byte)"
    using arg_cong [OF 2(3), of hd] by (simp add: utf8_point_def hd_map)
  moreover have "hd (utf8_nats n) < 256" if "n < 0x110000" for n
    using utf8_nats_bound [OF that] ne [of n] by (cases "utf8_nats n") auto
  ultimately have "hd (utf8_nats a) = hd (utf8_nats b)" using 2 by (intro byte_inj) auto
  then have "length (utf8_point a) = length (utf8_point b)"
    using 2 by (simp add: utf8_point_def utf8_nats_length)
  with 2(3) have "utf8_point a = utf8_point b" by simp
  then have "utf8_nats a = utf8_nats b"
    using 2 by (intro bytes_inj utf8_nats_bound) (simp_all add: utf8_point_def)
  then show ?case using utf8_value_nats by metis
qed

section \<open>Well-formed strings\<close>

fun well_formed :: "ustr \<Rightarrow> bool" where
  "well_formed [] = True"
| "well_formed [c] = (\<not> high_surrogate c \<and> \<not> low_surrogate c)"
| "well_formed (c # d # s) = (if high_surrogate c then low_surrogate d \<and> well_formed s
     else \<not> low_surrogate c \<and> well_formed (d # s))"

lemma unat_unit: "unat (c :: unit16) < 0x10000"
  using unsigned_less [of c] by simp

lemma surrogate_bounds:
  "high_surrogate c \<Longrightarrow> 0xD800 \<le> unat c \<and> unat c \<le> 0xDBFF"
  "low_surrogate c \<Longrightarrow> 0xDC00 \<le> unat c \<and> unat c \<le> 0xDFFF"
  by (simp_all add: high_surrogate_def low_surrogate_def word_le_nat_alt)

lemma pair_point_bounds: "high_surrogate c \<Longrightarrow> low_surrogate d \<Longrightarrow> 0x10000 \<le> pair_point c d \<and> pair_point c d < 0x110000"
  using surrogate_bounds [of c] surrogate_bounds [of d] by (auto simp: pair_point_def)

lemma single_point_bound: "single_point c < 0x10000"
  using unat_unit [of c] by (simp add: single_point_def)

lemma code_points_bound: "list_all (\<lambda>n. n < 0x110000) (code_points s)"
proof (induction s rule: code_points.induct)
  case (2 c)
  show ?case using single_point_bound [of c] by simp
next
  case (3 c d s)
  then show ?case using single_point_bound [of c] pair_point_bounds [of c d] by simp
qed simp

lemma pair_point_inj:
  assumes "high_surrogate c" "low_surrogate d" "high_surrogate c'" "low_surrogate d'" "pair_point c d = pair_point c' d'"
  shows "c = c' \<and> d = d'"
proof -
  note b = surrogate_bounds(1) [OF assms(1)] surrogate_bounds(2) [OF assms(2)]
    surrogate_bounds(1) [OF assms(3)] surrogate_bounds(2) [OF assms(4)]
  from assms(5) have e: "(unat c - 0xD800) * 1024 + (unat d - 0xDC00) = (unat c' - 0xD800) * 1024 + (unat d' - 0xDC00)"
    by (simp add: pair_point_def)
  have s: "unat d - 0xDC00 < 1024" "unat d' - 0xDC00 < 1024" using b by linarith+
  have "unat c - 0xD800 = unat c' - 0xD800"
    using arg_cong [OF e, of "\<lambda>x. x div 1024"] s by simp
  with e have "unat d - 0xDC00 = unat d' - 0xDC00" by simp
  with \<open>unat c - 0xD800 = unat c' - 0xD800\<close> b have "unat c = unat c'" "unat d = unat d'" by linarith+
  then show ?thesis by (simp add: word_unat_eq_iff)
qed

text \<open>Reading one code point off a well-formed string.\<close>

lemma well_formed_cases:
  assumes "well_formed s" "s \<noteq> []"
  obtains (one) c r where "s = c # r" "code_points s = unat c # code_points r" "unat c < 0x10000" "well_formed r"
  | (two) c d r where "s = c # d # r" "high_surrogate c" "low_surrogate d" "code_points s = pair_point c d # code_points r"
      "0x10000 \<le> pair_point c d" "well_formed r"
proof (cases s rule: well_formed.cases)
  case (2 c)
  with assms(1) one [of c "[]"] unat_unit [of c] show ?thesis by (simp add: single_point_def)
next
  case (3 c d r)
  show ?thesis
  proof (cases "high_surrogate c")
    case True
    with assms(1) 3 pair_point_bounds [of c d] show ?thesis by (intro two [of c d r]) auto
  next
    case False
    with assms(1) 3 unat_unit [of c] show ?thesis by (intro one [of c "d # r"]) (auto simp: single_point_def)
  qed
qed (use assms in simp)

lemma code_points_inj: "well_formed s \<Longrightarrow> well_formed t \<Longrightarrow> code_points s = code_points t \<Longrightarrow> s = t"
proof (induction "length s" arbitrary: s t rule: less_induct)
  case less
  show ?case
  proof (cases "s = []")
    case True
    with less.prems show ?thesis by (cases t rule: code_points.cases) (auto split: if_splits)
  next
    case False
    have t: "t \<noteq> []"
    proof
      assume "t = []"
      with less.prems False show False by (cases s rule: code_points.cases) (auto split: if_splits)
    qed
    from less.prems(1) False show ?thesis
    proof (cases rule: well_formed_cases)
      case one: (one c r)
      from less.prems(2) t show ?thesis
      proof (cases rule: well_formed_cases)
        case (one c' r')
        with \<open>code_points s = unat c # code_points r\<close> less.prems(3) have "unat c = unat c'" "code_points r = code_points r'" by simp_all
        with less.hyps [of r r'] \<open>s = c # r\<close> one \<open>well_formed r\<close> show ?thesis by (simp add: word_unat_eq_iff)
      next
        case (two c' d' r')
        with one less.prems(3) show ?thesis by simp
      qed
    next
      case two: (two c d r)
      from less.prems(2) t show ?thesis
      proof (cases rule: well_formed_cases)
        case (one c' r')
        with two less.prems(3) show ?thesis by simp
      next
        case two': (two c' d' r')
        with two less.prems(3) have "pair_point c d = pair_point c' d'" "code_points r = code_points r'" by simp_all
        with pair_point_inj [of c d c' d'] less.hyps [of r r'] two two' show ?thesis by simp
      qed
    qed
  qed
qed

lemma utf8_units_inj:
  assumes "well_formed s" "well_formed t" "utf8_units s = utf8_units t"
  shows "s = t"
proof -
  from assms(3) have "code_points s = code_points t"
    unfolding utf8_units_def by (rule utf8_code.concat_inj [OF code_points_bound code_points_bound])
  with assms show ?thesis by (blast intro: code_points_inj)
qed

end
