(* ===== verification/Outbox_Contract.thy ===== *)
theory Outbox_Contract
  imports Utf16 Hex Store
begin

text \<open>
  \<^verbatim>\<open>packages/server/src/ha-outbox-contract.ts\<close>: the canonical text of a value (JCS restricted to I-JSON,
  with depth, node and byte budgets), the length-prefixed digests over it, and the conformance checks of
  record headers, epoch transitions and signed stream heads. \<open>createHash('sha256')\<close> is \<open>wc_sha256\<close> of the
  parameter. Numbers of the records are integers; messages leave out interpolated keys and values.
\<close>

section \<open>Constants and patterns\<close>

definition HA_OUTBOX_CONTRACT_VERSION :: ustr where
  "HA_OUTBOX_CONTRACT_VERSION = units ''1''"

definition HA_OUTBOX_DIGEST_DOMAIN :: ustr where
  "HA_OUTBOX_DIGEST_DOMAIN = units ''selfconnect/ha-outbox/v1''"

definition CANON_MAX_DEPTH :: nat where
  "CANON_MAX_DEPTH = 64"

definition CANON_MAX_NODES :: nat where
  "CANON_MAX_NODES = 10000"

definition CANON_MAX_STRING_BYTES :: nat where
  "CANON_MAX_STRING_BYTES = 65536"

definition CANON_MAX_TOTAL_BYTES :: nat where
  "CANON_MAX_TOTAL_BYTES = 1048576"

definition U32_CEIL :: nat where
  "U32_CEIL = 4294967296"

text \<open>A class of ASCII characters as a class of code units.\<close>

definition unit_in :: "(char \<Rightarrow> bool) \<Rightarrow> unit16 \<Rightarrow> bool" where
  "unit_in p c = (unat c < 128 \<and> p (char_of (unat c)))"

definition id_char :: "char \<Rightarrow> bool" where
  "id_char c = (is_alnum c \<or> c \<in> {CHR '':'', CHR ''.'', CHR ''_'', CHR ''/'', CHR ''-''})"

definition ID_PATTERN :: "ustr \<Rightarrow> bool" where
  "ID_PATTERN s = (case s of [] \<Rightarrow> False
     | c # r \<Rightarrow> unit_in is_alnum c \<and> list_all (unit_in id_char) r \<and> length r \<le> 127)"

definition FENCE_TOKEN_PATTERN :: "ustr \<Rightarrow> bool" where
  "FENCE_TOKEN_PATTERN s = (s = units ''0'' \<or> (case s of [] \<Rightarrow> False
     | c # r \<Rightarrow> unit_in (\<lambda>x. is_digit x \<and> x \<noteq> CHR ''0'') c \<and> list_all (unit_in is_digit) r \<and> length r \<le> 38))"

definition HEX64 :: "ustr \<Rightarrow> bool" where
  "HEX64 s = (length s = 64 \<and> list_all (unit_in (\<lambda>x. is_digit x \<or> (97 \<le> code x \<and> code x \<le> 102))) s)"

definition assertId :: "ustr \<Rightarrow> string \<Rightarrow> unit throws" where
  "assertId value label = (if \<not> ID_PATTERN value
     then throw (label @ '' must match /^[A-Za-z0-9][A-Za-z0-9:._/-]{0,127}$/ (bounded, no separators)'') else returns ())"

fun assertNoLoneSurrogate :: "ustr \<Rightarrow> unit throws" where
  "assertNoLoneSurrogate [] = returns ()"
| "assertNoLoneSurrogate [c] =
     (if high_surrogate c then throw ''lone high surrogate is not canonicalizable''
      else if low_surrogate c then throw ''lone low surrogate is not canonicalizable'' else returns ())"
| "assertNoLoneSurrogate (c # d # s) =
     (if high_surrogate c
      then if \<not> low_surrogate d then throw ''lone high surrogate is not canonicalizable'' else assertNoLoneSurrogate s
      else if low_surrogate c then throw ''lone low surrogate is not canonicalizable'' else assertNoLoneSurrogate (d # s))"

definition utf8Len :: "ustr \<Rightarrow> nat" where
  "utf8Len s = length (utf8_units s)"

section \<open>Values\<close>

text \<open>
  What a JavaScript value of type \<open>unknown\<close> may be for \<open>canonicalize\<close>. A number is a finite integer, the
  negative zero, or neither (a fraction, NaN, an infinity). An own property holds an enumerable value, is
  not enumerable, or is an accessor. \<open>VArr symbols slots extra\<close>: whether it has a symbol property, its
  indices up to its length (\<open>None\<close> is a hole), and its other own names but \<open>length\<close>, where \<open>BigIndex\<close> is a
  canonical integer beyond the array indices. \<open>VObj plain symbols props\<close>: whether the prototype is
  \<open>Object.prototype\<close> or null, whether it has a symbol property, and its properties in the order of
  \<open>getOwnPropertyNames\<close>.
\<close>

datatype jsnum = Whole int | NegZero | NotWhole

datatype 'a own = DataProp 'a | HiddenProp | AccessorProp

datatype array_extra = NamedExtra | BigIndex bool

datatype jsval =
    VNull | VBool bool | VNum jsnum | VStr ustr
  | VUndefined | VBigint | VFunction | VSymbol
  | VArr bool "jsval own option list" "array_extra list"
  | VObj bool bool "(ustr \<times> jsval own) list"

text \<open>Reading an index or a property, once the checks of the names have passed.\<close>

definition slot_value :: "jsval own option \<Rightarrow> jsval" where
  "slot_value x = (case x of Some (DataProp v) \<Rightarrow> v | _ \<Rightarrow> VUndefined)"

section \<open>canonicalize\<close>

record canon =
  cn_nodes :: nat
  cn_bytes :: nat
  cn_parts :: "ustr list"

definition push :: "ustr \<Rightarrow> canon \<Rightarrow> canon throws" where
  "push s st = (let b = cn_bytes st + utf8Len s
     in if CANON_MAX_TOTAL_BYTES < b then throw ''canonical form exceeds CANON_MAX_TOTAL_BYTES''
        else returns (st\<lparr>cn_bytes := b, cn_parts := cn_parts st @ [s]\<rparr>))"

text \<open>The table of escapes and the other control characters are those of a JSON string.\<close>

definition jcs_escape :: "unit16 \<Rightarrow> ustr" where
  "jcs_escape c = (if unat c < 128 then units (esc_char (char_of (unat c))) else [c])"

definition jcsString :: "ustr \<Rightarrow> ustr throws" where
  "jcsString s = and_then (assertNoLoneSurrogate s) (\<lambda>_.
     if CANON_MAX_STRING_BYTES < utf8Len s then throw ''string exceeds CANON_MAX_STRING_BYTES''
     else returns (units [CHR 0x22] @ concat (map jcs_escape s) @ units [CHR 0x22]))"

definition jcsNumber :: "jsnum \<Rightarrow> ustr throws" where
  "jcsNumber n = (case n of
     Whole i \<Rightarrow> if is_safe_integer i then returns (units (int_to_dec i)) else throw ''only safe-integer numbers are canonicalizable''
   | NegZero \<Rightarrow> returns (units ''0'')
   | NotWhole \<Rightarrow> throw ''only safe-integer numbers are canonicalizable'')"

fun check_slots :: "jsval own option list \<Rightarrow> nat throws" where
  "check_slots [] = returns 0"
| "check_slots (None # xs) = check_slots xs"
| "check_slots (Some (DataProp v) # xs) = and_then (check_slots xs) (\<lambda>n. returns (Suc n))"
| "check_slots (Some _ # xs) = throw ''array index must be an enumerable data property''"

fun check_extras :: "array_extra list \<Rightarrow> nat throws" where
  "check_extras [] = returns 0"
| "check_extras (NamedExtra # xs) = throw ''array has non-index property''"
| "check_extras (BigIndex True # xs) = and_then (check_extras xs) (\<lambda>n. returns (Suc n))"
| "check_extras (BigIndex False # xs) = throw ''array index must be an enumerable data property''"

definition check_array :: "bool \<Rightarrow> jsval own option list \<Rightarrow> array_extra list \<Rightarrow> unit throws" where
  "check_array symbols slots extra =
     (if symbols then throw ''array with symbol property is not canonicalizable''
      else and_then (check_slots slots) (\<lambda>m. and_then (check_extras extra) (\<lambda>n.
        if m + n \<noteq> length slots then throw ''array is sparse or has divergent index/length'' else returns ())))"

fun check_props :: "(ustr \<times> jsval own) list \<Rightarrow> unit throws" where
  "check_props [] = returns ()"
| "check_props ((k, p) # ps) = (case p of
     AccessorProp \<Rightarrow> throw ''accessor property is not canonicalizable''
   | HiddenProp \<Rightarrow> throw ''non-enumerable property is not canonicalizable''
   | DataProp v \<Rightarrow> if k = units ''__proto__'' then throw ''__proto__ key is rejected'' else check_props ps)"

definition check_object :: "bool \<Rightarrow> bool \<Rightarrow> (ustr \<times> jsval own) list \<Rightarrow> unit throws" where
  "check_object plain symbols props =
     (if \<not> plain then throw ''only plain objects are canonicalizable (no Date/Map/Set/class)''
      else if symbols then throw ''symbol keys are not canonicalizable''
      else check_props props)"

text \<open>A loop over a list with the index, threading a state that may throw.\<close>

fun each :: "(nat \<Rightarrow> 'a \<Rightarrow> 's \<Rightarrow> 's throws) \<Rightarrow> nat \<Rightarrow> 'a list \<Rightarrow> 's \<Rightarrow> 's throws" where
  "each f i [] st = returns st"
| "each f i (x # xs) st = and_then (f i x st) (each f (Suc i) xs)"

definition comma :: "nat \<Rightarrow> canon \<Rightarrow> canon throws" where
  "comma i st = (if i = 0 then returns st else push (units '','') st)"

definition enter :: "canon \<Rightarrow> canon throws" where
  "enter st = (if CANON_MAX_NODES < cn_nodes st + 1 then throw ''max canonicalization node count exceeded''
     else returns (st\<lparr>cn_nodes := cn_nodes st + 1\<rparr>))"

text \<open>The first argument is how many levels are left: the walk throws below \<open>CANON_MAX_DEPTH\<close>.\<close>

fun walk :: "nat \<Rightarrow> jsval \<Rightarrow> canon \<Rightarrow> canon throws" where
  "walk 0 v st = throw ''max canonicalization depth exceeded''"
| "walk (Suc levels) v st0 = and_then (enter st0) (\<lambda>st. case v of
       VNull \<Rightarrow> push (units ''null'') st
     | VBool b \<Rightarrow> push (units (if b then ''true'' else ''false'')) st
     | VNum n \<Rightarrow> and_then (jcsNumber n) (\<lambda>s. push s st)
     | VStr s \<Rightarrow> and_then (jcsString s) (\<lambda>q. push q st)
     | VUndefined \<Rightarrow> throw ''undefined is not canonicalizable''
     | VBigint \<Rightarrow> throw ''bigint is not canonicalizable''
     | VFunction \<Rightarrow> throw ''function is not canonicalizable''
     | VSymbol \<Rightarrow> throw ''symbol is not canonicalizable''
     | VArr symbols slots extra \<Rightarrow>
         and_then (check_array symbols slots extra) (\<lambda>_.
           and_then (push (units ''['') st) (\<lambda>st1.
             and_then (each (\<lambda>i x s. and_then (comma i s) (walk levels (slot_value x))) 0 slots st1)
               (push (units '']''))))
     | VObj plain symbols props \<Rightarrow>
         and_then (check_object plain symbols props) (\<lambda>_.
           and_then (push (units ''{'') st) (\<lambda>st1.
             and_then (each (\<lambda>i (k, p) s. and_then (comma i s) (\<lambda>s1.
                 and_then (assertNoLoneSurrogate k) (\<lambda>_.
                   and_then (jcsString k) (\<lambda>q.
                     and_then (push (q @ units '':'') s1) (walk levels (slot_value (Some p)))))))
                 0 (sort_key fst props) st1)
               (push (units ''}'')))))"

definition canonicalize_value :: "jsval \<Rightarrow> ustr throws" where
  "canonicalize_value v = and_then (walk (Suc CANON_MAX_DEPTH) v \<lparr>cn_nodes = 0, cn_bytes = 0, cn_parts = []\<rparr>)
     (\<lambda>st. returns (concat (cn_parts st)))"

section \<open>Length-prefixed digests\<close>

definition u32be :: "nat \<Rightarrow> bytes throws" where
  "u32be n = (if U32_CEIL \<le> n then throw ''field byte length exceeds the u32 framing ceiling''
     else returns (map word_of_nat [n div 16777216, n div 65536 mod 256, n div 256 mod 256, n mod 256]))"

fun frames :: "ustr list \<Rightarrow> bytes throws" where
  "frames [] = returns []"
| "frames (f # fs) = and_then (u32be (utf8Len f)) (\<lambda>h. and_then (frames fs) (\<lambda>r. returns (h @ utf8_units f @ r)))"

definition framed_digest :: "webcrypto \<Rightarrow> ustr list \<Rightarrow> ustr throws" where
  "framed_digest cr fs = and_then (frames fs) (\<lambda>b. returns (units (concat (map hex_byte (wc_sha256 cr b)))))"

definition assertFenceToken :: "ustr \<Rightarrow> unit throws" where
  "assertFenceToken t = (if \<not> FENCE_TOKEN_PATTERN t
     then throw ''fenceToken must be canonical non-negative decimal (no leading zeros)'' else returns ())"

definition id_and_text :: "ustr \<Rightarrow> string \<Rightarrow> unit throws" where
  "id_and_text value label = and_then (assertId value label) (\<lambda>_. assertNoLoneSurrogate value)"

definition require :: "bool \<Rightarrow> string \<Rightarrow> unit throws" where
  "require b msg = (if b then returns () else throw msg)"

record op_input =
  od_streamId :: ustr
  od_sourceEpoch :: ustr
  od_sequence :: int
  od_fenceToken :: ustr
  od_mutation :: jsval

definition op_fields :: "op_input \<Rightarrow> ustr \<Rightarrow> ustr list" where
  "op_fields i text = [HA_OUTBOX_DIGEST_DOMAIN, HA_OUTBOX_CONTRACT_VERSION, od_streamId i, od_sourceEpoch i,
     units (int_to_dec (od_sequence i)), od_fenceToken i, text]"

definition canonicalOpDigest :: "webcrypto \<Rightarrow> op_input \<Rightarrow> ustr throws" where
  "canonicalOpDigest cr i =
     and_then (id_and_text (od_streamId i) ''streamId'') (\<lambda>_.
     and_then (id_and_text (od_sourceEpoch i) ''sourceEpoch'') (\<lambda>_.
     and_then (require (is_safe_integer (od_sequence i) \<and> 1 \<le> od_sequence i)
       ''mutation sequence must be a safe integer >= 1 (0 is genesis)'') (\<lambda>_.
     and_then (assertFenceToken (od_fenceToken i)) (\<lambda>_.
     and_then (canonicalize_value (od_mutation i)) (\<lambda>text. framed_digest cr (op_fields i text))))))"

section \<open>Headers\<close>

record outbox_header =
  oh_contractVersion :: ustr
  oh_streamId :: ustr
  oh_sourceEpoch :: ustr
  oh_sequence :: int
  oh_fenceToken :: ustr
  oh_opDigest :: ustr

definition idempotencyKeyOf :: "outbox_header \<Rightarrow> ustr \<times> ustr \<times> int" where
  "idempotencyKeyOf h = (oh_streamId h, oh_sourceEpoch h, oh_sequence h)"

definition assertHeaderConformant :: "outbox_header \<Rightarrow> unit throws" where
  "assertHeaderConformant h =
     and_then (require (oh_contractVersion h = HA_OUTBOX_CONTRACT_VERSION) ''unsupported contractVersion'') (\<lambda>_.
     and_then (id_and_text (oh_streamId h) ''streamId'') (\<lambda>_.
     and_then (id_and_text (oh_sourceEpoch h) ''sourceEpoch'') (\<lambda>_.
     and_then (require (is_safe_integer (oh_sequence h) \<and> 1 \<le> oh_sequence h)
       ''mutation record sequence must be a safe integer >= 1 (0 is genesis)'') (\<lambda>_.
     and_then (assertFenceToken (oh_fenceToken h)) (\<lambda>_.
     require (HEX64 (oh_opDigest h)) ''opDigest must be 64 lowercase hex'')))))"

section \<open>Epoch transitions\<close>

record epoch_transition =
  et_contractVersion :: ustr
  et_streamId :: ustr
  et_fromEpoch :: ustr
  et_fromEpochIndex :: int
  et_toEpoch :: ustr
  et_toEpochIndex :: int
  et_snapshotSequence :: int
  et_snapshotDigest :: ustr
  et_fenceToken :: ustr
  et_transitionDigest :: ustr

definition transition_fields :: "epoch_transition \<Rightarrow> ustr list" where
  "transition_fields r = [HA_OUTBOX_DIGEST_DOMAIN @ units ''/epoch-transition'', HA_OUTBOX_CONTRACT_VERSION,
     et_streamId r, et_fromEpoch r, units (int_to_dec (et_fromEpochIndex r)), et_toEpoch r,
     units (int_to_dec (et_toEpochIndex r)), units (int_to_dec (et_snapshotSequence r)), et_snapshotDigest r, et_fenceToken r]"

definition epochTransitionDigest :: "webcrypto \<Rightarrow> epoch_transition \<Rightarrow> ustr throws" where
  "epochTransitionDigest cr r =
     and_then (id_and_text (et_streamId r) ''streamId'') (\<lambda>_.
     and_then (id_and_text (et_fromEpoch r) ''fromEpoch'') (\<lambda>_.
     and_then (id_and_text (et_toEpoch r) ''toEpoch'') (\<lambda>_.
     and_then (require (et_fromEpoch r \<noteq> et_toEpoch r) ''epoch transition fromEpoch must differ from toEpoch'') (\<lambda>_.
     and_then (require (is_safe_integer (et_fromEpochIndex r) \<and> 0 \<le> et_fromEpochIndex r)
       ''fromEpochIndex must be a non-negative safe integer'') (\<lambda>_.
     and_then (require (et_toEpochIndex r = et_fromEpochIndex r + 1)
       ''toEpochIndex must be exactly fromEpochIndex + 1 (no skipped epochs)'') (\<lambda>_.
     and_then (require (is_safe_integer (et_snapshotSequence r) \<and> 0 \<le> et_snapshotSequence r)
       ''snapshotSequence must be a non-negative safe integer'') (\<lambda>_.
     and_then (require (HEX64 (et_snapshotDigest r)) ''snapshotDigest must be 64 lowercase hex'') (\<lambda>_.
     and_then (assertFenceToken (et_fenceToken r)) (\<lambda>_. framed_digest cr (transition_fields r))))))))))"

definition assertEpochTransitionConformant :: "webcrypto \<Rightarrow> epoch_transition \<Rightarrow> unit throws" where
  "assertEpochTransitionConformant cr r =
     and_then (require (et_contractVersion r = HA_OUTBOX_CONTRACT_VERSION) ''epoch transition contractVersion must be 1'') (\<lambda>_.
     and_then (epochTransitionDigest cr r) (\<lambda>expect.
     require (et_transitionDigest r = expect) ''epoch transitionDigest mismatch''))"

definition fenceTokenToDecimal :: "int \<Rightarrow> ustr throws" where
  "fenceTokenToDecimal t = (if t < 0 then throw ''fenceToken must be a non-negative bigint'' else returns (units (int_to_dec t)))"

section \<open>Signed stream heads\<close>

definition STREAM_HEAD_ALGS :: "ustr list" where
  "STREAM_HEAD_ALGS = [units ''ed25519'', units ''ecdsa-p256-sha256'']"

record signed_head =
  hd_streamId :: ustr
  hd_sequence :: int
  hd_prevHeadDigest :: ustr
  hd_opDigest :: ustr
  hd_keyId :: ustr
  hd_alg :: ustr
  hd_headDigest :: ustr
  hd_signature :: ustr

definition head_fields :: "signed_head \<Rightarrow> ustr list" where
  "head_fields h = [HA_OUTBOX_DIGEST_DOMAIN @ units ''/tsk-stream-head'', HA_OUTBOX_CONTRACT_VERSION, hd_streamId h,
     units (int_to_dec (hd_sequence h)), hd_prevHeadDigest h, hd_opDigest h, hd_keyId h, hd_alg h]"

definition streamHeadDigest :: "webcrypto \<Rightarrow> signed_head \<Rightarrow> ustr throws" where
  "streamHeadDigest cr h =
     and_then (id_and_text (hd_streamId h) ''streamId'') (\<lambda>_.
     and_then (require (is_safe_integer (hd_sequence h) \<and> 1 \<le> hd_sequence h)
       ''mutation stream-head sequence must be a safe integer >= 1'') (\<lambda>_.
     and_then (require (HEX64 (hd_prevHeadDigest h)) ''prevHeadDigest must be 64 lowercase hex'') (\<lambda>_.
     and_then (require (HEX64 (hd_opDigest h)) ''opDigest must be 64 lowercase hex'') (\<lambda>_.
     and_then (require (ID_PATTERN (hd_keyId h)) ''invalid keyId'') (\<lambda>_.
     and_then (require (hd_alg h \<in> set STREAM_HEAD_ALGS) ''unknown alg'') (\<lambda>_. framed_digest cr (head_fields h)))))))"

definition assertStreamHeadBinds :: "webcrypto \<Rightarrow> outbox_header \<Rightarrow> signed_head \<Rightarrow> unit throws" where
  "assertStreamHeadBinds cr r h =
     and_then (require (hd_streamId h = oh_streamId r) ''stream head streamId != record'') (\<lambda>_.
     and_then (require (hd_sequence h = oh_sequence r) ''stream head sequence != record'') (\<lambda>_.
     and_then (require (hd_opDigest h = oh_opDigest r) ''stream head opDigest != record'') (\<lambda>_.
     and_then (require (hd_alg h \<in> set STREAM_HEAD_ALGS) ''unknown stream head alg'') (\<lambda>_.
     and_then (require (ID_PATTERN (hd_keyId h)) ''invalid keyId'') (\<lambda>_.
     and_then (streamHeadDigest cr h) (\<lambda>expect.
     require (hd_headDigest h = expect) ''stream head digest mismatch''))))))"

end
