(* ===== verification/Outbox_Text.thy ===== *)
theory Outbox_Text
  imports Outbox_Contract
begin

text \<open>
  What \<open>canonicalize_value\<close> writes. The text of a value determines it up to the order of properties and
  the sign of zero (\<open>canonical_text_unique\<close>, whose interpretation of \<open>prefix_code\<close> reads string literals
  back), and a value has a text exactly when every name in it passes its checks and depth, nodes and
  bytes are within the budgets (\<open>accepts_iff\<close>).
\<close>

section \<open>Code units\<close>

lemma units_simps [simp]: "units [] = []" "units (c # s) = word_of_nat (code c) # units s" "units (s @ t) = units s @ units t"
  "length (units s) = length s"
  by (simp_all add: units_def)

lemma code_bound: "256 \<le> n \<Longrightarrow> code c < n"
  using code_less by (rule less_le_trans)

lemma unat_unit_of_char [simp]: "unat (word_of_nat (code c) :: unit16) = code c"
  by (simp add: unat_of_nat code_bound)

lemma unit_of_char_eq [simp]: "(word_of_nat (code c) :: unit16) = word_of_nat (code d) \<longleftrightarrow> c = d"
  using unat_unit_of_char [of c] unat_unit_of_char [of d] by (metis of_char_eq_iff)

lemma units_inj [simp]: "units s = units t \<longleftrightarrow> s = t"
  unfolding units_def by (rule inj_map_eq_map) (simp add: inj_on_def)

lemma assertNoLoneSurrogate_iff: "assertNoLoneSurrogate s = returns () \<longleftrightarrow> well_formed s"
  by (induction s rule: well_formed.induct) auto

lemma not_surrogate_char [simp]: "\<not> high_surrogate (word_of_nat (code c))" "\<not> low_surrogate (word_of_nat (code c))"
  using code_bound [of "55296" c] by (auto simp: high_surrogate_def low_surrogate_def word_le_nat_alt simp del: code_less)

lemma well_formed_Cons: "\<not> high_surrogate c \<Longrightarrow> \<not> low_surrogate c \<Longrightarrow> well_formed (c # s) = well_formed s"
  by (cases s) simp_all

lemma well_formed_append: "well_formed s \<Longrightarrow> well_formed (s @ t) = well_formed t"
proof (induction s rule: well_formed.induct)
  case (3 c d s)
  then show ?case by (cases "high_surrogate c") (auto simp: well_formed_Cons)
qed (auto simp: well_formed_Cons)

lemma well_formed_units [simp]: "well_formed (units s)"
  by (induction s) (simp_all add: well_formed_Cons)

lemma code_points_append: "well_formed a \<Longrightarrow> code_points (a @ b) = code_points a @ code_points b"
proof (induction a rule: well_formed.induct)
  case (2 c)
  then show ?case by (cases b) simp_all
next
  case (3 c d s)
  then show ?case by (cases "high_surrogate c") auto
qed simp

lemma utf8Len_append: "well_formed a \<Longrightarrow> utf8Len (a @ b) = utf8Len a + utf8Len b"
  by (simp add: utf8Len_def utf8_units_def code_points_append)

section \<open>Escapes\<close>

definition short_escape :: "unit16 \<Rightarrow> unit16 option" where
  "short_escape d = map_of [(0x22, 0x22), (0x5C, 0x5C), (0x62, 8), (0x74, 9), (0x6E, 10), (0x66, 12), (0x72, 13)] d"

definition escape_shape :: "nat \<Rightarrow> bool" where
  "escape_shape n = (case jcs_escape (word_of_nat n) of
     [a, d] \<Rightarrow> a = 0x5C \<and> d \<noteq> 0x75 \<and> short_escape d = Some (word_of_nat n)
   | [a, b, z1, z2, h, l] \<Rightarrow> a = 0x5C \<and> b = 0x75 \<and> h = word_of_nat (48 + n div 16)
       \<and> l = word_of_nat (if n mod 16 < 10 then 48 + n mod 16 else 87 + n mod 16)
   | _ \<Rightarrow> False)"

lemma escape_shapes: "list_all escape_shape ([0..<32] @ [34, 92])"
  by code_simp

definition special :: "unit16 \<Rightarrow> bool" where
  "special c = (unat c < 32 \<or> unat c = 34 \<or> unat c = 92)"

lemma plain_escape: "\<not> special c \<Longrightarrow> jcs_escape c = [c] \<and> c \<noteq> 0x5C \<and> c \<noteq> 0x22"
proof -
  assume c: "\<not> special c"
  have a: "code (char_of (unat c) :: char) = unat c" if "unat c < 128" using that by simp
  then have "char_of (unat c) \<noteq> d" if "unat c < 128" "unat c \<noteq> code d" for d using that by metis
  from this [of "CHR 0x22"] this [of "CHR 0x5C"] a have "unat c < 128 \<Longrightarrow> jcs_escape c = [word_of_nat (unat c)]"
    using c by (auto simp: jcs_escape_def esc_char_def special_def)
  then have "jcs_escape c = [c]" by (cases "unat c < 128") (simp_all add: jcs_escape_def)
  moreover have "c \<noteq> 0x5C" "c \<noteq> 0x22" using c by (auto simp: special_def)
  ultimately show ?thesis by simp
qed

lemma small_unit_inj: "m < 65536 \<Longrightarrow> n < 65536 \<Longrightarrow> word_of_nat m = (word_of_nat n :: unit16) \<Longrightarrow> m = n"
  by (simp add: word_of_nat_eq_iff take_bit_nat_def)

lemma special_escape:
  assumes "special c"
  obtains (short) d where "jcs_escape c = [0x5C, d]" "d \<noteq> 0x75" "short_escape d = Some c"
  | (long) z1 z2 where "jcs_escape c = [0x5C, 0x75, z1, z2, word_of_nat (48 + unat c div 16),
        word_of_nat (if unat c mod 16 < 10 then 48 + unat c mod 16 else 87 + unat c mod 16)]"
proof -
  from assms have "unat c \<in> set ([0..<32] @ [34, 92])" by (auto simp: special_def)
  with escape_shapes have "escape_shape (unat c)" by (simp only: list_all_iff)
  then show ?thesis using short long by (auto simp: escape_shape_def split: list.splits)
qed

interpretation escape_code: prefix_code jcs_escape "\<lambda>_. True"
proof (unfold_locales, goal_cases)
  case (1 a)
  then show ?case using plain_escape [of a] by (cases "special a") (auto elim: special_escape)
next
  case (2 a b x y)
  have "a = b" if "special a" "special b"
    using that(1)
  proof (cases rule: special_escape)
    case (short d)
    from that(2) show ?thesis using short 2(3) by (cases rule: special_escape) auto
  next
    case long
    from that(2) show ?thesis
    proof (cases rule: special_escape)
      case (short d)
      with long 2(3) show ?thesis by auto
    next
      case long': long
      let ?l = "\<lambda>c :: unit16. if unat c mod 16 < 10 then 48 + unat c mod 16 else 87 + unat c mod 16"
      have m: "unat c mod 16 < 16" "unat c div 16 < 4096" for c :: unit16
        using unat_unit [of c] by simp_all
      from long long' 2(3) have "(word_of_nat (48 + unat a div 16) :: unit16) = word_of_nat (48 + unat b div 16)"
        and l: "(word_of_nat (?l a) :: unit16) = word_of_nat (?l b)" by simp_all
      then have "48 + unat a div 16 = 48 + unat b div 16" using m(2) [of a] m(2) [of b] by (intro small_unit_inj) auto
      moreover have "?l a = ?l b" using l m(1) [of a] m(1) [of b] by (intro small_unit_inj) auto
      then have "unat a mod 16 = unat b mod 16" using m(1) [of a] m(1) [of b] by (auto split: if_splits)
      ultimately have "unat a = unat b" by (metis add_left_cancel div_mult_mod_eq)
      then show ?thesis by (simp add: word_unat_eq_iff)
    qed
  qed
  moreover have "a = b" if "\<not> special a \<or> \<not> special b"
    using that plain_escape [of a] plain_escape [of b] 2(3)
    by (cases "special a"; cases "special b") (auto elim!: special_escape)
  ultimately show ?case by blast
qed

lemma escape_hd: "hd (jcs_escape c) \<noteq> 0x22"
  using plain_escape [of c] by (cases "special c") (auto elim: special_escape)

definition quoted :: "ustr \<Rightarrow> ustr" where
  "quoted s = units [CHR 0x22] @ concat (map jcs_escape s) @ units [CHR 0x22]"

lemma quoted_inj: "quoted s @ x = quoted t @ y \<Longrightarrow> s = t \<and> x = y"
  using escape_code.concat_until [of s t "0x22" x y] escape_hd by (simp add: quoted_def list.pred_True)

lemma well_formed_escape: "well_formed s \<Longrightarrow> well_formed (concat (map jcs_escape s))"
proof (induction s rule: well_formed.induct)
  have esc: "well_formed (jcs_escape c)" if "\<not> high_surrogate c" "\<not> low_surrogate c" for c
    using that by (simp add: jcs_escape_def)
  case (2 c)
  with esc [of c] show ?case by simp
next
  have esc: "well_formed (jcs_escape c)" if "\<not> high_surrogate c" "\<not> low_surrogate c" for c
    using that by (simp add: jcs_escape_def)
  have raw: "jcs_escape c = [c]" if "high_surrogate c \<or> low_surrogate c" for c
    using that surrogate_bounds [of c] by (auto simp: jcs_escape_def)
  case (3 c d s)
  then show ?case using raw [of c] raw [of d] esc [of c]
    by (cases "high_surrogate c") (simp_all add: well_formed_append)
qed simp

lemma well_formed_quoted: "well_formed s \<Longrightarrow> well_formed (quoted s)"
  using well_formed_escape [of s] unfolding quoted_def by (simp only: well_formed_append well_formed_units)

lemma jcsString_iff: "jcsString s = returns q \<longleftrightarrow> well_formed s \<and> utf8Len s \<le> CANON_MAX_STRING_BYTES \<and> q = quoted s"
  by (auto simp: jcsString_def and_then_Inr_iff assertNoLoneSurrogate_iff quoted_def)

section \<open>The value a canonical text stands for\<close>

text \<open>A value up to the order of its properties and the sign of zero.\<close>

datatype jnorm = NNull | NBool bool | NNum int | NStr ustr | NArr "jnorm list" | NObj "(ustr \<times> jnorm) list"

definition norm_slot :: "jnorm own option \<Rightarrow> jnorm" where
  "norm_slot x = (case x of Some (DataProp v) \<Rightarrow> v | _ \<Rightarrow> NNull)"

primrec normal :: "jsval \<Rightarrow> jnorm" where
  "normal VNull = NNull"
| "normal (VBool b) = NBool b"
| "normal (VNum n) = NNum (case n of Whole i \<Rightarrow> i | _ \<Rightarrow> 0)"
| "normal (VStr s) = NStr s"
| "normal VUndefined = NNull"
| "normal VBigint = NNull"
| "normal VFunction = NNull"
| "normal VSymbol = NNull"
| "normal (VArr symbols slots extra) = NArr (map norm_slot (map (map_option (map_own normal)) slots))"
| "normal (VObj plain symbols props) =
     NObj (map (map_prod id (\<lambda>p. norm_slot (Some p))) (sort_key fst (map (map_prod id (map_own normal)) props)))"

lemma insort_key_fst_map: "insort_key fst (map_prod (\<lambda>k. k) f p) (map (map_prod (\<lambda>k. k) f) qs) =
    map (map_prod (\<lambda>k. k) f) (insort_key fst p qs)"
  by (induction qs) auto

lemma sort_key_fst_map: "sort_key fst (map (map_prod (\<lambda>k. k) f) ps) = map (map_prod (\<lambda>k. k) f) (sort_key fst ps)"
  by (induction ps) (simp_all add: insort_key_fst_map)

fun commas :: "ustr list \<Rightarrow> ustr" where
  "commas [] = []"
| "commas (x # xs) = x @ concat (map ((#) 0x2C) xs)"

fun text_of :: "jnorm \<Rightarrow> ustr" where
  "text_of NNull = units ''null''"
| "text_of (NBool b) = units (if b then ''true'' else ''false'')"
| "text_of (NNum i) = units (int_to_dec i)"
| "text_of (NStr s) = quoted s"
| "text_of (NArr xs) = units ''['' @ commas (map text_of xs) @ units '']''"
| "text_of (NObj ps) = units ''{'' @ commas (map (\<lambda>(k, v). quoted k @ units '':'' @ text_of v) ps) @ units ''}''"

section \<open>Reading the text\<close>

definition stop :: "ustr \<Rightarrow> bool" where
  "stop x = (x = [] \<or> hd x \<in> set (units '',]}''))"

text \<open>A text that can be read off any continuation that starts with a delimiter.\<close>

definition reads :: "('a \<Rightarrow> ustr) \<Rightarrow> 'a \<Rightarrow> bool" where
  "reads f a = (f a \<noteq> [] \<and> \<not> stop (f a) \<and> (\<forall>b x y. stop x \<longrightarrow> stop y \<longrightarrow> f a @ x = f b @ y \<longrightarrow> a = b \<and> x = y))"

lemma readsD: "reads f a \<Longrightarrow> stop x \<Longrightarrow> stop y \<Longrightarrow> f a @ x = f b @ y \<Longrightarrow> a = b \<and> x = y"
  by (simp add: reads_def)

lemma not_stop_append: "\<not> stop s \<Longrightarrow> \<not> stop (s @ t)"
  by (cases s) (simp_all add: stop_def)

lemma tail_inj:
  assumes "list_all (reads f) as" "z \<in> set (units '']}'')"
    "concat (map (\<lambda>a. 0x2C # f a) as) @ z # x = concat (map (\<lambda>a. 0x2C # f a) bs) @ z # y"
  shows "as = bs \<and> x = y"
  using assms(1,3)
proof (induction as arbitrary: bs)
  case Nil
  with assms(2) show ?case by (cases bs) auto
next
  case (Cons a as)
  with assms(2) obtain b bs' where bs: "bs = b # bs'" by (cases bs) auto
  have st: "stop (concat (map (\<lambda>a. 0x2C # f a) cs) @ z # w)" for cs w
    using assms(2) by (cases cs) (auto simp: stop_def)
  from Cons.prems bs have "a = b \<and> concat (map (\<lambda>a. 0x2C # f a) as) @ z # x = concat (map (\<lambda>a. 0x2C # f a) bs') @ z # y"
    by (intro readsD [of f a]) (simp_all add: st)
  with Cons bs show ?case by simp
qed

lemma commas_inj:
  assumes "list_all (reads f) as" "\<And>b. \<not> stop (f b)" "z \<in> set (units '']}'')"
    "commas (map f as) @ z # x = commas (map f bs) @ z # y"
  shows "as = bs \<and> x = y"
proof (cases as)
  case Nil
  have "stop (z # x)" using assms(3) by (auto simp: stop_def)
  with Nil assms(4) not_stop_append [OF assms(2)] show ?thesis
    by (cases bs) (auto simp: stop_def)
next
  case (Cons a as')
  have st: "stop (concat (map (\<lambda>a. 0x2C # f a) cs) @ z # w)" for cs w
    using assms(3) by (cases cs) (auto simp: stop_def)
  have "bs \<noteq> []"
  proof
    assume "bs = []"
    with assms(4) Cons have "f a @ concat (map (\<lambda>a. 0x2C # f a) as') @ z # x = z # y" by (simp add: comp_def)
    with assms(3) have "stop (f a @ concat (map (\<lambda>a. 0x2C # f a) as') @ z # x)" by (auto simp: stop_def)
    with not_stop_append [OF assms(2)] show False by blast
  qed
  then obtain b bs' where bs: "bs = b # bs'" by (cases bs) auto
  from assms(1,4) Cons bs have "a = b \<and> concat (map (\<lambda>a. 0x2C # f a) as') @ z # x = concat (map (\<lambda>a. 0x2C # f a) bs') @ z # y"
    by (intro readsD [of f a]) (simp_all add: st comp_def)
  with tail_inj [of f as' z x bs' y] assms(1,3) Cons bs show ?thesis by simp
qed

definition dec_unit :: "unit16 \<Rightarrow> bool" where
  "dec_unit c = (c = 45 \<or> (48 \<le> c \<and> c \<le> 57))"

lemma dec_units: "list_all dec_unit (units (int_to_dec i))"
proof -
  have d: "dec_unit (word_of_nat (code c))" if "is_digit c \<or> c = CHR ''-''" for c
    using that by (auto simp: dec_unit_def is_digit_def word_le_nat_alt)
  have "list_all (\<lambda>c. is_digit c \<or> c = CHR ''-'') (int_to_dec i)"
    using nat_to_dec_digits by (auto simp: int_to_dec_def list_all_iff)
  with d show ?thesis by (simp add: units_def list_all_iff)
qed

lemma dec_inj:
  assumes "stop x" "stop y" "units (int_to_dec i) @ x = units (int_to_dec j) @ y"
  shows "i = j \<and> x = y"
proof -
  have t: "takeWhile dec_unit (units (int_to_dec k) @ w) = units (int_to_dec k)" if "stop w" for k w
  proof -
    have "takeWhile dec_unit w = []" using that by (cases w) (auto simp: stop_def dec_unit_def)
    with dec_units [of k] show ?thesis by (simp add: list_all_iff)
  qed
  from t [OF assms(1), of i] t [OF assms(2), of j] assms(3) have "units (int_to_dec i) = units (int_to_dec j)" by simp
  with assms(3) show ?thesis by (auto dest: int_to_dec_inj)
qed

lemma not_stop_Cons [simp]: "stop (c # s) \<longleftrightarrow> c = 0x2C \<or> c = 0x5D \<or> c = 0x7D"
  by (auto simp: stop_def)

lemma dec_Cons: obtains c s where "units (int_to_dec i) = c # s" "dec_unit c"
  using dec_units [of i] by (cases "units (int_to_dec i)") (auto simp: int_to_dec_def units_def split: if_splits)

lemma dec_unit_other: "dec_unit c \<Longrightarrow> c \<notin> set (units ''ntf[{,]}'') \<and> c \<noteq> 0x22"
  by (auto simp: dec_unit_def)

text \<open>The first unit tells the constructors apart.\<close>

definition text_head :: "jnorm \<Rightarrow> unit16 \<Rightarrow> bool" where
  "text_head v c = (case v of NNull \<Rightarrow> c = 0x6E | NBool b \<Rightarrow> c = (if b then 0x74 else 0x66) | NNum i \<Rightarrow> dec_unit c
     | NStr s \<Rightarrow> c = 0x22 | NArr xs \<Rightarrow> c = 0x5B | NObj ps \<Rightarrow> c = 0x7B)"

lemma text_head: obtains c s where "text_of v = c # s" "text_head v c"
proof (cases v)
  case (NNum i)
  obtain c s where "units (int_to_dec i) = c # s" "dec_unit c" by (rule dec_Cons)
  with NNum show ?thesis by (intro that [of c s]) (simp_all add: text_head_def)
next
  case (NBool b)
  then show ?thesis using that by (cases b) (simp_all add: text_head_def)
qed (use that in \<open>auto simp: text_head_def quoted_def\<close>)

lemma text_not_stop: "\<not> stop (text_of v)"
  by (rule text_head [of v]) (auto simp: text_head_def dec_unit_def split: jnorm.splits if_splits)

lemma text_same_shape:
  assumes "text_of v @ x = text_of w @ y"
  shows "case v of NNull \<Rightarrow> w = NNull | NBool b \<Rightarrow> w = NBool b | NNum i \<Rightarrow> (\<exists>j. w = NNum j) | NStr s \<Rightarrow> (\<exists>t. w = NStr t)
    | NArr xs \<Rightarrow> (\<exists>ys. w = NArr ys) | NObj ps \<Rightarrow> (\<exists>qs. w = NObj qs)"
proof -
  obtain c s where c: "text_of v = c # s" "text_head v c" by (rule text_head)
  obtain d t where d: "text_of w = d # t" "text_head w d" by (rule text_head)
  from assms c(1) d(1) have "c = d" by simp
  with c(2) d(2) show ?thesis by (cases v; cases w) (auto simp: text_head_def dec_unit_def split: if_splits)
qed

definition member_text :: "ustr \<times> jnorm \<Rightarrow> ustr" where
  "member_text p = quoted (fst p) @ units '':'' @ text_of (snd p)"

lemma member_not_stop: "\<not> stop (member_text p)"
  by (simp add: member_text_def quoted_def)

lemma readsI: "\<not> stop (f a) \<Longrightarrow> (\<And>b x y. stop x \<Longrightarrow> stop y \<Longrightarrow> f a @ x = f b @ y \<Longrightarrow> a = b \<and> x = y) \<Longrightarrow> reads f a"
proof -
  assume a: "\<not> stop (f a)" "\<And>b x y. stop x \<Longrightarrow> stop y \<Longrightarrow> f a @ x = f b @ y \<Longrightarrow> a = b \<and> x = y"
  from a(1) have "f a \<noteq> []" by (auto simp: stop_def)
  with a show ?thesis unfolding reads_def by blast
qed

lemma reads_member: "reads text_of (snd p) \<Longrightarrow> reads member_text p"
proof -
  assume r: "reads text_of (snd p)"
  have "p = q \<and> x = y" if s: "stop x" "stop y" "member_text p @ x = member_text q @ y" for q x y
  proof -
    from s(3) have "quoted (fst p) @ (0x3A # text_of (snd p) @ x) = quoted (fst q) @ (0x3A # text_of (snd q) @ y)"
      by (simp add: member_text_def)
    from quoted_inj [OF this] have "fst p = fst q" "text_of (snd p) @ x = text_of (snd q) @ y" by simp_all
    with readsD [OF r s(1,2)] show ?thesis by (simp add: prod_eq_iff)
  qed
  then show ?thesis by (rule readsI [where f = member_text, OF member_not_stop])
qed

lemma text_of_obj: "text_of (NObj ps) = units ''{'' @ commas (map member_text ps) @ units ''}''"
  by (simp add: member_text_def [abs_def] case_prod_unfold)

lemma reads_text: "reads text_of v"
proof (induction v rule: text_of.induct)
  case (3 i)
  have "NNum i = w \<and> x = y" if "stop x" "stop y" "text_of (NNum i) @ x = text_of w @ y" for w x y
    using text_same_shape [OF that(3)] dec_inj [OF that(1,2)] that(3) by auto
  then show ?case by (rule readsI [where f = text_of, OF text_not_stop])
next
  case (5 xs)
  have l: "list_all (reads text_of) xs" using 5 by (simp add: list_all_iff)
  have "NArr xs = w \<and> x = y" if "stop x" "stop y" and s: "text_of (NArr xs) @ x = text_of w @ y" for w x y
  proof -
    from text_same_shape [OF s] obtain ys where w: "w = NArr ys" by auto
    with s have "commas (map text_of xs) @ 0x5D # x = commas (map text_of ys) @ 0x5D # y" by simp
    from commas_inj [OF l text_not_stop _ this] w show ?thesis by simp
  qed
  then show ?case by (rule readsI [where f = text_of, OF text_not_stop])
next
  case (6 ps)
  have l: "list_all (reads member_text) ps" using 6 by (auto simp: list_all_iff intro!: reads_member)
  have "NObj ps = w \<and> x = y" if "stop x" "stop y" and s: "text_of (NObj ps) @ x = text_of w @ y" for w x y
  proof -
    from text_same_shape [OF s] obtain qs where w: "w = NObj qs" by auto
    with s have "commas (map member_text ps) @ 0x7D # x = commas (map member_text qs) @ 0x7D # y"
      by (simp add: text_of_obj del: text_of.simps)
    from commas_inj [OF l member_not_stop _ this] w show ?thesis by simp
  qed
  then show ?case by (rule readsI [where f = text_of, OF text_not_stop])
next
  case (4 s)
  have "NStr s = w \<and> x = y" if "stop x" "stop y" and e: "text_of (NStr s) @ x = text_of w @ y" for w x y
    using text_same_shape [OF e] quoted_inj [of s x] e by auto
  then show ?case by (rule readsI [where f = text_of, OF text_not_stop])
next
  case 1
  have "NNull = w \<and> x = y" if "stop x" "stop y" and e: "text_of NNull @ x = text_of w @ y" for w x y
    using text_same_shape [OF e] e by auto
  then show ?case by (rule readsI [where f = text_of, OF text_not_stop])
next
  case (2 b)
  have "NBool b = w \<and> x = y" if "stop x" "stop y" and e: "text_of (NBool b) @ x = text_of w @ y" for w x y
    using text_same_shape [OF e] e by auto
  then show ?case by (rule readsI [where f = text_of, OF text_not_stop])
qed

lemma text_of_inj: "text_of v = text_of w \<Longrightarrow> v = w"
  using readsD [OF reads_text, of "[]" "[]" v w] by (simp add: stop_def)

section \<open>What the walk writes\<close>

definition out :: "canon \<Rightarrow> ustr" where
  "out st = concat (cn_parts st)"

definition canon_ok :: "canon \<Rightarrow> bool" where
  "canon_ok st = (list_all well_formed (cn_parts st) \<and> cn_bytes st = sum_list (map utf8Len (cn_parts st))
     \<and> cn_bytes st \<le> CANON_MAX_TOTAL_BYTES)"

text \<open>From \<open>st\<close> to \<open>st'\<close> exactly the well-formed text \<open>t\<close> is written, within the byte budget.\<close>

definition emits :: "canon \<Rightarrow> ustr \<Rightarrow> canon \<Rightarrow> bool" where
  "emits st t st' = (out st' = out st @ t \<and> well_formed t \<and> (canon_ok st \<longrightarrow> canon_ok st'))"

lemma emits_refl: "emits st [] st"
  by (simp add: emits_def)

lemma emits_trans: "emits st t st1 \<Longrightarrow> emits st1 u st2 \<Longrightarrow> emits st (t @ u) st2"
  by (simp add: emits_def well_formed_append)

lemma emits_count: "emits (st\<lparr>cn_nodes := n\<rparr>) t st' = emits st t st'"
  by (simp add: emits_def out_def canon_ok_def)

lemma push_emits: "push s st = returns st' \<Longrightarrow> well_formed s \<Longrightarrow> emits st s st'"
  by (auto simp: push_def Let_def emits_def out_def canon_ok_def split: if_splits)

lemma comma_unit [simp]: "\<not> high_surrogate 0x2C" "\<not> low_surrogate 0x2C"
  by (simp_all add: high_surrogate_def low_surrogate_def)

lemma comma_emits: "comma i st = returns st' \<Longrightarrow> emits st (if i = 0 then [] else [0x2C]) st'"
  by (auto simp: comma_def emits_refl intro!: push_emits split: if_splits)

lemma each_emits:
  assumes "each f i xs st = returns st'"
    "\<And>i x s s'. x \<in> set xs \<Longrightarrow> f i x s = returns s' \<Longrightarrow> emits s ((if i = 0 then [] else [0x2C]) @ g x) s'"
  shows "emits st (if i = 0 then commas (map g xs) else concat (map (\<lambda>x. 0x2C # g x) xs)) st'"
  using assms
proof (induction f i xs st rule: each.induct)
  case (1 f i st)
  then show ?case by (simp add: emits_refl)
next
  case (2 f i x xs st)
  then obtain st1 where st1: "f i x st = returns st1" "each f (Suc i) xs st1 = returns st'"
    by (auto simp: and_then_Inr_iff)
  from 2(3) st1(1) have "emits st ((if i = 0 then [] else [0x2C]) @ g x) st1" by simp
  moreover from 2 st1 have "emits st1 (concat (map (\<lambda>x. 0x2C # g x) xs)) st'" by fastforce
  ultimately show ?case by (auto dest: emits_trans simp: comp_def)
qed

lemma normal_slot: "normal (slot_value x) = norm_slot (map_option (map_own normal) x)"
proof (cases x)
  case (Some p)
  then show ?thesis by (cases p) (simp_all add: slot_value_def norm_slot_def)
qed (simp add: slot_value_def norm_slot_def)

lemma normal_arr: "normal (VArr sy xs ex) = NArr (map (\<lambda>x. normal (slot_value x)) xs)"
  by (simp add: normal_slot comp_def)

lemma normal_obj: "normal (VObj pl sy ps) = NObj (map (\<lambda>(k, p). (k, normal (slot_value (Some p)))) (sort_key fst ps))"
proof -
  have "normal (VObj pl sy ps) = NObj (map (map_prod (\<lambda>k. k) (\<lambda>p. norm_slot (Some p)))
      (sort_key fst (map (map_prod (\<lambda>k. k) (map_own normal)) ps)))" by (simp add: id_def)
  also have "\<dots> = NObj (map (map_prod (\<lambda>k. k) (\<lambda>p. norm_slot (Some p)) \<circ> map_prod (\<lambda>k. k) (map_own normal)) (sort_key fst ps))"
    by (simp only: sort_key_fst_map map_map)
  also have "\<dots> = NObj (map (\<lambda>(k, p). (k, normal (slot_value (Some p)))) (sort_key fst ps))"
    by (auto simp: normal_slot)
  finally show ?thesis .
qed

lemma dec_zero: "int_to_dec 0 = ''0''"
  by code_simp

lemma jcsNumber_text: "jcsNumber n = returns s \<Longrightarrow> s = text_of (normal (VNum n))"
  by (auto simp: jcsNumber_def dec_zero split: jsnum.splits if_splits)

lemma enter_iff: "enter st = returns s \<longleftrightarrow> cn_nodes st + 1 \<le> CANON_MAX_NODES \<and> s = st\<lparr>cn_nodes := cn_nodes st + 1\<rparr>"
  by (auto simp: enter_def)

lemma walk_emits: "walk l v st = returns st' \<Longrightarrow> emits st (text_of (normal v)) st'"
proof (induction l arbitrary: v st st')
  case (Suc l)
  let ?s = "st\<lparr>cn_nodes := cn_nodes st + 1\<rparr>"
  have "emits ?s (text_of (normal v)) st'"
  proof (cases v)
    case VNull
    with Suc.prems have "push (units ''null'') ?s = returns st'" by (simp add: and_then_Inr_iff enter_iff del: units_simps)
    from push_emits [OF this well_formed_units] VNull show ?thesis by (simp only: normal.simps text_of.simps)
  next
    case (VBool b)
    with Suc.prems have "push (units (if b then ''true'' else ''false'')) ?s = returns st'"
      by (simp add: and_then_Inr_iff enter_iff del: units_simps)
    from push_emits [OF this well_formed_units] VBool show ?thesis by (simp only: normal.simps text_of.simps)
  next
    case (VNum n)
    with Suc.prems obtain s where "jcsNumber n = returns s" "push s ?s = returns st'"
      by (auto simp: enter_iff and_then_Inr_iff split: if_splits)
    with VNum jcsNumber_text [of n s] show ?thesis by (auto intro!: push_emits)
  next
    case (VStr s)
    with Suc.prems show ?thesis
      by (auto simp: enter_iff and_then_Inr_iff jcsString_iff well_formed_quoted intro!: push_emits split: if_splits)
  next
    case (VArr sy xs ex)
    let ?f = "\<lambda>i x s. and_then (comma i s) (walk l (slot_value x))"
    from VArr Suc.prems obtain st1 st2 where s: "push (units ''['') ?s = returns st1" "each ?f 0 xs st1 = returns st2"
      "push (units '']'') st2 = returns st'"
      by (auto simp: enter_iff and_then_Inr_iff split: if_splits)
    have "emits s ((if i = 0 then [] else [0x2C]) @ text_of (normal (slot_value x))) s'" if f: "?f i x s = returns s'" for i x s s'
    proof -
      from f obtain s1 where "comma i s = returns s1" "walk l (slot_value x) s1 = returns s'" by (auto simp: and_then_Inr_iff)
      from emits_trans [OF comma_emits [OF this(1)] Suc.IH [OF this(2)]] show ?thesis .
    qed
    from each_emits [OF s(2), of "\<lambda>x. text_of (normal (slot_value x))", OF this]
    have m: "emits st1 (commas (map (\<lambda>x. text_of (normal (slot_value x))) xs)) st2" by simp
    from emits_trans [OF push_emits [OF s(1) well_formed_units] emits_trans [OF m push_emits [OF s(3) well_formed_units]]]
    have "emits ?s (units ''['' @ commas (map (\<lambda>x. text_of (normal (slot_value x))) xs) @ units '']'') st'" .
    with VArr show ?thesis by (simp only: normal_arr text_of.simps map_map comp_def)
  next
    case (VObj pl sy ps)
    let ?f = "\<lambda>i (k, p) s. and_then (comma i s) (\<lambda>s1. and_then (assertNoLoneSurrogate k) (\<lambda>_.
      and_then (jcsString k) (\<lambda>q. and_then (push (q @ units '':'') s1) (walk l (slot_value (Some p))))))"
    let ?g = "\<lambda>(k, p). quoted k @ units '':'' @ text_of (normal (slot_value (Some p)))"
    from VObj Suc.prems obtain st1 st2 where s: "push (units ''{'') ?s = returns st1"
      "each ?f 0 (sort_key fst ps) st1 = returns st2" "push (units ''}'') st2 = returns st'"
      by (auto simp: enter_iff and_then_Inr_iff split: if_splits)
    have "emits s ((if i = 0 then [] else [0x2C]) @ ?g x) s'" if f: "?f i x s = returns s'" for i x s s'
    proof -
      obtain k p where x: "x = (k, p)" by (cases x)
      with f obtain s1 s2 where "comma i s = returns s1" and k: "well_formed k"
        and 2: "push (quoted k @ units '':'') s1 = returns s2" and "walk l (slot_value (Some p)) s2 = returns s'"
        by (auto simp: and_then_Inr_iff jcsString_iff)
      moreover from push_emits [OF 2] k have "emits s1 (quoted k @ units '':'') s2"
        by (simp add: well_formed_append well_formed_quoted del: units_simps)
      ultimately have "emits s ((if i = 0 then [] else [0x2C]) @ (quoted k @ units '':'') @ text_of (normal (slot_value (Some p)))) s'"
        using Suc.IH by (blast intro: emits_trans comma_emits)
      then show ?thesis by (simp add: x)
    qed
    from each_emits [OF s(2), of ?g, OF this] have m: "emits st1 (commas (map ?g (sort_key fst ps))) st2" by simp
    from emits_trans [OF push_emits [OF s(1) well_formed_units] emits_trans [OF m push_emits [OF s(3) well_formed_units]]]
    have "emits ?s (units ''{'' @ commas (map ?g (sort_key fst ps)) @ units ''}'') st'" .
    with VObj show ?thesis by (simp only: normal_obj text_of.simps map_map comp_def case_prod_unfold fst_conv snd_conv)
  qed (use Suc.prems in \<open>auto simp: and_then_Inr_iff\<close>)
  then show ?case by (simp only: emits_count)
qed simp

lemma canonicalize_emits:
  assumes "canonicalize_value v = returns s"
  shows "s = text_of (normal v) \<and> well_formed s \<and> utf8Len s \<le> CANON_MAX_TOTAL_BYTES"
proof -
  let ?s = "\<lparr>cn_nodes = 0, cn_bytes = 0, cn_parts = []\<rparr>"
  obtain st where st: "walk (Suc CANON_MAX_DEPTH) v ?s = returns st" "s = concat (cn_parts st)"
    using assms by (auto simp: canonicalize_value_def and_then_Inr_iff simp del: walk.simps)
  from walk_emits [OF st(1)] have e: "s = text_of (normal v)" "well_formed s" "canon_ok st"
    by (simp_all add: emits_def out_def st(2) canon_ok_def)
  have "utf8Len (concat ps) = sum_list (map utf8Len ps)" if "list_all well_formed ps" for ps
    using that by (induction ps) (simp_all add: utf8Len_append, simp add: utf8Len_def utf8_units_def)
  with e(3) have "utf8Len s \<le> CANON_MAX_TOTAL_BYTES" by (simp add: canon_ok_def st(2))
  with e show ?thesis by simp
qed

text \<open>
  C34. Two values have the same canonical bytes exactly when they are equal up to the order of object
  properties and the sign of zero; the bytes never exceed a mebibyte.
\<close>
theorem canonical_text_unique:
  assumes "canonicalize_value v = returns s" "canonicalize_value w = returns t"
  shows "(utf8_units s = utf8_units t \<longleftrightarrow> normal v = normal w) \<and> length (utf8_units s) \<le> 1048576"
proof -
  note v = canonicalize_emits [OF assms(1)] and w = canonicalize_emits [OF assms(2)]
  have "s = t \<longleftrightarrow> normal v = normal w" using v w text_of_inj by metis
  with v w utf8_units_inj [of s t] show ?thesis by (auto simp: utf8Len_def CANON_MAX_TOTAL_BYTES_def)
qed

section \<open>Frames\<close>

lemma small_bytes_inj:
  assumes "m < 4294967296" "n < 4294967296"
    "map word_of_nat [m div 16777216, m div 65536 mod 256, m div 256 mod 256, m mod 256] =
     (map word_of_nat [n div 16777216, n div 65536 mod 256, n div 256 mod 256, n mod 256] :: bytes)"
  shows "m = n"
proof -
  have l: "list_all (\<lambda>n. n < 256) [k div 16777216, k div 65536 mod 256, k div 256 mod 256, k mod 256]" if "k < 4294967296" for k :: nat
    using that by (simp add: less_mult_imp_div_less)
  have d: "k div 65536 = k div 256 div 256" "k div 16777216 = k div 256 div 256 div 256" for k :: nat
    by (simp_all add: div_mult2_eq [symmetric])
  from bytes_inj [OF l [OF assms(1)] l [OF assms(2)] assms(3)]
  have "m div 256 div 256 div 256 = n div 256 div 256 div 256" "m div 256 div 256 mod 256 = n div 256 div 256 mod 256"
    "m div 256 mod 256 = n div 256 mod 256" "m mod 256 = n mod 256" by (simp_all add: d)
  then show ?thesis by (metis div_mult_mod_eq)
qed

definition frame :: "ustr \<Rightarrow> bytes" where
  "frame f = map word_of_nat [utf8Len f div 16777216, utf8Len f div 65536 mod 256, utf8Len f div 256 mod 256, utf8Len f mod 256]
     @ utf8_units f"

definition framable :: "ustr \<Rightarrow> bool" where
  "framable f = (well_formed f \<and> utf8Len f < 4294967296)"

interpretation frame_code: prefix_code frame framable
proof (unfold_locales, goal_cases)
  case (1 a)
  then show ?case by (simp add: frame_def)
next
  case (2 a b x y)
  let ?h = "\<lambda>f. map word_of_nat [utf8Len f div 16777216, utf8Len f div 65536 mod 256, utf8Len f div 256 mod 256, utf8Len f mod 256] :: bytes"
  from 2(3) have "?h a = ?h b" and r: "utf8_units a @ x = utf8_units b @ y" by (simp_all add: frame_def)
  with 2(1,2) have "utf8Len a = utf8Len b" by (intro small_bytes_inj) (simp_all add: framable_def)
  with r have "utf8_units a = utf8_units b" by (simp add: utf8Len_def)
  with 2(1,2) show ?case by (auto simp: framable_def intro: utf8_units_inj)
qed

lemma frames_frame: "frames fs = returns b \<longleftrightarrow> list_all (\<lambda>f. utf8Len f < 4294967296) fs \<and> b = concat (map frame fs)"
  by (induction fs arbitrary: b) (auto simp: and_then_Inr_iff u32be_def U32_CEIL_def frame_def)

lemma frames_inj:
  assumes "frames fs = returns b" "frames gs = returns b" "list_all well_formed fs" "list_all well_formed gs"
  shows "fs = gs"
  using assms frame_code.concat_inj [of fs gs] by (simp add: frames_frame list_all_iff framable_def)

section \<open>Which values have a canonical text\<close>

text \<open>Every name of the value passes its checks, down to the given number of levels.\<close>

definition string_ok :: "ustr \<Rightarrow> bool" where
  "string_ok s = (well_formed s \<and> utf8Len s \<le> CANON_MAX_STRING_BYTES)"

fun conforms :: "nat \<Rightarrow> jsval \<Rightarrow> bool" where
  "conforms 0 v = False"
| "conforms (Suc levels) v = (case v of
     VNull \<Rightarrow> True
   | VBool b \<Rightarrow> True
   | VNum n \<Rightarrow> (case n of Whole i \<Rightarrow> is_safe_integer i | NegZero \<Rightarrow> True | NotWhole \<Rightarrow> False)
   | VStr s \<Rightarrow> string_ok s
   | VArr sy xs ex \<Rightarrow> check_array sy xs ex = returns () \<and> list_all (\<lambda>x. conforms levels (slot_value x)) xs
   | VObj pl sy ps \<Rightarrow> check_object pl sy ps = returns ()
       \<and> list_all (\<lambda>(k, p). string_ok k \<and> conforms levels (slot_value (Some p))) ps
   | _ \<Rightarrow> False)"

fun node_count :: "jnorm \<Rightarrow> nat" where
  "node_count (NArr xs) = Suc (sum_list (map node_count xs))"
| "node_count (NObj ps) = Suc (sum_list (map (\<lambda>(k, v). node_count v) ps))"
| "node_count _ = 1"

text \<open>From \<open>st\<close> to \<open>st'\<close>: \<open>n\<close> more nodes and \<open>b\<close> more bytes; within the budgets that is all it takes.\<close>

definition budget :: "nat \<Rightarrow> nat \<Rightarrow> canon \<Rightarrow> bool" where
  "budget n b st = (cn_nodes st + n \<le> CANON_MAX_NODES \<and> cn_bytes st + b \<le> CANON_MAX_TOTAL_BYTES)"

definition spends :: "bool \<Rightarrow> nat \<Rightarrow> nat \<Rightarrow> (canon \<Rightarrow> canon throws) \<Rightarrow> bool" where
  "spends c n b f = (\<forall>st. cn_bytes st \<le> CANON_MAX_TOTAL_BYTES \<longrightarrow> cn_nodes st \<le> CANON_MAX_NODES \<longrightarrow>
     (if c \<and> budget n b st then \<exists>st'. f st = returns st' \<and> cn_nodes st' = cn_nodes st + n \<and> cn_bytes st' = cn_bytes st + b
      else isl (f st)))"

lemma spends_push: "spends True 0 (utf8Len s) (push s)"
  by (auto simp: spends_def budget_def push_def Let_def)

lemma spends_comma: "spends True 0 (if i = 0 then 0 else 1) (comma i)"
proof (cases "i = 0")
  case True
  then show ?thesis by (simp add: comma_def spends_def budget_def)
next
  case False
  then have "comma i = push (units '','')" by (simp add: comma_def fun_eq_iff)
  moreover have "utf8Len (units '','') = 1" by code_simp
  ultimately show ?thesis using False spends_push [of "units '',''"] by (simp del: units_simps)
qed

lemma spends_then:
  assumes "spends c n b f" "spends c' n' b' g"
  shows "spends (c \<and> c') (n + n') (b + b') (\<lambda>st. and_then (f st) g)"
  unfolding spends_def
proof (intro allI impI)
  fix st :: canon
  assume st: "cn_bytes st \<le> CANON_MAX_TOTAL_BYTES" "cn_nodes st \<le> CANON_MAX_NODES"
  let ?goal = "if (c \<and> c') \<and> budget (n + n') (b + b') st
    then \<exists>st'. and_then (f st) g = returns st' \<and> cn_nodes st' = cn_nodes st + (n + n') \<and> cn_bytes st' = cn_bytes st + (b + b')
    else isl (and_then (f st) g)"
  show ?goal
  proof (cases "c \<and> budget n b st")
    case False
    with assms(1) st have "isl (f st)" by (auto simp: spends_def)
    moreover have "\<not> (c \<and> budget (n + n') (b + b') st)" using False by (auto simp: budget_def)
    ultimately show ?thesis by (auto simp: isl_def)
  next
    case True
    with assms(1) st obtain st1 where 1: "f st = returns st1" "cn_nodes st1 = cn_nodes st + n" "cn_bytes st1 = cn_bytes st + b"
      by (fastforce simp: spends_def)
    with True have "cn_bytes st1 \<le> CANON_MAX_TOTAL_BYTES" "cn_nodes st1 \<le> CANON_MAX_NODES" by (simp_all add: budget_def)
    with assms(2) have "if c' \<and> budget n' b' st1 then \<exists>st'. g st1 = returns st' \<and> cn_nodes st' = cn_nodes st1 + n' \<and> cn_bytes st' = cn_bytes st1 + b'
      else isl (g st1)" by (simp add: spends_def)
    moreover have "budget n' b' st1 \<longleftrightarrow> budget (n + n') (b + b') st" by (simp add: budget_def 1 add.assoc)
    ultimately show ?thesis using True 1 by (auto simp: add.assoc split: if_splits)
  qed
qed

lemma spends_cong:
  assumes "spends c n b f" "c = c'" "n = n'" "b = b'" "\<And>st. f st = g st"
  shows "spends c' n' b' g"
proof -
  from assms(5) have "f = g" by (rule ext)
  with assms(1-4) show ?thesis by simp
qed

lemma spends_guard: "spends c n b f \<Longrightarrow> spends (m = returns () \<and> c) n b (\<lambda>st. and_then m (\<lambda>_. f st))"
  by (cases m) (auto simp: spends_def isl_def)

lemma spends_fail: "spends False n b (\<lambda>st. throw e)"
  by (simp add: spends_def)

lemma spends_done: "spends True 0 0 returns"
  by (simp add: spends_def budget_def)

lemma spends_each_from:
  assumes "0 < i" "\<And>i x. x \<in> set xs \<Longrightarrow> spends (c x) (n x) ((if i = 0 then 0 else 1) + b x) (f i x)"
  shows "spends (list_all c xs) (sum_list (map n xs)) (length xs + sum_list (map b xs)) (each f i xs)"
  using assms
proof (induction xs arbitrary: i)
  case Nil
  then show ?case by (auto intro: spends_cong [OF spends_done])
next
  case (Cons x xs)
  from Cons.prems have x: "spends (c x) (n x) (1 + b x) (f i x)" using Cons.prems(2) [of x i] by simp
  from Cons.IH [of "Suc i"] Cons.prems(2) have "spends (list_all c xs) (sum_list (map n xs)) (length xs + sum_list (map b xs)) (each f (Suc i) xs)"
    by simp
  from spends_then [OF x this] show ?case by (rule spends_cong) simp_all
qed

lemma spends_each:
  assumes "\<And>i x. x \<in> set xs \<Longrightarrow> spends (c x) (n x) ((if i = 0 then 0 else 1) + b x) (f i x)"
  shows "spends (list_all c xs) (sum_list (map n xs)) (length xs - 1 + sum_list (map b xs)) (each f 0 xs)"
proof (cases xs)
  case Nil
  then show ?thesis by (auto intro: spends_cong [OF spends_done])
next
  case (Cons x ys)
  from assms [of x 0] Cons have x: "spends (c x) (n x) (b x) (f 0 x)" by simp
  from assms Cons have "spends (list_all c ys) (sum_list (map n ys)) (length ys + sum_list (map b ys)) (each f 1 ys)"
    by (intro spends_each_from) simp_all
  from spends_then [OF x this] show ?thesis by (rule spends_cong) (simp_all add: Cons)
qed

fun byte_count :: "jnorm \<Rightarrow> nat" where
  "byte_count NNull = 4"
| "byte_count (NBool b) = (if b then 4 else 5)"
| "byte_count (NNum i) = utf8Len (units (int_to_dec i))"
| "byte_count (NStr s) = utf8Len (quoted s)"
| "byte_count (NArr xs) = 2 + (length xs - 1 + sum_list (map byte_count xs))"
| "byte_count (NObj ps) = 2 + (length ps - 1 + sum_list (map (\<lambda>(k, v). utf8Len (quoted k @ units '':'') + byte_count v) ps))"

lemma spends_enter: "spends True 1 0 enter"
  by (auto simp: spends_def enter_def budget_def)

lemma jcsString_fails: "\<not> string_ok s \<Longrightarrow> \<exists>e. jcsString s = throw e"
  by (cases "jcsString s") (auto simp: jcsString_iff string_ok_def)

lemma spends_string: "spends (string_ok s) 0 (utf8Len (quoted s @ t)) (\<lambda>st. and_then (jcsString s) (\<lambda>q. push (q @ t) st))"
proof (cases "string_ok s")
  case True
  then have "jcsString s = returns (quoted s)" by (simp add: jcsString_iff string_ok_def)
  then show ?thesis using True spends_push [of "quoted s @ t"] by simp
next
  case False
  then show ?thesis using jcsString_fails [OF False] spends_fail by fastforce
qed

lemma spends_key:
  assumes "spends c n b g"
  shows "spends (string_ok k \<and> c) n (utf8Len (quoted k @ t) + b)
    (\<lambda>st. and_then (assertNoLoneSurrogate k) (\<lambda>_. and_then (jcsString k) (\<lambda>q. and_then (push (q @ t) st) g)))"
proof (cases "string_ok k")
  case True
  then have "jcsString k = returns (quoted k)" "assertNoLoneSurrogate k = returns ()"
    by (simp_all add: jcsString_iff string_ok_def assertNoLoneSurrogate_iff)
  then show ?thesis using True spends_then [OF spends_push [of "quoted k @ t"] assms] by simp
next
  case False
  obtain e where "jcsString k = throw e" using jcsString_fails [OF False] by blast
  then have "isl (and_then (assertNoLoneSurrogate k) (\<lambda>_. and_then (jcsString k) (\<lambda>q. and_then (push (q @ t) st) g)))" for st
    by (cases "assertNoLoneSurrogate k") (auto simp: isl_def)
  with False show ?thesis by (simp add: spends_def)
qed

lemma sort_key_same: "list_all P (sort_key f xs) = list_all P xs" "length (sort_key f xs) = length xs"
  by (simp_all add: list_all_iff)

lemma spends_walk: "spends (conforms l v) (node_count (normal v)) (byte_count (normal v)) (walk l v)"
proof (induction l arbitrary: v)
  case 0
  then show ?case by (simp add: spends_def)
next
  case (Suc l)
  have lits: "utf8Len (units ''null'') = 4" "utf8Len (units ''true'') = 4" "utf8Len (units ''false'') = 5"
    "utf8Len (units ''['') = 1" "utf8Len (units '']'') = 1" "utf8Len (units ''{'') = 1" "utf8Len (units ''}'') = 1"
    by code_simp+
  note go = spends_then [OF spends_enter]
  show ?case
  proof (cases v)
    case VNull
    show ?thesis by (rule spends_cong [OF go [OF spends_push [of "units ''null''"]]]) (simp_all add: VNull lits del: units_simps)
  next
    case (VBool b)
    show ?thesis
      by (rule spends_cong [OF go [OF spends_push [of "units (if b then ''true'' else ''false'')"]]])
        (simp_all add: VBool lits del: units_simps)
  next
    case (VNum n)
    have "spends (conforms 1 (VNum n)) 0 (byte_count (normal (VNum n))) (\<lambda>st. and_then (jcsNumber n) (\<lambda>s. push s st))"
      using spends_push [of "units (int_to_dec 0)"] spends_push [of "units (int_to_dec (case n of Whole i \<Rightarrow> i))"] spends_fail
      by (cases n) (auto simp: jcsNumber_def dec_zero spends_fail)
    from go [OF this] show ?thesis by (rule spends_cong) (simp_all add: VNum)
  next
    case (VStr s)
    from go [OF spends_string [of s "[]"]] show ?thesis by (rule spends_cong) (simp_all add: VStr)
  next
    case (VArr sy xs ex)
    have "spends (conforms l (slot_value x)) (node_count (normal (slot_value x)))
        ((if i = 0 then 0 else 1) + byte_count (normal (slot_value x))) (\<lambda>s. and_then (comma i s) (walk l (slot_value x)))" for i x
      using spends_then [OF spends_comma Suc.IH] by simp
    from spends_each [of xs, OF this] have e: "spends (list_all (\<lambda>x. conforms l (slot_value x)) xs) (sum_list (map (\<lambda>x. node_count (normal (slot_value x))) xs))
        (length xs - 1 + sum_list (map (\<lambda>x. byte_count (normal (slot_value x))) xs))
        (each (\<lambda>i x s. and_then (comma i s) (walk l (slot_value x))) 0 xs)" .
    from go [OF spends_guard [OF spends_then [OF spends_push spends_then [OF e spends_push]]]]
    show ?thesis by (rule spends_cong) (simp_all add: VArr normal_arr lits comp_def del: units_simps normal.simps)
  next
    case (VObj pl sy ps)
    let ?f = "\<lambda>i (k, p) s. and_then (comma i s) (\<lambda>s1. and_then (assertNoLoneSurrogate k) (\<lambda>_.
      and_then (jcsString k) (\<lambda>q. and_then (push (q @ units '':'') s1) (walk l (slot_value (Some p))))))"
    let ?c = "\<lambda>(k, p). string_ok k \<and> conforms l (slot_value (Some p))"
    let ?n = "\<lambda>(k :: ustr, p). node_count (normal (slot_value (Some p)))"
    let ?b = "\<lambda>(k, p). utf8Len (quoted k @ units '':'') + byte_count (normal (slot_value (Some p)))"
    have "spends (?c x) (?n x) ((if i = 0 then 0 else 1) + ?b x) (?f i x)" for i x
      using spends_then [OF spends_comma spends_key [OF Suc.IH]] by (cases x) simp
    from spends_each [of "sort_key fst ps", OF this] have e: "spends (list_all ?c (sort_key fst ps)) (sum_list (map ?n (sort_key fst ps)))
        (length (sort_key fst ps) - 1 + sum_list (map ?b (sort_key fst ps))) (each ?f 0 (sort_key fst ps))" .
    from go [OF spends_guard [OF spends_then [OF spends_push spends_then [OF e spends_push]]]]
    show ?thesis by (rule spends_cong)
        (simp_all add: VObj normal_obj lits comp_def case_prod_unfold sort_key_same del: units_simps normal.simps)
  qed (simp_all add: spends_def enter_def isl_def)
qed

lemma accepts_iff:
  "(\<exists>s. canonicalize_value v = returns s) \<longleftrightarrow>
     conforms 65 v \<and> node_count (normal v) \<le> 10000 \<and> byte_count (normal v) \<le> 1048576"
proof -
  have l: "Suc CANON_MAX_DEPTH = 65" by (simp add: CANON_MAX_DEPTH_def)
  show ?thesis
    using spends_walk [of 65 v] unfolding canonicalize_value_def l
    by (auto simp: spends_def budget_def CANON_MAX_NODES_def CANON_MAX_TOTAL_BYTES_def and_then_Inr_iff isl_def
        dest!: spec [of _ "\<lparr>cn_nodes = 0, cn_bytes = 0, cn_parts = []\<rparr>"] split: if_splits)
qed

end
