(* ===== verification/Outbox_Laws.thy ===== *)
theory Outbox_Laws
  imports Outbox_Text Audit_Log
begin

text \<open>
  The digests of the outbox contract. Their frames can be read back (an interpretation of \<open>prefix_code\<close>),
  so a digest binds every field of its record unless SHA-256 collides on the two preimages; the three
  kinds of digest never meet; and the framing never throws on a conformant record.
\<close>

section \<open>Digests bind their fields\<close>

text \<open>Two lists of fields whose frames differ and have the same SHA-256.\<close>

definition collides :: "webcrypto \<Rightarrow> ustr list \<Rightarrow> ustr list \<Rightarrow> bool" where
  "collides cr fs gs = (\<exists>x y. frames fs = returns x \<and> frames gs = returns y \<and> x \<noteq> y \<and> wc_sha256 cr x = wc_sha256 cr y)"

lemma framed_digest_iff:
  "framed_digest cr fs = returns d \<longleftrightarrow> (\<exists>b. frames fs = returns b \<and> d = units (concat (map hex_byte (wc_sha256 cr b))))"
  by (auto simp: framed_digest_def and_then_Inr_iff)

lemma hex_text_inj: "concat (map hex_byte a) = concat (map hex_byte b) \<Longrightarrow> a = b"
  by (metis hex_decode_hex)

lemma digest_binds:
  assumes "framed_digest cr fs = returns d" "framed_digest cr gs = returns d" "list_all well_formed fs" "list_all well_formed gs"
  shows "fs = gs \<or> collides cr fs gs"
proof -
  obtain x y where x: "frames fs = returns x" "d = units (concat (map hex_byte (wc_sha256 cr x)))"
    and y: "frames gs = returns y" "d = units (concat (map hex_byte (wc_sha256 cr y)))"
    using assms(1,2) unfolding framed_digest_iff by blast
  then have "wc_sha256 cr x = wc_sha256 cr y" by (intro hex_text_inj) simp
  with x(1) y(1) assms frames_inj [of fs x gs] show ?thesis by (cases "x = y") (auto simp: collides_def)
qed

lemma ascii_unit: "unat (c :: unit16) < 128 \<Longrightarrow> \<not> high_surrogate c \<and> \<not> low_surrogate c"
  using surrogate_bounds [of c] by auto

lemma well_formed_ascii: "list_all (\<lambda>c. unat c < 128) s \<Longrightarrow> well_formed s"
proof (induction s)
  case (Cons c s)
  then show ?case by (simp add: well_formed_Cons ascii_unit)
qed simp

lemma unit_in_ascii: "list_all (unit_in p) s \<Longrightarrow> list_all (\<lambda>c. unat c < 128) s"
  by (simp add: list_all_iff unit_in_def)

lemma pattern_well_formed:
  "ID_PATTERN s \<Longrightarrow> well_formed s" "FENCE_TOKEN_PATTERN s \<Longrightarrow> well_formed s" "HEX64 s \<Longrightarrow> well_formed s"
proof -
  have cons: "unit_in p c \<Longrightarrow> list_all (unit_in q) r \<Longrightarrow> well_formed (c # r)" for p q c r
    using unit_in_ascii [of q r] by (intro well_formed_ascii) (simp add: unit_in_def)
  show "ID_PATTERN s \<Longrightarrow> well_formed s" by (auto simp: ID_PATTERN_def intro: cons split: list.splits)
  show "FENCE_TOKEN_PATTERN s \<Longrightarrow> well_formed s"
    using well_formed_units [of "''0''"] by (auto simp: FENCE_TOKEN_PATTERN_def intro: cons split: list.splits simp del: units_simps)
  show "HEX64 s \<Longrightarrow> well_formed s" by (auto simp: HEX64_def intro: well_formed_ascii dest: unit_in_ascii)
qed

text \<open>The patterns are ASCII, so the tests for lone surrogates after them never fail.\<close>

lemma id_and_text_iff: "id_and_text v l = returns () \<longleftrightarrow> ID_PATTERN v"
  by (auto simp: id_and_text_def assertId_def and_then_Inr_iff assertNoLoneSurrogate_iff pattern_well_formed)

lemma require_iff: "require b msg = returns () \<longleftrightarrow> b"
  by (simp add: require_def)

lemma assertFenceToken_iff: "assertFenceToken t = returns () \<longleftrightarrow> FENCE_TOKEN_PATTERN t"
  by (simp add: assertFenceToken_def)

lemmas conformance = and_then_Inr_iff id_and_text_iff require_iff assertFenceToken_iff

definition valid_op :: "op_input \<Rightarrow> bool" where
  "valid_op i = (ID_PATTERN (od_streamId i) \<and> ID_PATTERN (od_sourceEpoch i) \<and> is_safe_integer (od_sequence i)
     \<and> 1 \<le> od_sequence i \<and> FENCE_TOKEN_PATTERN (od_fenceToken i))"

definition op_frame :: "op_input \<Rightarrow> ustr list" where
  "op_frame i = op_fields i (text_of (normal (od_mutation i)))"

lemma opDigest_iff:
  "canonicalOpDigest cr i = returns d \<longleftrightarrow> valid_op i \<and> (\<exists>t. canonicalize_value (od_mutation i) = returns t) \<and> framed_digest cr (op_frame i) = returns d"
  using canonicalize_emits [of "od_mutation i"] by (auto simp: canonicalOpDigest_def conformance valid_op_def op_frame_def)

lemma constants_well_formed [simp]: "well_formed HA_OUTBOX_DIGEST_DOMAIN" "well_formed HA_OUTBOX_CONTRACT_VERSION"
  unfolding HA_OUTBOX_DIGEST_DOMAIN_def HA_OUTBOX_CONTRACT_VERSION_def by (rule well_formed_units)+

lemma op_frame_well_formed:
  assumes "valid_op i" "canonicalize_value (od_mutation i) = returns t"
  shows "list_all well_formed (op_frame i)"
proof -
  from canonicalize_emits [OF assms(2)] have "well_formed (text_of (normal (od_mutation i)))" by blast
  with assms(1) show ?thesis by (simp add: op_frame_def op_fields_def valid_op_def pattern_well_formed)
qed

text \<open>
  C33. Two records with the same operation digest have the same stream, epoch, sequence and fence token and the
  same mutation up to property order, unless SHA-256 collides on their two framed preimages.
\<close>
theorem op_digest_binds:
  assumes "canonicalOpDigest cr i = returns d" "canonicalOpDigest cr j = returns d"
  shows "(od_streamId i = od_streamId j \<and> od_sourceEpoch i = od_sourceEpoch j \<and> od_sequence i = od_sequence j
      \<and> od_fenceToken i = od_fenceToken j \<and> normal (od_mutation i) = normal (od_mutation j))
    \<or> collides cr (op_frame i) (op_frame j)"
proof -
  from assms have "op_frame i = op_frame j \<or> collides cr (op_frame i) (op_frame j)"
    unfolding opDigest_iff using digest_binds op_frame_well_formed by blast
  then show ?thesis by (auto simp: op_frame_def op_fields_def dest: int_to_dec_inj text_of_inj)
qed

lemma utf8Len_ascii: "list_all (\<lambda>c. unat c < 128) s \<Longrightarrow> utf8Len s = length s"
  by (induction s rule: code_points.induct)
    (auto simp: utf8Len_def utf8_units_def single_point_def utf8_point_def utf8_nats_def ascii_unit)

text \<open>Every field is far below the ceiling of the length prefix: the framing never throws.\<close>

lemma pattern_short:
  "ID_PATTERN s \<Longrightarrow> utf8Len s \<le> 128" "FENCE_TOKEN_PATTERN s \<Longrightarrow> utf8Len s \<le> 128" "HEX64 s \<Longrightarrow> utf8Len s \<le> 128"
proof -
  have cons: "unit_in p c \<Longrightarrow> list_all (unit_in q) r \<Longrightarrow> length r \<le> 127 \<Longrightarrow> utf8Len (c # r) \<le> 128" for p q c r
    using unit_in_ascii [of q r] by (subst utf8Len_ascii) (simp_all add: unit_in_def)
  show "ID_PATTERN s \<Longrightarrow> utf8Len s \<le> 128" by (auto simp: ID_PATTERN_def intro: cons split: list.splits)
  have "utf8Len (units ''0'') = 1" by code_simp
  then show "FENCE_TOKEN_PATTERN s \<Longrightarrow> utf8Len s \<le> 128"
    by (auto simp: FENCE_TOKEN_PATTERN_def intro: cons split: list.splits simp del: units_simps)
  show "HEX64 s \<Longrightarrow> utf8Len s \<le> 128"
    using unit_in_ascii utf8Len_ascii [of s] by (auto simp: HEX64_def)
qed

lemma ascii_units_dec: "list_all (\<lambda>c. unat c < 128) (units (int_to_dec i))"
  using dec_units [of i] by (auto simp: list_all_iff dec_unit_def word_le_nat_alt)

lemma length_nat_to_dec: "0 < k \<Longrightarrow> length (nat_to_dec n) \<le> k \<longleftrightarrow> n < 10 ^ k"
proof (induction n arbitrary: k rule: nat_to_dec.induct)
  case (1 n)
  show ?case
  proof (cases "n < 10")
    case True
    then have "n < 10 ^ k" using 1(2) by (metis One_nat_def Suc_leI less_le_trans one_le_numeral power_increasing power_one_right)
    with True 1(2) show ?thesis by (subst nat_to_dec.simps) simp
  next
    case False
    show ?thesis
    proof (cases "k = 1")
      case True
      with False show ?thesis by (subst nat_to_dec.simps) simp
    next
      case k: False
      with 1(2) obtain m where m: "k = Suc m" "0 < m" by (cases k) auto
      from 1(1) [OF False m(2)] have "length (nat_to_dec (n div 10)) \<le> m \<longleftrightarrow> n div 10 < 10 ^ m" .
      moreover have "n div 10 < 10 ^ m \<longleftrightarrow> n < 10 ^ k" by (simp add: m div_less_iff_less_mult mult.commute)
      ultimately show ?thesis using False m by (subst nat_to_dec.simps) simp
    qed
  qed
qed

lemma dec_short: "\<bar>i\<bar> < 10 ^ 16 \<Longrightarrow> utf8Len (units (int_to_dec i)) \<le> 128"
proof -
  assume "\<bar>i\<bar> < 10 ^ 16"
  then have "nat \<bar>i\<bar> < 10 ^ 16" by simp
  then have "length (nat_to_dec (nat \<bar>i\<bar>)) \<le> 16" by (subst length_nat_to_dec) simp_all
  then have "length (int_to_dec i) \<le> 17" by (auto simp: int_to_dec_def)
  then show ?thesis using utf8Len_ascii [OF ascii_units_dec [of i]] by simp
qed

lemma safe_short: "is_safe_integer i \<Longrightarrow> utf8Len (units (int_to_dec i)) \<le> 128"
  by (rule dec_short) (simp add: is_safe_integer_def MAX_SAFE_INTEGER_def)

lemma next_short: "is_safe_integer i \<Longrightarrow> utf8Len (units (int_to_dec (i + 1))) \<le> 128"
  by (rule dec_short) (simp add: is_safe_integer_def MAX_SAFE_INTEGER_def)

lemma op_total:
  assumes "valid_op i" "canonicalize_value (od_mutation i) = returns t"
  shows "\<exists>d. framed_digest cr (op_frame i) = returns d"
proof -
  have "utf8Len HA_OUTBOX_DIGEST_DOMAIN = 24" "utf8Len HA_OUTBOX_CONTRACT_VERSION = 1" by code_simp+
  with assms canonicalize_emits [OF assms(2)] have "list_all (\<lambda>f. utf8Len f < 4294967296) (op_frame i)"
    using pattern_short [of "od_streamId i"] pattern_short [of "od_sourceEpoch i"] pattern_short [of "od_fenceToken i"]
      safe_short [of "od_sequence i"]
    by (auto simp: op_frame_def op_fields_def valid_op_def CANON_MAX_TOTAL_BYTES_def)
  then show ?thesis by (auto simp: framed_digest_iff frames_frame)
qed

text \<open>
  An operation has a digest exactly when its identifiers, sequence and fence token conform and its
  mutation consists of conforming values at most 64 levels deep, with at most 10000 nodes and at most a
  mebibyte of canonical text: neither the string checks nor the length prefix reject anything else.
\<close>
theorem op_digest_total:
  "(\<exists>d. canonicalOpDigest cr i = returns d) \<longleftrightarrow> valid_op i \<and> conforms 65 (od_mutation i)
     \<and> node_count (normal (od_mutation i)) \<le> 10000 \<and> byte_count (normal (od_mutation i)) \<le> 1048576"
  using op_total [of i] by (auto simp: opDigest_iff simp flip: accepts_iff)

text \<open>A bigint token has an admissible decimal form exactly below \<open>10^39\<close>.\<close>

lemma fence_token_range:
  "(\<exists>s. fenceTokenToDecimal t = returns s \<and> assertFenceToken s = returns ()) \<longleftrightarrow> 0 \<le> t \<and> t < 10 ^ 39"
proof (cases "t \<le> 0")
  case True
  then show ?thesis
    using dec_zero by (auto simp: fenceTokenToDecimal_def assertFenceToken_iff FENCE_TOKEN_PATTERN_def)
next
  case False
  then obtain n where n: "t = int n" "0 < n" by (metis less_le_not_le linorder_linear nat_0_le of_nat_0_less_iff zero_less_imp_eq_int)
  have first: "\<exists>c r. nat_to_dec n = c # r \<and> c \<noteq> CHR ''0''"
    using n(2)
  proof (induction n rule: nat_to_dec.induct)
    case (1 n)
    show ?case
    proof (cases "n < 10")
      case True
      moreover have "digit_char n \<noteq> CHR ''0''" using True 1(2) code_digit_char [of n] by (auto simp del: code_digit_char)
      ultimately show ?thesis by (subst nat_to_dec.simps) simp
    next
      case False
      with 1 obtain c r where "nat_to_dec (n div 10) = c # r" "c \<noteq> CHR ''0''" by (metis div_greater_zero_iff not_less_iff_gr_or_eq zero_less_numeral linorder_not_le)
      with False show ?thesis by (subst nat_to_dec.simps) simp
    qed
  qed
  then obtain c r where c: "nat_to_dec n = c # r" "c \<noteq> CHR ''0''" by blast
  have "is_digit c" "list_all is_digit r" using nat_to_dec_digits [of n] by (simp_all add: c)
  moreover have "unit_in p (word_of_nat (code d)) \<longleftrightarrow> p d" if "is_digit d" for p d
    using that by (simp add: unit_in_def is_digit_def)
  ultimately have "FENCE_TOKEN_PATTERN (units (nat_to_dec n)) \<longleftrightarrow> length r \<le> 38"
    using c(2) by (auto simp: FENCE_TOKEN_PATTERN_def c(1) units_def list_all_iff)
  also have "\<dots> \<longleftrightarrow> n < 10 ^ 39" using length_nat_to_dec [of 39 n] c(1) by simp
  also have "\<dots> \<longleftrightarrow> t < 10 ^ 39" unfolding n by (metis of_nat_less_iff of_nat_numeral of_nat_power)
  finally show ?thesis using False n by (simp add: fenceTokenToDecimal_def assertFenceToken_iff int_to_dec_def)
qed

section \<open>Transitions and heads\<close>

definition valid_transition :: "epoch_transition \<Rightarrow> bool" where
  "valid_transition r = (ID_PATTERN (et_streamId r) \<and> ID_PATTERN (et_fromEpoch r) \<and> ID_PATTERN (et_toEpoch r)
     \<and> et_fromEpoch r \<noteq> et_toEpoch r \<and> is_safe_integer (et_fromEpochIndex r) \<and> 0 \<le> et_fromEpochIndex r
     \<and> et_toEpochIndex r = et_fromEpochIndex r + 1 \<and> is_safe_integer (et_snapshotSequence r) \<and> 0 \<le> et_snapshotSequence r
     \<and> HEX64 (et_snapshotDigest r) \<and> FENCE_TOKEN_PATTERN (et_fenceToken r))"

lemma transitionDigest_iff:
  "epochTransitionDigest cr r = returns d \<longleftrightarrow> valid_transition r \<and> framed_digest cr (transition_fields r) = returns d"
  by (simp add: epochTransitionDigest_def conformance valid_transition_def)

lemma transition_well_formed: "valid_transition r \<Longrightarrow> list_all well_formed (transition_fields r)"
  by (simp add: valid_transition_def transition_fields_def pattern_well_formed well_formed_append del: units_simps)

text \<open>
  Two conformant epoch transitions with the same digest are the same record, and lead exactly one epoch
  further, unless SHA-256 collides on their two framed preimages.
\<close>
theorem transition_digest_binds:
  assumes "assertEpochTransitionConformant cr r = returns ()" "assertEpochTransitionConformant cr r' = returns ()"
    "et_transitionDigest r = et_transitionDigest r'"
  shows "(r = r' \<and> et_toEpochIndex r = et_fromEpochIndex r + 1) \<or> collides cr (transition_fields r) (transition_fields r')"
proof -
  from assms have v: "valid_transition r" "valid_transition r'" "et_contractVersion r = et_contractVersion r'"
    and d: "framed_digest cr (transition_fields r) = returns (et_transitionDigest r)"
    "framed_digest cr (transition_fields r') = returns (et_transitionDigest r)"
    by (auto simp: assertEpochTransitionConformant_def conformance transitionDigest_iff)
  from digest_binds [OF d transition_well_formed [OF v(1)] transition_well_formed [OF v(2)]]
  have "transition_fields r = transition_fields r' \<or> collides cr (transition_fields r) (transition_fields r')" .
  then show ?thesis
  proof
    assume "transition_fields r = transition_fields r'"
    with v assms(3) have "r = r'" by (intro epoch_transition.equality) (auto simp: transition_fields_def dest: int_to_dec_inj)
    with v(1) show ?thesis by (simp add: valid_transition_def)
  qed simp
qed

definition valid_head :: "signed_head \<Rightarrow> bool" where
  "valid_head h = (ID_PATTERN (hd_streamId h) \<and> is_safe_integer (hd_sequence h) \<and> 1 \<le> hd_sequence h \<and> HEX64 (hd_prevHeadDigest h)
     \<and> HEX64 (hd_opDigest h) \<and> ID_PATTERN (hd_keyId h) \<and> hd_alg h \<in> set STREAM_HEAD_ALGS)"

lemma headDigest_iff: "streamHeadDigest cr h = returns d \<longleftrightarrow> valid_head h \<and> framed_digest cr (head_fields h) = returns d"
  by (simp add: streamHeadDigest_def conformance valid_head_def)

lemma head_well_formed: "valid_head h \<Longrightarrow> list_all well_formed (head_fields h)"
  by (auto simp: valid_head_def head_fields_def pattern_well_formed well_formed_append STREAM_HEAD_ALGS_def simp del: units_simps)

text \<open>
  A stream head digest binds one record: heads with the same digest that bind to records bind to the same
  stream, sequence and operation digest, with the same predecessor, key and algorithm, unless SHA-256
  collides on their two framed preimages.
\<close>
theorem head_binds_one_record:
  assumes "assertStreamHeadBinds cr r h = returns ()" "assertStreamHeadBinds cr r' h' = returns ()"
    "hd_headDigest h = hd_headDigest h'"
  shows "(oh_streamId r = oh_streamId r' \<and> oh_sequence r = oh_sequence r' \<and> oh_opDigest r = oh_opDigest r'
      \<and> hd_prevHeadDigest h = hd_prevHeadDigest h' \<and> hd_keyId h = hd_keyId h' \<and> hd_alg h = hd_alg h')
    \<or> collides cr (head_fields h) (head_fields h')"
proof -
  from assms have v: "valid_head h" "valid_head h'"
    and d: "framed_digest cr (head_fields h) = returns (hd_headDigest h)" "framed_digest cr (head_fields h') = returns (hd_headDigest h)"
    and r: "oh_streamId r = hd_streamId h" "oh_sequence r = hd_sequence h" "oh_opDigest r = hd_opDigest h"
      "oh_streamId r' = hd_streamId h'" "oh_sequence r' = hd_sequence h'" "oh_opDigest r' = hd_opDigest h'"
    by (auto simp: assertStreamHeadBinds_def conformance headDigest_iff)
  from digest_binds [OF d head_well_formed [OF v(1)] head_well_formed [OF v(2)]] r show ?thesis
    by (auto simp: head_fields_def dest: int_to_dec_inj)
qed

text \<open>
  The digests of an operation, of an epoch transition and of a stream head are different, whatever the
  records, unless SHA-256 collides on the two framed preimages.
\<close>
theorem digest_domains_separate:
  assumes "canonicalOpDigest cr i = returns d" "epochTransitionDigest cr r = returns e" "streamHeadDigest cr h = returns f"
  shows "(d \<noteq> e \<or> collides cr (op_frame i) (transition_fields r)) \<and> (d \<noteq> f \<or> collides cr (op_frame i) (head_fields h))
    \<and> (e \<noteq> f \<or> collides cr (transition_fields r) (head_fields h))"
proof -
  from assms obtain t where v: "valid_op i" "canonicalize_value (od_mutation i) = returns t" "valid_transition r" "valid_head h"
    and d: "framed_digest cr (op_frame i) = returns d" "framed_digest cr (transition_fields r) = returns e"
      "framed_digest cr (head_fields h) = returns f"
    by (auto simp: opDigest_iff transitionDigest_iff headDigest_iff)
  note w = op_frame_well_formed [OF v(1,2)] transition_well_formed [OF v(3)] head_well_formed [OF v(4)]
  have "op_frame i \<noteq> transition_fields r" "op_frame i \<noteq> head_fields h" "transition_fields r \<noteq> head_fields h"
    by (simp_all add: op_frame_def op_fields_def transition_fields_def head_fields_def)
  with d w show ?thesis using digest_binds by blast
qed

lemma framed_total: "list_all (\<lambda>f. utf8Len f \<le> 128) fs \<Longrightarrow> \<exists>d. framed_digest cr fs = returns d"
proof -
  assume "list_all (\<lambda>f. utf8Len f \<le> 128) fs"
  then have "list_all (\<lambda>f. utf8Len f < 4294967296) fs" by (auto simp: list_all_iff)
  then show ?thesis by (auto simp: framed_digest_iff frames_frame)
qed

lemma domain_short: "utf8Len (HA_OUTBOX_DIGEST_DOMAIN @ units ''/epoch-transition'') \<le> 128" "utf8Len (HA_OUTBOX_DIGEST_DOMAIN @ units ''/tsk-stream-head'') \<le> 128"
  "utf8Len HA_OUTBOX_CONTRACT_VERSION \<le> 128" "list_all (\<lambda>a. utf8Len a \<le> 128) STREAM_HEAD_ALGS"
  by code_simp+

lemma transition_total: "valid_transition r \<Longrightarrow> \<exists>d. epochTransitionDigest cr r = returns d"
  using framed_total [of "transition_fields r" cr]
  by (simp add: transitionDigest_iff)
    (simp add: valid_transition_def transition_fields_def pattern_short domain_short safe_short next_short del: units_simps)

lemma head_total: "valid_head h \<Longrightarrow> \<exists>d. streamHeadDigest cr h = returns d"
  using framed_total [of "head_fields h" cr] domain_short(4)
  by (simp add: headDigest_iff)
    (simp add: valid_head_def head_fields_def pattern_short domain_short(2,3) safe_short list_all_iff del: units_simps)


section \<open>Examples\<close>

definition ex_mutation :: jsval where
  "ex_mutation = VObj True False [(units ''b'', DataProp (VNum (Whole 7))),
     (units ''a'', DataProp (VArr False [Some (DataProp VNull), Some (DataProp (VStr [0x22, 0xE9]))] []))]"

definition ex_reordered :: jsval where
  "ex_reordered = VObj True False [
     (units ''a'', DataProp (VArr False [Some (DataProp VNull), Some (DataProp (VStr [0x22, 0xE9]))] [])),
     (units ''b'', DataProp (VNum (Whole 7)))]"

definition ex_op :: "jsval \<Rightarrow> op_input" where
  "ex_op m = \<lparr>od_streamId = units ''s'', od_sourceEpoch = units ''e'', od_sequence = 1, od_fenceToken = units ''0'', od_mutation = m\<rparr>"

definition ex_transition :: "ustr \<Rightarrow> epoch_transition" where
  "ex_transition d = \<lparr>et_contractVersion = HA_OUTBOX_CONTRACT_VERSION, et_streamId = units ''s'', et_fromEpoch = units ''e'',
     et_fromEpochIndex = 0, et_toEpoch = units ''f'', et_toEpochIndex = 1, et_snapshotSequence = 0,
     et_snapshotDigest = replicate 64 0x30, et_fenceToken = units ''0'', et_transitionDigest = d\<rparr>"

definition ex_header :: outbox_header where
  "ex_header = \<lparr>oh_contractVersion = HA_OUTBOX_CONTRACT_VERSION, oh_streamId = units ''s'', oh_sourceEpoch = units ''e'',
     oh_sequence = 1, oh_fenceToken = units ''0'', oh_opDigest = replicate 64 0x31\<rparr>"

definition ex_head :: "ustr \<Rightarrow> signed_head" where
  "ex_head d = \<lparr>hd_streamId = units ''s'', hd_sequence = 1, hd_prevHeadDigest = replicate 64 0x30, hd_opDigest = replicate 64 0x31,
     hd_keyId = units ''k'', hd_alg = units ''ed25519'', hd_headDigest = d, hd_signature = []\<rparr>"

lemma ex_normal: "normal ex_mutation = NObj [(units ''a'', NArr [NNull, NStr [0x22, 0xE9]]), (units ''b'', NNum 7)]"
  "normal ex_reordered = NObj [(units ''a'', NArr [NNull, NStr [0x22, 0xE9]]), (units ''b'', NNum 7)]"
  by code_simp+

lemma ex_lengths: "utf8Len [0x22, 0xE9] = 3" "utf8Len (units ''a'') = 1" "utf8Len (units ''b'') = 1" "utf8Len (quoted [0x22, 0xE9]) = 6"
  "utf8Len (units (int_to_dec 7)) = 1" "utf8Len (quoted (units ''a'') @ units '':'') = 4" "utf8Len (quoted (units ''b'') @ units '':'') = 4"
  "well_formed [0x22, 0xE9]" "units ''a'' \<noteq> units ''__proto__''" "units ''b'' \<noteq> units ''__proto__''"
  by code_simp+

lemma ex_mutation_texts: obtains t u where "canonicalize_value ex_mutation = returns t" "canonicalize_value ex_reordered = returns u"
proof -
  have "conforms (Suc (Suc (Suc l))) ex_mutation" "conforms (Suc (Suc (Suc l))) ex_reordered" for l
    using ex_lengths by (simp_all add: ex_mutation_def ex_reordered_def slot_value_def check_array_def check_object_def
        string_ok_def CANON_MAX_STRING_BYTES_def is_safe_integer_def MAX_SAFE_INTEGER_def del: units_simps)
  from this [of 62] have c: "conforms 65 v" if "v = ex_mutation \<or> v = ex_reordered" for v
    using that by (auto simp: eval_nat_numeral)
  have "\<exists>s. canonicalize_value v = returns s" if v: "v = ex_mutation \<or> v = ex_reordered" for v
    unfolding accepts_iff using c [OF v] v ex_lengths by (auto simp: ex_normal simp del: units_simps)
  with that show ?thesis by blast
qed

lemma ex_valid: "valid_op (ex_op m)" "valid_transition (ex_transition d)" "valid_head (ex_head d)"
proof -
  have id: "ID_PATTERN (units ''s'')" "ID_PATTERN (units ''e'')" "ID_PATTERN (units ''f'')" "ID_PATTERN (units ''k'')" "FENCE_TOKEN_PATTERN (units ''0'')"
    by code_simp+
  have h: "HEX64 (replicate 64 0x30)" "HEX64 (replicate 64 0x31)"
    by (simp_all add: HEX64_def list_all_iff unit_in_def is_digit_def)
  have u: "units ''e'' \<noteq> units ''f''" by simp
  show "valid_op (ex_op m)" "valid_transition (ex_transition d)" "valid_head (ex_head d)"
    using id h u by (simp_all add: valid_op_def valid_transition_def valid_head_def ex_op_def ex_transition_def ex_head_def
        STREAM_HEAD_ALGS_def is_safe_integer_def MAX_SAFE_INTEGER_def del: units_simps)
qed

lemma ex_no_collision: "\<not> collides ex_crypto fs gs"
  by (simp add: collides_def ex_crypto_def)

lemma canonical_text_unique_witness: "ex_mutation \<noteq> ex_reordered \<and> (\<exists>t u. canonicalize_value ex_mutation = returns t
    \<and> canonicalize_value ex_reordered = returns u \<and> utf8_units t = utf8_units u)"
proof -
  have "ex_mutation \<noteq> ex_reordered" by (simp add: ex_mutation_def ex_reordered_def)
  moreover obtain t u where "canonicalize_value ex_mutation = returns t" "canonicalize_value ex_reordered = returns u" by (rule ex_mutation_texts)
  with canonical_text_unique [OF this] ex_normal have "\<exists>t u. canonicalize_value ex_mutation = returns t
    \<and> canonicalize_value ex_reordered = returns u \<and> utf8_units t = utf8_units u" by auto
  ultimately show ?thesis ..
qed

lemma ex_op_digest: obtains d where "canonicalOpDigest ex_crypto (ex_op ex_mutation) = returns d" "canonicalOpDigest ex_crypto (ex_op ex_reordered) = returns d"
proof -
  obtain t u where t: "canonicalize_value ex_mutation = returns t" "canonicalize_value ex_reordered = returns u" by (rule ex_mutation_texts)
  have m: "od_mutation (ex_op m) = m" for m by (simp add: ex_op_def)
  have f: "op_frame (ex_op ex_reordered) = op_frame (ex_op ex_mutation)" by (simp add: op_frame_def op_fields_def ex_op_def ex_normal)
  from t(1) have "canonicalize_value (od_mutation (ex_op ex_mutation)) = returns t" by (simp add: m)
  from op_total [OF ex_valid(1) this] obtain d where "framed_digest ex_crypto (op_frame (ex_op ex_mutation)) = returns d" by blast
  with that show ?thesis using ex_valid(1) t m f by (simp add: opDigest_iff)
qed

lemma op_digest_binds_witness:
  "\<exists>d. canonicalOpDigest ex_crypto (ex_op ex_mutation) = returns d \<and> canonicalOpDigest ex_crypto (ex_op ex_reordered) = returns d
     \<and> normal (od_mutation (ex_op ex_mutation)) = normal (od_mutation (ex_op ex_reordered))"
proof -
  obtain d where "canonicalOpDigest ex_crypto (ex_op ex_mutation) = returns d" "canonicalOpDigest ex_crypto (ex_op ex_reordered) = returns d"
    by (rule ex_op_digest)
  with op_digest_binds [OF this] ex_no_collision show ?thesis by blast
qed

lemma ex_transition_digest: obtains d where "epochTransitionDigest ex_crypto (ex_transition d') = returns d"
    "assertEpochTransitionConformant ex_crypto (ex_transition d) = returns ()"
proof -
  obtain d where d: "epochTransitionDigest ex_crypto (ex_transition d') = returns d" using transition_total [OF ex_valid(2)] by blast
  moreover have "transition_fields (ex_transition d') = transition_fields (ex_transition d)" for d' d
    by (simp add: transition_fields_def ex_transition_def)
  ultimately have "epochTransitionDigest ex_crypto (ex_transition d) = returns d"
    using ex_valid(2) unfolding transitionDigest_iff by metis
  moreover have "et_contractVersion (ex_transition d) = HA_OUTBOX_CONTRACT_VERSION" "et_transitionDigest (ex_transition d) = d"
    by (simp_all add: ex_transition_def)
  ultimately show ?thesis using that d by (simp add: assertEpochTransitionConformant_def conformance)
qed

lemma ex_head_digest: obtains d where "streamHeadDigest ex_crypto (ex_head d') = returns d"
    "assertStreamHeadBinds ex_crypto ex_header (ex_head d) = returns ()"
proof -
  obtain d where d: "streamHeadDigest ex_crypto (ex_head d') = returns d" using head_total [OF ex_valid(3)] by blast
  moreover have "head_fields (ex_head d') = head_fields (ex_head d)" for d' d by (simp add: head_fields_def ex_head_def)
  ultimately have "streamHeadDigest ex_crypto (ex_head d) = returns d"
    using ex_valid(3) unfolding headDigest_iff by metis
  moreover have "hd_headDigest (ex_head d) = d" "hd_streamId (ex_head d) = oh_streamId ex_header" "hd_sequence (ex_head d) = oh_sequence ex_header"
    "hd_opDigest (ex_head d) = oh_opDigest ex_header" by (simp_all add: ex_head_def ex_header_def)
  ultimately show ?thesis using that d ex_valid(3) [of d] by (simp add: assertStreamHeadBinds_def conformance valid_head_def)
qed

lemma transition_digest_binds_witness:
  "\<exists>d. assertEpochTransitionConformant ex_crypto (ex_transition d) = returns ()
     \<and> et_toEpochIndex (ex_transition d) = et_fromEpochIndex (ex_transition d) + 1"
proof -
  obtain d where "assertEpochTransitionConformant ex_crypto (ex_transition d) = returns ()" by (rule ex_transition_digest)
  with transition_digest_binds [OF this this refl] ex_no_collision show ?thesis by blast
qed

lemma head_binds_one_record_witness:
  "\<exists>d. assertStreamHeadBinds ex_crypto ex_header (ex_head d) = returns () \<and> hd_keyId (ex_head d) = hd_keyId (ex_head d)"
proof -
  obtain d where "assertStreamHeadBinds ex_crypto ex_header (ex_head d) = returns ()" by (rule ex_head_digest)
  with head_binds_one_record [OF this this refl] ex_no_collision show ?thesis by blast
qed

lemma digest_domains_separate_witness:
  "\<exists>d e f. canonicalOpDigest ex_crypto (ex_op ex_mutation) = returns d \<and> epochTransitionDigest ex_crypto (ex_transition []) = returns e
     \<and> streamHeadDigest ex_crypto (ex_head []) = returns f \<and> d \<noteq> e \<and> d \<noteq> f \<and> e \<noteq> f"
proof -
  obtain d where d: "canonicalOpDigest ex_crypto (ex_op ex_mutation) = returns d" by (rule ex_op_digest)
  obtain e where e: "epochTransitionDigest ex_crypto (ex_transition []) = returns e" by (rule ex_transition_digest)
  obtain f where f: "streamHeadDigest ex_crypto (ex_head []) = returns f" by (rule ex_head_digest)
  from digest_domains_separate [OF d e f] ex_no_collision d e f show ?thesis by blast
qed

end
