(* ===== verification/Durable_Outbox.thy ===== *)
theory Durable_Outbox
  imports Outbox_Laws
begin

text \<open>
  \<^verbatim>\<open>packages/server/src/ha-outbox-pg.ts\<close>: the durable outbox on PostgreSQL. Its tables are a record, each
  SQL statement a function on it, and a transaction a function that returns an error and rolls back, or a
  result and the new tables. The outbox appends under the fence, the publisher leases, reads, delivers and
  settles one record at a time, the receiver verifies and applies, the promotion fence counts up. The
  opaque transaction handles, proxies and deadlines are those of the caller's process and are not
  modelled; the optional external procedure \<open>governedAppend\<close> is absent.
\<close>

section \<open>Errors and transactions\<close>

datatype outbox_error = ContractValidationError string | StaleFenceError int int | OutboxBackpressureError
  | DatabaseError | TransportError | CallbackError

type_synonym 'a outcome = "outbox_error + 'a"

fun then_do :: "'a outcome \<Rightarrow> ('a \<Rightarrow> 'b outcome) \<Rightarrow> 'b outcome" where
  "then_do (Inl e) f = Inl e"
| "then_do (Inr v) f = f v"

lemma then_do_Inr_iff: "then_do m f = Inr b \<longleftrightarrow> (\<exists>a. m = Inr a \<and> f a = Inr b)"
  by (cases m) auto

abbreviation invalid :: "string \<Rightarrow> 'a outcome" where
  "invalid msg \<equiv> Inl (ContractValidationError msg)"

definition contract :: "'a throws \<Rightarrow> 'a outcome" where
  "contract m = (case m of Inl e \<Rightarrow> invalid e | Inr v \<Rightarrow> Inr v)"

lemma contract_Inr_iff [simp]: "contract m = Inr v \<longleftrightarrow> m = returns v"
  by (simp add: contract_def split: sum.split)

lemma contract_returns [simp]: "contract (returns v) = Inr v"
  by simp

definition ensure :: "bool \<Rightarrow> string \<Rightarrow> unit outcome" where
  "ensure b msg = (if b then Inr () else invalid msg)"

lemma ensure_Inr_iff [simp]: "ensure b msg = Inr u \<longleftrightarrow> b"
  by (simp add: ensure_def)

lemma ensure_True [simp]: "ensure True msg = Inr ()"
  by simp

text \<open>
  What the session of a transaction reports: the isolation level, and after the search path was set, the
  current schema and the effective path. A commit takes place, does not, or takes place without the client
  learning of it.
\<close>

record session =
  ss_isolation :: string
  ss_current_schema :: string
  ss_path :: "string list"

datatype commit = Committed | NotCommitted | CommittedUnseen

record tx_env =
  te_session :: session
  te_commit :: commit

definition to_lower :: "char \<Rightarrow> char" where
  "to_lower c = (if is_upper c then char_of (code c + 32) else c)"

definition assertSerializable :: "session \<Rightarrow> unit outcome" where
  "assertSerializable ss = ensure (map to_lower (ss_isolation ss) = ''serializable'') ''critical tx requires SERIALIZABLE isolation''"

definition assertSchemaIdentifier :: "string \<Rightarrow> unit outcome" where
  "assertSchemaIdentifier s = ensure (s \<noteq> [] \<and> length s \<le> 63 \<and> (is_lower (hd s) \<or> hd s = CHR ''_'')
     \<and> list_all (\<lambda>c. is_lower c \<or> is_digit c \<or> c = CHR ''_'') (tl s)) ''invalid schema identifier''"

definition pinSchema :: "session \<Rightarrow> string \<Rightarrow> unit outcome" where
  "pinSchema ss schema =
     then_do (assertSchemaIdentifier schema) (\<lambda>_.
     then_do (ensure (ss_current_schema ss = schema) ''schema context mismatch'') (\<lambda>_.
     ensure (case ss_path ss of
         [p1, p2] \<Rightarrow> p1 = schema \<and> p2 = ''pg_catalog''
       | [p1, p2, p3] \<Rightarrow> p1 = schema \<and> p2 = ''pg_catalog'' \<and> js_starts_with p3 ''pg_temp_''
       | _ \<Rightarrow> False) ''schema search path was not pinned with governed authority before pg_temp''))"

definition enterCriticalTx :: "session \<Rightarrow> string \<Rightarrow> unit outcome" where
  "enterCriticalTx ss schema = then_do (assertSerializable ss) (\<lambda>_. pinSchema ss schema)"

definition transaction :: "tx_env \<Rightarrow> ('s \<Rightarrow> ('a \<times> 's) outcome) \<Rightarrow> 's \<Rightarrow> 'a outcome \<times> 's" where
  "transaction env body db = (case body db of
     Inl e \<Rightarrow> (Inl e, db)
   | Inr (v, db') \<Rightarrow> (case te_commit env of
       Committed \<Rightarrow> (Inr v, db') | NotCommitted \<Rightarrow> (Inl DatabaseError, db) | CommittedUnseen \<Rightarrow> (Inl DatabaseError, db')))"

definition critical :: "tx_env \<Rightarrow> string \<Rightarrow> ('s \<Rightarrow> ('a \<times> 's) outcome) \<Rightarrow> 's \<Rightarrow> 'a outcome \<times> 's" where
  "critical env schema body = transaction env (\<lambda>db. then_do (enterCriticalTx (te_session env) schema) (\<lambda>_. body db))"

definition MAX_TIMER_MS :: int where
  "MAX_TIMER_MS = 2147483647"

definition validateDeadlineMs :: "int \<Rightarrow> string \<Rightarrow> int outcome" where
  "validateDeadlineMs ms label = (if ms < 1 \<or> MAX_TIMER_MS < ms
     then invalid (label @ '' must be an integer in [1, 2147483647] ms'') else Inr ms)"

definition DEFAULT_SCOPE_DEADLINE_MS :: int where
  "DEFAULT_SCOPE_DEADLINE_MS = 30000"

section \<open>The tables\<close>

text \<open>
  A row of \<open>ha_outbox_rows\<close>: \<open>rw_mutation\<close> is the JSON value of the column, its members sorted;
  \<open>rw_published\<close>, \<open>rw_acked\<close> and \<open>rw_quarantined\<close> say whether the timestamp is set. \<open>db_lease\<close>
  holds a token and the end of the lease, or two NULLs; \<open>db_data\<close> is every table of the caller.
\<close>

record outbox_row =
  rw_streamId :: ustr
  rw_sourceEpoch :: ustr
  rw_sequence :: int
  rw_fenceToken :: int
  rw_opDigest :: ustr
  rw_mutation :: jnorm
  rw_published :: bool
  rw_acked :: bool
  rw_quarantined :: bool

record 'd ha_db =
  db_meta :: "int list"
  db_fence :: "(ustr, int) jsmap"
  db_source :: "(ustr, ustr \<times> int) jsmap"
  db_receiver :: "(ustr, ustr \<times> int \<times> ustr) jsmap"
  db_rows :: "outbox_row list"
  db_lease :: "(ustr, (ustr \<times> int) option) jsmap"
  db_quarantine :: "(ustr \<times> ustr \<times> int, ustr \<times> ustr) jsmap"
  db_applied :: "(ustr \<times> ustr \<times> int, ustr) jsmap"
  db_data :: 'd

definition FENCE_MAX_EXCLUSIVE :: int where
  "FENCE_MAX_EXCLUSIVE = 10 ^ 39"

definition row_key :: "outbox_row \<Rightarrow> ustr \<times> ustr \<times> int" where
  "row_key r = (rw_streamId r, rw_sourceEpoch r, rw_sequence r)"

text \<open>A jsonb string holds no NUL.\<close>

fun storable :: "jnorm \<Rightarrow> bool" where
  "storable (NStr s) = (0 \<notin> set s)"
| "storable (NArr xs) = list_all storable xs"
| "storable (NObj ps) = list_all (\<lambda>(k, v). 0 \<notin> set k \<and> storable v) ps"
| "storable _ = True"

definition row_check :: "outbox_row \<Rightarrow> bool" where
  "row_check r = (1 \<le> length (rw_streamId r) \<and> length (rw_streamId r) \<le> 512
     \<and> 1 \<le> length (rw_sourceEpoch r) \<and> length (rw_sourceEpoch r) \<le> 512
     \<and> 1 \<le> rw_sequence r \<and> rw_sequence r \<le> MAX_SAFE_INTEGER
     \<and> 0 \<le> rw_fenceToken r \<and> rw_fenceToken r < FENCE_MAX_EXCLUSIVE
     \<and> HEX64 (rw_opDigest r) \<and> storable (rw_mutation r))"

definition insert_row :: "outbox_row \<Rightarrow> 'd ha_db \<Rightarrow> 'd ha_db outcome" where
  "insert_row r db = (if \<not> row_check r \<or> row_key r \<in> row_key ` set (db_rows db) then Inl DatabaseError
     else Inr (db\<lparr>db_rows := db_rows db @ [r]\<rparr>))"

text \<open>\<open>UPDATE ... WHERE p\<close> on the rows; the number of rows it affected.\<close>

definition update_rows :: "(outbox_row \<Rightarrow> bool) \<Rightarrow> (outbox_row \<Rightarrow> outbox_row) \<Rightarrow> 'd ha_db \<Rightarrow> nat \<times> 'd ha_db" where
  "update_rows p f db = (length (filter p (db_rows db)), db\<lparr>db_rows := map (\<lambda>r. if p r then f r else r) (db_rows db)\<rparr>)"

definition affectedOne :: "nat \<Rightarrow> string \<Rightarrow> unit outcome" where
  "affectedOne n label = ensure (n = 1) (label @ '': expected exactly 1 affected row'')"

definition safeSeq :: "int \<Rightarrow> string \<Rightarrow> int outcome" where
  "safeSeq v label = (if v < 0 \<or> MAX_SAFE_INTEGER < v then invalid (label @ '' out of safe-integer range'') else Inr v)"

section \<open>Schema readiness\<close>

definition HA_OUTBOX_SCHEMA_VERSION :: int where
  "HA_OUTBOX_SCHEMA_VERSION = 3"

definition HA_OUTBOX_SCHEMA_MANIFEST :: string where
  "HA_OUTBOX_SCHEMA_MANIFEST = ''7af22efd9ed7828bdf2901fc9b05230cff9c3bd18d62f406305a307d40030792''"

text \<open>\<open>manifest\<close> is the digest of the live catalog; a token is \<open>None\<close> when it was not minted here.\<close>

record ready_state =
  rt_db :: nat
  rt_schema :: string
  rt_manifest :: string
  rt_version :: int

definition attestSchema :: "string \<Rightarrow> unit outcome" where
  "attestSchema manifest = ensure (manifest = HA_OUTBOX_SCHEMA_MANIFEST)
     ''ha_outbox schema attestation failed: live catalog does not match the expected manifest''"

definition assertVersionInTx :: "int list \<Rightarrow> unit outcome" where
  "assertVersionInTx meta = (case meta of
     [] \<Rightarrow> invalid ''ha_outbox schema is not provisioned (no meta row)''
   | v # _ \<Rightarrow> then_do (safeSeq v ''schema_version'') (\<lambda>found.
       ensure (found = HA_OUTBOX_SCHEMA_VERSION) ''ha_outbox schema version mismatch''))"

definition mint :: "nat \<Rightarrow> string \<Rightarrow> unit outcome \<times> 's \<Rightarrow> ready_state outcome \<times> 's" where
  "mint db schema r = (case r of (Inl e, s) \<Rightarrow> (Inl e, s)
   | (Inr _, s) \<Rightarrow> (Inr \<lparr>rt_db = db, rt_schema = schema, rt_manifest = HA_OUTBOX_SCHEMA_MANIFEST,
       rt_version = HA_OUTBOX_SCHEMA_VERSION\<rparr>, s))"

definition assertSchemaReady :: "tx_env \<Rightarrow> nat \<Rightarrow> string \<Rightarrow> string \<Rightarrow> 'd ha_db \<Rightarrow> ready_state outcome \<times> 'd ha_db" where
  "assertSchemaReady env self schema manifest db = mint self schema (critical env schema (\<lambda>d.
     then_do (attestSchema manifest) (\<lambda>_. then_do (assertVersionInTx (db_meta d)) (\<lambda>_. Inr ((), d)))) db)"

definition provisionSchemaVersion :: "tx_env \<Rightarrow> nat \<Rightarrow> string \<Rightarrow> string \<Rightarrow> 'd ha_db \<Rightarrow> ready_state outcome \<times> 'd ha_db" where
  "provisionSchemaVersion env self schema manifest db = mint self schema (critical env schema (\<lambda>d.
     then_do (attestSchema manifest) (\<lambda>_. case db_meta d of
       [] \<Rightarrow> Inr ((), d\<lparr>db_meta := [HA_OUTBOX_SCHEMA_VERSION]\<rparr>)
     | [v] \<Rightarrow> then_do (safeSeq v ''schema_version'') (\<lambda>cur.
         if cur = HA_OUTBOX_SCHEMA_VERSION then Inr ((), d) else invalid ''fresh provisioning refused'')
     | _ \<Rightarrow> invalid ''multiple schema-version authority rows'')) db)"

definition adoptCurrentSchemaVersion :: "tx_env \<Rightarrow> nat \<Rightarrow> string \<Rightarrow> string \<Rightarrow> 'd ha_db \<Rightarrow> ready_state outcome \<times> 'd ha_db" where
  "adoptCurrentSchemaVersion env self schema manifest db = mint self schema (critical env schema (\<lambda>d.
     then_do (attestSchema manifest) (\<lambda>_. case db_meta d of
       [] \<Rightarrow> Inr ((), d\<lparr>db_meta := [HA_OUTBOX_SCHEMA_VERSION]\<rparr>)
     | [v] \<Rightarrow> then_do (safeSeq v ''schema_version'') (\<lambda>cur.
         if cur = HA_OUTBOX_SCHEMA_VERSION then Inr ((), d)
         else if HA_OUTBOX_SCHEMA_VERSION < cur then invalid ''refusing to downgrade schema version''
         else Inr ((), d\<lparr>db_meta := [HA_OUTBOX_SCHEMA_VERSION]\<rparr>))
     | _ \<Rightarrow> invalid ''multiple schema-version authority rows'')) db)"

definition requireReady :: "ready_state option \<Rightarrow> nat \<Rightarrow> string outcome" where
  "requireReady token db = (case token of
     None \<Rightarrow> invalid ''invalid schema-readiness capability (forged or foreign token)''
   | Some st \<Rightarrow>
       if rt_db st \<noteq> db then invalid ''schema-readiness token is bound to a different PgTransactor''
       else if rt_manifest st \<noteq> HA_OUTBOX_SCHEMA_MANIFEST \<or> rt_version st \<noteq> HA_OUTBOX_SCHEMA_VERSION
       then invalid ''schema-readiness token attests a different manifest/version''
       else Inr (rt_schema st))"

section \<open>Snapshots\<close>

text \<open>
  \<open>JSON.parse(canonicalize(value))\<close>: a detached value, the normal form of the input; \<open>plain\<close> is the object
  graph it stands for.
\<close>

fun plain :: "jnorm \<Rightarrow> jsval" where
  "plain NNull = VNull"
| "plain (NBool b) = VBool b"
| "plain (NNum i) = VNum (Whole i)"
| "plain (NStr s) = VStr s"
| "plain (NArr xs) = VArr False (map (\<lambda>x. Some (DataProp (plain x))) xs) []"
| "plain (NObj ps) = VObj True False (map (\<lambda>(k, v). (k, DataProp (plain v))) ps)"

definition snapshotJson :: "jsval \<Rightarrow> jnorm throws" where
  "snapshotJson v = and_then (canonicalize_value v) (\<lambda>_. returns (normal v))"

record outbox_record = outbox_header +
  or_mutation :: jsval

definition data_props :: "(string \<times> jsval) list \<Rightarrow> jsval" where
  "data_props ps = VObj True False (map (\<lambda>(k, v). (units k, DataProp v)) ps)"

definition record_value :: "outbox_record \<Rightarrow> jsval" where
  "record_value r = data_props [(''contractVersion'', VStr (oh_contractVersion r)), (''streamId'', VStr (oh_streamId r)),
     (''sourceEpoch'', VStr (oh_sourceEpoch r)), (''sequence'', VNum (Whole (oh_sequence r))),
     (''fenceToken'', VStr (oh_fenceToken r)), (''opDigest'', VStr (oh_opDigest r)), (''mutation'', or_mutation r)]"

definition snapshotRecord :: "outbox_record \<Rightarrow> outbox_record outcome" where
  "snapshotRecord r =
     then_do (contract (snapshotJson (record_value r))) (\<lambda>_.
     then_do (contract (assertHeaderConformant (outbox_header.truncate r))) (\<lambda>_.
     Inr (r\<lparr>or_mutation := plain (normal (or_mutation r))\<rparr>)))"

definition record_op :: "outbox_record \<Rightarrow> op_input" where
  "record_op r = \<lparr>od_streamId = oh_streamId r, od_sourceEpoch = oh_sourceEpoch r, od_sequence = oh_sequence r,
     od_fenceToken = oh_fenceToken r, od_mutation = or_mutation r\<rparr>"

section \<open>PgDurableOutbox\<close>

record append_input =
  ap_streamId :: ustr
  ap_rawMutation :: jsval
  ap_fenceToken :: int

record outbox_options =
  oo_streamId :: ustr
  oo_maxPendingRows :: int
  oo_scopeDeadlineMs :: "int option"

definition new_outbox :: "ready_state option \<Rightarrow> nat \<Rightarrow> outbox_options \<Rightarrow> string outcome" where
  "new_outbox token db opts =
     (if \<not> is_safe_integer (oo_maxPendingRows opts) \<or> oo_maxPendingRows opts \<le> 0
      then invalid ''maxPendingRows must be a positive safe integer''
      else then_do (validateDeadlineMs (case oo_scopeDeadlineMs opts of None \<Rightarrow> DEFAULT_SCOPE_DEADLINE_MS | Some d \<Rightarrow> d)
          ''scopeDeadlineMs'') (\<lambda>_. requireReady token db))"

definition pending_rows :: "ustr \<Rightarrow> 'd ha_db \<Rightarrow> outbox_row list" where
  "pending_rows s db = filter (\<lambda>r. rw_streamId r = s \<and> \<not> rw_acked r \<and> \<not> rw_quarantined r) (db_rows db)"

definition new_row :: "ustr \<Rightarrow> ustr \<Rightarrow> int \<Rightarrow> int \<Rightarrow> ustr \<Rightarrow> jnorm \<Rightarrow> outbox_row" where
  "new_row streamId sourceEpoch nextSeq fence opDigest mutation = \<lparr>rw_streamId = streamId, rw_sourceEpoch = sourceEpoch,
     rw_sequence = nextSeq, rw_fenceToken = fence, rw_opDigest = opDigest, rw_mutation = mutation,
     rw_published = False, rw_acked = False, rw_quarantined = False\<rparr>"

definition appendInTx ::
    "webcrypto \<Rightarrow> (jsval \<Rightarrow> jsval outcome) \<Rightarrow> outbox_options \<Rightarrow> append_input \<Rightarrow> 'd ha_db \<Rightarrow> (outbox_header \<times> 'd ha_db) outcome" where
  "appendInTx cr sanitize opts input db =
     then_do (contract (snapshotJson (ap_rawMutation input))) (\<lambda>raw.
     then_do (sanitize (plain raw)) (\<lambda>clean.
     then_do (contract (snapshotJson clean)) (\<lambda>mutation.
     then_do (ensure (ap_streamId input = oo_streamId opts) ''streamId mismatch for this outbox'') (\<lambda>_.
     then_do (contract (fenceTokenToDecimal (ap_fenceToken input))) (\<lambda>fenceDecimal.
     case jm_get (db_fence db) (ap_streamId input) of
       None \<Rightarrow> invalid ''no authoritative fence row - stream not provisioned (fail closed)''
     | Some persistedFence \<Rightarrow>
         if ap_fenceToken input \<noteq> persistedFence then Inl (StaleFenceError (ap_fenceToken input) persistedFence)
         else if oo_maxPendingRows opts \<le> int (length (pending_rows (ap_streamId input) db)) then Inl OutboxBackpressureError
         else case jm_get (db_source db) (ap_streamId input) of
           None \<Rightarrow> invalid ''stream not provisioned (no source checkpoint row)''
         | Some (sourceEpoch, stored) \<Rightarrow>
             then_do (safeSeq stored ''source.checkpoint.sequence'') (\<lambda>cur.
             then_do (ensure (cur < MAX_SAFE_INTEGER) ''source sequence exhausted safe-integer range'') (\<lambda>_.
             then_do (contract (canonicalOpDigest cr \<lparr>od_streamId = ap_streamId input, od_sourceEpoch = sourceEpoch,
                 od_sequence = cur + 1, od_fenceToken = fenceDecimal, od_mutation = plain mutation\<rparr>)) (\<lambda>opDigest.
             then_do (insert_row (new_row (ap_streamId input) sourceEpoch (cur + 1) (ap_fenceToken input) opDigest mutation) db) (\<lambda>db1.
             let db2 = db1\<lparr>db_source := jm_set (ap_streamId input) (sourceEpoch, cur + 1) (db_source db1)\<rparr>;
                 header = \<lparr>oh_contractVersion = HA_OUTBOX_CONTRACT_VERSION, oh_streamId = ap_streamId input,
                   oh_sourceEpoch = sourceEpoch, oh_sequence = cur + 1, oh_fenceToken = fenceDecimal, oh_opDigest = opDigest\<rparr>
             in then_do (contract (assertHeaderConformant header)) (\<lambda>_. Inr (header, db2)))))))))))"

text \<open>
  The body of a transaction: the caller's own statements and appends in any order; the first error ends it.
  \<open>preCommitCheck\<close> runs at the end when an append was made.
\<close>

datatype 'd tx_action = Append append_input | Mutate "'d \<Rightarrow> 'd outcome"

fun run_actions ::
    "webcrypto \<Rightarrow> (jsval \<Rightarrow> jsval outcome) \<Rightarrow> outbox_options \<Rightarrow> 'd tx_action list \<Rightarrow> 'd ha_db \<Rightarrow> (outbox_header list \<times> 'd ha_db) outcome" where
  "run_actions cr sanitize opts [] db = Inr ([], db)"
| "run_actions cr sanitize opts (Append i # as) db = then_do (appendInTx cr sanitize opts i db) (\<lambda>(h, db1).
     then_do (run_actions cr sanitize opts as db1) (\<lambda>(hs, db2). Inr (h # hs, db2)))"
| "run_actions cr sanitize opts (Mutate f # as) db = then_do (f (db_data db)) (\<lambda>d.
     run_actions cr sanitize opts as (db\<lparr>db_data := d\<rparr>))"

definition withOutboxTx ::
    "webcrypto \<Rightarrow> (jsval \<Rightarrow> jsval outcome) \<Rightarrow> outbox_options \<Rightarrow> string \<Rightarrow> ('d ha_db \<Rightarrow> unit outcome) \<Rightarrow> tx_env
       \<Rightarrow> 'd tx_action list \<Rightarrow> 'd ha_db \<Rightarrow> outbox_header list outcome \<times> 'd ha_db" where
  "withOutboxTx cr sanitize opts schema preCommitCheck env as = critical env schema (\<lambda>db.
     then_do (run_actions cr sanitize opts as db) (\<lambda>(hs, db1).
       then_do (if hs \<noteq> [] then preCommitCheck db1 else Inr ()) (\<lambda>_. Inr (hs, db1))))"

section \<open>PgDurablePublisher\<close>

datatype receiver_decision = Applied | DuplicateOk | RejectGap | RejectFork | RejectStale | RejectEpoch | RejectFence | RejectUnsanitized

fun decision_text :: "receiver_decision \<Rightarrow> ustr" where
  "decision_text Applied = units ''applied''"
| "decision_text DuplicateOk = units ''duplicate-ok''"
| "decision_text RejectGap = units ''reject-gap''"
| "decision_text RejectFork = units ''reject-fork''"
| "decision_text RejectStale = units ''reject-stale''"
| "decision_text RejectEpoch = units ''reject-epoch''"
| "decision_text RejectFence = units ''reject-fence''"
| "decision_text RejectUnsanitized = units ''reject-unsanitized''"

definition ACK_DECISIONS :: "ustr list" where
  "ACK_DECISIONS = map units [''applied'', ''duplicate-ok'']"

definition TRANSIENT_DECISIONS :: "ustr list" where
  "TRANSIENT_DECISIONS = map units [''reject-gap'', ''reject-fence'']"

definition TERMINAL_DECISIONS :: "ustr list" where
  "TERMINAL_DECISIONS = map units [''reject-fork'', ''reject-stale'', ''reject-unsanitized'', ''reject-epoch'']"

definition KNOWN_DECISIONS :: "ustr list" where
  "KNOWN_DECISIONS = ACK_DECISIONS @ TRANSIENT_DECISIONS @ TERMINAL_DECISIONS"

record ack_receipt =
  ar_streamId :: ustr
  ar_sourceEpoch :: ustr
  ar_sequence :: int
  ar_opDigest :: ustr
  ar_decision :: ustr
  ar_receiverId :: ustr
  ar_keyId :: ustr
  ar_issuedAt :: ustr
  ar_signature :: ustr

definition receipt_value :: "ack_receipt \<Rightarrow> jsval" where
  "receipt_value r = data_props [(''streamId'', VStr (ar_streamId r)), (''sourceEpoch'', VStr (ar_sourceEpoch r)),
     (''sequence'', VNum (Whole (ar_sequence r))), (''opDigest'', VStr (ar_opDigest r)), (''decision'', VStr (ar_decision r)),
     (''receiverId'', VStr (ar_receiverId r)), (''keyId'', VStr (ar_keyId r)), (''issuedAt'', VStr (ar_issuedAt r)),
     (''signature'', VStr (ar_signature r))]"

definition snapshotAckReceipt :: "ack_receipt \<Rightarrow> ack_receipt outcome" where
  "snapshotAckReceipt r = then_do (contract (snapshotJson (receipt_value r))) (\<lambda>_.
     then_do (ensure (is_safe_integer (ar_sequence r) \<and> 1 \<le> ar_sequence r) ''ACK receipt has invalid field types'') (\<lambda>_. Inr r))"

record publisher =
  pb_streamId :: ustr
  pb_schema :: string
  pb_leaseMs :: int

definition new_publisher :: "ready_state option \<Rightarrow> nat \<Rightarrow> ustr \<Rightarrow> int \<Rightarrow> publisher outcome" where
  "new_publisher token db streamId leaseMs =
     (if \<not> is_safe_integer leaseMs \<or> leaseMs \<le> 0 then invalid ''leaseMs must be a positive safe integer''
      else then_do (requireReady token db) (\<lambda>schema. Inr \<lparr>pb_streamId = streamId, pb_schema = schema, pb_leaseMs = leaseMs\<rparr>))"

definition acquireLease :: "publisher \<Rightarrow> tx_env \<Rightarrow> int \<Rightarrow> ustr \<Rightarrow> 'd ha_db \<Rightarrow> bool outcome \<times> 'd ha_db" where
  "acquireLease p env now token = critical env (pb_schema p) (\<lambda>db.
     let free = (case jm_get (db_lease db) (pb_streamId p) of None \<Rightarrow> True | Some None \<Rightarrow> True | Some (Some (t, u)) \<Rightarrow> u < now)
     in Inr (free, if free then db\<lparr>db_lease := jm_set (pb_streamId p) (Some (token, now + pb_leaseMs p)) (db_lease db)\<rparr> else db))"

definition holds_lease :: "publisher \<Rightarrow> ustr \<Rightarrow> 'd ha_db \<Rightarrow> bool" where
  "holds_lease p token db = (case jm_get (db_lease db) (pb_streamId p) of Some (Some (t, u)) \<Rightarrow> t = token | _ \<Rightarrow> False)"

definition releaseLease :: "publisher \<Rightarrow> tx_env \<Rightarrow> ustr \<Rightarrow> 'd ha_db \<Rightarrow> unit outcome \<times> 'd ha_db" where
  "releaseLease p env token = critical env (pb_schema p) (\<lambda>db.
     Inr ((), if holds_lease p token db then db\<lparr>db_lease := jm_set (pb_streamId p) None (db_lease db)\<rparr> else db))"

text \<open>The lowest row that is not acknowledged; rows of equal sequence in the order of the table.\<close>

definition lowest_row :: "ustr \<Rightarrow> 'd ha_db \<Rightarrow> outbox_row option" where
  "lowest_row s db = (case sort_key rw_sequence (filter (\<lambda>r. rw_streamId r = s \<and> \<not> rw_acked r) (db_rows db)) of
     [] \<Rightarrow> None | r # _ \<Rightarrow> Some r)"

definition nextDeliverable :: "publisher \<Rightarrow> tx_env \<Rightarrow> ustr \<Rightarrow> 'd ha_db \<Rightarrow> outbox_row option outcome \<times> 'd ha_db" where
  "nextDeliverable p env token = critical env (pb_schema p) (\<lambda>db.
     then_do (ensure (holds_lease p token db) ''publisher lease lost - aborting drain'') (\<lambda>_.
       Inr (case lowest_row (pb_streamId p) db of None \<Rightarrow> None | Some r \<Rightarrow> if rw_quarantined r then None else Some r, db)))"

text \<open>The row as the driver returns it: bigint and numeric columns are text.\<close>

definition row_value :: "outbox_row \<Rightarrow> jsval" where
  "row_value r = data_props [(''source_epoch'', VStr (rw_sourceEpoch r)), (''sequence'', VStr (units (int_to_dec (rw_sequence r)))),
     (''fence_token'', VStr (units (int_to_dec (rw_fenceToken r)))), (''op_digest'', VStr (rw_opDigest r)),
     (''mutation'', plain (rw_mutation r))]"

definition row_record :: "ustr \<Rightarrow> outbox_row \<Rightarrow> outbox_record" where
  "row_record s r = \<lparr>oh_contractVersion = HA_OUTBOX_CONTRACT_VERSION, oh_streamId = s, oh_sourceEpoch = rw_sourceEpoch r,
     oh_sequence = rw_sequence r, oh_fenceToken = units (int_to_dec (rw_fenceToken r)), oh_opDigest = rw_opDigest r,
     or_mutation = plain (rw_mutation r)\<rparr>"

text \<open>From the row to the record that is delivered; \<open>assertSanitized\<close> is the sanitizer's verdict.\<close>

definition validate_row :: "webcrypto \<Rightarrow> (jsval \<Rightarrow> bool) \<Rightarrow> publisher \<Rightarrow> outbox_row \<Rightarrow> outbox_record outcome" where
  "validate_row cr assertSanitized p r =
     then_do (contract (snapshotJson (row_value r))) (\<lambda>_.
     then_do (safeSeq (rw_sequence r) ''row.sequence'') (\<lambda>_.
     then_do (snapshotRecord (row_record (pb_streamId p) r)) (\<lambda>rec.
     if \<not> assertSanitized (or_mutation rec) then Inl CallbackError
     else then_do (contract (canonicalOpDigest cr (record_op rec))) (\<lambda>recomputed.
       then_do (ensure (recomputed = oh_opDigest rec) ''corrupted outbox row: digest mismatch'') (\<lambda>_. Inr rec)))))"

definition quarantineRecord :: "publisher \<Rightarrow> tx_env \<Rightarrow> ustr \<Rightarrow> outbox_header \<Rightarrow> ustr \<Rightarrow> 'd ha_db \<Rightarrow> unit outcome \<times> 'd ha_db" where
  "quarantineRecord p env token h decision = critical env (pb_schema p) (\<lambda>db.
     let key = (pb_streamId p, oh_sourceEpoch h, oh_sequence h)
     in then_do (ensure (holds_lease p token db) ''publisher lease lost - not quarantining'') (\<lambda>_.
        then_do (case jm_get (db_quarantine db) key of
            None \<Rightarrow> Inr (db\<lparr>db_quarantine := jm_set key (oh_opDigest h, decision) (db_quarantine db)\<rparr>)
          | Some (d, dec) \<Rightarrow> then_do (ensure (d = oh_opDigest h \<and> dec = decision)
              ''quarantine record conflict: existing digest/decision differ from this record'') (\<lambda>_. Inr db)) (\<lambda>db1.
        case update_rows (\<lambda>r. row_key r = key \<and> \<not> rw_acked r \<and> \<not> rw_quarantined r) (\<lambda>r. r\<lparr>rw_quarantined := True\<rparr>) db1 of
          (n, db2) \<Rightarrow> then_do (affectedOne n ''quarantine mark'') (\<lambda>_. Inr ((), db2)))))"

definition ackRecord :: "publisher \<Rightarrow> tx_env \<Rightarrow> ustr \<Rightarrow> outbox_header \<Rightarrow> 'd ha_db \<Rightarrow> unit outcome \<times> 'd ha_db" where
  "ackRecord p env token h = critical env (pb_schema p) (\<lambda>db.
     then_do (ensure (holds_lease p token db) ''publisher lease lost - not acking'') (\<lambda>_.
     case update_rows (\<lambda>r. row_key r = (pb_streamId p, oh_sourceEpoch h, oh_sequence h) \<and> \<not> rw_acked r
         \<and> \<not> rw_quarantined r \<and> rw_opDigest r = oh_opDigest h) (\<lambda>r. r\<lparr>rw_published := True, rw_acked := True\<rparr>) db of
       (n, db1) \<Rightarrow> then_do (affectedOne n ''publisher ack'') (\<lambda>_. Inr ((), db1))))"

text \<open>What the transport came back with: a receipt, or an error whose \<open>retriable\<close> is false or not.\<close>

datatype transport_reply = Delivered ack_receipt | FailedTerminally | Failed

datatype turn_end = NextTurn | Retry | Quarantined

text \<open>
  From the reply on; \<open>verifies\<close> is the acknowledgement verifier. The first component counts whether a
  receipt came back.
\<close>

definition settle ::
    "(ack_receipt \<Rightarrow> outbox_record \<Rightarrow> bool) \<Rightarrow> publisher \<Rightarrow> tx_env \<Rightarrow> ustr \<Rightarrow> outbox_record \<Rightarrow> transport_reply \<Rightarrow> 'd ha_db
       \<Rightarrow> turn_end outcome \<times> 'd ha_db" where
  "settle verifies p env token rec reply db = (let h = outbox_header.truncate rec in case reply of
     Failed \<Rightarrow> (Inl TransportError, db)
   | FailedTerminally \<Rightarrow> (case quarantineRecord p env token h (units ''reject-transport-terminal'') db of
       (Inl e, db1) \<Rightarrow> (Inl e, db1) | (Inr _, db1) \<Rightarrow> (Inr Quarantined, db1))
   | Delivered delivered \<Rightarrow> (case snapshotAckReceipt delivered of
       Inl e \<Rightarrow> (Inl e, db)
     | Inr receipt \<Rightarrow>
         if \<not> verifies receipt rec then (Inl CallbackError, db)
         else if ar_streamId receipt \<noteq> pb_streamId p \<or> ar_sourceEpoch receipt \<noteq> oh_sourceEpoch rec
           \<or> ar_sequence receipt \<noteq> oh_sequence rec \<or> ar_opDigest receipt \<noteq> oh_opDigest rec
         then (invalid ''ACK receipt does not match the delivered record - not acking'', db)
         else if ar_decision receipt \<notin> set KNOWN_DECISIONS then (invalid ''unknown receiver decision'', db)
         else if ar_decision receipt \<in> set ACK_DECISIONS then (case ackRecord p env token h db of
             (Inl e, db1) \<Rightarrow> (Inl e, db1) | (Inr _, db1) \<Rightarrow> (Inr NextTurn, db1))
         else if ar_decision receipt \<in> set TRANSIENT_DECISIONS then (Inr Retry, db)
         else (case quarantineRecord p env token h (ar_decision receipt) db of
             (Inl e, db1) \<Rightarrow> (Inl e, db1) | (Inr _, db1) \<Rightarrow> (Inr Quarantined, db1))))"

record drain_result =
  dr_published :: nat
  dr_acked :: nat
  dr_quarantined :: nat
  dr_retriable :: bool

text \<open>
  The loop of \<open>drainOnce\<close>. \<open>transport\<close> acts on the world outside the source database \<open>'w\<close>; the list
  holds the transactions' environments of each turn (reading, settling), and \<open>None\<close> is a loop still
  running when it ends.
\<close>

fun drain_loop ::
    "webcrypto \<Rightarrow> (jsval \<Rightarrow> bool) \<Rightarrow> (ack_receipt \<Rightarrow> outbox_record \<Rightarrow> bool) \<Rightarrow> (outbox_record \<Rightarrow> 'w \<Rightarrow> transport_reply \<times> 'w)
       \<Rightarrow> publisher \<Rightarrow> ustr \<Rightarrow> (tx_env \<times> tx_env) list \<Rightarrow> drain_result \<Rightarrow> 'd ha_db \<Rightarrow> 'w
       \<Rightarrow> (drain_result outcome \<times> 'd ha_db \<times> 'w) option" where
  "drain_loop cr san ver tr p token [] res db w = None"
| "drain_loop cr san ver tr p token ((e1, e2) # es) res db w =
     (case nextDeliverable p e1 token db of
        (Inl e, db1) \<Rightarrow> Some (Inl e, db1, w)
      | (Inr None, db1) \<Rightarrow> Some (Inr res, db1, w)
      | (Inr (Some r), db1) \<Rightarrow>
          (case validate_row cr san p r of
             Inl e \<Rightarrow> Some (Inl e, db1, w)
           | Inr rec \<Rightarrow>
               (case tr rec w of (reply, w1) \<Rightarrow>
                 let res1 = (case reply of Delivered _ \<Rightarrow> res\<lparr>dr_published := Suc (dr_published res)\<rparr> | _ \<Rightarrow> res)
                 in (case settle ver p e2 token rec reply db1 of
                       (Inl e, db2) \<Rightarrow> Some (Inl e, db2, w1)
                     | (Inr NextTurn, db2) \<Rightarrow> drain_loop cr san ver tr p token es (res1\<lparr>dr_acked := Suc (dr_acked res1)\<rparr>) db2 w1
                     | (Inr Retry, db2) \<Rightarrow> Some (Inr (res1\<lparr>dr_retriable := True\<rparr>), db2, w1)
                     | (Inr Quarantined, db2) \<Rightarrow> Some (Inr (res1\<lparr>dr_quarantined := Suc (dr_quarantined res1)\<rparr>), db2, w1)))))"

definition drainOnce ::
    "webcrypto \<Rightarrow> (jsval \<Rightarrow> bool) \<Rightarrow> (ack_receipt \<Rightarrow> outbox_record \<Rightarrow> bool) \<Rightarrow> (outbox_record \<Rightarrow> 'w \<Rightarrow> transport_reply \<times> 'w)
       \<Rightarrow> publisher \<Rightarrow> int \<Rightarrow> ustr \<Rightarrow> tx_env \<Rightarrow> (tx_env \<times> tx_env) list \<Rightarrow> tx_env \<Rightarrow> 'd ha_db \<Rightarrow> 'w
       \<Rightarrow> (drain_result outcome \<times> 'd ha_db \<times> 'w) option" where
  "drainOnce cr san ver tr p now token e0 es e9 db w =
     (let start = \<lparr>dr_published = 0, dr_acked = 0, dr_quarantined = 0, dr_retriable = False\<rparr>
      in case acquireLease p e0 now token db of
           (Inl e, db1) \<Rightarrow> Some (Inl e, db1, w)
         | (Inr False, db1) \<Rightarrow> Some (Inr (start\<lparr>dr_retriable := True\<rparr>), db1, w)
         | (Inr True, db1) \<Rightarrow>
             (case drain_loop cr san ver tr p token es start db1 w of
                None \<Rightarrow> None
              | Some (res, db2, w2) \<Rightarrow> (case releaseLease p e9 token db2 of
                  (Inl e, db3) \<Rightarrow> Some (Inl e, db3, w2)
                | (Inr _, db3) \<Rightarrow> Some (res, db3, w2))))"

section \<open>PgReceiverCheckpoint\<close>

definition fence_value :: "ustr \<Rightarrow> int" where
  "fence_value t = int (dec_to_nat (map (\<lambda>c. char_of (unat c)) t))"

definition insert_applied :: "ustr \<times> ustr \<times> int \<Rightarrow> ustr \<Rightarrow> 'd ha_db \<Rightarrow> 'd ha_db outcome" where
  "insert_applied key d db = (if jm_get (db_applied db) key \<noteq> None then Inl DatabaseError
     else Inr (db\<lparr>db_applied := jm_set key d (db_applied db)\<rparr>))"

definition verifyAndApplyInTx ::
    "webcrypto \<Rightarrow> (jsval \<Rightarrow> bool) \<Rightarrow> (outbox_record \<Rightarrow> 'd \<Rightarrow> 'd outcome) \<Rightarrow> ustr \<Rightarrow> outbox_record \<Rightarrow> 'd ha_db
       \<Rightarrow> (receiver_decision \<times> 'd ha_db) outcome" where
  "verifyAndApplyInTx cr assertSanitized applyInTx streamId input db =
     then_do (snapshotRecord input) (\<lambda>rec.
     then_do (ensure (oh_streamId rec = streamId) ''streamId mismatch for this receiver'') (\<lambda>_.
     if \<not> assertSanitized (or_mutation rec) then Inr (RejectUnsanitized, db)
     else then_do (contract (canonicalOpDigest cr (record_op rec))) (\<lambda>recomputed.
     if recomputed \<noteq> oh_opDigest rec then Inr (RejectFork, db)
     else case jm_get (db_fence db) (oh_streamId rec) of
       None \<Rightarrow> Inr (RejectFence, db)
     | Some fence \<Rightarrow>
         if fence_value (oh_fenceToken rec) \<noteq> fence then Inr (RejectFence, db)
         else case jm_get (db_receiver db) (oh_streamId rec) of
           None \<Rightarrow> invalid ''receiver stream not provisioned''
         | Some (cpEpoch, stored, lastDigest) \<Rightarrow>
             then_do (safeSeq stored ''receiver.checkpoint.sequence'') (\<lambda>cpSeq.
             let key = (oh_streamId rec, oh_sourceEpoch rec, oh_sequence rec)
             in if oh_sourceEpoch rec \<noteq> cpEpoch then Inr (RejectEpoch, db)
                else if oh_sequence rec \<le> cpSeq
                then (case jm_get (db_applied db) key of
                    None \<Rightarrow> Inr (RejectStale, db)
                  | Some d \<Rightarrow> Inr (if d = oh_opDigest rec then DuplicateOk else RejectFork, db))
                else if cpSeq + 1 < oh_sequence rec then Inr (RejectGap, db)
                else then_do (applyInTx rec (db_data db)) (\<lambda>data.
                  then_do (insert_applied key (oh_opDigest rec) (db\<lparr>db_data := data\<rparr>)) (\<lambda>db1.
                  Inr (Applied, db1\<lparr>db_receiver :=
                    jm_set (oh_streamId rec) (cpEpoch, oh_sequence rec, oh_opDigest rec) (db_receiver db1)\<rparr>)))))))"

definition verifyAndApplyDelivered ::
    "webcrypto \<Rightarrow> (jsval \<Rightarrow> bool) \<Rightarrow> (outbox_record \<Rightarrow> 'd \<Rightarrow> 'd outcome) \<Rightarrow> ustr \<Rightarrow> string \<Rightarrow> tx_env \<Rightarrow> outbox_record \<Rightarrow> 'd ha_db
       \<Rightarrow> receiver_decision outcome \<times> 'd ha_db" where
  "verifyAndApplyDelivered cr assertSanitized applyInTx streamId schema env input db = (case snapshotRecord input of
     Inl e \<Rightarrow> (Inl e, db)
   | Inr captured \<Rightarrow> critical env schema (verifyAndApplyInTx cr assertSanitized applyInTx streamId captured) db)"

definition transitionEpochInTx :: "'a outcome" where
  "transitionEpochInTx = invalid ''epoch transition not implemented in this slice (governed transition is separate)''"

section \<open>PgPromotionFence\<close>

definition fence_acquire :: "tx_env \<Rightarrow> string \<Rightarrow> ustr \<Rightarrow> 'd ha_db \<Rightarrow> int outcome \<times> 'd ha_db" where
  "fence_acquire env schema streamId = critical env schema (\<lambda>db.
     let t = (case jm_get (db_fence db) streamId of None \<Rightarrow> 1 | Some f \<Rightarrow> f + 1)
     in if length streamId < 1 \<or> 512 < length streamId \<or> t < 0 \<or> FENCE_MAX_EXCLUSIVE \<le> t then Inl DatabaseError
        else Inr (t, db\<lparr>db_fence := jm_set streamId t (db_fence db)\<rparr>))"

definition fence_current :: "tx_env \<Rightarrow> string \<Rightarrow> ustr \<Rightarrow> 'd ha_db \<Rightarrow> int outcome \<times> 'd ha_db" where
  "fence_current env schema streamId = critical env schema (\<lambda>db.
     Inr (case jm_get (db_fence db) streamId of None \<Rightarrow> 0 | Some f \<Rightarrow> f, db))"

end
