(* ===== verification/Durable_Laws.thy ===== *)
theory Durable_Laws
  imports Durable_Outbox
begin

text \<open>
  Laws of the durable outbox: a source, a receiver and an untrusted network as one event system whose
  steps are the transactions of the code, its invariant, and its refinement of a replicated log.
\<close>

section \<open>Snapshots are canonical\<close>

fun ordered :: "jnorm \<Rightarrow> bool" where
  "ordered (NArr xs) = list_all ordered xs"
| "ordered (NObj ps) = (sorted (map fst ps) \<and> list_all (\<lambda>(k, v). ordered v) ps)"
| "ordered _ = True"

lemma ordered_normal: "ordered (normal v)"
proof (induction v)
  case (VArr sy xs ex)
  have "ordered (norm_slot (map_option (map_own normal) x))" if "x \<in> set xs" for x
  proof -
    have "ordered (norm_slot (map_option (map_own normal) (Some p)))" if "Some p \<in> set xs" for p
      using VArr that by (cases p) (auto simp: norm_slot_def)
    then show ?thesis using that by (cases x) (auto simp: norm_slot_def)
  qed
  then show ?case by (simp add: list_all_iff)
next
  case (VObj pl sy ps)
  let ?qs = "sort_key fst (map (map_prod id (map_own normal)) ps)"
  have k: "map fst (map (map_prod id (\<lambda>p. norm_slot (Some p))) ?qs) = map fst ?qs" by simp
  have "ordered (norm_slot (Some (map_own normal p)))" if "(k, p) \<in> set ps" for k p
    using VObj that by (cases p) (auto simp: norm_slot_def)
  then have "list_all (\<lambda>(k, v). ordered v) (map (map_prod id (\<lambda>p. norm_slot (Some p))) ?qs)"
    by (auto simp: list_all_iff)
  then show ?case using k sorted_sort_key [of fst] by (simp del: map_map)
qed simp_all

lemma normal_plain: "ordered m \<Longrightarrow> normal (plain m) = m"
proof (induction m rule: ordered.induct)
  case (1 xs)
  then show ?case by (simp add: norm_slot_def comp_def list_all_iff map_idI)
next
  case (2 ps)
  let ?q = "map (\<lambda>(k, v). (k, DataProp v)) ps"
  have "map_prod id (map_own normal) (case x of (k, v) \<Rightarrow> (k, DataProp (plain v))) = (case x of (k, v) \<Rightarrow> (k, DataProp v))"
    if "x \<in> set ps" for x using 2 that by (cases x) (auto simp: list_all_iff)
  then have e: "map (map_prod id (map_own normal)) (map (\<lambda>(k, v). (k, DataProp (plain v))) ps) = ?q" by simp
  have "sorted (map fst ?q)" using 2(2) by (simp add: comp_def case_prod_unfold)
  then have "sort_key fst ?q = ?q" by (rule sort_key_id_if_sorted)
  moreover have "map (map_prod id (\<lambda>p. norm_slot (Some p))) ?q = ps"
    by (simp add: norm_slot_def comp_def case_prod_unfold map_idI)
  ultimately show ?case by (simp only: plain.simps normal.simps e)
qed simp_all

lemma plain_normal [simp]: "plain (normal (plain (normal v))) = plain (normal v)"
  by (simp add: normal_plain ordered_normal)

lemma snapshotJson_iff: "snapshotJson v = returns m \<longleftrightarrow> (\<exists>t. canonicalize_value v = returns t) \<and> m = normal v"
  by (auto simp: snapshotJson_def and_then_Inr_iff)

lemma snapshotRecord_iff:
  "snapshotRecord r = Inr r' \<longleftrightarrow> (\<exists>t. canonicalize_value (record_value r) = returns t)
     \<and> assertHeaderConformant (outbox_header.truncate r) = returns () \<and> r' = r\<lparr>or_mutation := plain (normal (or_mutation r))\<rparr>"
  by (auto simp: snapshotRecord_def then_do_Inr_iff snapshotJson_iff)

section \<open>Transactions\<close>

lemma critical_cases:
  "(\<exists>e. critical env schema body db = (Inl e, db))
   \<or> (\<exists>v db'. body db = Inr (v, db') \<and> (critical env schema body db = (Inr v, db') \<or> critical env schema body db = (Inl DatabaseError, db')))"
  by (auto simp: critical_def transaction_def split: sum.split commit.split
      dest!: then_do_Inr_iff [THEN iffD1])

lemma critical_Inr: "critical env schema body db = (Inr v, db') \<Longrightarrow> body db = Inr (v, db')"
  by (auto simp: critical_def transaction_def then_do_Inr_iff split: sum.splits commit.splits)

lemma critical_change: "snd (critical env schema body db) \<noteq> db \<Longrightarrow> \<exists>v. body db = Inr (v, snd (critical env schema body db))"
  using critical_cases [of env schema body db] by auto

section \<open>The source\<close>

definition stream_rows :: "ustr \<Rightarrow> 'd ha_db \<Rightarrow> outbox_row list" where
  "stream_rows s db = filter (\<lambda>r. rw_streamId r = s) (db_rows db)"

text \<open>What an append writes.\<close>

lemma append_writes:
  assumes "appendInTx cr san opts i db = Inr (h, db')"
  obtains e n v where "ap_streamId i = oo_streamId opts" "jm_get (db_fence db) (oo_streamId opts) = Some (ap_fenceToken i)"
    "int (length (pending_rows (oo_streamId opts) db)) < oo_maxPendingRows opts"
    "jm_get (db_source db) (oo_streamId opts) = Some (e, n)" "0 \<le> n" "n < MAX_SAFE_INTEGER" "0 \<le> ap_fenceToken i"
    "canonicalOpDigest cr (record_op (row_record (oo_streamId opts)
      (new_row (oo_streamId opts) e (n + 1) (ap_fenceToken i) (oh_opDigest h) (normal v)))) = returns (oh_opDigest h)"
    "db' = db\<lparr>db_rows := db_rows db @ [new_row (oo_streamId opts) e (n + 1) (ap_fenceToken i) (oh_opDigest h) (normal v)],
      db_source := jm_set (oo_streamId opts) (e, n + 1) (db_source db)\<rparr>"
proof -
  obtain v fd where v: "ap_streamId i = oo_streamId opts" "fd = units (int_to_dec (ap_fenceToken i))" "0 \<le> ap_fenceToken i"
    and rest: "(case jm_get (db_fence db) (ap_streamId i) of
       None \<Rightarrow> invalid ''no authoritative fence row - stream not provisioned (fail closed)''
     | Some persistedFence \<Rightarrow>
         if ap_fenceToken i \<noteq> persistedFence then Inl (StaleFenceError (ap_fenceToken i) persistedFence)
         else if oo_maxPendingRows opts \<le> int (length (pending_rows (ap_streamId i) db)) then Inl OutboxBackpressureError
         else case jm_get (db_source db) (ap_streamId i) of
           None \<Rightarrow> invalid ''stream not provisioned (no source checkpoint row)''
         | Some (sourceEpoch, stored) \<Rightarrow>
             then_do (safeSeq stored ''source.checkpoint.sequence'') (\<lambda>cur.
             then_do (ensure (cur < MAX_SAFE_INTEGER) ''source sequence exhausted safe-integer range'') (\<lambda>_.
             then_do (contract (canonicalOpDigest cr \<lparr>od_streamId = ap_streamId i, od_sourceEpoch = sourceEpoch,
                 od_sequence = cur + 1, od_fenceToken = fd, od_mutation = plain (normal v)\<rparr>)) (\<lambda>opDigest.
             then_do (insert_row (new_row (ap_streamId i) sourceEpoch (cur + 1) (ap_fenceToken i) opDigest (normal v)) db) (\<lambda>db1.
             let db2 = db1\<lparr>db_source := jm_set (ap_streamId i) (sourceEpoch, cur + 1) (db_source db1)\<rparr>;
                 header = \<lparr>oh_contractVersion = HA_OUTBOX_CONTRACT_VERSION, oh_streamId = ap_streamId i,
                   oh_sourceEpoch = sourceEpoch, oh_sequence = cur + 1, oh_fenceToken = fd, oh_opDigest = opDigest\<rparr>
             in then_do (contract (assertHeaderConformant header)) (\<lambda>_. Inr (header, db2))))))) = Inr (h, db')"
    using assms unfolding appendInTx_def then_do_Inr_iff snapshotJson_iff contract_Inr_iff ensure_Inr_iff
    by (elim exE conjE) (auto simp: fenceTokenToDecimal_def split: if_splits)
  from rest obtain e n where en: "jm_get (db_fence db) (ap_streamId i) = Some (ap_fenceToken i)"
      "int (length (pending_rows (ap_streamId i) db)) < oo_maxPendingRows opts" "jm_get (db_source db) (ap_streamId i) = Some (e, n)"
    by (auto split: option.splits if_splits)
  show thesis
  proof (rule that [of e n v])
    show "0 \<le> n" "n < MAX_SAFE_INTEGER"
      "canonicalOpDigest cr (record_op (row_record (oo_streamId opts)
        (new_row (oo_streamId opts) e (n + 1) (ap_fenceToken i) (oh_opDigest h) (normal v)))) = returns (oh_opDigest h)"
      "db' = db\<lparr>db_rows := db_rows db @ [new_row (oo_streamId opts) e (n + 1) (ap_fenceToken i) (oh_opDigest h) (normal v)],
        db_source := jm_set (oo_streamId opts) (e, n + 1) (db_source db)\<rparr>"
      using rest en v by (auto simp: then_do_Inr_iff safeSeq_def insert_row_def Let_def record_op_def row_record_def new_row_def
          split: if_splits)
  qed (use en v in auto)
qed

end
