(* ===== verification/Durable_System.thy ===== *)
theory Durable_System
  imports Durable_Laws
begin

text \<open>
  A source, its publishers, an untrusted network and a receiver: every step is one transaction of the
  code, in any order, by any number of processes, with any outcome of its commit. The network delivers
  what was sent, late, repeatedly, out of order or never, and hands the publisher any reply; the
  acknowledgement verifier accepts the receipts the receiver issued. The invariant of this system and its
  refinement of a replicated log.
\<close>

section \<open>The system\<close>

record ('c, 'd) deployment =
  dp_crypto :: webcrypto
  dp_sanitize :: "jsval \<Rightarrow> jsval outcome"
  dp_sanitized :: "jsval \<Rightarrow> bool"
  dp_options :: outbox_options
  dp_schema :: string
  dp_preCommit :: "'c ha_db \<Rightarrow> unit outcome"
  dp_publisher :: publisher
  dp_apply :: "outbox_record \<Rightarrow> 'd \<Rightarrow> 'd outcome"
  dp_receiverSchema :: string
  dp_sign :: "outbox_record \<Rightarrow> receiver_decision \<Rightarrow> ustr"

abbreviation dp_stream :: "('c, 'd) deployment \<Rightarrow> ustr" where
  "dp_stream D \<equiv> oo_streamId (dp_options D)"

text \<open>The receipt a receiver process returns for the decision on a record.\<close>

definition receiptFor :: "(outbox_record \<Rightarrow> receiver_decision \<Rightarrow> ustr) \<Rightarrow> outbox_record \<Rightarrow> receiver_decision \<Rightarrow> ack_receipt" where
  "receiptFor sign r decision = \<lparr>ar_streamId = oh_streamId r, ar_sourceEpoch = oh_sourceEpoch r, ar_sequence = oh_sequence r,
     ar_opDigest = oh_opDigest r, ar_decision = decision_text decision, ar_receiverId = units ''receiver-A'', ar_keyId = units ''k1'',
     ar_issuedAt = units ''now'', ar_signature = sign r decision\<rparr>"

record ('c, 'd) sys =
  sy_src :: "'c ha_db"
  sy_dst :: "'d ha_db"
  sy_sent :: "outbox_record list"
  sy_issued :: "ack_receipt list"

datatype 'c sys_event =
    Write tx_env "'c tx_action list"
  | Lease tx_env int ustr
  | Unlease tx_env ustr
  | Send tx_env ustr
  | Receive tx_env outbox_record
  | Settle tx_env ustr outbox_record transport_reply
  | PromoteSource tx_env
  | PromoteReceiver tx_env

fun sys_step :: "('c, 'd) deployment \<Rightarrow> ('c, 'd) sys \<Rightarrow> 'c sys_event \<Rightarrow> ('c, 'd) sys" where
  "sys_step D c (Write env as) = c\<lparr>sy_src := snd (withOutboxTx (dp_crypto D) (dp_sanitize D) (dp_options D) (dp_schema D)
     (dp_preCommit D) env as (sy_src c))\<rparr>"
| "sys_step D c (Lease env now token) = c\<lparr>sy_src := snd (acquireLease (dp_publisher D) env now token (sy_src c))\<rparr>"
| "sys_step D c (Unlease env token) = c\<lparr>sy_src := snd (releaseLease (dp_publisher D) env token (sy_src c))\<rparr>"
| "sys_step D c (Send env token) =
     (case nextDeliverable (dp_publisher D) env token (sy_src c) of
        (Inr (Some r), db) \<Rightarrow> (case validate_row (dp_crypto D) (dp_sanitized D) (dp_publisher D) r of
            Inl e \<Rightarrow> c\<lparr>sy_src := db\<rparr> | Inr rec \<Rightarrow> c\<lparr>sy_src := db, sy_sent := rec # sy_sent c\<rparr>)
      | (_, db) \<Rightarrow> c\<lparr>sy_src := db\<rparr>)"
| "sys_step D c (Receive env rec) =
     (if rec \<notin> set (sy_sent c) then c
      else case verifyAndApplyDelivered (dp_crypto D) (dp_sanitized D) (dp_apply D) (dp_stream D) (dp_receiverSchema D) env rec (sy_dst c) of
        (Inl e, db) \<Rightarrow> c\<lparr>sy_dst := db\<rparr>
      | (Inr d, db) \<Rightarrow> c\<lparr>sy_dst := db, sy_issued := receiptFor (dp_sign D) rec d # sy_issued c\<rparr>)"
| "sys_step D c (Settle env token rec reply) =
     (if rec \<notin> set (sy_sent c) then c
      else c\<lparr>sy_src := snd (settle (\<lambda>r _. r \<in> set (sy_issued c)) (dp_publisher D) env token rec reply (sy_src c))\<rparr>)"
| "sys_step D c (PromoteSource env) = c\<lparr>sy_src := snd (fence_acquire env (dp_schema D) (dp_stream D) (sy_src c))\<rparr>"
| "sys_step D c (PromoteReceiver env) = c\<lparr>sy_dst := snd (fence_acquire env (dp_receiverSchema D) (dp_stream D) (sy_dst c))\<rparr>"

text \<open>The operations of the system on one stream, freshly provisioned on both sides.\<close>

definition provisioned :: "('c, 'd) deployment \<Rightarrow> ustr \<Rightarrow> ('c, 'd) sys \<Rightarrow> bool" where
  "provisioned D e c = (pb_streamId (dp_publisher D) = dp_stream D \<and> 0 < oo_maxPendingRows (dp_options D)
     \<and> jm_get (db_source (sy_src c)) (dp_stream D) = Some (e, 0) \<and> stream_rows (dp_stream D) (sy_src c) = []
     \<and> (\<exists>d. jm_get (db_receiver (sy_dst c)) (dp_stream D) = Some (e, 0, d))
     \<and> (\<forall>q. jm_get (db_applied (sy_dst c)) (dp_stream D, e, q) = None)
     \<and> sy_sent c = [] \<and> sy_issued c = [])"

section \<open>The log of the source\<close>

definition src_inv :: "webcrypto \<Rightarrow> ustr \<Rightarrow> ustr \<Rightarrow> int \<Rightarrow> 'c ha_db \<Rightarrow> bool" where
  "src_inv cr s e mx db = ((\<exists>n. jm_get (db_source db) s = Some (e, int n)
       \<and> map rw_sequence (stream_rows s db) = map int [1..<Suc n])
     \<and> (\<forall>r \<in> set (stream_rows s db). rw_sourceEpoch r = e \<and> (\<exists>v. rw_mutation r = normal v)
         \<and> canonicalOpDigest cr (record_op (row_record s r)) = returns (rw_opDigest r))
     \<and> int (length (pending_rows s db)) \<le> mx)"

definition log_of :: "ustr \<Rightarrow> 'c ha_db \<Rightarrow> outbox_record list" where
  "log_of s db = map (row_record s) (stream_rows s db)"

text \<open>Only rows at the end, none of them settled yet.\<close>

definition extends :: "ustr \<Rightarrow> 'c ha_db \<Rightarrow> 'c ha_db \<Rightarrow> bool" where
  "extends s db db' = (\<exists>rs. stream_rows s db' = stream_rows s db @ rs \<and> list_all (\<lambda>r. \<not> rw_acked r \<and> \<not> rw_quarantined r) rs)"

lemma extends_refl [simp]: "extends s db db"
  by (simp add: extends_def)

lemma extends_trans: "extends s a b \<Longrightarrow> extends s b c \<Longrightarrow> extends s a c"
  by (auto simp: extends_def)

lemma stream_rows_append: "stream_rows s (db\<lparr>db_rows := db_rows db @ [r], db_source := x\<rparr>)
    = stream_rows s db @ (if rw_streamId r = s then [r] else [])"
  by (simp add: stream_rows_def)

lemma append_step:
  assumes "appendInTx cr san opts i db = Inr (h, db')" "src_inv cr (oo_streamId opts) e (oo_maxPendingRows opts) db"
  shows "src_inv cr (oo_streamId opts) e (oo_maxPendingRows opts) db' \<and> extends (oo_streamId opts) db db'"
proof -
  let ?s = "oo_streamId opts"
  obtain n where n: "jm_get (db_source db) ?s = Some (e, int n)" "map rw_sequence (stream_rows ?s db) = map int [1..<Suc n]"
    using assms(2) by (auto simp: src_inv_def)
  obtain v where w: "int (length (pending_rows ?s db)) < oo_maxPendingRows opts"
      "canonicalOpDigest cr (record_op (row_record ?s (new_row ?s e (int n + 1) (ap_fenceToken i) (oh_opDigest h) (normal v))))
        = returns (oh_opDigest h)"
      "db' = db\<lparr>db_rows := db_rows db @ [new_row ?s e (int n + 1) (ap_fenceToken i) (oh_opDigest h) (normal v)],
        db_source := jm_set ?s (e, int n + 1) (db_source db)\<rparr>"
    by (rule append_writes [OF assms(1)]) (use n in auto)
  let ?r = "new_row ?s e (int n + 1) (ap_fenceToken i) (oh_opDigest h) (normal v)"
  have r: "stream_rows ?s db' = stream_rows ?s db @ [?r]" unfolding w(3) stream_rows_append by (simp add: new_row_def)
  have "map rw_sequence (stream_rows ?s db') = map int [1..<Suc (Suc n)]"
    using n(2) unfolding r by (simp add: new_row_def)
  moreover have "jm_get (db_source db') ?s = Some (e, int (Suc n))" unfolding w(3) by simp
  moreover have "int (length (pending_rows ?s db')) \<le> oo_maxPendingRows opts"
    using w(1) unfolding w(3) by (simp add: pending_rows_def new_row_def)
  moreover have "\<forall>r \<in> set (stream_rows ?s db'). rw_sourceEpoch r = e \<and> (\<exists>v. rw_mutation r = normal v)
      \<and> canonicalOpDigest cr (record_op (row_record ?s r)) = returns (rw_opDigest r)"
    using assms(2) w(2) unfolding r src_inv_def by (auto simp: new_row_def)
  moreover have "extends ?s db db'" unfolding extends_def r by (simp add: new_row_def)
  ultimately show ?thesis unfolding src_inv_def by blast
qed

lemma src_inv_data [simp]: "src_inv cr s e mx (db\<lparr>db_data := d\<rparr>) = src_inv cr s e mx db"
  "stream_rows s (db\<lparr>db_data := d\<rparr>) = stream_rows s db"
  by (simp_all add: src_inv_def stream_rows_def pending_rows_def)

lemma actions_step:
  "run_actions cr san opts as db = Inr (hs, db') \<Longrightarrow> src_inv cr (oo_streamId opts) e (oo_maxPendingRows opts) db \<Longrightarrow>
    src_inv cr (oo_streamId opts) e (oo_maxPendingRows opts) db' \<and> extends (oo_streamId opts) db db'"
proof (induction cr san opts as db arbitrary: hs rule: run_actions.induct)
  case (2 cr san opts i as db)
  then obtain h db1 hs1 where 1: "appendInTx cr san opts i db = Inr (h, db1)" "run_actions cr san opts as db1 = Inr (hs1, db')"
    by (auto simp: then_do_Inr_iff)
  from append_step [OF 1(1) 2(3)] 2(1) [OF 1(2)] show ?case by (auto intro: extends_trans)
next
  case (3 cr san opts f as db)
  then show ?case by (auto simp: then_do_Inr_iff extends_def)
qed simp

section \<open>Settling\<close>

lemma stream_rows_map:
  "(\<And>r. rw_streamId (g r) = rw_streamId r) \<Longrightarrow> stream_rows s (db\<lparr>db_rows := map g (db_rows db)\<rparr>) = map g (stream_rows s db)"
  by (simp add: stream_rows_def filter_map comp_def)

text \<open>Flags are all that changes in a row.\<close>

definition same_core :: "outbox_row \<Rightarrow> outbox_row \<Rightarrow> bool" where
  "same_core r r' = (row_key r' = row_key r \<and> rw_fenceToken r' = rw_fenceToken r \<and> rw_opDigest r' = rw_opDigest r
     \<and> rw_mutation r' = rw_mutation r)"

definition flags_only :: "ustr \<Rightarrow> 'c ha_db \<Rightarrow> (outbox_row \<Rightarrow> outbox_row) \<Rightarrow> 'c ha_db \<Rightarrow> bool" where
  "flags_only s db g db' = (db_source db' = db_source db \<and> db_fence db' = db_fence db \<and> db_rows db' = map g (db_rows db)
     \<and> (\<forall>r. same_core r (g r) \<and> (rw_acked r \<longrightarrow> rw_acked (g r)) \<and> (rw_quarantined r \<longrightarrow> rw_quarantined (g r))))"

lemma flags_only_id: "db_source db' = db_source db \<Longrightarrow> db_fence db' = db_fence db \<Longrightarrow> db_rows db' = db_rows db \<Longrightarrow> flags_only s db id db'"
  by (simp add: flags_only_def same_core_def)

lemma flags_only_rows:
  assumes "flags_only s db g db'"
  shows "stream_rows s db' = map g (stream_rows s db)" "log_of s db' = log_of s db"
    "length (pending_rows s db') \<le> length (pending_rows s db)"
proof -
  have c: "same_core r (g r)" "rw_acked r \<Longrightarrow> rw_acked (g r)" "rw_quarantined r \<Longrightarrow> rw_quarantined (g r)" for r
    using assms by (auto simp: flags_only_def)
  then have st: "rw_streamId (g r) = rw_streamId r" for r by (metis same_core_def row_key_def prod.inject)
  have rows: "db_rows db' = map g (db_rows db)" using assms by (simp add: flags_only_def)
  show s: "stream_rows s db' = map g (stream_rows s db)" by (simp add: stream_rows_def rows filter_map comp_def st)
  have "row_record s (g r) = row_record s r" for r using c(1) [of r] by (simp add: row_record_def same_core_def row_key_def)
  then show "log_of s db' = log_of s db" by (simp add: log_of_def s comp_def)
  have "length (filter (\<lambda>r. rw_streamId (g r) = s \<and> \<not> rw_acked (g r) \<and> \<not> rw_quarantined (g r)) rs)
      \<le> length (filter (\<lambda>r. rw_streamId r = s \<and> \<not> rw_acked r \<and> \<not> rw_quarantined r) rs)" for rs
    using c st by (induction rs) (auto intro: le_SucI)
  then show "length (pending_rows s db') \<le> length (pending_rows s db)"
    by (simp add: pending_rows_def rows filter_map comp_def)
qed

lemma flags_only_inv:
  assumes "flags_only s db g db'" "src_inv cr s e mx db"
  shows "src_inv cr s e mx db'"
proof -
  have c: "same_core r (g r)" for r using assms(1) by (simp add: flags_only_def)
  have core: "rw_sourceEpoch (g r) = rw_sourceEpoch r" "rw_sequence (g r) = rw_sequence r" "rw_mutation (g r) = rw_mutation r"
      "rw_opDigest (g r) = rw_opDigest r" "row_record s (g r) = row_record s r" for r
    using c [of r] by (auto simp: same_core_def row_key_def row_record_def)
  show ?thesis using assms(2) flags_only_rows(3) [OF assms(1)] assms(1)
    unfolding src_inv_def flags_only_rows(1) [OF assms(1)] by (auto simp: core comp_def flags_only_def)
qed

definition settled_by :: "publisher \<Rightarrow> outbox_header \<Rightarrow> (outbox_row \<Rightarrow> outbox_row) \<Rightarrow> outbox_row \<Rightarrow> outbox_row" where
  "settled_by p h f = (\<lambda>r. if row_key r = (pb_streamId p, oh_sourceEpoch h, oh_sequence h) \<and> \<not> rw_acked r \<and> \<not> rw_quarantined r
     then f r else r)"

lemma quarantine_flags:
  "\<exists>g. flags_only s db g (snd (quarantineRecord p env token h dec db)) \<and> (g = id \<or> g = settled_by p h (\<lambda>r. r\<lparr>rw_quarantined := True\<rparr>))"
proof (cases "snd (quarantineRecord p env token h dec db) = db")
  case True
  then show ?thesis using flags_only_id [of db db s] by auto
next
  case False
  then obtain v db' where db': "snd (quarantineRecord p env token h dec db) = db'" and body: "(let key = (pb_streamId p, oh_sourceEpoch h, oh_sequence h)
     in then_do (ensure (holds_lease p token db) ''publisher lease lost - not quarantining'') (\<lambda>_.
        then_do (case jm_get (db_quarantine db) key of
            None \<Rightarrow> Inr (db\<lparr>db_quarantine := jm_set key (oh_opDigest h, dec) (db_quarantine db)\<rparr>)
          | Some (d, dec') \<Rightarrow> then_do (ensure (d = oh_opDigest h \<and> dec' = dec)
              ''quarantine record conflict: existing digest/decision differ from this record'') (\<lambda>_. Inr db)) (\<lambda>db1.
        case update_rows (\<lambda>r. row_key r = key \<and> \<not> rw_acked r \<and> \<not> rw_quarantined r) (\<lambda>r. r\<lparr>rw_quarantined := True\<rparr>) db1 of
          (n, db2) \<Rightarrow> then_do (affectedOne n ''quarantine mark'') (\<lambda>_. Inr ((), db2))))) = Inr (v, db')"
    unfolding quarantineRecord_def by (blast dest: critical_change)
  from body have "db_rows db' = map (settled_by p h (\<lambda>r. r\<lparr>rw_quarantined := True\<rparr>)) (db_rows db)
      \<and> db_source db' = db_source db \<and> db_fence db' = db_fence db"
    by (auto simp: Let_def then_do_Inr_iff update_rows_def settled_by_def split: option.splits)
  then show ?thesis unfolding db'
    by (intro exI [of _ "settled_by p h (\<lambda>r. r\<lparr>rw_quarantined := True\<rparr>)"]) (auto simp: flags_only_def same_core_def settled_by_def row_key_def)
qed

lemma ack_flags:
  "\<exists>g. flags_only s db g (snd (ackRecord p env token h db)) \<and> (g = id \<or> g = settled_by p h
      (\<lambda>r. if rw_opDigest r = oh_opDigest h then r\<lparr>rw_published := True, rw_acked := True\<rparr> else r))"
proof (cases "snd (ackRecord p env token h db) = db")
  case True
  then show ?thesis using flags_only_id [of db db s] by auto
next
  case False
  then obtain v db' where db': "snd (ackRecord p env token h db) = db'" and body: "then_do (ensure (holds_lease p token db) ''publisher lease lost - not acking'') (\<lambda>_.
     case update_rows (\<lambda>r. row_key r = (pb_streamId p, oh_sourceEpoch h, oh_sequence h) \<and> \<not> rw_acked r
         \<and> \<not> rw_quarantined r \<and> rw_opDigest r = oh_opDigest h) (\<lambda>r. r\<lparr>rw_published := True, rw_acked := True\<rparr>) db of
       (n, db1) \<Rightarrow> then_do (affectedOne n ''publisher ack'') (\<lambda>_. Inr ((), db1))) = Inr (v, db')"
    unfolding ackRecord_def by (blast dest: critical_change)
  from body have "db' = db\<lparr>db_rows := map (\<lambda>r. if row_key r = (pb_streamId p, oh_sourceEpoch h, oh_sequence h) \<and> \<not> rw_acked r
         \<and> \<not> rw_quarantined r \<and> rw_opDigest r = oh_opDigest h then r\<lparr>rw_published := True, rw_acked := True\<rparr> else r) (db_rows db)\<rparr>"
    by (auto simp: then_do_Inr_iff update_rows_def)
  also have "\<dots> = db\<lparr>db_rows := map (settled_by p h
      (\<lambda>r. if rw_opDigest r = oh_opDigest h then r\<lparr>rw_published := True, rw_acked := True\<rparr> else r)) (db_rows db)\<rparr>"
    by (simp add: settled_by_def)
  finally show ?thesis unfolding db'
    by (intro exI [of _ "settled_by p h (\<lambda>r. if rw_opDigest r = oh_opDigest h then r\<lparr>rw_published := True, rw_acked := True\<rparr> else r)"])
      (auto simp: flags_only_def same_core_def settled_by_def row_key_def)
qed

lemma snd_pass: "snd (case q of (Inl e, d) \<Rightarrow> (Inl e, d) | (Inr v, d) \<Rightarrow> (Inr x, d)) = snd q"
  by (cases q) (simp split: sum.split)

text \<open>Settling marks at most the row of the record, and as acknowledged only on a verified receipt for it.\<close>

lemma settle_flags:
  "\<exists>g. flags_only s db g (snd (settle ver p env token rec reply db)) \<and>
    (\<forall>r. g r \<noteq> r \<longrightarrow> row_key r = (pb_streamId p, oh_sourceEpoch rec, oh_sequence rec) \<and> \<not> rw_acked r \<and> \<not> rw_quarantined r
      \<and> (rw_acked (g r) \<longrightarrow> \<not> rw_quarantined (g r) \<and> (\<exists>receipt. ver receipt rec \<and> ar_streamId receipt = pb_streamId p
           \<and> ar_sourceEpoch receipt = oh_sourceEpoch rec \<and> ar_sequence receipt = oh_sequence rec
           \<and> ar_opDigest receipt = oh_opDigest rec \<and> ar_decision receipt \<in> set ACK_DECISIONS)))"
proof -
  let ?h = "outbox_header.truncate rec"
  have h: "oh_sourceEpoch ?h = oh_sourceEpoch rec" "oh_sequence ?h = oh_sequence rec" by (simp_all add: outbox_header.truncate_def)
  consider (none) "snd (settle ver p env token rec reply db) = db"
    | (quarantine) dec where "snd (settle ver p env token rec reply db) = snd (quarantineRecord p env token ?h dec db)"
    | (ack) receipt where "snd (settle ver p env token rec reply db) = snd (ackRecord p env token ?h db)"
        "ver receipt rec" "ar_streamId receipt = pb_streamId p"
        "ar_sourceEpoch receipt = oh_sourceEpoch rec" "ar_sequence receipt = oh_sequence rec"
        "ar_opDigest receipt = oh_opDigest rec" "ar_decision receipt \<in> set ACK_DECISIONS"
  proof -
    consider (1) "reply = Failed" | (2) "reply = FailedTerminally" | (3) d where "reply = Delivered d" by (cases reply)
    then show thesis
    proof cases
      case 1
      then show ?thesis by (intro none) (simp add: settle_def)
    next
      case 2
      then show ?thesis by (intro quarantine) (simp add: settle_def Let_def snd_pass)
    next
      case 3
      show ?thesis
      proof (cases "snapshotAckReceipt d")
        case (Inl e)
        with 3 show ?thesis by (intro none) (simp add: settle_def)
      next
        case (Inr receipt)
        let ?ok = "ver receipt rec \<and> ar_streamId receipt = pb_streamId p \<and> ar_sourceEpoch receipt = oh_sourceEpoch rec
          \<and> ar_sequence receipt = oh_sequence rec \<and> ar_opDigest receipt = oh_opDigest rec \<and> ar_decision receipt \<in> set KNOWN_DECISIONS"
        consider "\<not> ?ok \<or> ar_decision receipt \<notin> set ACK_DECISIONS \<and> ar_decision receipt \<in> set TRANSIENT_DECISIONS"
          | "?ok" "ar_decision receipt \<in> set ACK_DECISIONS"
          | "?ok" "ar_decision receipt \<notin> set ACK_DECISIONS" "ar_decision receipt \<notin> set TRANSIENT_DECISIONS" by blast
        then show ?thesis
        proof cases
          case 1
          with 3 Inr show ?thesis by (intro none) (auto simp: settle_def Let_def)
        next
          case 2
          with 3 Inr show ?thesis by (intro ack [of receipt]) (simp_all add: settle_def Let_def snd_pass)
        next
          case c: 3
          with 3 Inr show ?thesis by (intro quarantine [of "ar_decision receipt"]) (simp add: settle_def Let_def snd_pass)
        qed
      qed
    qed
  qed
  then show ?thesis
  proof cases
    case none
    then show ?thesis using flags_only_id [of db db s] by (intro exI [of _ id]) simp
  next
    case quarantine
    then obtain g where "flags_only s db g (snd (settle ver p env token rec reply db))"
        "g = id \<or> g = settled_by p ?h (\<lambda>r. r\<lparr>rw_quarantined := True\<rparr>)"
      using quarantine_flags [of s db p env token ?h dec] by auto
    then show ?thesis by (intro exI [of _ g]) (auto simp: settled_by_def h split: if_splits)
  next
    case ack
    then obtain g where "flags_only s db g (snd (settle ver p env token rec reply db))"
        "g = id \<or> g = settled_by p ?h (\<lambda>r. if rw_opDigest r = oh_opDigest ?h then r\<lparr>rw_published := True, rw_acked := True\<rparr> else r)"
      using ack_flags [of s db p env token ?h] by auto
    then show ?thesis using ack(2-7) by (intro exI [of _ g]) (auto simp: settled_by_def h split: if_splits)
  qed
qed

section \<open>The receiver\<close>

fun apply_all :: "(outbox_record \<Rightarrow> 'd \<Rightarrow> 'd outcome) \<Rightarrow> outbox_record list \<Rightarrow> 'd \<Rightarrow> 'd outcome" where
  "apply_all f [] d = Inr d"
| "apply_all f (r # rs) d = then_do (f r d) (apply_all f rs)"

lemma apply_all_append: "apply_all f (rs @ rs') d = then_do (apply_all f rs d) (apply_all f rs')"
proof (induction rs arbitrary: d)
  case (Cons r rs)
  then show ?case by (cases "f r d") simp_all
qed simp

text \<open>The receiver has applied exactly the first \<open>m\<close> records of the log.\<close>

definition dst_inv ::
    "(outbox_record \<Rightarrow> 'd \<Rightarrow> 'd outcome) \<Rightarrow> ustr \<Rightarrow> ustr \<Rightarrow> 'd \<Rightarrow> outbox_record list \<Rightarrow> nat \<Rightarrow> 'd ha_db \<Rightarrow> bool" where
  "dst_inv f s e d0 recs m db = (m \<le> length recs \<and> (\<exists>d. jm_get (db_receiver db) s = Some (e, int m, d))
     \<and> (\<forall>q. jm_get (db_applied db) (s, e, q) = (if 1 \<le> q \<and> q \<le> int m then Some (oh_opDigest (recs ! nat (q - 1))) else None))
     \<and> apply_all f (take m recs) d0 = Inr (db_data db))"

text \<open>A record of the log, as the receiver takes it apart.\<close>

definition genuine :: "ustr \<Rightarrow> ustr \<Rightarrow> outbox_record list \<Rightarrow> outbox_record \<Rightarrow> bool" where
  "genuine s e recs r = (oh_streamId r = s \<and> oh_sourceEpoch r = e \<and> (\<exists>v. or_mutation r = plain (normal v))
     \<and> (\<exists>k < length recs. oh_sequence r = int (Suc k) \<and> recs ! k = r))"

lemma genuine_snapshot: "genuine s e recs r \<Longrightarrow> snapshotRecord r = Inr r' \<Longrightarrow> r' = r"
  by (cases r) (auto simp: genuine_def snapshotRecord_iff)

lemma verify_cases:
  assumes "verifyAndApplyInTx cr san f s r db = Inr (dec, db')" "snapshotRecord r = Inr r"
    "jm_get (db_receiver db) s = Some (e, int m, d)"
  shows "(db' = db \<and> dec \<noteq> Applied \<and> (dec = DuplicateOk \<longrightarrow> oh_sequence r \<le> int m))
    \<or> (dec = Applied \<and> oh_sequence r = int m + 1 \<and> (\<exists>data. f r (db_data db) = Inr data
         \<and> db' = db\<lparr>db_data := data, db_applied := jm_set (oh_streamId r, oh_sourceEpoch r, oh_sequence r) (oh_opDigest r) (db_applied db),
             db_receiver := jm_set s (e, oh_sequence r, oh_opDigest r) (db_receiver db)\<rparr>))"
  using assms
  by (auto simp: verifyAndApplyInTx_def then_do_Inr_iff Let_def safeSeq_def insert_applied_def split: if_splits option.splits)

lemma receive_step:
  assumes "dst_inv f s e d0 recs m db" "genuine s e recs r"
    and "verifyAndApplyDelivered cr san f s schema env r db = (res, db')"
  shows "\<exists>m'. (m' = m \<or> m' = Suc m) \<and> dst_inv f s e d0 recs m' db'
    \<and> (res \<in> {Inr Applied, Inr DuplicateOk} \<longrightarrow> oh_sequence r \<le> int m')"
proof (cases "snapshotRecord r")
  case (Inl err)
  then show ?thesis using assms by (intro exI [of _ m]) (auto simp: verifyAndApplyDelivered_def)
next
  case (Inr r')
  then have r: "snapshotRecord r = Inr r" using genuine_snapshot [OF assms(2)] by blast
  have cv: "critical env schema (verifyAndApplyInTx cr san f s r) db = (res, db')"
    using assms(3) r by (simp add: verifyAndApplyDelivered_def)
  obtain d where rv: "jm_get (db_receiver db) s = Some (e, int m, d)" using assms(1) by (auto simp: dst_inv_def)
  show ?thesis
  proof (cases "db' = db \<and> res \<notin> {Inr Applied, Inr DuplicateOk}")
    case True
    then show ?thesis using assms(1) by (intro exI [of _ m]) auto
  next
    case False
    then obtain dec where v: "verifyAndApplyInTx cr san f s r db = Inr (dec, db')" "res = Inr dec \<or> res = Inl DatabaseError"
      using critical_cases [of env schema "verifyAndApplyInTx cr san f s r" db] cv by auto
    from verify_cases [OF v(1) r rv] show ?thesis
    proof
      assume "db' = db \<and> dec \<noteq> Applied \<and> (dec = DuplicateOk \<longrightarrow> oh_sequence r \<le> int m)"
      then show ?thesis using assms(1) v(2) by (intro exI [of _ m]) auto
    next
      assume a: "dec = Applied \<and> oh_sequence r = int m + 1 \<and> (\<exists>data. f r (db_data db) = Inr data
         \<and> db' = db\<lparr>db_data := data, db_applied := jm_set (oh_streamId r, oh_sourceEpoch r, oh_sequence r) (oh_opDigest r) (db_applied db),
             db_receiver := jm_set s (e, oh_sequence r, oh_opDigest r) (db_receiver db)\<rparr>)"
      then have k: "m < length recs" "recs ! m = r" "oh_streamId r = s" "oh_sourceEpoch r = e"
        using assms(2) by (auto simp: genuine_def)
      have "take (Suc m) recs = take m recs @ [r]" using k(1,2) by (simp add: take_Suc_conv_app_nth)
      then have "apply_all f (take (Suc m) recs) d0 = Inr (db_data db')"
        using a assms(1) by (auto simp: dst_inv_def apply_all_append)
      moreover have "nat (int m) = m" by simp
      ultimately have "dst_inv f s e d0 recs (Suc m) db'"
        using a k assms(1) by (auto simp: dst_inv_def)
      then show ?thesis using a by (intro exI [of _ "Suc m"]) auto
    qed
  qed
qed

lemma dst_inv_extend: "dst_inv f s e d0 recs m db \<Longrightarrow> dst_inv f s e d0 (recs @ rs) m db"
  by (auto simp: dst_inv_def nth_append)

lemma genuine_extend: "genuine s e recs r \<Longrightarrow> genuine s e (recs @ rs) r"
  unfolding genuine_def by (metis length_append nth_append trans_less_add1)

section \<open>The invariant of the system\<close>

definition marks_inv :: "outbox_row list \<Rightarrow> nat \<Rightarrow> bool" where
  "marks_inv rows m = (\<forall>r \<in> set rows. (rw_acked r \<longrightarrow> rw_sequence r \<le> int m \<and> \<not> rw_quarantined r
     \<and> (\<forall>r' \<in> set rows. rw_sequence r' < rw_sequence r \<longrightarrow> rw_acked r')))"

definition sent_inv :: "ustr \<Rightarrow> ustr \<Rightarrow> outbox_record list \<Rightarrow> outbox_row list \<Rightarrow> outbox_record list \<Rightarrow> bool" where
  "sent_inv s e recs rows sent = (\<forall>rec \<in> set sent. genuine s e recs rec
     \<and> (\<forall>r' \<in> set rows. rw_sequence r' < oh_sequence rec \<longrightarrow> rw_acked r'))"

definition issued_inv :: "nat \<Rightarrow> ack_receipt list \<Rightarrow> bool" where
  "issued_inv m rs = (\<forall>r \<in> set rs. ar_decision r \<in> set ACK_DECISIONS \<longrightarrow> ar_sequence r \<le> int m)"

definition sys_inv :: "('c, 'd) deployment \<Rightarrow> ustr \<Rightarrow> 'd \<Rightarrow> nat \<Rightarrow> ('c, 'd) sys \<Rightarrow> bool" where
  "sys_inv D e d0 m c = (src_inv (dp_crypto D) (dp_stream D) e (oo_maxPendingRows (dp_options D)) (sy_src c)
     \<and> dst_inv (dp_apply D) (dp_stream D) e d0 (log_of (dp_stream D) (sy_src c)) m (sy_dst c)
     \<and> marks_inv (stream_rows (dp_stream D) (sy_src c)) m
     \<and> sent_inv (dp_stream D) e (log_of (dp_stream D) (sy_src c)) (stream_rows (dp_stream D) (sy_src c)) (sy_sent c)
     \<and> issued_inv m (sy_issued c))"

lemma provisioned_inv:
  "provisioned D e c \<Longrightarrow> sys_inv D e (db_data (sy_dst c)) 0 c"
  by (auto simp: sys_inv_def provisioned_def src_inv_def dst_inv_def marks_inv_def sent_inv_def issued_inv_def log_of_def
      pending_rows_def stream_rows_def filter_empty_conv)

lemma src_rows:
  assumes "src_inv cr s e mx db" "k < length (stream_rows s db)"
  shows "rw_sequence (stream_rows s db ! k) = int (Suc k)"
proof -
  obtain n where n: "map rw_sequence (stream_rows s db) = map int [1..<Suc n]" using assms(1) by (auto simp: src_inv_def)
  then have "length (stream_rows s db) = n" by (metis diff_Suc_1 length_map length_upt)
  then show ?thesis using assms(2) arg_cong [OF n, of "\<lambda>xs. xs ! k"] by (simp del: upt_Suc)
qed

lemma row_genuine:
  assumes "src_inv cr s e mx db" "r \<in> set (stream_rows s db)"
  shows "genuine s e (log_of s db) (row_record s r)"
proof -
  obtain k where k: "k < length (stream_rows s db)" "stream_rows s db ! k = r" using assms(2) by (auto simp: in_set_conv_nth)
  have "\<exists>v. plain (rw_mutation r) = plain (normal v)" using assms unfolding src_inv_def by metis
  then show ?thesis using assms k src_rows [OF assms(1) k(1)]
    by (auto simp: genuine_def row_record_def log_of_def src_inv_def intro!: exI [of _ k])
qed

text \<open>Steps of the source that only append.\<close>

lemma extend_inv:
  assumes "sys_inv D e d0 m c" "extends (dp_stream D) (sy_src c) db"
    "src_inv (dp_crypto D) (dp_stream D) e (oo_maxPendingRows (dp_options D)) db"
  shows "sys_inv D e d0 m (c\<lparr>sy_src := db\<rparr>)"
proof -
  let ?s = "dp_stream D"
  obtain rs where rs: "stream_rows ?s db = stream_rows ?s (sy_src c) @ rs" "list_all (\<lambda>r. \<not> rw_acked r \<and> \<not> rw_quarantined r) rs"
    using assms(2) by (auto simp: extends_def)
  then have l: "log_of ?s db = log_of ?s (sy_src c) @ map (row_record ?s) rs" by (simp add: log_of_def)
  have above: "rw_sequence r < rw_sequence r'" if "r \<in> set (stream_rows ?s (sy_src c))" "r' \<in> set rs" for r r'
  proof -
    obtain k where k: "k < length (stream_rows ?s (sy_src c))" "stream_rows ?s (sy_src c) ! k = r"
      using \<open>r \<in> set _\<close> by (auto simp: in_set_conv_nth)
    obtain j where j: "j < length rs" "rs ! j = r'" using \<open>r' \<in> set rs\<close> by (auto simp: in_set_conv_nth)
    show ?thesis
      using src_rows [OF assms(3), of k] src_rows [OF assms(3), of "length (stream_rows ?s (sy_src c)) + j"] k j rs(1)
      by (simp add: nth_append)
  qed
  have "oh_sequence rec < rw_sequence r'" if "rec \<in> set (sy_sent c)" "r' \<in> set rs" for rec r'
  proof -
    have "genuine ?s e (log_of ?s (sy_src c)) rec" using assms(1) that(1) by (auto simp: sys_inv_def sent_inv_def)
    then obtain r where "r \<in> set (stream_rows ?s (sy_src c))" "rec = row_record ?s r"
      by (auto simp: genuine_def log_of_def) (metis nth_map nth_mem)
    then show ?thesis using above [of r r'] that(2) by (simp add: row_record_def)
  qed
  then have "sent_inv ?s e (log_of ?s db) (stream_rows ?s db) (sy_sent c)"
    using assms(1) unfolding sys_inv_def sent_inv_def l rs(1)
    by (auto intro: genuine_extend dest: less_asym)
  moreover have "marks_inv (stream_rows ?s db) m"
    using assms(1) rs(2) above unfolding sys_inv_def marks_inv_def rs(1) by (fastforce simp: list_all_iff)
  moreover have "dst_inv (dp_apply D) ?s e d0 (log_of ?s db) m (sy_dst c)"
    using assms(1) unfolding sys_inv_def l by (simp add: dst_inv_extend)
  ultimately show ?thesis using assms(1,3) by (simp add: sys_inv_def)
qed

lemma marks_map:
  assumes "flags_only s db g db'" "marks_inv (stream_rows s db) m"
    and "\<And>r. r \<in> set (stream_rows s db) \<Longrightarrow> \<not> rw_acked r \<Longrightarrow> rw_acked (g r) \<Longrightarrow> rw_sequence r \<le> int m \<and> \<not> rw_quarantined (g r)
      \<and> (\<forall>r' \<in> set (stream_rows s db). rw_sequence r' < rw_sequence r \<longrightarrow> rw_acked r')"
    and "\<And>r. rw_acked r \<Longrightarrow> g r = r"
  shows "marks_inv (stream_rows s db') m"
proof -
  have q: "rw_sequence (g r) = rw_sequence r" "rw_acked r \<Longrightarrow> rw_acked (g r)" for r
    using assms(1) by (auto simp: flags_only_def same_core_def row_key_def)
  show ?thesis
    unfolding marks_inv_def flags_only_rows(1) [OF assms(1)]
  proof (clarsimp simp: q)
    fix r assume r: "r \<in> set (stream_rows s db)" "rw_acked (g r)"
    show "rw_sequence r \<le> int m \<and> \<not> rw_quarantined (g r)
        \<and> (\<forall>r'\<in>set (stream_rows s db). rw_sequence r' < rw_sequence r \<longrightarrow> rw_acked (g r'))"
    proof (cases "rw_acked r")
      case True
      then show ?thesis using assms(2,4) r(1) q(2) by (auto simp: marks_inv_def)
    next
      case False
      then show ?thesis using assms(3) r q(2) by blast
    qed
  qed
qed

text \<open>Steps of the source that set marks; the row of a sent record is the next one in order.\<close>

lemma flags_inv:
  assumes "sys_inv D e d0 m c" "flags_only (dp_stream D) (sy_src c) g db" "\<And>r. rw_acked r \<Longrightarrow> g r = r"
    and "\<And>r. r \<in> set (stream_rows (dp_stream D) (sy_src c)) \<Longrightarrow> \<not> rw_acked r \<Longrightarrow> rw_acked (g r) \<Longrightarrow> \<not> rw_quarantined (g r)
      \<and> rw_sequence r \<le> int m \<and> (\<exists>rec \<in> set (sy_sent c). oh_sequence rec = rw_sequence r)"
  shows "sys_inv D e d0 m (c\<lparr>sy_src := db\<rparr>)"
proof -
  let ?s = "dp_stream D"
  note I = assms(1) [unfolded sys_inv_def]
  have low: "\<forall>r' \<in> set (stream_rows ?s (sy_src c)). rw_sequence r' < oh_sequence rec \<longrightarrow> rw_acked r'" if "rec \<in> set (sy_sent c)" for rec
    using I that by (auto simp: sent_inv_def)
  have "marks_inv (stream_rows ?s db) m"
  proof (rule marks_map [OF assms(2)])
    fix r assume r: "r \<in> set (stream_rows ?s (sy_src c))" "\<not> rw_acked r" "rw_acked (g r)"
    from assms(4) [OF this] obtain rec where "rec \<in> set (sy_sent c)" "oh_sequence rec = rw_sequence r" by blast
    with low [of rec] assms(4) [OF r]
    show "rw_sequence r \<le> int m \<and> \<not> rw_quarantined (g r)
        \<and> (\<forall>r' \<in> set (stream_rows ?s (sy_src c)). rw_sequence r' < rw_sequence r \<longrightarrow> rw_acked r')" by auto
  qed (use I assms(3) in auto)
  moreover have "rw_sequence (g r) = rw_sequence r" "rw_acked r \<Longrightarrow> rw_acked (g r)" for r
    using assms(2) by (auto simp: flags_only_def same_core_def row_key_def)
  then have "sent_inv ?s e (log_of ?s db) (stream_rows ?s db) (sy_sent c)"
    using I low unfolding sent_inv_def flags_only_rows(1) [OF assms(2)] flags_only_rows(2) [OF assms(2)] by auto
  ultimately show ?thesis using I flags_only_inv [OF assms(2)] flags_only_rows(2) [OF assms(2)] by (simp add: sys_inv_def)
qed

lemma critical_ind:
  "(\<And>v db'. body db = Inr (v, db') \<Longrightarrow> P db') \<Longrightarrow> P db \<Longrightarrow> P (snd (critical env schema body db))"
  using critical_cases [of env schema body db] by auto

lemma critical_flags:
  assumes "\<And>v db'. body db = Inr (v, db') \<Longrightarrow> flags_only s db id db'"
  shows "flags_only s db id (snd (critical env schema body db))"
  by (rule critical_ind [OF assms]) (simp_all add: flags_only_id)

lemma lease_flags:
  "flags_only s db id (snd (acquireLease p env now token db))" "flags_only s db id (snd (releaseLease p env token db))"
  "flags_only s db id (snd (nextDeliverable p env token db))"
proof -
  show "flags_only s db id (snd (acquireLease p env now token db))"
    unfolding acquireLease_def by (rule critical_flags) (auto simp: Let_def intro!: flags_only_id split: if_splits)
  show "flags_only s db id (snd (releaseLease p env token db))"
    unfolding releaseLease_def by (rule critical_flags) (auto intro!: flags_only_id split: if_splits)
  show "flags_only s db id (snd (nextDeliverable p env token db))"
    unfolding nextDeliverable_def by (rule critical_flags) (auto simp: then_do_Inr_iff intro!: flags_only_id)
qed

lemma fence_rows:
  "db_rows (snd (fence_acquire env schema t db)) = db_rows db" "db_source (snd (fence_acquire env schema t db)) = db_source db"
  "db_receiver (snd (fence_acquire env schema t db)) = db_receiver db" "db_applied (snd (fence_acquire env schema t db)) = db_applied db"
  "db_data (snd (fence_acquire env schema t db)) = db_data db"
proof -
  have "snd (fence_acquire env schema t db) = db \<or> (\<exists>f. snd (fence_acquire env schema t db) = db\<lparr>db_fence := f\<rparr>)"
    unfolding fence_acquire_def
    by (rule critical_ind) (auto simp: Let_def split: if_splits)
  then show "db_rows (snd (fence_acquire env schema t db)) = db_rows db" "db_source (snd (fence_acquire env schema t db)) = db_source db"
    "db_receiver (snd (fence_acquire env schema t db)) = db_receiver db" "db_applied (snd (fence_acquire env schema t db)) = db_applied db"
    "db_data (snd (fence_acquire env schema t db)) = db_data db" by auto
qed

lemma lowest_row_facts:
  assumes "lowest_row s db = Some r"
  shows "r \<in> set (stream_rows s db)" "\<not> rw_acked r"
    "r' \<in> set (stream_rows s db) \<Longrightarrow> rw_sequence r' < rw_sequence r \<Longrightarrow> rw_acked r'"
proof -
  let ?f = "filter (\<lambda>r. rw_streamId r = s \<and> \<not> rw_acked r) (db_rows db)"
  obtain rs where rs: "sort_key rw_sequence ?f = r # rs" using assms by (auto simp: lowest_row_def split: list.splits)
  have mem: "set (sort_key rw_sequence ?f) = set ?f" by simp
  then have "r \<in> set ?f" unfolding rs by (metis list.set_intros(1))
  then show "r \<in> set (stream_rows s db)" "\<not> rw_acked r" by (auto simp: stream_rows_def)
  have "\<forall>x \<in> set rs. rw_sequence r \<le> rw_sequence x" using sorted_sort_key [of rw_sequence ?f] unfolding rs by simp
  then show "rw_acked r'" if "r' \<in> set (stream_rows s db)" "rw_sequence r' < rw_sequence r"
    using that mem unfolding rs by (force simp: stream_rows_def)
qed

lemma validate_row_record:
  assumes "validate_row cr san p r = Inr rec" "rw_mutation r = normal v"
  shows "rec = row_record (pb_streamId p) r"
  using assms by (auto simp: validate_row_def then_do_Inr_iff snapshotRecord_iff row_record_def split: if_splits)

section \<open>The abstract log\<close>

text \<open>What the system promises: a log that only grows, and a receiver that works through it in order.\<close>

inductive spec_step :: "outbox_record list \<times> nat \<Rightarrow> outbox_record list \<times> nat \<Rightarrow> bool" where
  spec_append: "spec_step (l, m) (l @ rs, m)"
| spec_apply: "m < length l \<Longrightarrow> spec_step (l, m) (l, Suc m)"

inductive_cases spec_stepE: "spec_step (l, m) (l', m')"

lemma spec_stutter: "spec_step (l, m) (l, m)"
  using spec_append [of l m "[]"] by simp

lemma nextDeliverable_row:
  "nextDeliverable p env token db = (Inr (Some r), db') \<Longrightarrow>
    db' = db \<and> lowest_row (pb_streamId p) db = Some r \<and> \<not> rw_quarantined r \<and> holds_lease p token db"
  unfolding nextDeliverable_def
  by (drule critical_Inr) (auto simp: then_do_Inr_iff split: option.splits if_splits)

lemma settle_sound:
  obtains g where "flags_only s db g (snd (settle (\<lambda>r _. r \<in> R) p env token rec reply db))" "\<forall>r. rw_acked r \<longrightarrow> g r = r"
    "\<forall>r. \<not> rw_acked r \<and> rw_acked (g r) \<longrightarrow> \<not> rw_quarantined (g r) \<and> rw_sequence r = oh_sequence rec
        \<and> (\<exists>receipt \<in> R. ar_sequence receipt = oh_sequence rec \<and> ar_decision receipt \<in> set ACK_DECISIONS)"
proof -
  let ?db = "snd (settle (\<lambda>r _. r \<in> R) p env token rec reply db)"
  let ?Q = "\<lambda>g r. g r \<noteq> r \<longrightarrow> row_key r = (pb_streamId p, oh_sourceEpoch rec, oh_sequence rec) \<and> \<not> rw_acked r \<and> \<not> rw_quarantined r
      \<and> (rw_acked (g r) \<longrightarrow> \<not> rw_quarantined (g r) \<and> (\<exists>receipt. receipt \<in> R \<and> ar_streamId receipt = pb_streamId p
           \<and> ar_sourceEpoch receipt = oh_sourceEpoch rec \<and> ar_sequence receipt = oh_sequence rec
           \<and> ar_opDigest receipt = oh_opDigest rec \<and> ar_decision receipt \<in> set ACK_DECISIONS))"
  obtain g where f: "flags_only s db g ?db" and g: "\<forall>r. ?Q g r"
    by (rule exE [OF settle_flags [of s db "\<lambda>r _. r \<in> R" p env token rec reply]], erule conjE) (rule that)
  show thesis
  proof (rule that [OF f])
    show "\<forall>r. rw_acked r \<longrightarrow> g r = r" using g by blast
    show "\<forall>r. \<not> rw_acked r \<and> rw_acked (g r) \<longrightarrow> \<not> rw_quarantined (g r) \<and> rw_sequence r = oh_sequence rec
        \<and> (\<exists>receipt \<in> R. ar_sequence receipt = oh_sequence rec \<and> ar_decision receipt \<in> set ACK_DECISIONS)"
    proof (intro allI impI)
      fix r assume r: "\<not> rw_acked r \<and> rw_acked (g r)"
      then have "g r \<noteq> r" by auto
      with g have "?Q g r" "g r \<noteq> r" by blast+
      with r show "\<not> rw_quarantined (g r) \<and> rw_sequence r = oh_sequence rec
        \<and> (\<exists>receipt \<in> R. ar_sequence receipt = oh_sequence rec \<and> ar_decision receipt \<in> set ACK_DECISIONS)"
        by (auto simp: row_key_def)
    qed
  qed
qed

text \<open>Every step keeps the invariant and is a step of the abstract log.\<close>

lemma sys_step_inv:
  assumes I: "sys_inv D e d0 m c" and p: "pb_streamId (dp_publisher D) = dp_stream D"
  shows "\<exists>m'. sys_inv D e d0 m' (sys_step D c ev)
    \<and> spec_step (log_of (dp_stream D) (sy_src c), m) (log_of (dp_stream D) (sy_src (sys_step D c ev)), m')"
proof (cases ev)
  case (Write env as)
  let ?db = "snd (withOutboxTx (dp_crypto D) (dp_sanitize D) (dp_options D) (dp_schema D) (dp_preCommit D) env as (sy_src c))"
  have "src_inv (dp_crypto D) (dp_stream D) e (oo_maxPendingRows (dp_options D)) ?db \<and> extends (dp_stream D) (sy_src c) ?db"
    unfolding withOutboxTx_def
    by (rule critical_ind) (use I in \<open>auto simp: sys_inv_def then_do_Inr_iff dest: actions_step\<close>)
  moreover from this obtain rs where "log_of (dp_stream D) ?db = log_of (dp_stream D) (sy_src c) @ rs"
    by (auto simp: extends_def log_of_def)
  ultimately show ?thesis using extend_inv [OF I] Write by (auto intro!: exI [of _ m] spec_append)
next
  case (Lease env now token)
  let ?db = "snd (acquireLease (dp_publisher D) env now token (sy_src c))"
  note f = lease_flags(1) [of "dp_stream D" "sy_src c" "dp_publisher D" env now token]
  have "sys_inv D e d0 m (c\<lparr>sy_src := ?db\<rparr>)" by (rule flags_inv [OF I f]) simp_all
  then show ?thesis using Lease flags_only_rows(2) [OF f] by (auto intro!: exI [of _ m] spec_stutter)
next
  case (Unlease env token)
  let ?db = "snd (releaseLease (dp_publisher D) env token (sy_src c))"
  note f = lease_flags(2) [of "dp_stream D" "sy_src c" "dp_publisher D" env token]
  have "sys_inv D e d0 m (c\<lparr>sy_src := ?db\<rparr>)" by (rule flags_inv [OF I f]) simp_all
  then show ?thesis using Unlease flags_only_rows(2) [OF f] by (auto intro!: exI [of _ m] spec_stutter)
next
  case (Send env token)
  let ?db = "snd (nextDeliverable (dp_publisher D) env token (sy_src c))"
  note f = lease_flags(3) [of "dp_stream D" "sy_src c" "dp_publisher D" env token]
  have inv: "sys_inv D e d0 m (c\<lparr>sy_src := ?db\<rparr>)" by (rule flags_inv [OF I f]) simp_all
  show ?thesis
  proof (cases "sys_step D c ev = c\<lparr>sy_src := ?db\<rparr>")
    case True
    then show ?thesis using inv flags_only_rows(2) [OF f] by (auto intro!: exI [of _ m] spec_stutter)
  next
    case False
    then obtain r rec where nd: "nextDeliverable (dp_publisher D) env token (sy_src c) = (Inr (Some r), ?db)"
        and vr: "validate_row (dp_crypto D) (dp_sanitized D) (dp_publisher D) r = Inr rec"
        and step: "sys_step D c ev = c\<lparr>sy_src := ?db, sy_sent := rec # sy_sent c\<rparr>"
      unfolding Send by (auto split: prod.splits sum.splits option.splits)
    have b: "?db = sy_src c" "lowest_row (dp_stream D) (sy_src c) = Some r"
      using nextDeliverable_row [OF nd] p by simp_all
    note low = lowest_row_facts [OF b(2)]
    have "\<exists>v. rw_mutation r = normal v" using I low(1) by (auto simp: sys_inv_def src_inv_def)
    then have rec: "rec = row_record (dp_stream D) r" using validate_row_record [OF vr] p by auto
    have "genuine (dp_stream D) e (log_of (dp_stream D) (sy_src c)) rec"
      using row_genuine [OF _ low(1)] I rec by (auto simp: sys_inv_def)
    moreover have "oh_sequence rec = rw_sequence r" by (simp add: rec row_record_def)
    ultimately have "sys_inv D e d0 m (c\<lparr>sy_src := ?db, sy_sent := rec # sy_sent c\<rparr>)"
      using I low(3) unfolding b(1) by (auto simp: sys_inv_def sent_inv_def)
    then show ?thesis using step b(1) by (auto intro!: exI [of _ m] spec_stutter)
  qed
next
  case (Receive env rec)
  show ?thesis
  proof (cases "rec \<in> set (sy_sent c)")
    case False
    then show ?thesis using I Receive by (auto intro!: exI [of _ m] spec_stutter)
  next
    case True
    obtain res db where v: "verifyAndApplyDelivered (dp_crypto D) (dp_sanitized D) (dp_apply D) (dp_stream D) (dp_receiverSchema D) env rec
        (sy_dst c) = (res, db)" by fastforce
    have "genuine (dp_stream D) e (log_of (dp_stream D) (sy_src c)) rec" using I True by (auto simp: sys_inv_def sent_inv_def)
    from receive_step [OF _ this v] I obtain m' where m': "m' = m \<or> m' = Suc m"
        "dst_inv (dp_apply D) (dp_stream D) e d0 (log_of (dp_stream D) (sy_src c)) m' db"
        "res \<in> {Inr Applied, Inr DuplicateOk} \<longrightarrow> oh_sequence rec \<le> int m'"
      unfolding sys_inv_def by blast
    have "marks_inv (stream_rows (dp_stream D) (sy_src c)) m'" "issued_inv m' (sy_issued c)"
      using I m'(1) by (fastforce simp: sys_inv_def marks_inv_def issued_inv_def)+
    moreover have "ar_decision (receiptFor sg rec d) \<in> set ACK_DECISIONS \<Longrightarrow> d \<in> {Applied, DuplicateOk}" for sg d
      by (cases d) (simp_all add: receiptFor_def ACK_DECISIONS_def units_def)
    moreover have "m' \<le> length (log_of (dp_stream D) (sy_src c))" using m'(2) by (simp add: dst_inv_def)
    ultimately have "sys_inv D e d0 m' (sys_step D c ev)" "sy_src (sys_step D c ev) = sy_src c"
      using I m'(2,3) True v Receive
      by (auto simp: sys_inv_def issued_inv_def receiptFor_def split: sum.split)
    then show ?thesis using m'(1) \<open>m' \<le> _\<close> by (auto intro!: exI [of _ m'] spec_stutter spec_apply)
  qed
next
  case (Settle env token rec reply)
  show ?thesis
  proof (cases "rec \<in> set (sy_sent c)")
    case False
    then show ?thesis using I Settle by (auto intro!: exI [of _ m] spec_stutter)
  next
    case True
    let ?db = "snd (settle (\<lambda>r _. r \<in> set (sy_issued c)) (dp_publisher D) env token rec reply (sy_src c))"
    obtain g where f: "flags_only (dp_stream D) (sy_src c) g ?db" and g: "\<forall>r. rw_acked r \<longrightarrow> g r = r"
      "\<forall>r. \<not> rw_acked r \<and> rw_acked (g r) \<longrightarrow> \<not> rw_quarantined (g r) \<and> rw_sequence r = oh_sequence rec
        \<and> (\<exists>receipt \<in> set (sy_issued c). ar_sequence receipt = oh_sequence rec \<and> ar_decision receipt \<in> set ACK_DECISIONS)"
      by (rule settle_sound)
    have "sys_inv D e d0 m (c\<lparr>sy_src := ?db\<rparr>)"
    proof (rule flags_inv [OF I f])
      show "g r = r" if "rw_acked r" for r using g(1) that by blast
      fix r assume r: "r \<in> set (stream_rows (dp_stream D) (sy_src c))" "\<not> rw_acked r" "rw_acked (g r)"
      with g(2) obtain receipt where k: "rw_sequence r = oh_sequence rec" "\<not> rw_quarantined (g r)"
          "receipt \<in> set (sy_issued c)" "ar_sequence receipt = oh_sequence rec" "ar_decision receipt \<in> set ACK_DECISIONS" by blast
      then have "oh_sequence rec \<le> int m" using I by (auto simp: sys_inv_def issued_inv_def)
      then show "\<not> rw_quarantined (g r) \<and> rw_sequence r \<le> int m \<and> (\<exists>rec \<in> set (sy_sent c). oh_sequence rec = rw_sequence r)"
        using k True by auto
    qed
    then show ?thesis using True Settle flags_only_rows(2) [OF f] by (auto intro!: exI [of _ m] spec_stutter)
  qed
next
  case (PromoteSource env)
  let ?db = "snd (fence_acquire env (dp_schema D) (dp_stream D) (sy_src c))"
  have rows: "stream_rows s ?db = stream_rows s (sy_src c)" "pending_rows s ?db = pending_rows s (sy_src c)"
      "log_of s ?db = log_of s (sy_src c)" for s
    by (simp_all add: stream_rows_def pending_rows_def log_of_def fence_rows)
  then have "sys_inv D e d0 m (sys_step D c ev)" using I by (simp add: PromoteSource sys_inv_def src_inv_def fence_rows)
  moreover have "log_of (dp_stream D) (sy_src (sys_step D c ev)) = log_of (dp_stream D) (sy_src c)"
    by (simp add: PromoteSource rows)
  ultimately show ?thesis using spec_stutter by metis
next
  case (PromoteReceiver env)
  then have "sys_inv D e d0 m (sys_step D c ev)" "sy_src (sys_step D c ev) = sy_src c"
    using I by (simp_all add: sys_inv_def dst_inv_def fence_rows)
  then show ?thesis using spec_stutter by metis
qed

section \<open>Refinement\<close>

lemma sys_run_inv:
  assumes "provisioned D e c0"
  shows "\<exists>m. sys_inv D e (db_data (sy_dst c0)) m (foldl (sys_step D) c0 evs)"
proof (induction evs rule: rev_induct)
  case Nil
  then show ?case using provisioned_inv [OF assms] by auto
next
  case (snoc ev evs)
  then show ?case using sys_step_inv assms by (fastforce simp: provisioned_def)
qed

text \<open>The records the source has logged, and how many of them the receiver counts as applied.\<close>

definition spec_of :: "('c, 'd) deployment \<Rightarrow> ('c, 'd) sys \<Rightarrow> outbox_record list \<times> nat" where
  "spec_of D c = (log_of (dp_stream D) (sy_src c),
     case jm_get (db_receiver (sy_dst c)) (dp_stream D) of None \<Rightarrow> 0 | Some (e, n, d) \<Rightarrow> nat n)"

lemma spec_of_inv: "sys_inv D e d0 m c \<Longrightarrow> spec_of D c = (log_of (dp_stream D) (sy_src c), m)"
  by (auto simp: sys_inv_def dst_inv_def spec_of_def)

text \<open>
  C5. The durable outbox refines a replicated log. From a freshly provisioned stream, under any schedule of
  transactions of any number of writers, publishers and receivers, promotions on either side, commits that
  fail or go unseen, and a network that delays, repeats, reorders or drops records and hands publishers
  any reply, every step is a step of the abstract log: the log only grows at its end or the receiver takes
  exactly the next record. The records are numbered 1, 2, ... without a gap, the receiver's tables are
  those of applying the first \<open>m\<close> of them in order, once each, and every acknowledged record is among
  those: nothing is acknowledged that was not applied. (The acknowledgement verifier accepts exactly the
  receipts the receiver issued.)
\<close>
theorem outbox_refines_log:
  assumes "provisioned D e c0" "c = foldl (sys_step D) c0 evs" "spec_of D c = (l, m)"
  shows "spec_step (l, m) (spec_of D (sys_step D c ev))
    \<and> l = map (row_record (dp_stream D)) (stream_rows (dp_stream D) (sy_src c))
    \<and> map oh_sequence l = map int [1..<Suc (length l)] \<and> m \<le> length l
    \<and> apply_all (dp_apply D) (take m l) (db_data (sy_dst c0)) = Inr (db_data (sy_dst c))
    \<and> list_all (\<lambda>r. rw_acked r \<longrightarrow> rw_sequence r \<le> int m) (stream_rows (dp_stream D) (sy_src c))"
proof -
  obtain m' where I: "sys_inv D e (db_data (sy_dst c0)) m' c" using sys_run_inv [OF assms(1)] assms(2) by blast
  from spec_of_inv [OF this] assms(3) have lm: "l = log_of (dp_stream D) (sy_src c)" "m = m'" by simp_all
  have "spec_step (l, m) (spec_of D (sys_step D c ev))"
    using sys_step_inv [OF I, of ev] assms(1) spec_of_inv lm by (fastforce simp: provisioned_def)
  moreover obtain n where n: "map rw_sequence (stream_rows (dp_stream D) (sy_src c)) = map int [1..<Suc n]"
    using I by (auto simp: sys_inv_def src_inv_def)
  then have "length (stream_rows (dp_stream D) (sy_src c)) = n" by (metis diff_Suc_1 length_map length_upt)
  then have "map oh_sequence l = map int [1..<Suc (length l)]"
    using n by (simp add: lm(1) log_of_def comp_def row_record_def del: upt_Suc)
  ultimately show ?thesis using I lm by (simp add: sys_inv_def dst_inv_def marks_inv_def log_of_def list_all_iff)
qed

lemma quarantine_blocks:
  assumes I: "sys_inv D e d0 m c" and r: "r \<in> set (stream_rows (dp_stream D) (sy_src c))" "rw_quarantined r"
  shows "r' \<in> set (stream_rows (dp_stream D) (sy_src c)) \<Longrightarrow> rw_sequence r \<le> rw_sequence r' \<Longrightarrow> \<not> rw_acked r'"
    and "rec \<in> set (sy_sent c) \<Longrightarrow> oh_sequence rec \<le> rw_sequence r"
    and "pb_streamId p = dp_stream D \<Longrightarrow> fst (nextDeliverable p env token (sy_src c)) = Inr (Some r') \<Longrightarrow> rw_sequence r' < rw_sequence r"
proof -
  let ?rows = "stream_rows (dp_stream D) (sy_src c)"
  have nr: "\<not> rw_acked r" using I r by (auto simp: sys_inv_def marks_inv_def)
  have src: "src_inv (dp_crypto D) (dp_stream D) e (oo_maxPendingRows (dp_options D)) (sy_src c)" using I by (simp add: sys_inv_def)
  have same: "q = r" if a: "q \<in> set ?rows" "rw_sequence q = rw_sequence r" for q
  proof -
    obtain i j where "i < length ?rows" "?rows ! i = q" "j < length ?rows" "?rows ! j = r"
      using a(1) r(1) unfolding in_set_conv_nth by blast
    then show ?thesis using src_rows [OF src, of i] src_rows [OF src, of j] a(2) by auto
  qed
  show "\<not> rw_acked r'" if "r' \<in> set ?rows" "rw_sequence r \<le> rw_sequence r'"
  proof
    assume ack: "rw_acked r'"
    have "marks_inv ?rows m" using I by (simp add: sys_inv_def)
    with ack that(1) r(1) have "rw_sequence r < rw_sequence r' \<Longrightarrow> rw_acked r" unfolding marks_inv_def by blast
    then show False using nr ack same [OF that(1)] that(2) by force
  qed
  show "oh_sequence rec \<le> rw_sequence r" if "rec \<in> set (sy_sent c)"
  proof -
    have "\<forall>q \<in> set ?rows. rw_sequence q < oh_sequence rec \<longrightarrow> rw_acked q" using I that by (simp add: sys_inv_def sent_inv_def)
    then show ?thesis using nr r(1) by (meson not_less)
  qed
  show "rw_sequence r' < rw_sequence r" if p: "pb_streamId p = dp_stream D" "fst (nextDeliverable p env token (sy_src c)) = Inr (Some r')"
  proof -
    have low: "lowest_row (dp_stream D) (sy_src c) = Some r'" and nq: "\<not> rw_quarantined r'"
      using p nextDeliverable_row [of p env token "sy_src c" r'] by (metis prod.collapse)+
    show ?thesis
      using lowest_row_facts(3) [OF low r(1)] lowest_row_facts(1) [OF low] same [of r'] nr nq r(2) by force
  qed
qed

text \<open>
  C21. Admission is bounded and divergence halts the stream. In every reachable state of that system the rows
  waiting for delivery do not exceed \<open>maxPendingRows\<close>; and whenever a row is quarantined, neither it nor any row
  behind it is acknowledged, no record behind it has been sent, and no publisher, with whatever lease and
  transaction, is given it or a row behind it to deliver.
\<close>
theorem divergence_halts_stream:
  assumes "provisioned D e c0" "c = foldl (sys_step D) c0 evs"
  shows "int (length (pending_rows (dp_stream D) (sy_src c))) \<le> oo_maxPendingRows (dp_options D)
    \<and> (\<forall>r \<in> set (stream_rows (dp_stream D) (sy_src c)). rw_quarantined r \<longrightarrow>
        (\<forall>r' \<in> set (stream_rows (dp_stream D) (sy_src c)). rw_sequence r \<le> rw_sequence r' \<longrightarrow> \<not> rw_acked r')
        \<and> (\<forall>rec \<in> set (sy_sent c). oh_sequence rec \<le> rw_sequence r)
        \<and> (\<forall>p env token r'. pb_streamId p = dp_stream D \<longrightarrow> fst (nextDeliverable p env token (sy_src c)) = Inr (Some r')
            \<longrightarrow> rw_sequence r' < rw_sequence r))"
proof -
  obtain m where I: "sys_inv D e (db_data (sy_dst c0)) m c" using sys_run_inv [OF assms(1)] assms(2) by blast
  then have "int (length (pending_rows (dp_stream D) (sy_src c))) \<le> oo_maxPendingRows (dp_options D)"
    by (simp add: sys_inv_def src_inv_def)
  with quarantine_blocks [OF I] show ?thesis by blast
qed

end
