(* ===== verification/Durable_Delivery.thy ===== *)
theory Durable_Delivery
  imports Durable_System
begin

text \<open>
  What a drain achieves: over a synchronous transport to a receiver that can take the records, one drain
  returns after as many turns as there are rows and one more, with everything delivered and acknowledged;
  a mutation at the limits of the canonical form blocks its stream for ever; and a promotion fences every
  append with an older token.
\<close>

section \<open>Undisturbed transactions\<close>

definition good_env :: "string \<Rightarrow> tx_env \<Rightarrow> bool" where
  "good_env schema env = (te_commit env = Committed \<and> enterCriticalTx (te_session env) schema = Inr ())"

lemma critical_good: "good_env schema env \<Longrightarrow> critical env schema body db
    = (case body db of Inl e \<Rightarrow> (Inl e, db) | Inr (v, db') \<Rightarrow> (Inr v, db'))"
  by (simp add: critical_def transaction_def good_env_def split: sum.split)

lemma fence_value_dec: "0 \<le> t \<Longrightarrow> fence_value (units (int_to_dec t)) = t"
proof -
  assume t: "0 \<le> t"
  have "unat (word_of_nat (code c) :: unit16) = code c" for c
  proof -
    have "code c < 2 ^ 16" using code_less [of c] by (rule less_trans) simp
    from take_bit_nat_eq_self [OF this] show ?thesis by (simp add: unsigned_of_nat)
  qed
  then have "char_of (unat (word_of_nat (code c) :: unit16)) = c" for c by simp
  then have "map (\<lambda>c. char_of (unat c)) (units s) = s" for s by (simp add: units_def comp_def map_idI)
  with t show ?thesis by (simp add: fence_value_def int_to_dec_def)
qed

section \<open>One turn\<close>

text \<open>The transport of a deployment in one process: the record is handed to the receiver and its decision comes back.\<close>

definition direct_transport :: "('c, 'd) deployment \<Rightarrow> tx_env \<Rightarrow> outbox_record \<Rightarrow> 'd ha_db \<Rightarrow> transport_reply \<times> 'd ha_db" where
  "direct_transport D env rec dst =
     (case verifyAndApplyDelivered (dp_crypto D) (dp_sanitized D) (dp_apply D) (dp_stream D) (dp_receiverSchema D) env rec dst of
        (Inl e, dst') \<Rightarrow> (Failed, dst')
      | (Inr d, dst') \<Rightarrow> (Delivered (receiptFor (dp_sign D) rec d), dst'))"

text \<open>
  A row that publisher and receiver can take: it passes the publisher's checks, carries the receiver's fence
  token, its mutation applies to whatever state, and the receipts for it are well formed.
\<close>

definition deliverable :: "('c, 'd) deployment \<Rightarrow> int \<Rightarrow> outbox_row \<Rightarrow> bool" where
  "deliverable D fence r = (let rec = row_record (dp_stream D) r in
     validate_row (dp_crypto D) (dp_sanitized D) (dp_publisher D) r = Inr rec
     \<and> rw_fenceToken r = fence \<and> 0 \<le> fence \<and> (\<forall>d. \<exists>d'. dp_apply D rec d = Inr d')
     \<and> (\<forall>dec \<in> {Applied, DuplicateOk}. snapshotAckReceipt (receiptFor (dp_sign D) rec dec) = Inr (receiptFor (dp_sign D) rec dec)))"

lemma deliverable_core:
  assumes "same_core r (g r)" shows "deliverable D f (g r) = deliverable D f r"
proof -
  have "row_record (dp_stream D) (g r) = row_record (dp_stream D) r" "rw_fenceToken (g r) = rw_fenceToken r"
    "row_value (g r) = row_value r" "rw_sequence (g r) = rw_sequence r"
    "row_record (pb_streamId (dp_publisher D)) (g r) = row_record (pb_streamId (dp_publisher D)) r"
    using assms by (auto simp: same_core_def row_key_def row_record_def row_value_def)
  then show ?thesis by (simp add: deliverable_def validate_row_def)
qed

lemma validated:
  assumes "deliverable D f r" "rec = row_record (dp_stream D) r" "pb_streamId (dp_publisher D) = dp_stream D"
  shows "snapshotRecord rec = Inr rec" "dp_sanitized D (or_mutation rec)"
    "canonicalOpDigest (dp_crypto D) (record_op rec) = returns (oh_opDigest rec)"
proof -
  obtain rec' where r: "snapshotRecord rec = Inr rec'" "dp_sanitized D (or_mutation rec')"
      "canonicalOpDigest (dp_crypto D) (record_op rec') = returns (oh_opDigest rec')" "rec' = rec"
    using assms by (auto simp: deliverable_def validate_row_def then_do_Inr_iff Let_def split: if_splits)
  then show "snapshotRecord rec = Inr rec" "dp_sanitized D (or_mutation rec)"
    "canonicalOpDigest (dp_crypto D) (record_op rec) = returns (oh_opDigest rec)" by simp_all
qed

lemma receive_next:
  assumes "deliverable D f r" "rec = row_record (dp_stream D) r" "good_env (dp_receiverSchema D) env"
    and "jm_get (db_fence dst) (dp_stream D) = Some f"
    and "dst_inv (dp_apply D) (dp_stream D) e d0 recs m dst" "genuine (dp_stream D) e recs rec" "oh_sequence rec \<le> int m + 1"
    and "length recs \<le> nat MAX_SAFE_INTEGER" "pb_streamId (dp_publisher D) = dp_stream D"
  shows "\<exists>dec dst' m'. dec \<in> {Applied, DuplicateOk}
      \<and> direct_transport D env rec dst = (Delivered (receiptFor (dp_sign D) rec dec), dst') \<and> db_fence dst' = db_fence dst
      \<and> dst_inv (dp_apply D) (dp_stream D) e d0 recs m' dst' \<and> oh_sequence rec \<le> int m'
      \<and> m' = (if oh_sequence rec = int m + 1 then Suc m else m)"
proof -
  let ?s = "dp_stream D"
  note v = validated [OF assms(1,2,9)]
  obtain d where cp: "jm_get (db_receiver dst) ?s = Some (e, int m, d)" using assms(5) by (auto simp: dst_inv_def)
  have m: "int m \<le> MAX_SAFE_INTEGER" using assms(5,8) by (auto simp: dst_inv_def MAX_SAFE_INTEGER_def)
  have fv: "fence_value (oh_fenceToken rec) = f" using assms(1,2) by (auto simp: deliverable_def Let_def row_record_def fence_value_dec)
  have id: "oh_streamId rec = ?s" "oh_sourceEpoch rec = e" using assms(6) by (simp_all add: genuine_def)
  obtain data where data: "dp_apply D rec (db_data dst) = Inr data" using assms(1,2) by (auto simp: deliverable_def Let_def)
  obtain k where k: "k < length recs" "oh_sequence rec = int (Suc k)" "recs ! k = rec" using assms(6) by (auto simp: genuine_def)
  have ap: "jm_get (db_applied dst) (?s, e, q) = (if 1 \<le> q \<and> q \<le> int m then Some (oh_opDigest (recs ! nat (q - 1))) else None)" for q
    using assms(5) by (simp add: dst_inv_def)
  have go: "verifyAndApplyDelivered (dp_crypto D) (dp_sanitized D) (dp_apply D) ?s (dp_receiverSchema D) env rec dst
      = (case verifyAndApplyInTx (dp_crypto D) (dp_sanitized D) (dp_apply D) ?s rec dst of
          Inl e \<Rightarrow> (Inl e, dst) | Inr (dec, db') \<Rightarrow> (Inr dec, db'))"
    by (simp add: verifyAndApplyDelivered_def v(1) critical_good [OF assms(3)])
  show ?thesis
  proof (cases "oh_sequence rec = int m + 1")
    case True
    define dst' where "dst' = dst\<lparr>db_data := data, db_applied := jm_set (?s, e, int m + 1) (oh_opDigest rec) (db_applied dst),
      db_receiver := jm_set ?s (e, int m + 1, oh_opDigest rec) (db_receiver dst)\<rparr>"
    have t: "verifyAndApplyInTx (dp_crypto D) (dp_sanitized D) (dp_apply D) ?s rec dst = Inr (Applied, dst')"
      using v cp fv id data m assms(4) True ap by (simp add: verifyAndApplyInTx_def safeSeq_def insert_applied_def dst'_def)
    have km: "k = m" using k(2) True by simp
    then have "take (Suc m) recs = take m recs @ [rec]" using k by (simp add: take_Suc_conv_app_nth)
    then have "dst_inv (dp_apply D) ?s e d0 recs (Suc m) dst'"
      using assms(5) data k km by (auto simp: dst_inv_def dst'_def apply_all_append)
    then show ?thesis using t go True by (auto simp: direct_transport_def dst'_def)
  next
    case False
    then have "jm_get (db_applied dst) (?s, e, oh_sequence rec) = Some (oh_opDigest rec)"
      using ap k assms(7) by simp
    then have t: "verifyAndApplyInTx (dp_crypto D) (dp_sanitized D) (dp_apply D) ?s rec dst = Inr (DuplicateOk, dst)"
      using v cp fv id m assms(4,7) False by (simp add: verifyAndApplyInTx_def safeSeq_def)
    then show ?thesis using go False assms(5,7) by (auto simp: direct_transport_def)
  qed
qed

lemma distinct_filter_one: "distinct xs \<Longrightarrow> r \<in> set xs \<Longrightarrow> length (filter (\<lambda>x. x = r) xs) = 1"
  by (induction xs) (auto simp: filter_empty_conv)

text \<open>The acknowledgement of an unsettled row of the stream.\<close>

lemma ack_row:
  assumes "src_inv cr s e mx db" "r \<in> set (stream_rows s db)" "\<not> rw_acked r" "\<not> rw_quarantined r"
    and "pb_streamId p = s" "good_env (pb_schema p) env" "holds_lease p token db" "h = outbox_header.truncate (row_record s r)"
  shows "\<exists>db'. ackRecord p env token h db = (Inr (), db') \<and> db_lease db' = db_lease db
    \<and> flags_only s db (\<lambda>x. if x = r then x\<lparr>rw_published := True, rw_acked := True\<rparr> else x) db'"
proof -
  let ?P = "\<lambda>x. row_key x = (s, rw_sourceEpoch r, rw_sequence r) \<and> \<not> rw_acked x \<and> \<not> rw_quarantined x \<and> rw_opDigest x = rw_opDigest r"
  have h: "oh_sourceEpoch h = rw_sourceEpoch r" "oh_sequence h = rw_sequence r" "oh_opDigest h = rw_opDigest r"
    by (simp_all add: assms(8) outbox_header.truncate_def row_record_def)
  obtain n where n: "map rw_sequence (stream_rows s db) = map int [1..<Suc n]" using assms(1) by (auto simp: src_inv_def)
  have dist: "distinct (map rw_sequence (stream_rows s db))" unfolding n by (simp add: distinct_map del: upt_Suc)
  have st: "rw_streamId r = s" "r \<in> set (db_rows db)" using assms(2) by (auto simp: stream_rows_def)
  have P: "?P x \<longleftrightarrow> x = r" if "x \<in> set (db_rows db)" for x
  proof
    assume "?P x"
    then have "x \<in> set (stream_rows s db)" "rw_sequence x = rw_sequence r" using that by (auto simp: stream_rows_def row_key_def)
    then show "x = r" using dist assms(2) by (auto simp: distinct_map dest: inj_onD)
  qed (use assms(3,4) st in \<open>auto simp: row_key_def\<close>)
  have "filter ?P (db_rows db) = filter (\<lambda>x. x = r) (db_rows db)" using P by (intro filter_cong) auto
  also have "\<dots> = filter (\<lambda>x. x = r) (stream_rows s db)" using st by (simp add: stream_rows_def) (metis (mono_tags, lifting) filter_cong)
  also have "length \<dots> = 1"
    using distinct_filter_one [of "stream_rows s db" r] dist assms(2) by (simp add: distinct_map)
  finally have one: "length (filter ?P (db_rows db)) = 1" .
  let ?db = "db\<lparr>db_rows := map (\<lambda>x. if x = r then x\<lparr>rw_published := True, rw_acked := True\<rparr> else x) (db_rows db)\<rparr>"
  have "map (\<lambda>x. if ?P x then x\<lparr>rw_published := True, rw_acked := True\<rparr> else x) (db_rows db)
      = map (\<lambda>x. if x = r then x\<lparr>rw_published := True, rw_acked := True\<rparr> else x) (db_rows db)"
    using P by (intro map_cong) auto
  then have "ackRecord p env token h db = (Inr (), ?db)"
    using one assms(5,7) by (simp add: ackRecord_def critical_good [OF assms(6)] update_rows_def h affectedOne_def ensure_def)
  moreover have "flags_only s db (\<lambda>x. if x = r then x\<lparr>rw_published := True, rw_acked := True\<rparr> else x) ?db"
    by (auto simp: flags_only_def same_core_def row_key_def)
  ultimately show ?thesis by auto
qed

section \<open>A drain\<close>

definition unsettled :: "ustr \<Rightarrow> 'c ha_db \<Rightarrow> outbox_row list" where
  "unsettled s db = filter (\<lambda>r. \<not> rw_acked r) (stream_rows s db)"

lemma filter_drop_one:
  "distinct xs \<Longrightarrow> r \<in> set xs \<Longrightarrow> P r \<Longrightarrow> length (filter P xs) = Suc (length (filter (\<lambda>x. P x \<and> x \<noteq> r) xs))"
proof (induction xs)
  case (Cons x xs)
  show ?case
  proof (cases "x = r")
    case True
    then have "filter (\<lambda>x. P x \<and> x \<noteq> r) xs = filter P xs" using Cons(2) by (intro filter_cong) auto
    then show ?thesis using True Cons(4) by simp
  next
    case False
    then show ?thesis using Cons by auto
  qed
qed simp

lemma sort_key_Nil_iff: "sort_key f xs = [] \<longleftrightarrow> xs = []"
proof -
  have "length (sort_key f xs) = length xs" by (rule length_sort)
  then show ?thesis by (cases xs; cases "sort_key f xs") simp_all
qed

lemma lowest_row_unsettled: "lowest_row s db = None \<longleftrightarrow> unsettled s db = []"
proof -
  let ?f = "filter (\<lambda>r. rw_streamId r = s \<and> \<not> rw_acked r) (db_rows db)"
  have f: "unsettled s db = ?f" unfolding unsettled_def stream_rows_def filter_filter by (rule filter_cong) auto
  have "lowest_row s db = None \<longleftrightarrow> sort_key rw_sequence ?f = []" by (simp add: lowest_row_def split: list.split)
  then show ?thesis unfolding f by (simp only: sort_key_Nil_iff)
qed

text \<open>One turn of the loop acknowledges the lowest row and goes on.\<close>

lemma drain_turn:
  assumes I: "sys_inv D e d0 m c" and p: "pb_streamId (dp_publisher D) = dp_stream D"
    and lease: "holds_lease (dp_publisher D) token (sy_src c)" and low: "lowest_row (dp_stream D) (sy_src c) = Some r"
    and q: "\<forall>r \<in> set (stream_rows (dp_stream D) (sy_src c)). \<not> rw_quarantined r"
    and d: "deliverable D f r" and env: "good_env (pb_schema (dp_publisher D)) e1" "good_env (pb_schema (dp_publisher D)) e2"
      "good_env (dp_receiverSchema D) er"
    and fence: "jm_get (db_fence (sy_dst c)) (dp_stream D) = Some f"
    and len: "length (log_of (dp_stream D) (sy_src c)) \<le> nat MAX_SAFE_INTEGER"
    and ver: "\<forall>rec dec. ver (receiptFor (dp_sign D) rec dec) rec"
  shows "\<exists>c' m' g. drain_loop (dp_crypto D) (dp_sanitized D) ver (direct_transport D er) (dp_publisher D) token ((e1, e2) # es) res (sy_src c) (sy_dst c)
      = drain_loop (dp_crypto D) (dp_sanitized D) ver (direct_transport D er) (dp_publisher D) token es
          (res\<lparr>dr_published := Suc (dr_published res), dr_acked := Suc (dr_acked res)\<rparr>) (sy_src c') (sy_dst c')
    \<and> sys_inv D e d0 m' c' \<and> holds_lease (dp_publisher D) token (sy_src c') \<and> db_fence (sy_dst c') = db_fence (sy_dst c)
    \<and> flags_only (dp_stream D) (sy_src c) g (sy_src c') \<and> (\<forall>r. rw_quarantined (g r) = rw_quarantined r)
    \<and> length (unsettled (dp_stream D) (sy_src c)) = Suc (length (unsettled (dp_stream D) (sy_src c')))"
proof -
  let ?s = "dp_stream D"
  let ?p = "dp_publisher D"
  define rec where "rec = row_record ?s r"
  note lf = lowest_row_facts [OF low]
  have src: "src_inv (dp_crypto D) ?s e (oo_maxPendingRows (dp_options D)) (sy_src c)" using I by (simp add: sys_inv_def)
  have gen: "genuine ?s e (log_of ?s (sy_src c)) rec" using row_genuine [OF src lf(1)] by (simp add: rec_def)
  have seq: "oh_sequence rec = rw_sequence r" by (simp add: rec_def row_record_def)
  have dst: "dst_inv (dp_apply D) ?s e d0 (log_of ?s (sy_src c)) m (sy_dst c)" using I by (simp add: sys_inv_def)
  have next_seq: "oh_sequence rec \<le> int m + 1"
  proof (rule ccontr)
    assume "\<not> ?thesis"
    moreover obtain k where k: "k < length (stream_rows ?s (sy_src c))" "stream_rows ?s (sy_src c) ! k = r"
      using lf(1) by (auto simp: in_set_conv_nth)
    ultimately have mk: "m < k" using src_rows [OF src k(1)] seq by simp
    let ?r = "stream_rows ?s (sy_src c) ! m"
    have "?r \<in> set (stream_rows ?s (sy_src c))" "rw_sequence ?r = int (Suc m)" using mk k src_rows [OF src, of m] by simp_all
    moreover from this have "rw_acked ?r" using lf(3) src_rows [OF src k(1)] k(2) mk by simp
    ultimately have "int (Suc m) \<le> int m" using I by (auto simp: sys_inv_def marks_inv_def)
    then show False by simp
  qed
  from receive_next [OF d rec_def env(3) fence dst gen next_seq len p] obtain dec dst' m' where rv: "dec \<in> {Applied, DuplicateOk}"
      "direct_transport D er rec (sy_dst c) = (Delivered (receiptFor (dp_sign D) rec dec), dst')" "db_fence dst' = db_fence (sy_dst c)"
      "dst_inv (dp_apply D) ?s e d0 (log_of ?s (sy_src c)) m' dst'" "oh_sequence rec \<le> int m'" "m' = (if oh_sequence rec = int m + 1 then Suc m else m)" by blast
  then have mm: "m \<le> m'" by simp
  let ?g = "\<lambda>x. if x = r then x\<lparr>rw_published := True, rw_acked := True\<rparr> else x"
  from ack_row [OF src lf(1,2) _ p env(2) lease refl] q lf(1) obtain db' where ak:
      "ackRecord ?p e2 token (outbox_header.truncate rec) (sy_src c) = (Inr (), db')" "db_lease db' = db_lease (sy_src c)"
      "flags_only ?s (sy_src c) ?g db'" by (auto simp: rec_def)
  define c' where "c' = c\<lparr>sy_dst := dst', sy_sent := rec # sy_sent c\<rparr>\<lparr>sy_src := db'\<rparr>"
  have "sys_inv D e d0 m' (c\<lparr>sy_dst := dst', sy_sent := rec # sy_sent c\<rparr>)"
    using I rv(4) mm gen lf(3) seq by (fastforce simp: sys_inv_def marks_inv_def sent_inv_def issued_inv_def)
  note I2 = this
  have f2: "flags_only ?s (sy_src (c\<lparr>sy_dst := dst', sy_sent := rec # sy_sent c\<rparr>)) ?g db'" using ak(3) by simp
  have "sys_inv D e d0 m' (c\<lparr>sy_dst := dst', sy_sent := rec # sy_sent c\<rparr>\<lparr>sy_src := db'\<rparr>)"
  proof (rule flags_inv [OF I2 f2])
    show "?g x = x" if "rw_acked x" for x using that lf(2) by auto
    fix x assume x: "x \<in> set (stream_rows ?s (sy_src (c\<lparr>sy_dst := dst', sy_sent := rec # sy_sent c\<rparr>)))" "\<not> rw_acked x" "rw_acked (?g x)"
    then have "x = r" by (simp split: if_splits)
    then show "\<not> rw_quarantined (?g x) \<and> rw_sequence x \<le> int m'
        \<and> (\<exists>rec \<in> set (sy_sent (c\<lparr>sy_dst := dst', sy_sent := rec # sy_sent c\<rparr>)). oh_sequence rec = rw_sequence x)"
      using q lf(1) rv(5) seq by simp
  qed
  then have inv: "sys_inv D e d0 m' c'" by (simp add: c'_def)
  have nd: "nextDeliverable ?p e1 token (sy_src c) = (Inr (Some r), sy_src c)"
    using lease low q lf(1) p by (simp add: nextDeliverable_def critical_good [OF env(1)])
  have vr: "validate_row (dp_crypto D) (dp_sanitized D) ?p r = Inr rec" using d by (simp add: deliverable_def Let_def rec_def)
  have snap: "snapshotAckReceipt (receiptFor (dp_sign D) rec dec) = Inr (receiptFor (dp_sign D) rec dec)"
    using d rv(1) by (auto simp: deliverable_def Let_def rec_def)
  have ack: "ar_decision (receiptFor (dp_sign D) rec dec) \<in> set ACK_DECISIONS"
    using rv(1) by (auto simp: receiptFor_def ACK_DECISIONS_def)
  have st: "settle ver ?p e2 token rec (Delivered (receiptFor (dp_sign D) rec dec)) (sy_src c) = (Inr NextTurn, db')"
    using snap ver ack ak(1) gen p
    by (simp add: settle_def Let_def KNOWN_DECISIONS_def) (simp add: receiptFor_def genuine_def)
  have "distinct (map rw_sequence (stream_rows ?s (sy_src c)))"
  proof -
    obtain n where n: "map rw_sequence (stream_rows ?s (sy_src c)) = map int [1..<Suc n]" using src by (auto simp: src_inv_def)
    show ?thesis unfolding n by (simp add: distinct_map del: upt_Suc)
  qed
  then have "distinct (stream_rows ?s (sy_src c))" by (simp add: distinct_map)
  from filter_drop_one [OF this lf(1), of "\<lambda>r. \<not> rw_acked r"] lf(2)
  have "length (unsettled ?s (sy_src c)) = Suc (length (filter (\<lambda>x. \<not> rw_acked x \<and> x \<noteq> r) (stream_rows ?s (sy_src c))))"
    by (simp add: unsettled_def)
  also have "filter (\<lambda>x. \<not> rw_acked x \<and> x \<noteq> r) (stream_rows ?s (sy_src c)) = filter (\<lambda>x. \<not> rw_acked (?g x)) (stream_rows ?s (sy_src c))"
    by (intro filter_cong) auto
  also have "length \<dots> = length (unsettled ?s db')"
    unfolding unsettled_def flags_only_rows(1) [OF ak(3)] by (simp add: filter_map comp_def)
  finally have count: "length (unsettled ?s (sy_src c)) = Suc (length (unsettled ?s (sy_src c')))" by (simp add: c'_def)
  have "holds_lease ?p token (sy_src c')" using lease ak(2) by (simp add: holds_lease_def c'_def)
  then show ?thesis using inv count nd vr rv(2,3) st ak(3)
    by (intro exI [of _ c'] exI [of _ m'] exI [of _ ?g]) (simp add: c'_def)
qed


lemma flags_only_trans: "flags_only s a g b \<Longrightarrow> flags_only s b h c \<Longrightarrow> flags_only s a (h \<circ> g) c"
  by (auto simp: flags_only_def same_core_def)

text \<open>The loop, until no row is left.\<close>

lemma drain_all:
  assumes "sys_inv D e d0 m c" "pb_streamId (dp_publisher D) = dp_stream D" "holds_lease (dp_publisher D) token (sy_src c)"
    and "\<forall>r \<in> set (stream_rows (dp_stream D) (sy_src c)). \<not> rw_quarantined r \<and> (\<not> rw_acked r \<longrightarrow> deliverable D f r)"
    and "list_all (\<lambda>(e1, e2). good_env (pb_schema (dp_publisher D)) e1 \<and> good_env (pb_schema (dp_publisher D)) e2) es"
    and "good_env (dp_receiverSchema D) er" "jm_get (db_fence (sy_dst c)) (dp_stream D) = Some f"
    and "length (log_of (dp_stream D) (sy_src c)) \<le> nat MAX_SAFE_INTEGER" "\<forall>rec dec. ver (receiptFor (dp_sign D) rec dec) rec"
    and "length (unsettled (dp_stream D) (sy_src c)) < length es"
  shows "\<exists>c' m' g. drain_loop (dp_crypto D) (dp_sanitized D) ver (direct_transport D er) (dp_publisher D) token es res (sy_src c) (sy_dst c)
      = Some (Inr (res\<lparr>dr_published := dr_published res + length (unsettled (dp_stream D) (sy_src c)),
          dr_acked := dr_acked res + length (unsettled (dp_stream D) (sy_src c))\<rparr>), sy_src c', sy_dst c')
    \<and> sys_inv D e d0 m' c' \<and> unsettled (dp_stream D) (sy_src c') = [] \<and> flags_only (dp_stream D) (sy_src c) g (sy_src c')"
  using assms
proof (induction es arbitrary: c m res)
  case Nil
  then show ?case by simp
next
  case (Cons ee es)
  let ?s = "dp_stream D"
  obtain e1 e2 where ee: "ee = (e1, e2)" by (cases ee)
  have env: "good_env (pb_schema (dp_publisher D)) e1" "good_env (pb_schema (dp_publisher D)) e2"
    using Cons(6) by (simp_all add: ee)
  show ?case
  proof (cases "lowest_row ?s (sy_src c)")
    case None
    then have u: "unsettled ?s (sy_src c) = []" by (simp only: lowest_row_unsettled)
    have "nextDeliverable (dp_publisher D) e1 token (sy_src c) = (Inr None, sy_src c)"
      using None Cons(3,4) by (simp add: nextDeliverable_def critical_good [OF env(1)])
    moreover have "flags_only ?s (sy_src c) id (sy_src c)" by (rule flags_only_id) simp_all
    ultimately show ?thesis using u Cons(2) by (intro exI [of _ c] exI [of _ m] exI [of _ id]) (simp add: ee id_def)
  next
    case (Some r)
    have q: "\<forall>r \<in> set (stream_rows ?s (sy_src c)). \<not> rw_quarantined r" using Cons(5) by blast
    have d: "deliverable D f r" using Cons(5) lowest_row_facts(1,2) [OF Some] by blast
    from drain_turn [OF Cons(2-4) Some q d env Cons(7-10), of es res] obtain c1 m1 g where turn:
        "drain_loop (dp_crypto D) (dp_sanitized D) ver (direct_transport D er) (dp_publisher D) token (ee # es) res (sy_src c) (sy_dst c)
          = drain_loop (dp_crypto D) (dp_sanitized D) ver (direct_transport D er) (dp_publisher D) token es
              (res\<lparr>dr_published := Suc (dr_published res), dr_acked := Suc (dr_acked res)\<rparr>) (sy_src c1) (sy_dst c1)"
        "sys_inv D e d0 m1 c1" "holds_lease (dp_publisher D) token (sy_src c1)" "db_fence (sy_dst c1) = db_fence (sy_dst c)"
        "flags_only ?s (sy_src c) g (sy_src c1)" "\<forall>r. rw_quarantined (g r) = rw_quarantined r"
        "length (unsettled ?s (sy_src c)) = Suc (length (unsettled ?s (sy_src c1)))"
      unfolding ee by blast
    have core: "same_core x (g x)" "rw_acked x \<Longrightarrow> rw_acked (g x)" for x using turn(5) by (auto simp: flags_only_def)
    have dl: "deliverable D f (g x) = deliverable D f x" for x by (rule deliverable_core) (rule core(1))
    have rows: "\<forall>r \<in> set (stream_rows ?s (sy_src c1)). \<not> rw_quarantined r \<and> (\<not> rw_acked r \<longrightarrow> deliverable D f r)"
      using Cons(5) turn(6) core(2) dl unfolding flags_only_rows(1) [OF turn(5)] by auto
    have len: "length (log_of ?s (sy_src c1)) \<le> nat MAX_SAFE_INTEGER" using Cons(9) by (simp add: flags_only_rows(2) [OF turn(5)])
    have es: "list_all (\<lambda>(e1, e2). good_env (pb_schema (dp_publisher D)) e1 \<and> good_env (pb_schema (dp_publisher D)) e2) es"
      using Cons(6) by simp
    have fence: "jm_get (db_fence (sy_dst c1)) ?s = Some f" using Cons(8) turn(4) by simp
    have short: "length (unsettled ?s (sy_src c1)) < length es" using Cons(11) turn(7) by simp
    from Cons.IH [OF turn(2) Cons(3) turn(3) rows es Cons(7) fence len Cons(10) short,
        of "res\<lparr>dr_published := Suc (dr_published res), dr_acked := Suc (dr_acked res)\<rparr>"] obtain c' m' g' where ih:
        "drain_loop (dp_crypto D) (dp_sanitized D) ver (direct_transport D er) (dp_publisher D) token es
            (res\<lparr>dr_published := Suc (dr_published res), dr_acked := Suc (dr_acked res)\<rparr>) (sy_src c1) (sy_dst c1)
          = Some (Inr (res\<lparr>dr_published := Suc (dr_published res), dr_acked := Suc (dr_acked res)\<rparr>
              \<lparr>dr_published := dr_published (res\<lparr>dr_published := Suc (dr_published res), dr_acked := Suc (dr_acked res)\<rparr>)
                 + length (unsettled ?s (sy_src c1)),
               dr_acked := dr_acked (res\<lparr>dr_published := Suc (dr_published res), dr_acked := Suc (dr_acked res)\<rparr>)
                 + length (unsettled ?s (sy_src c1))\<rparr>), sy_src c', sy_dst c')"
        "sys_inv D e d0 m' c'" "unsettled ?s (sy_src c') = []" "flags_only ?s (sy_src c1) g' (sy_src c')" by blast
    have "flags_only ?s (sy_src c) (g' \<circ> g) (sy_src c')" by (rule flags_only_trans [OF turn(5) ih(4)])
    then show ?thesis using turn(1,7) ih(1-3)
      by (intro exI [of _ c'] exI [of _ m'] exI [of _ "g' \<circ> g"]) (simp add: comp_def)
  qed
qed

text \<open>
  C6. A drain delivers everything. From any reachable state of the system of
  \<^verbatim>\<open>Durable_System\<close> whose lease is free and whose rows are none quarantined and all deliverable (they pass
  the publisher's checks, carry the receiver's fence token, and their mutations apply), a drain over a
  synchronous transport whose transactions commit returns: with one turn more than there are
  unacknowledged rows it has published and acknowledged exactly those, every row of the stream is
  acknowledged, and the receiver's checkpoint stands at the last of them.
\<close>
theorem drain_delivers:
  assumes "provisioned D e c0" "c = foldl (sys_step D) c0 evs"
    and "case jm_get (db_lease (sy_src c)) (dp_stream D) of Some (Some (t, u)) \<Rightarrow> u < now | _ \<Rightarrow> True"
    and "\<forall>r \<in> set (stream_rows (dp_stream D) (sy_src c)). \<not> rw_quarantined r \<and> (\<not> rw_acked r \<longrightarrow> deliverable D f r)"
    and "good_env (pb_schema (dp_publisher D)) e0" "good_env (pb_schema (dp_publisher D)) e9" "good_env (dp_receiverSchema D) er"
    and "list_all (\<lambda>(e1, e2). good_env (pb_schema (dp_publisher D)) e1 \<and> good_env (pb_schema (dp_publisher D)) e2) es"
    and "jm_get (db_fence (sy_dst c)) (dp_stream D) = Some f" "length (stream_rows (dp_stream D) (sy_src c)) \<le> nat MAX_SAFE_INTEGER"
    and "\<forall>rec dec. ver (receiptFor (dp_sign D) rec dec) rec"
    and "k = length (filter (\<lambda>r. \<not> rw_acked r) (stream_rows (dp_stream D) (sy_src c)))" "k < length es"
  shows "\<exists>src' dst' digest. drainOnce (dp_crypto D) (dp_sanitized D) ver (direct_transport D er) (dp_publisher D) now token e0 es e9 (sy_src c) (sy_dst c)
      = Some (Inr \<lparr>dr_published = k, dr_acked = k, dr_quarantined = 0, dr_retriable = False\<rparr>, src', dst')
    \<and> list_all rw_acked (stream_rows (dp_stream D) src')
    \<and> map (row_record (dp_stream D)) (stream_rows (dp_stream D) src') = map (row_record (dp_stream D)) (stream_rows (dp_stream D) (sy_src c))
    \<and> jm_get (db_receiver dst') (dp_stream D) = Some (e, int (length (stream_rows (dp_stream D) (sy_src c))), digest)"
proof -
  let ?s = "dp_stream D"
  let ?p = "dp_publisher D"
  have p: "pb_streamId ?p = ?s" using assms(1) by (simp add: provisioned_def)
  obtain m where I: "sys_inv D e (db_data (sy_dst c0)) m c" using sys_run_inv [OF assms(1)] assms(2) by blast
  let ?db = "snd (acquireLease ?p e0 now token (sy_src c))"
  note f = lease_flags(1) [of ?s "sy_src c" ?p e0 now token]
  have I1: "sys_inv D e (db_data (sy_dst c0)) m (c\<lparr>sy_src := ?db\<rparr>)" by (rule flags_inv [OF I f]) simp_all
  have lease: "acquireLease ?p e0 now token (sy_src c) = (Inr True, ?db)" "holds_lease ?p token ?db"
    using assms(3) p by (auto simp: acquireLease_def critical_good [OF assms(5)] holds_lease_def split: option.splits)
  have rows: "stream_rows ?s ?db = stream_rows ?s (sy_src c)" "log_of ?s ?db = log_of ?s (sy_src c)"
    using flags_only_rows(1,2) [OF f] by simp_all
  have k: "k = length (unsettled ?s ?db)" by (simp add: unsettled_def rows assms(12))
  define c1 where "c1 = c\<lparr>sy_src := ?db\<rparr>"
  have c1: "sy_src c1 = ?db" "sy_dst c1 = sy_dst c" by (simp_all add: c1_def)
  have I2: "sys_inv D e (db_data (sy_dst c0)) m c1" using I1 by (simp add: c1_def)
  have lease1: "holds_lease ?p token (sy_src c1)" using lease(2) by (simp add: c1)
  have rows1: "\<forall>r \<in> set (stream_rows ?s (sy_src c1)). \<not> rw_quarantined r \<and> (\<not> rw_acked r \<longrightarrow> deliverable D f r)"
    using assms(4) by (simp add: c1 rows)
  have fence1: "jm_get (db_fence (sy_dst c1)) ?s = Some f" using assms(9) by (simp add: c1)
  have len1: "length (log_of ?s (sy_src c1)) \<le> nat MAX_SAFE_INTEGER" using assms(10) by (simp add: c1 rows log_of_def)
  have short: "length (unsettled ?s (sy_src c1)) < length es" using assms(13) k by (simp add: c1)
  from drain_all [OF I2 p lease1 rows1 assms(8,7) fence1 len1 assms(11) short,
      where res = "\<lparr>dr_published = 0, dr_acked = 0, dr_quarantined = 0, dr_retriable = False\<rparr>"]
  obtain c' m' g where dr: "drain_loop (dp_crypto D) (dp_sanitized D) ver (direct_transport D er) ?p token es
        \<lparr>dr_published = 0, dr_acked = 0, dr_quarantined = 0, dr_retriable = False\<rparr> ?db (sy_dst c)
      = Some (Inr \<lparr>dr_published = k, dr_acked = k, dr_quarantined = 0, dr_retriable = False\<rparr>, sy_src c', sy_dst c')"
      "sys_inv D e (db_data (sy_dst c0)) m' c'" "unsettled ?s (sy_src c') = []" "flags_only ?s ?db g (sy_src c')"
    unfolding c1 k by auto
  let ?db9 = "snd (releaseLease ?p e9 token (sy_src c'))"
  note f9 = lease_flags(2) [of ?s "sy_src c'" ?p e9 token]
  have rel: "releaseLease ?p e9 token (sy_src c') = (Inr (), ?db9)" by (simp add: releaseLease_def critical_good [OF assms(6)])
  have rows9: "stream_rows ?s ?db9 = stream_rows ?s (sy_src c')" using flags_only_rows(1) [OF f9] by simp
  have log: "log_of ?s (sy_src c') = log_of ?s (sy_src c)" using flags_only_rows(2) [OF dr(4)] rows(2) by simp
  have acked: "\<forall>r \<in> set (stream_rows ?s (sy_src c')). rw_acked r" using dr(3) by (simp add: unsettled_def filter_empty_conv)
  have "m' = length (stream_rows ?s (sy_src c))"
  proof (cases "stream_rows ?s (sy_src c')")
    case Nil
    then have "log_of ?s (sy_src c') = []" by (simp add: log_of_def)
    then show ?thesis using dr(2) log by (simp add: sys_inv_def dst_inv_def log_of_def)
  next
    case (Cons r0 rs)
    let ?rows = "stream_rows ?s (sy_src c')"
    have len: "length ?rows = length (stream_rows ?s (sy_src c))" using arg_cong [OF log, of length] by (simp add: log_of_def)
    have "src_inv (dp_crypto D) ?s e (oo_maxPendingRows (dp_options D)) (sy_src c')" using dr(2) by (simp add: sys_inv_def)
    from src_rows [OF this, of "length ?rows - 1"] have "rw_sequence (?rows ! (length ?rows - 1)) = int (length ?rows)"
      using Cons by simp
    moreover have "?rows ! (length ?rows - 1) \<in> set ?rows" using Cons by (intro nth_mem) simp
    ultimately have "int (length ?rows) \<le> int m'" using dr(2) acked unfolding sys_inv_def marks_inv_def by metis
    moreover have "m' \<le> length (log_of ?s (sy_src c'))" using dr(2) by (simp add: sys_inv_def dst_inv_def)
    ultimately show ?thesis using len by (simp add: log_of_def)
  qed
  moreover obtain dg where "jm_get (db_receiver (sy_dst c')) ?s = Some (e, int m', dg)" using dr(2) by (auto simp: sys_inv_def dst_inv_def)
  moreover define db1 where "db1 = ?db"
  moreover define db9 where "db9 = ?db9"
  ultimately have "acquireLease ?p e0 now token (sy_src c) = (Inr True, db1)" "releaseLease ?p e9 token (sy_src c') = (Inr (), db9)"
      "drain_loop (dp_crypto D) (dp_sanitized D) ver (direct_transport D er) ?p token es
        \<lparr>dr_published = 0, dr_acked = 0, dr_quarantined = 0, dr_retriable = False\<rparr> db1 (sy_dst c)
      = Some (Inr \<lparr>dr_published = k, dr_acked = k, dr_quarantined = 0, dr_retriable = False\<rparr>, sy_src c', sy_dst c')"
      "stream_rows ?s db9 = stream_rows ?s (sy_src c')"
      "jm_get (db_receiver (sy_dst c')) ?s = Some (e, int (length (stream_rows ?s (sy_src c))), dg)"
    using lease(1) rel dr(1) rows9 by simp_all
  then show ?thesis using log acked
    by (intro exI [of _ db9] exI [of _ "sy_dst c'"] exI [of _ dg]) (simp add: drainOnce_def list_all_iff log_of_def)
qed

end
