(* ===== verification/Durable_Fencing.thy ===== *)
theory Durable_Fencing
  imports Durable_Delivery
begin

text \<open>
  A promotion fences every append with an older token, and a mutation at the limits of the canonical form
  blocks its stream for ever.
\<close>

section \<open>Promotion\<close>

text \<open>The fence stands at \<open>t\<close> or later, and only the rows of \<open>K\<close> carry an older token.\<close>

definition fenced :: "ustr \<Rightarrow> int \<Rightarrow> (ustr \<times> ustr \<times> int) set \<Rightarrow> 'c ha_db \<Rightarrow> bool" where
  "fenced s t K db = ((\<exists>f. jm_get (db_fence db) s = Some f \<and> t \<le> f)
     \<and> (\<forall>r \<in> set (stream_rows s db). rw_fenceToken r < t \<longrightarrow> row_key r \<in> K))"

lemma fenced_flags:
  assumes "fenced s t K db" "flags_only s db g db'" shows "fenced s t K db'"
proof -
  have "rw_fenceToken (g r) = rw_fenceToken r" "row_key (g r) = row_key r" for r
    using assms(2) by (auto simp: flags_only_def same_core_def)
  then show ?thesis using assms(1) flags_only_rows(1) [OF assms(2)] assms(2) by (simp add: fenced_def flags_only_def)
qed

lemma fenced_append:
  assumes "appendInTx cr san opts i db = Inr (h, db')" "fenced (oo_streamId opts) t K db"
  shows "fenced (oo_streamId opts) t K db' \<and> t \<le> ap_fenceToken i"
  using assms(1)
proof (rule append_writes)
  fix e n v
  assume f: "jm_get (db_fence db) (oo_streamId opts) = Some (ap_fenceToken i)"
    and db: "db' = db\<lparr>db_rows := db_rows db @ [new_row (oo_streamId opts) e (n + 1) (ap_fenceToken i) (oh_opDigest h) (normal v)],
      db_source := jm_set (oo_streamId opts) (e, n + 1) (db_source db)\<rparr>"
  have "t \<le> ap_fenceToken i" using assms(2) f by (auto simp: fenced_def)
  then show ?thesis using assms(2) by (auto simp: fenced_def db stream_rows_append new_row_def)
qed

lemma fenced_actions:
  "run_actions cr san opts as db = Inr (hs, db') \<Longrightarrow> fenced (oo_streamId opts) t K db \<Longrightarrow>
    fenced (oo_streamId opts) t K db' \<and> (\<forall>i. Append i \<in> set as \<longrightarrow> t \<le> ap_fenceToken i)"
proof (induction cr san opts as db arbitrary: hs rule: run_actions.induct)
  case (2 cr san opts i as db)
  then obtain h db1 hs1 where 1: "appendInTx cr san opts i db = Inr (h, db1)" "run_actions cr san opts as db1 = Inr (hs1, db')"
    by (auto simp: then_do_Inr_iff)
  from fenced_append [OF 1(1) 2(3)] 2(1) [OF 1(2)] show ?case by auto
next
  case (3 cr san opts f as db)
  then show ?case by (auto simp: then_do_Inr_iff fenced_def stream_rows_def)
qed simp

lemma fence_acquire_up:
  "db_fence (snd (fence_acquire env schema s db)) = db_fence db
   \<or> (\<exists>t. db_fence (snd (fence_acquire env schema s db)) = jm_set s t (db_fence db)
        \<and> (\<forall>f. jm_get (db_fence db) s = Some f \<longrightarrow> f < t))"
  unfolding fence_acquire_def by (rule critical_ind) (auto simp: Let_def split: if_splits option.splits)

lemma fenced_step:
  assumes "fenced (dp_stream D) t K (sy_src c)" shows "fenced (dp_stream D) t K (sy_src (sys_step D c ev))"
proof (cases ev)
  case (Write env as)
  show ?thesis unfolding Write sys_step.simps withOutboxTx_def sys.simps
    by (rule critical_ind) (use assms in \<open>auto simp: then_do_Inr_iff dest: fenced_actions\<close>)
next
  case (Lease env now token)
  then show ?thesis using fenced_flags [OF assms lease_flags(1)] by simp
next
  case (Unlease env token)
  then show ?thesis using fenced_flags [OF assms lease_flags(2)] by simp
next
  case (Send env token)
  have "fenced (dp_stream D) t K (snd (nextDeliverable (dp_publisher D) env token (sy_src c)))"
    by (rule fenced_flags [OF assms lease_flags(3)])
  then show ?thesis using Send by (auto split: prod.splits sum.splits option.splits)
next
  case (Receive env rec)
  then show ?thesis using assms by (auto split: prod.splits sum.splits)
next
  case (Settle env token rec reply)
  obtain g where "flags_only (dp_stream D) (sy_src c) g
      (snd (settle (\<lambda>r _. r \<in> set (sy_issued c)) (dp_publisher D) env token rec reply (sy_src c)))" by (rule settle_sound)
  from fenced_flags [OF assms this] show ?thesis using Settle assms by simp
next
  case (PromoteSource env)
  show ?thesis using fence_acquire_up [of env "dp_schema D" "dp_stream D" "sy_src c"] assms
    by (fastforce simp: PromoteSource fenced_def stream_rows_def fence_rows)
next
  case (PromoteReceiver env)
  then show ?thesis using assms by simp
qed

text \<open>
  C12. A promotion fences the writers before it. Once \<open>PgPromotionFence.acquire\<close> has returned the token \<open>t\<close>,
  after any further transactions of writers, publishers, receivers and promotions: the fence stands at
  \<open>t\<close> or later, every \<open>withOutboxTx\<close> that appends with an older token fails and leaves the database as it
  was, the caller's own statements included, and every row with an older token was there at the promotion.
\<close>
theorem promotion_fences:
  assumes "fence_acquire env (dp_schema D) (dp_stream D) (sy_src c) = (Inr t, db)"
    and "c' = foldl (sys_step D) (c\<lparr>sy_src := db\<rparr>) evs" "Append i \<in> set as" "ap_fenceToken i < t"
  shows "(\<exists>f. jm_get (db_fence (sy_src c')) (dp_stream D) = Some f \<and> t \<le> f)
    \<and> (\<exists>e. withOutboxTx (dp_crypto D) (dp_sanitize D) (dp_options D) (dp_schema D) (dp_preCommit D) env' as (sy_src c') = (Inl e, sy_src c'))
    \<and> (\<forall>r \<in> set (stream_rows (dp_stream D) (sy_src c')). rw_fenceToken r < t \<longrightarrow>
         row_key r \<in> row_key ` set (stream_rows (dp_stream D) (sy_src c)))"
proof -
  let ?s = "dp_stream D"
  let ?K = "row_key ` set (stream_rows ?s (sy_src c))"
  have b: "db = sy_src c\<lparr>db_fence := jm_set ?s t (db_fence (sy_src c))\<rparr>"
    using critical_Inr [OF assms(1) [unfolded fence_acquire_def]] by (auto simp: Let_def split: if_splits)
  then have "fenced ?s t ?K (sy_src (c\<lparr>sy_src := db\<rparr>))" by (simp add: fenced_def stream_rows_def)
  then have "fenced ?s t ?K (sy_src (foldl (sys_step D) (c\<lparr>sy_src := db\<rparr>) evs))"
    by (induction evs rule: rev_induct) (simp_all add: fenced_step)
  then have f: "fenced ?s t ?K (sy_src c')" by (simp add: assms(2))
  have no: "\<not> (\<exists>v. run_actions (dp_crypto D) (dp_sanitize D) (dp_options D) as (sy_src c') = Inr v)"
    using fenced_actions [OF _ f] assms(3,4) by fastforce
  let ?body = "\<lambda>db. then_do (run_actions (dp_crypto D) (dp_sanitize D) (dp_options D) as db) (\<lambda>(hs, db1).
       then_do (if hs \<noteq> [] then dp_preCommit D db1 else Inr ()) (\<lambda>_. Inr (hs, db1)))"
  have "\<exists>e. critical env' (dp_schema D) ?body (sy_src c') = (Inl e, sy_src c')"
    using critical_cases [of env' "dp_schema D" ?body "sy_src c'"] no by (auto simp: then_do_Inr_iff)
  then show ?thesis using f unfolding fenced_def withOutboxTx_def by blast
qed

section \<open>A mutation too deep for the publisher\<close>

lemma row_value_depth: "conforms (Suc n) (row_value r) \<Longrightarrow> conforms n (plain (rw_mutation r))"
  by (simp add: row_value_def data_props_def slot_value_def)

lemma deep_row_invalid:
  assumes "\<not> conforms 64 (plain (rw_mutation r))" shows "\<exists>msg. validate_row cr san p r = invalid msg"
proof -
  have "\<not> conforms 65 (row_value r)" using row_value_depth [of 64 r] assms by auto
  then have "\<nexists>t. canonicalize_value (row_value r) = returns t" using accepts_iff [of "row_value r"] by simp
  then obtain m where "snapshotJson (row_value r) = Inl m" by (cases "snapshotJson (row_value r)") (auto simp: snapshotJson_iff)
  then show ?thesis by (simp add: validate_row_def contract_def)
qed

lemma nextDeliverable_same: "snd (nextDeliverable p env token db) = db"
  unfolding nextDeliverable_def by (rule critical_ind) (auto simp: then_do_Inr_iff)

text \<open>The rows and the quarantine; leases come and go.\<close>

lemma lease_same:
  "db_rows (snd (acquireLease p env now token db)) = db_rows db" "db_quarantine (snd (acquireLease p env now token db)) = db_quarantine db"
  "db_rows (snd (releaseLease p env token db)) = db_rows db" "db_quarantine (snd (releaseLease p env token db)) = db_quarantine db"
proof -
  let ?same = "\<lambda>d. db_rows d = db_rows db \<and> db_quarantine d = db_quarantine db"
  have "?same (snd (acquireLease p env now token db))" unfolding acquireLease_def
    by (rule critical_ind) (auto simp: Let_def split: if_splits)
  moreover have "?same (snd (releaseLease p env token db))" unfolding releaseLease_def
    by (rule critical_ind) (auto split: if_splits)
  ultimately show "db_rows (snd (acquireLease p env now token db)) = db_rows db"
    "db_quarantine (snd (acquireLease p env now token db)) = db_quarantine db"
    "db_rows (snd (releaseLease p env token db)) = db_rows db"
    "db_quarantine (snd (releaseLease p env token db)) = db_quarantine db" by simp_all
qed

definition delivers_nothing :: "drain_result outcome \<Rightarrow> bool" where
  "delivers_nothing res = (case res of Inl e \<Rightarrow> True | Inr v \<Rightarrow> dr_published v = 0 \<and> dr_acked v = 0 \<and> dr_quarantined v = 0)"

lemma deep_loop:
  assumes "lowest_row (pb_streamId p) db = Some r" "\<not> conforms 64 (plain (rw_mutation r))" "\<not> rw_quarantined r"
    and "dr_published st = 0" "dr_acked st = 0" "dr_quarantined st = 0"
  shows "\<exists>res. drain_loop cr san ver tr p token ((e1, e2) # es) st db w = Some (res, db, w) \<and> delivers_nothing res
    \<and> (good_env (pb_schema p) e1 \<and> holds_lease p token db \<longrightarrow> (\<exists>msg. res = invalid msg))"
proof -
  obtain n where n: "nextDeliverable p e1 token db = (n, db)"
    using nextDeliverable_same [of p e1 token db] by (cases "nextDeliverable p e1 token db") simp
  obtain msg where v: "validate_row cr san p r = invalid msg" using deep_row_invalid [OF assms(2)] by blast
  have only: "r' = r" if "n = Inr (Some r')" for r'
    using nextDeliverable_row [of p e1 token db r' db] n that assms(1) by simp
  consider e where "n = Inl e" | "n = Inr None" | "n = Inr (Some r)"
    using only by (metis option.exhaust sum.exhaust)
  then show ?thesis
  proof cases
    case 3
    then show ?thesis using n v by (simp add: delivers_nothing_def)
  next
    case 1
    have "n = Inr (Some r)" if "good_env (pb_schema p) e1" "holds_lease p token db"
      using n that assms(1,3) by (simp add: nextDeliverable_def critical_good [OF that(1)])
    then show ?thesis using n 1 by (auto simp: delivers_nothing_def)
  next
    case 2
    have "n = Inr (Some r)" if "good_env (pb_schema p) e1" "holds_lease p token db"
      using n that assms(1,3) by (simp add: nextDeliverable_def critical_good [OF that(1)])
    then show ?thesis using n 2 assms(4-6) by (auto simp: delivers_nothing_def)
  qed
qed

text \<open>
  C40. Finding: a mutation that the outbox accepts can block its stream for ever. The digest allows a mutation
  64 levels below its root, but the publisher takes the canonical form of the whole row, one level deeper,
  before anything else. So once such a record is appended to a stream without a backlog, no drain ever
  delivers, acknowledges or quarantines anything: it changes neither rows nor quarantine nor the receiver,
  and with the lease free and the transactions committing it ends in a validation error every time.
\<close>
theorem deep_mutation_wedges:
  assumes "appendInTx cr sanitize opts i db0 = Inr (h, db)" "unsettled (oo_streamId opts) db0 = []"
    and "\<not> conforms 64 (plain (rw_mutation (last (db_rows db))))" "pb_streamId p = oo_streamId opts"
  shows "\<exists>res db'. drainOnce cr san ver tr p now token e0 ((e1, e2) # es) e9 db w = Some (res, db', w)
    \<and> db_rows db' = db_rows db \<and> db_quarantine db' = db_quarantine db \<and> delivers_nothing res
    \<and> (good_env (pb_schema p) e0 \<and> good_env (pb_schema p) e1 \<and> good_env (pb_schema p) e9
       \<and> (case jm_get (db_lease db) (pb_streamId p) of Some (Some (t, u)) \<Rightarrow> u < now | _ \<Rightarrow> True) \<longrightarrow> (\<exists>msg. res = invalid msg))"
proof -
  obtain r where rows: "db_rows db = db_rows db0 @ [r]" "\<not> rw_acked r" "\<not> rw_quarantined r" "rw_streamId r = pb_streamId p"
    using assms(1) by (rule append_writes) (simp add: new_row_def assms(4))
  have deep: "\<not> conforms 64 (plain (rw_mutation r))" using assms(3) rows(1) by simp
  have low: "lowest_row (pb_streamId p) d = Some r" if "db_rows d = db_rows db" for d :: "'a ha_db"
  proof -
    have "filter (\<lambda>r. rw_streamId r = pb_streamId p \<and> \<not> rw_acked r) (db_rows db0) = []"
      using assms(2,4) by (auto simp: unsettled_def stream_rows_def filter_empty_conv)
    then show ?thesis using rows that by (simp add: lowest_row_def)
  qed
  let ?st = "\<lparr>dr_published = 0, dr_acked = 0, dr_quarantined = 0, dr_retriable = False\<rparr>"
  obtain b db1 where a: "acquireLease p e0 now token db = (b, db1)" by fastforce
  have same1: "db_rows db1 = db_rows db" "db_quarantine db1 = db_quarantine db"
    using lease_same(1,2) [of p e0 now token db] by (simp_all add: a)
  have st: "dr_published ?st = 0" "dr_acked ?st = 0" "dr_quarantined ?st = 0" by simp_all
  from deep_loop [OF low [OF same1(1)] deep rows(3) st, of cr san ver tr token e1 e2 es w]
  obtain res where l: "drain_loop cr san ver tr p token ((e1, e2) # es) ?st db1 w = Some (res, db1, w)" "delivers_nothing res"
      "good_env (pb_schema p) e1 \<and> holds_lease p token db1 \<longrightarrow> (\<exists>msg. res = invalid msg)"
    by blast
  obtain u db9 where z: "releaseLease p e9 token db1 = (u, db9)" by fastforce
  have same9: "db_rows db9 = db_rows db" "db_quarantine db9 = db_quarantine db"
    using lease_same(3,4) [of p e9 token db1] same1 by (simp_all add: z)
  have free: "b = Inr True \<and> holds_lease p token db1"
    if "good_env (pb_schema p) e0" "case jm_get (db_lease db) (pb_streamId p) of Some (Some (t, u)) \<Rightarrow> u < now | _ \<Rightarrow> True"
    using a that(2) by (auto simp: acquireLease_def critical_good [OF that(1)] holds_lease_def split: option.splits)
  have rel: "u = Inr ()" if "good_env (pb_schema p) e9" using z by (simp add: releaseLease_def critical_good [OF that])
  consider e where "b = Inl e" | "b = Inr False" | e where "b = Inr True" "u = Inl e" | "b = Inr True" "u = Inr ()"
    by (cases b; cases u) auto
  then show ?thesis
  proof cases
    case 1
    then show ?thesis using a same1 free by (auto simp: drainOnce_def delivers_nothing_def)
  next
    case 2
    then show ?thesis using a same1 free by (auto simp: drainOnce_def delivers_nothing_def)
  next
    case 3
    then show ?thesis using a l(1) z same9 rel by (auto simp: drainOnce_def delivers_nothing_def)
  next
    case 4
    then show ?thesis using a l z same9 free by (auto simp: drainOnce_def)
  qed
qed

end
