(* ===== verification/Durable_Examples.thy ===== *)
theory Durable_Examples
  imports Durable_Fencing
begin

text \<open>
  A small deployment in which the theorems about the durable outbox are applied: one stream, a schema
  \<^verbatim>\<open>ha\<close>, fence tokens 1, and a receiver that counts what it applied.
\<close>

definition ob_crypto :: webcrypto where
  "ob_crypto = ex_crypto\<lparr>wc_sha256 := \<lambda>b. replicate 32 0\<rparr>"

definition ob_options :: outbox_options where
  "ob_options = \<lparr>oo_streamId = units ''s'', oo_maxPendingRows = 5, oo_scopeDeadlineMs = None\<rparr>"

definition ob_env :: tx_env where
  "ob_env = \<lparr>te_session = \<lparr>ss_isolation = ''serializable'', ss_current_schema = ''ha'', ss_path = [''ha'', ''pg_catalog'']\<rparr>,
     te_commit = Committed\<rparr>"

definition ob_publisher :: publisher where
  "ob_publisher = \<lparr>pb_streamId = units ''s'', pb_schema = ''ha'', pb_leaseMs = 30000\<rparr>"

definition ob_db :: "nat ha_db" where
  "ob_db = \<lparr>db_meta = [3], db_fence = [(units ''s'', 1)], db_source = [(units ''s'', (units ''e'', 0))],
     db_receiver = [(units ''s'', (units ''e'', 0, []))], db_rows = [], db_lease = [], db_quarantine = [], db_applied = [], db_data = 0\<rparr>"

definition ob_deploy :: "(nat, nat) deployment" where
  "ob_deploy = \<lparr>dp_crypto = ob_crypto, dp_sanitize = Inr, dp_sanitized = \<lambda>_. True, dp_options = ob_options, dp_schema = ''ha'',
     dp_preCommit = \<lambda>_. Inr (), dp_publisher = ob_publisher, dp_apply = \<lambda>_ d. Inr (Suc d), dp_receiverSchema = ''ha'', dp_sign = \<lambda>_ _. []\<rparr>"

definition ob_sys :: "(nat, nat) sys" where
  "ob_sys = \<lparr>sy_src = ob_db, sy_dst = ob_db, sy_sent = [], sy_issued = []\<rparr>"

definition ob_append :: "jsval \<Rightarrow> append_input" where
  "ob_append v = \<lparr>ap_streamId = units ''s'', ap_rawMutation = v, ap_fenceToken = 1\<rparr>"

definition ob_row :: "jnorm \<Rightarrow> outbox_row" where
  "ob_row m = new_row (units ''s'') (units ''e'') 1 1 (replicate 64 0x30) m"


lemma string_ok_ascii: "list_all (\<lambda>c. unat c < 128) s \<Longrightarrow> length s \<le> 100 \<Longrightarrow> well_formed s \<Longrightarrow> string_ok s"
  by (simp add: string_ok_def utf8Len_ascii CANON_MAX_STRING_BYTES_def)

definition ob_values :: "jsval list" where
  "ob_values = [row_value (ob_row NNull), record_value (row_record (units ''s'') (ob_row NNull)),
     receipt_value (receiptFor (\<lambda>_ _. []) (row_record (units ''s'') (ob_row NNull)) Applied),
     receipt_value (receiptFor (\<lambda>_ _. []) (row_record (units ''s'') (ob_row NNull)) DuplicateOk)]"

fun shallow :: "jsval \<Rightarrow> bool" where
  "shallow (VStr s) = (list_all (\<lambda>c. unat c < 128) s \<and> length s \<le> 100 \<and> well_formed s)"
| "shallow (VNum (Whole i)) = (\<bar>i\<bar> < 100)"
| "shallow VNull = True"
| "shallow v = False"

fun flat :: "jsval \<Rightarrow> bool" where
  "flat (VObj True False ps) = (check_object True False ps = returns () \<and> list_all (\<lambda>(k, p). shallow (VStr k) \<and> (case p of DataProp v \<Rightarrow> shallow v | _ \<Rightarrow> False)) ps)"
| "flat v = False"

lemma shallow_conforms: "shallow v \<Longrightarrow> conforms (Suc l) v"
  by (cases v rule: shallow.cases) (auto simp: string_ok_ascii is_safe_integer_def MAX_SAFE_INTEGER_def)


lemma flat_conforms: "flat v \<Longrightarrow> conforms (Suc (Suc l)) v"
proof (cases v rule: flat.cases)
  case (1 ps)
  assume f: "flat v"
  have "string_ok k \<and> conforms (Suc l) (slot_value (Some p))" if "(k, p) \<in> set ps" for k p
  proof -
    from f that have "shallow (VStr k) \<and> (case p of DataProp v \<Rightarrow> shallow v | _ \<Rightarrow> False)" by (auto simp: 1 list_all_iff)
    then show ?thesis by (cases p) (simp_all add: slot_value_def string_ok_ascii shallow_conforms del: conforms.simps)
  qed
  then show ?thesis using f unfolding 1 conforms.simps by (auto simp: list_all_iff simp del: conforms.simps)
qed simp_all


lemma ob_flat: "list_all flat ob_values"
  by code_simp

lemma ob_nodes: "list_all (\<lambda>v. node_count (normal v) < 20) ob_values"
  by code_simp

lemma ob_bytes_row: "byte_count (normal (row_value (ob_row NNull))) < 1000"
  by code_simp

lemma ob_bytes_record: "byte_count (normal (record_value (row_record (units ''s'') (ob_row NNull)))) < 1000"
  by code_simp

lemma ob_bytes_applied: "byte_count (normal (receipt_value (receiptFor (\<lambda>_ _. []) (row_record (units ''s'') (ob_row NNull)) Applied))) < 1000"
  by code_simp

lemma ob_bytes_duplicate: "byte_count (normal (receipt_value (receiptFor (\<lambda>_ _. []) (row_record (units ''s'') (ob_row NNull)) DuplicateOk))) < 1000"
  by code_simp

lemmas ob_bytes = ob_bytes_row ob_bytes_record ob_bytes_applied ob_bytes_duplicate

lemma ob_patterns: "FENCE_TOKEN_PATTERN (units (int_to_dec 1))" "ID_PATTERN (units ''s'')" "ID_PATTERN (units ''e'')"
  by code_simp+

lemma ob_hex: "HEX64 (replicate 64 0x30)"
  by (simp add: HEX64_def list_all_iff unit_in_def is_digit_def)

lemma ob_canonical: "v \<in> set ob_values \<Longrightarrow> \<exists>t. canonicalize_value v = returns t"
proof -
  assume v: "v \<in> set ob_values"
  then have "flat v" "node_count (normal v) < 20" using ob_flat ob_nodes by (simp_all add: list_all_iff)
  moreover have "byte_count (normal v) < 1000" using v ob_bytes unfolding ob_values_def by auto
  moreover have "conforms 65 v" using flat_conforms [OF \<open>flat v\<close>, of 63] by (simp add: eval_nat_numeral del: conforms.simps)
  ultimately show ?thesis unfolding accepts_iff by simp
qed

text \<open>Mutations nested in arrays, and the appends of those that the digest accepts.\<close>

fun nest :: "nat \<Rightarrow> jsval" where
  "nest 0 = VNull"
| "nest (Suc n) = VArr False [Some (DataProp (nest n))] []"

fun nnest :: "nat \<Rightarrow> jnorm" where
  "nnest 0 = NNull"
| "nnest (Suc n) = NArr [nnest n]"

lemma nest_facts: "normal (nest n) = nnest n" "plain (nnest n) = nest n" "storable (nnest n)" "node_count (nnest n) = Suc n"
  "byte_count (nnest n) = 4 + 2 * n"
  by (induction n) (simp_all add: norm_slot_def)

lemma nest_conforms: "conforms l (nest n) \<longleftrightarrow> n < l"
proof (induction n arbitrary: l)
  case (Suc n)
  have "check_array False [Some (DataProp (nest n))] [] = returns ()" by (simp add: check_array_def)
  then show ?case using Suc by (cases l) (simp_all add: slot_value_def)
next
  case 0
  then show ?case by (cases l) simp_all
qed

lemma nest_canonical: "n \<le> 64 \<Longrightarrow> \<exists>t. canonicalize_value (nest n) = returns t"
  unfolding accepts_iff by (simp add: nest_facts nest_conforms)

lemma ob_digest:
  assumes "n \<le> 64"
  shows "canonicalOpDigest ob_crypto (record_op (row_record (units ''s'') (ob_row (nnest n)))) = returns (replicate 64 0x30)"
proof -
  let ?i = "record_op (row_record (units ''s'') (ob_row (nnest n)))"
  have v: "valid_op ?i" using ob_patterns by (simp add: valid_op_def record_op_def row_record_def ob_row_def new_row_def is_safe_integer_def
      MAX_SAFE_INTEGER_def del: units_simps)
  have m: "od_mutation ?i = nest n" by (simp add: record_op_def row_record_def ob_row_def new_row_def nest_facts)
  obtain t where t: "canonicalize_value (od_mutation ?i) = returns t" using nest_canonical [OF assms] m by auto
  from op_total [OF v this] obtain d where d: "framed_digest ob_crypto (op_frame ?i) = returns d" by blast
  have "units (concat (map hex_byte (replicate 32 0))) = replicate 64 0x30" by code_simp
  then have "d = replicate 64 0x30" using d by (auto simp: framed_digest_iff ob_crypto_def)
  then show ?thesis using v t d by (auto simp: opDigest_iff)
qed

lemma ob_header: "assertHeaderConformant (outbox_header.truncate (row_record (units ''s'') (ob_row m))) = returns ()"
  using ob_patterns ob_hex by (simp add: assertHeaderConformant_def conformance outbox_header.truncate_def row_record_def ob_row_def new_row_def
      is_safe_integer_def MAX_SAFE_INTEGER_def del: units_simps)

definition ob_written :: "nat \<Rightarrow> nat ha_db" where
  "ob_written n = ob_db\<lparr>db_rows := [ob_row (nnest n)], db_source := [(units ''s'', (units ''e'', 1))]\<rparr>"

lemma ob_append:
  assumes "n \<le> 64"
  shows "appendInTx ob_crypto Inr ob_options (ob_append (nest n)) ob_db
    = Inr (outbox_header.truncate (row_record (units ''s'') (ob_row (nnest n))), ob_written n)"
proof -
  have s: "snapshotJson (nest n) = returns (nnest n)" using nest_canonical [OF assms] by (simp add: snapshotJson_iff nest_facts)
  have f: "fenceTokenToDecimal 1 = returns (units (int_to_dec 1))" by code_simp
  note h = ob_hex
  have len: "length (units ''s'') = 1" "length (units ''e'') = 1" by simp_all
  have d: "canonicalOpDigest ob_crypto \<lparr>od_streamId = units ''s'', od_sourceEpoch = units ''e'', od_sequence = 1,
      od_fenceToken = units (int_to_dec 1), od_mutation = nest n\<rparr> = returns (replicate 64 0x30)"
    using ob_digest [OF assms] by (simp add: record_op_def row_record_def ob_row_def new_row_def nest_facts del: units_simps)
  have hd: "assertHeaderConformant \<lparr>oh_contractVersion = HA_OUTBOX_CONTRACT_VERSION, oh_streamId = units ''s'', oh_sourceEpoch = units ''e'',
      oh_sequence = 1, oh_fenceToken = units (int_to_dec 1), oh_opDigest = replicate 64 0x30\<rparr> = returns ()"
    using ob_header [of "nnest n"] by (simp add: outbox_header.truncate_def row_record_def ob_row_def new_row_def del: units_simps)
  show ?thesis
    using s f h d hd len by (simp add: appendInTx_def ob_append_def ob_options_def ob_db_def pending_rows_def safeSeq_def MAX_SAFE_INTEGER_def
        insert_row_def row_check_def FENCE_MAX_EXCLUSIVE_def nest_facts ob_row_def new_row_def ob_written_def
        outbox_header.truncate_def row_record_def del: units_simps)
qed

lemma ob_validate: "validate_row ob_crypto (\<lambda>_. True) ob_publisher (ob_row NNull) = Inr (row_record (units ''s'') (ob_row NNull))"
proof -
  let ?rec = "row_record (units ''s'') (ob_row NNull)"
  obtain t where t: "snapshotJson (row_value (ob_row NNull)) = returns t"
    using ob_canonical [of "row_value (ob_row NNull)"] by (auto simp: ob_values_def snapshotJson_iff)
  have "snapshotRecord ?rec = Inr ?rec"
    using ob_canonical [of "record_value ?rec"] ob_header [of NNull]
    by (simp add: snapshotRecord_iff ob_values_def) (simp add: row_record_def ob_row_def new_row_def)
  moreover have "canonicalOpDigest ob_crypto (record_op ?rec) = returns (oh_opDigest ?rec)"
    using ob_digest [of 0] by (simp add: row_record_def ob_row_def new_row_def del: units_simps)
  ultimately show ?thesis
    by (simp add: validate_row_def t ob_publisher_def del: units_simps)
       (simp add: ob_row_def new_row_def safeSeq_def MAX_SAFE_INTEGER_def)
qed


lemma ob_good: "good_env ''ha'' ob_env"
  by code_simp

definition ob_sys1 :: "(nat, nat) sys" where
  "ob_sys1 = ob_sys\<lparr>sy_src := ob_written 0\<rparr>"

lemma ob_run: "foldl (sys_step ob_deploy) ob_sys [Write ob_env [Append (ob_append (nest 0))]] = ob_sys1"
  by (simp add: ob_deploy_def ob_sys_def withOutboxTx_def critical_good [OF ob_good] ob_append ob_sys1_def del: nest.simps)

lemma ob_provisioned: "provisioned ob_deploy (units ''e'') ob_sys"
  by (simp add: provisioned_def ob_deploy_def ob_options_def ob_publisher_def ob_sys_def ob_db_def stream_rows_def)

lemma ob_rows: "stream_rows (units ''s'') (ob_written 0) = [ob_row NNull]" "\<not> rw_acked (ob_row m)" "\<not> rw_quarantined (ob_row m)"
  by (simp_all add: stream_rows_def ob_written_def ob_row_def new_row_def)

lemma ob_deliverable: "deliverable ob_deploy 1 (ob_row NNull)"
proof -
  let ?rec = "row_record (units ''s'') (ob_row NNull)"
  have "snapshotAckReceipt (receiptFor (\<lambda>_ _. []) ?rec dec) = Inr (receiptFor (\<lambda>_ _. []) ?rec dec)" if "dec \<in> {Applied, DuplicateOk}" for dec
  proof -
    have "\<exists>t. canonicalize_value (receipt_value (receiptFor (\<lambda>_ _. []) ?rec dec)) = returns t"
      by (rule ob_canonical) (use that in \<open>auto simp: ob_values_def simp del: units_simps\<close>)
    then obtain t where "snapshotJson (receipt_value (receiptFor (\<lambda>_ _. []) ?rec dec)) = returns t" by (auto simp: snapshotJson_iff)
    then show ?thesis by (simp add: snapshotAckReceipt_def del: units_simps)
        (simp add: receiptFor_def row_record_def ob_row_def new_row_def is_safe_integer_def MAX_SAFE_INTEGER_def)
  qed
  moreover have "rw_fenceToken (ob_row NNull) = 1" by (simp add: ob_row_def new_row_def)
  ultimately show ?thesis using ob_validate
    by (simp add: deliverable_def Let_def ob_deploy_def ob_options_def del: units_simps)
qed

lemma drain_delivers_witness:
  "\<exists>src' dst' dg. drainOnce ob_crypto (\<lambda>_. True) (\<lambda>_ _. True) (direct_transport ob_deploy ob_env) ob_publisher 5 (units ''t'') ob_env
      [(ob_env, ob_env), (ob_env, ob_env)] ob_env (ob_written 0) ob_db
    = Some (Inr \<lparr>dr_published = 1, dr_acked = 1, dr_quarantined = 0, dr_retriable = False\<rparr>, src', dst')
    \<and> list_all rw_acked (stream_rows (units ''s'') src')
    \<and> jm_get (db_receiver dst') (units ''s'') = Some (units ''e'', 1, dg)"
proof -
  have d: "dp_stream ob_deploy = units ''s''" "dp_publisher ob_deploy = ob_publisher" "dp_receiverSchema ob_deploy = ''ha''"
    "dp_crypto ob_deploy = ob_crypto" "dp_sanitized ob_deploy = (\<lambda>_. True)" "pb_schema ob_publisher = ''ha''"
    by (simp_all add: ob_deploy_def ob_options_def ob_publisher_def)
  have c: "sy_src ob_sys1 = ob_written 0" "sy_dst ob_sys1 = ob_db" by (simp_all add: ob_sys1_def ob_sys_def)
  have "case jm_get (db_lease (ob_written 0)) (units ''s'') of Some (Some (t, u)) \<Rightarrow> u < (5::int) | _ \<Rightarrow> True"
    by (simp add: ob_written_def ob_db_def)
  moreover have "jm_get (db_fence ob_db) (units ''s'') = Some 1" by (simp add: ob_db_def)
  ultimately show ?thesis
    using drain_delivers [OF ob_provisioned ob_run [symmetric], where now = 5 and f = 1 and k = 1 and ver = "\<lambda>_ _. True"
        and ?e0.0 = ob_env and ?e9.0 = ob_env and er = ob_env and es = "[(ob_env, ob_env), (ob_env, ob_env)]" and token = "units ''t''"]
      ob_good ob_deliverable ob_rows unfolding d c by (simp add: MAX_SAFE_INTEGER_def del: units_simps) blast
qed

lemma outbox_refines_log_witness:
  "spec_of ob_deploy ob_sys1 = ([row_record (units ''s'') (ob_row NNull)], 0)
    \<and> spec_step ([row_record (units ''s'') (ob_row NNull)], 0) (spec_of ob_deploy (sys_step ob_deploy ob_sys1 (PromoteSource ob_env)))"
proof -
  have "spec_of ob_deploy ob_sys1 = ([row_record (units ''s'') (ob_row NNull)], 0)"
    using ob_rows(1) by (simp add: spec_of_def log_of_def ob_deploy_def ob_options_def ob_sys1_def ob_sys_def ob_db_def)
  with outbox_refines_log [OF ob_provisioned ob_run [symmetric] this, of "PromoteSource ob_env"] show ?thesis by blast
qed

lemma promotion_fences_witness:
  "\<exists>e. withOutboxTx ob_crypto Inr ob_options ''ha'' (\<lambda>_. Inr ()) ob_env [Append (ob_append (nest 0))] (ob_db\<lparr>db_fence := [(units ''s'', 2)]\<rparr>)
    = (Inl e, ob_db\<lparr>db_fence := [(units ''s'', 2)]\<rparr>)"
proof -
  have "fence_acquire ob_env (dp_schema ob_deploy) (dp_stream ob_deploy) (sy_src ob_sys) = (Inr 2, ob_db\<lparr>db_fence := [(units ''s'', 2)]\<rparr>)"
    by (simp add: fence_acquire_def ob_deploy_def ob_options_def ob_sys_def critical_good [OF ob_good] Let_def ob_db_def FENCE_MAX_EXCLUSIVE_def)
  from promotion_fences [OF this refl, where evs = "[]" and i = "ob_append (nest 0)" and as = "[Append (ob_append (nest 0))]"
      and env' = ob_env]
  show ?thesis by (simp add: ob_deploy_def ob_append_def)
qed

lemma deep_mutation_wedges_witness:
  "\<exists>h. appendInTx ob_crypto Inr ob_options (ob_append (nest 64)) ob_db = Inr (h, ob_written 64)
    \<and> (\<exists>db' msg. drainOnce ob_crypto (\<lambda>_. True) (\<lambda>_ _. True) (\<lambda>_ w. (Failed, w)) ob_publisher 5 (units ''t'') ob_env [(ob_env, ob_env)] ob_env
        (ob_written 64) () = Some (invalid msg, db', ()) \<and> db_rows db' = db_rows (ob_written 64))"
proof -
  note a = ob_append [of 64, OF order_refl]
  have "unsettled (oo_streamId ob_options) ob_db = []" by (simp add: unsettled_def stream_rows_def ob_db_def)
  moreover have "\<not> conforms 64 (plain (rw_mutation (last (db_rows (ob_written 64)))))"
    by (simp add: ob_written_def ob_row_def new_row_def nest_facts nest_conforms)
  moreover have "pb_streamId ob_publisher = oo_streamId ob_options" "pb_schema ob_publisher = ''ha''"
    by (simp_all add: ob_publisher_def ob_options_def)
  moreover have "case jm_get (db_lease (ob_written 64)) (pb_streamId ob_publisher) of Some (Some (t, u)) \<Rightarrow> u < (5::int) | _ \<Rightarrow> True"
    by (simp add: ob_written_def ob_db_def)
  ultimately show ?thesis
    using a ob_good deep_mutation_wedges [OF a, where p = ob_publisher and san = "\<lambda>_. True" and ver = "\<lambda>_ _. True"
        and tr = "\<lambda>_ w. (Failed, w)" and now = 5 and token = "units ''t''" and ?e0.0 = ob_env and ?e1.0 = ob_env and ?e2.0 = ob_env
        and es = "[]" and ?e9.0 = ob_env and w = "()"] by auto
qed

text \<open>The stream of the deployment after its record was sent and refused for good.\<close>

definition ob_halted :: "(nat, nat) sys" where
  "ob_halted = foldl (sys_step ob_deploy) ob_sys [Write ob_env [Append (ob_append (nest 0))], Lease ob_env 5 (units ''t''),
     Send ob_env (units ''t''), Settle ob_env (units ''t'') (row_record (units ''s'') (ob_row NNull)) FailedTerminally]"

lemma ob_halted: "stream_rows (units ''s'') (sy_src ob_halted) = [(ob_row NNull)\<lparr>rw_quarantined := True\<rparr>]"
proof -
  let ?rec = "row_record (units ''s'') (ob_row NNull)"
  let ?db = "(ob_written 0)\<lparr>db_lease := [(units ''s'', Some (units ''t'', 30005))]\<rparr>"
  have d: "dp_stream ob_deploy = units ''s''" "dp_publisher ob_deploy = ob_publisher" "dp_crypto ob_deploy = ob_crypto"
    "dp_sanitized ob_deploy = (\<lambda>_. True)" by (simp_all add: ob_deploy_def ob_options_def)
  have p: "pb_schema ob_publisher = ''ha''" "pb_streamId ob_publisher = units ''s''" "pb_leaseMs ob_publisher = 30000" by (simp_all add: ob_publisher_def)
  have s1: "sys_step ob_deploy ob_sys1 (Lease ob_env 5 (units ''t'')) = ob_sys1\<lparr>sy_src := ?db\<rparr>"
    by (simp add: d acquireLease_def critical_good [OF ob_good] p ob_sys1_def ob_written_def ob_db_def)
  have h: "holds_lease ob_publisher (units ''t'') ?db" by (simp add: holds_lease_def p)
  have l: "lowest_row (units ''s'') ?db = Some (ob_row NNull)"
    by (simp add: lowest_row_def ob_written_def ob_row_def new_row_def)
  have s2: "sys_step ob_deploy (ob_sys1\<lparr>sy_src := ?db\<rparr>) (Send ob_env (units ''t'')) = ob_sys1\<lparr>sy_src := ?db, sy_sent := [?rec]\<rparr>"
    using h l ob_rows(3) ob_validate
    by (simp add: d nextDeliverable_def critical_good [OF ob_good] p ob_sys1_def ob_sys_def del: units_simps)
  have "quarantineRecord ob_publisher ob_env (units ''t'') (outbox_header.truncate ?rec) (units ''reject-transport-terminal'') ?db
      = (Inr (), ?db\<lparr>db_quarantine := [((units ''s'', units ''e'', 1), (replicate 64 0x30, units ''reject-transport-terminal''))],
          db_rows := [(ob_row NNull)\<lparr>rw_quarantined := True\<rparr>]\<rparr>)"
    using h by (simp add: quarantineRecord_def critical_good [OF ob_good] p Let_def ob_written_def ob_db_def update_rows_def affectedOne_def
        outbox_header.truncate_def row_record_def ob_row_def new_row_def row_key_def del: units_simps)
  then have s3: "stream_rows (units ''s'') (sy_src (sys_step ob_deploy (ob_sys1\<lparr>sy_src := ?db, sy_sent := [?rec]\<rparr>)
      (Settle ob_env (units ''t'') ?rec FailedTerminally))) = [(ob_row NNull)\<lparr>rw_quarantined := True\<rparr>]"
    by (simp add: d settle_def Let_def stream_rows_def ob_row_def new_row_def del: units_simps)
  have "ob_halted = foldl (sys_step ob_deploy) ob_sys1 [Lease ob_env 5 (units ''t''), Send ob_env (units ''t''),
      Settle ob_env (units ''t'') ?rec FailedTerminally]" unfolding ob_halted_def ob_run [symmetric] by simp
  then show ?thesis using s1 s2 s3 by (simp del: units_simps sys_step.simps)
qed

lemma divergence_halts_stream_witness:
  "length (pending_rows (units ''s'') (sy_src ob_halted)) \<le> 5 \<and> (\<exists>r \<in> set (stream_rows (units ''s'') (sy_src ob_halted)). rw_quarantined r
     \<and> \<not> rw_acked r \<and> fst (nextDeliverable (dp_publisher ob_deploy) ob_env (units ''t'') (sy_src ob_halted)) \<noteq> Inr (Some r))"
proof -
  let ?r = "(ob_row NNull)\<lparr>rw_quarantined := True\<rparr>"
  have d: "dp_stream ob_deploy = units ''s''" "oo_maxPendingRows (dp_options ob_deploy) = 5" by (simp_all add: ob_deploy_def ob_options_def)
  have p: "pb_streamId (dp_publisher ob_deploy) = units ''s''" by (simp add: ob_deploy_def ob_publisher_def)
  have r: "?r \<in> set (stream_rows (units ''s'') (sy_src ob_halted))" "rw_quarantined ?r" by (simp_all add: ob_halted del: units_simps)
  note halts = divergence_halts_stream [OF ob_provisioned ob_halted_def, unfolded d]
  from halts have "length (pending_rows (units ''s'') (sy_src ob_halted)) \<le> 5" by simp
  moreover from halts r have "\<not> rw_acked ?r" by blast
  moreover from halts r p have "fst (nextDeliverable (dp_publisher ob_deploy) ob_env (units ''t'') (sy_src ob_halted)) \<noteq> Inr (Some ?r)"
    by blast
  ultimately show ?thesis using r by blast
qed

end
