(* ===== verification/Text_Decoding.thy ===== *)
theory Text_Decoding
  imports Outbox_Text Json
begin

text \<open>
  Text from the wire: \<open>Buffer.toString('utf8')\<close> with the replacement character of the Encoding Standard, and
  \<open>JSON.parse\<close> on UTF-16 text. A number literal with a fraction or an exponent is outside the model and the
  parser rejects it; the members of an object are in the order of their first occurrence. The parser takes
  fuel: a value is at least one unit long, and twice the length of the text plus two is enough.
\<close>

section \<open>UTF-8\<close>

text \<open>The number of continuation bytes a lead byte asks for, the range of the first, and its own bits.\<close>

definition utf8_lead :: "byte \<Rightarrow> (nat \<times> byte \<times> byte \<times> nat) option" where
  "utf8_lead b = (if 194 \<le> b \<and> b \<le> 223 then Some (1, 128, 191, unat b - 192)
     else if b = 224 then Some (2, 160, 191, 0)
     else if b = 237 then Some (2, 128, 159, 13)
     else if 225 \<le> b \<and> b \<le> 239 then Some (2, 128, 191, unat b - 224)
     else if b = 240 then Some (3, 144, 191, 0)
     else if 241 \<le> b \<and> b \<le> 243 then Some (3, 128, 191, unat b - 240)
     else if b = 244 then Some (3, 128, 143, 4)
     else None)"

text \<open>Continuation bytes: the code point they complete, or \<open>None\<close>, and the rest from the offending byte on.\<close>

fun utf8_rest :: "nat \<Rightarrow> byte \<Rightarrow> byte \<Rightarrow> nat \<Rightarrow> bytes \<Rightarrow> nat option \<times> bytes" where
  "utf8_rest 0 lo hi v bs = (Some v, bs)"
| "utf8_rest (Suc n) lo hi v [] = (None, [])"
| "utf8_rest (Suc n) lo hi v (b # bs) =
     (if lo \<le> b \<and> b \<le> hi then utf8_rest n 128 191 (64 * v + (unat b - 128)) bs else (None, b # bs))"

lemma utf8_rest_length: "length (snd (utf8_rest n lo hi v bs)) \<le> length bs"
  by (induction n lo hi v bs rule: utf8_rest.induct) auto

function (sequential) utf8_points :: "bytes \<Rightarrow> nat list" where
  "utf8_points [] = []"
| "utf8_points (b # bs) =
     (if b < 128 then unat b # utf8_points bs
      else case utf8_lead b of
        None \<Rightarrow> 65533 # utf8_points bs
      | Some (n, lo, hi, v) \<Rightarrow>
          (case fst (utf8_rest n lo hi v bs) of None \<Rightarrow> 65533 | Some p \<Rightarrow> p) # utf8_points (snd (utf8_rest n lo hi v bs)))"
  by pat_completeness auto
termination
  by (relation "measure length") (simp_all add: le_imp_less_Suc utf8_rest_length)

definition point_units :: "nat \<Rightarrow> ustr" where
  "point_units p = (if p < 65536 then [word_of_nat p]
     else [word_of_nat (55296 + (p - 65536) div 1024), word_of_nat (56320 + (p - 65536) mod 1024)])"

definition utf8_decode :: "bytes \<Rightarrow> ustr" where
  "utf8_decode bs = concat (map point_units (utf8_points bs))"

section \<open>JSON\<close>

definition ws16 :: "unit16 \<Rightarrow> bool" where
  "ws16 c = (c \<in> {9, 10, 13, 32})"

definition skip16 :: "ustr \<Rightarrow> ustr" where
  "skip16 s = dropWhile ws16 s"

definition digit16 :: "unit16 \<Rightarrow> bool" where
  "digit16 c = (48 \<le> c \<and> c \<le> 57)"

definition hex16 :: "unit16 \<Rightarrow> nat option" where
  "hex16 c = (if 128 \<le> unat c then None else hex_val (char_of (unat c)))"

fun parse_string16 :: "ustr \<Rightarrow> (ustr \<times> ustr) option" where
  "parse_string16 [] = None"
| "parse_string16 (c # cs) =
     (if c = 0x22 then Some ([], cs)
      else if c = 0x5C then
        (case cs of
           [] \<Rightarrow> None
         | d # ds \<Rightarrow>
             if d = 0x75 then
               (case ds of
                  h1 # h2 # h3 # h4 # es \<Rightarrow>
                    (case (hex16 h1, hex16 h2, hex16 h3, hex16 h4) of
                       (Some p, Some q, Some r, Some s) \<Rightarrow>
                         map_option (apfst (Cons (word_of_nat (4096 * p + 256 * q + 16 * r + s)))) (parse_string16 es)
                     | _ \<Rightarrow> None)
                | _ \<Rightarrow> None)
             else
               (case (if d = 0x2F then Some 0x2F else short_escape d) of None \<Rightarrow> None
                | Some e \<Rightarrow> map_option (apfst (Cons e)) (parse_string16 ds)))
      else if unat c < 32 then None
      else map_option (apfst (Cons c)) (parse_string16 cs))"

definition stops16 :: "ustr \<Rightarrow> bool" where
  "stops16 s = (case s of [] \<Rightarrow> True | c # _ \<Rightarrow> \<not> digit16 c \<and> c \<notin> set (units ''.eE''))"

definition parse_digits16 :: "ustr \<Rightarrow> (nat \<times> ustr) option" where
  "parse_digits16 s = (let ds = takeWhile digit16 s; r = dropWhile digit16 s
     in if ds = [] \<or> (hd ds = 0x30 \<and> length ds > 1) \<or> \<not> stops16 r then None
        else Some (dec_to_nat (map (\<lambda>c. char_of (unat c)) ds), r))"

definition parse_number16 :: "ustr \<Rightarrow> (jnorm \<times> ustr) option" where
  "parse_number16 s = (case s of
     [] \<Rightarrow> None
   | c # cs \<Rightarrow> if c = 0x2D then map_option (\<lambda>(n, r). (NNum (- int n), r)) (parse_digits16 cs)
       else map_option (\<lambda>(n, r). (NNum (int n), r)) (parse_digits16 s))"

definition parse_literal16 :: "string \<Rightarrow> jnorm \<Rightarrow> ustr \<Rightarrow> (jnorm \<times> ustr) option" where
  "parse_literal16 lit v s = (if take (length lit) s = units lit then Some (v, drop (length lit) s) else None)"

definition parse_scalar16 :: "unit16 \<Rightarrow> ustr \<Rightarrow> (jnorm \<times> ustr) option" where
  "parse_scalar16 c cs =
     (if c = 0x22 then map_option (apfst NStr) (parse_string16 cs)
      else if c = 0x74 then parse_literal16 ''true'' (NBool True) (c # cs)
      else if c = 0x66 then parse_literal16 ''false'' (NBool False) (c # cs)
      else if c = 0x6E then parse_literal16 ''null'' NNull (c # cs)
      else parse_number16 (c # cs))"

fun parse_value16 :: "nat \<Rightarrow> ustr \<Rightarrow> (jnorm \<times> ustr) option"
  and parse_elems16 :: "nat \<Rightarrow> ustr \<Rightarrow> (jnorm list \<times> ustr) option"
  and parse_members16 :: "nat \<Rightarrow> ustr \<Rightarrow> ((ustr \<times> jnorm) list \<times> ustr) option"
where
  "parse_value16 0 s = None"
| "parse_value16 (Suc n) s =
     (case skip16 s of
        [] \<Rightarrow> None
      | c # cs \<Rightarrow>
          if c = 0x5B then
            (case skip16 cs of
               [] \<Rightarrow> None
             | d # ds \<Rightarrow> if d = 0x5D then Some (NArr [], ds) else map_option (apfst NArr) (parse_elems16 n cs))
          else if c = 0x7B then
            (case skip16 cs of
               [] \<Rightarrow> None
             | d # ds \<Rightarrow> if d = 0x7D then Some (NObj [], ds)
                 else map_option (apfst (\<lambda>kvs. NObj (fold (\<lambda>(k, v) m. jm_set k v m) kvs []))) (parse_members16 n cs))
          else parse_scalar16 c cs)"
| "parse_elems16 0 s = None"
| "parse_elems16 (Suc n) s =
     (case parse_value16 n s of
        None \<Rightarrow> None
      | Some (v, r) \<Rightarrow>
          (case skip16 r of
             [] \<Rightarrow> None
           | c # cs \<Rightarrow> if c = 0x2C then map_option (apfst (Cons v)) (parse_elems16 n cs)
               else if c = 0x5D then Some ([v], cs) else None))"
| "parse_members16 0 s = None"
| "parse_members16 (Suc n) s =
     (case skip16 s of
        [] \<Rightarrow> None
      | q # qs \<Rightarrow>
          if q \<noteq> 0x22 then None
          else (case parse_string16 qs of
            None \<Rightarrow> None
          | Some (k, r1) \<Rightarrow>
              (case skip16 r1 of
                 [] \<Rightarrow> None
               | d # r2 \<Rightarrow>
                   if d \<noteq> 0x3A then None
                   else (case parse_value16 n r2 of
                     None \<Rightarrow> None
                   | Some (v, r3) \<Rightarrow>
                       (case skip16 r3 of
                          [] \<Rightarrow> None
                        | c # cs \<Rightarrow>
                            if c = 0x2C then map_option (apfst (Cons (k, v))) (parse_members16 n cs)
                            else if c = 0x7D then Some ([(k, v)], cs) else None)))))"

definition parse_json16 :: "ustr \<Rightarrow> jnorm option" where
  "parse_json16 s = (case parse_value16 (2 * length s + 2) s of
     None \<Rightarrow> None
   | Some (v, r) \<Rightarrow> if skip16 r = [] then Some v else None)"

end
