(* ===== verification/Agent_Cache.thy ===== *)
theory Agent_Cache
  imports Audit_Log Json_Laws
begin

text \<open>
  \<^verbatim>\<open>packages/server/src/agent-cache.ts\<close>: the credential cache that an agent may fall back on, sealed by
  the protection of its operating system and checked against the current authorization state before it
  is used. The protector is a parameter, the PowerShell process of the Windows one an argument. A
  sealed envelope is the JSON value that the store returns. Decrypted text with characters beyond
  \<open>U+00FF\<close> is outside the model.
\<close>

section \<open>Buffers\<close>

text \<open>\<open>Buffer.from(s, 'base64')\<close>: both alphabets, anything else skipped, a lone last character dropped.\<close>

definition buffer_base64 :: "bytes \<Rightarrow> string" where
  "buffer_base64 bs = btoa (map char_of_byte bs)"

definition buffer_val :: "char \<Rightarrow> nat option" where
  "buffer_val c = (if c = CHR ''-'' then Some 62 else if c = CHR ''_'' then Some 63 else b64_val c)"

definition buffer_from_base64 :: "string \<Rightarrow> bytes" where
  "buffer_from_base64 s = map word_of_nat (b64_ungroup (List.map_filter buffer_val s))"

text \<open>\<open>toString('utf8')\<close>; \<open>None\<close> is a text the model has no value for.\<close>

fun utf8_text :: "bytes \<Rightarrow> string option" where
  "utf8_text [] = Some []"
| "utf8_text (b # bs) =
     (if b < 128 then map_option (Cons (char_of_byte b)) (utf8_text bs)
      else case bs of
        c # cs \<Rightarrow> if (b = 194 \<or> b = 195) \<and> 128 \<le> c \<and> c < 192
          then map_option (Cons (char_of (64 * (unat b - 192) + (unat c - 128)))) (utf8_text cs) else None
      | [] \<Rightarrow> None)"

lemma unat_small: "n < 256 \<Longrightarrow> unat (word_of_nat n :: byte) = n"
  by (simp add: unsigned_of_nat take_bit_nat_eq_self_iff)

lemma utf8_text_utf8 [simp]: "utf8_text (utf8 s) = Some s"
proof (induction s)
  case (Cons c s)
  show ?case
  proof (cases "code c < 128")
    case True
    then show ?thesis using Cons by (simp add: utf8_def utf8_char_def word_less_nat_alt unat_of_nat char_of_byte_def)
  next
    case False
    then have c: "128 \<le> code c" "code c < 256" by simp_all
    have "code c div 64 < 4" using c(2) by (intro less_mult_imp_div_less) simp
    moreover have "2 \<le> code c div 64" using div_le_mono [OF c(1), of 64] by simp
    ultimately have d: "code c div 64 = 2 \<or> code c div 64 = 3" by linarith
    let ?b = "word_of_nat (192 + code c div 64) :: byte" and ?c = "word_of_nat (128 + code c mod 64) :: byte"
    have m: "code c mod 64 < 64" by simp
    have u: "unat ?b = 192 + code c div 64" "unat ?c = 128 + code c mod 64"
      by (rule unat_small; use d m in linarith)+
    have b: "?b = 194 \<or> ?b = 195" "\<not> ?b < 128" using d by (auto simp: word_less_nat_alt)
    have r: "128 \<le> ?c" "?c < 192" using u(2) m by (simp_all add: word_le_nat_alt word_less_nat_alt)
    have v: "64 * (unat ?b - 192) + (unat ?c - 128) = code c" unfolding u by simp
    have "utf8 (c # s) = ?b # ?c # utf8 s" using False by (simp add: utf8_def utf8_char_def)
    then show ?thesis using b r v Cons by simp
  qed
qed (simp add: utf8_def)

lemma buffer_base64_back [simp]: "buffer_from_base64 (buffer_base64 bs) = bs"
proof -
  have v: "buffer_val (b64_char n) = Some n" if "n < 64" for n
    using that by (simp add: buffer_val_def)
  have p: "buffer_val (CHR ''='') = None" by code_simp
  have "\<forall>n \<in> set ns. n < 64 \<Longrightarrow> List.map_filter buffer_val (map b64_char ns @ replicate k (CHR ''='')) = ns" for ns k
    by (induction ns) (auto simp: List.map_filter_def v p)
  moreover have "\<forall>y \<in> set (b64_groups (map unat bs)). y < 64" using b64_groups_bytes_bound by blast
  ultimately show ?thesis
    by (simp add: buffer_from_base64_def buffer_base64_def btoa_def Let_def comp_def b64_ungroup_groups)
qed

section \<open>Errors and fields\<close>

datatype cache_error = CacheExpired | CacheTampered string | CacheUnavailable string

datatype cache_failure = CacheFailure cache_error | OtherFailure

type_synonym 'a cached = "cache_failure + 'a"

abbreviation tampered :: "string \<Rightarrow> 'a cached" where
  "tampered what \<equiv> Inl (CacheFailure (CacheTampered what))"

abbreviation unavailable :: "string \<Rightarrow> 'a cached" where
  "unavailable what \<equiv> Inl (CacheFailure (CacheUnavailable what))"

fun bind_cached :: "'a cached \<Rightarrow> ('a \<Rightarrow> 'b cached) \<Rightarrow> 'b cached" where
  "bind_cached (Inl e) f = Inl e"
| "bind_cached (Inr v) f = f v"

lemma bind_cached_Inr_iff: "bind_cached m f = Inr v \<longleftrightarrow> (\<exists>a. m = Inr a \<and> f a = Inr v)"
  by (cases m) auto

definition requireNonEmptyString :: "json option \<Rightarrow> string \<Rightarrow> string cached" where
  "requireNonEmptyString value fieldName = (case value of
     Some (JStr s) \<Rightarrow> if js_trim s = [] then tampered fieldName else Inr s
   | _ \<Rightarrow> tampered fieldName)"

definition requireFiniteTimestamp :: "json option \<Rightarrow> string \<Rightarrow> int cached" where
  "requireFiniteTimestamp value fieldName = (case value of Some (JNum n) \<Rightarrow> Inr n | _ \<Rightarrow> tampered fieldName)"

lemma requireNonEmptyString_iff [simp]:
  "requireNonEmptyString (Some (JStr s)) l = Inr t \<longleftrightarrow> js_trim s \<noteq> [] \<and> t = s"
  by (auto simp: requireNonEmptyString_def)

definition assertCacheKey :: "string \<Rightarrow> string cached" where
  "assertCacheKey cacheKey = (if js_trim cacheKey = [] then unavailable ''agent credential cache key is required'' else Inr cacheKey)"

definition constantTimeStringEqual :: "webcrypto \<Rightarrow> string \<Rightarrow> string \<Rightarrow> bool" where
  "constantTimeStringEqual cr a b = (wc_sha256 cr (utf8 a) = wc_sha256 cr (utf8 b))"

definition assertSameField :: "webcrypto \<Rightarrow> string \<Rightarrow> string \<Rightarrow> string \<Rightarrow> unit cached" where
  "assertSameField cr actual expected fieldName = bind_cached (requireNonEmptyString (Some (JStr expected)) fieldName)
     (\<lambda>e. if constantTimeStringEqual cr actual e then Inr () else tampered fieldName)"

definition computePermissionsHash :: "webcrypto \<Rightarrow> json \<Rightarrow> string" where
  "computePermissionsHash cr authorizationContext = ''sha256:'' @ sha256hex cr (canonicalJson authorizationContext)"

section \<open>Entries\<close>

text \<open>\<open>credential_material\<close> is \<open>None\<close> when it is \<open>undefined\<close>.\<close>

record cache_entry =
  ce_principal_id :: string
  ce_binding_hash :: string
  ce_policy_digest :: string
  ce_permissions_hash :: string
  ce_expires_at :: int
  ce_sealed_at :: int
  ce_credential_material :: "json option"

text \<open>\<open>ci_credentialMaterial\<close> is \<open>None\<close> when there is no such property.\<close>

record cache_input =
  ci_principalId :: string
  ci_bindingHash :: string
  ci_policyDigest :: string
  ci_permissionsHash :: string
  ci_expiresAt :: int
  ci_credentialMaterial :: "json option option"

definition createAgentCredentialCacheEntry :: "cache_input \<Rightarrow> int \<Rightarrow> cache_entry cached" where
  "createAgentCredentialCacheEntry input now =
     bind_cached (requireNonEmptyString (Some (JStr (ci_principalId input))) ''principalId'') (\<lambda>p.
     bind_cached (requireNonEmptyString (Some (JStr (ci_bindingHash input))) ''bindingHash'') (\<lambda>b.
     bind_cached (requireNonEmptyString (Some (JStr (ci_policyDigest input))) ''policyDigest'') (\<lambda>d.
     bind_cached (requireNonEmptyString (Some (JStr (ci_permissionsHash input))) ''permissionsHash'') (\<lambda>h.
     bind_cached (requireFiniteTimestamp (Some (JNum (ci_expiresAt input))) ''expiresAt'') (\<lambda>e.
     bind_cached (requireFiniteTimestamp (Some (JNum now)) ''nowMs'') (\<lambda>s.
     case ci_credentialMaterial input of
       None \<Rightarrow> tampered ''missing credential material''
     | Some material \<Rightarrow> Inr \<lparr>ce_principal_id = p, ce_binding_hash = b, ce_policy_digest = d, ce_permissions_hash = h,
         ce_expires_at = e, ce_sealed_at = s, ce_credential_material = material\<rparr>))))))"

definition entry_json :: "cache_entry \<Rightarrow> json" where
  "entry_json e = JObj ([(''version'', JStr ''1''), (''principal_id'', JStr (ce_principal_id e)), (''binding_hash'', JStr (ce_binding_hash e)),
     (''policy_digest'', JStr (ce_policy_digest e)), (''permissions_hash'', JStr (ce_permissions_hash e)),
     (''expires_at'', JNum (ce_expires_at e)), (''sealed_at'', JNum (ce_sealed_at e))]
     @ (case ce_credential_material e of None \<Rightarrow> [] | Some v \<Rightarrow> [(''credential_material'', v)]))"

definition parseCacheEntry :: "string \<Rightarrow> cache_entry cached" where
  "parseCacheEntry serialized = (case json_parse serialized of
     Inl e \<Rightarrow> tampered ''payload is not valid JSON''
   | Inr (JObj kvs) \<Rightarrow>
       (let r = JObj kvs
        in bind_cached (requireNonEmptyString (field r ''principal_id'') ''principal_id'') (\<lambda>p.
           bind_cached (requireNonEmptyString (field r ''binding_hash'') ''binding_hash'') (\<lambda>b.
           bind_cached (requireNonEmptyString (field r ''policy_digest'') ''policy_digest'') (\<lambda>d.
           bind_cached (requireNonEmptyString (field r ''permissions_hash'') ''permissions_hash'') (\<lambda>h.
           bind_cached (requireFiniteTimestamp (field r ''expires_at'') ''expires_at'') (\<lambda>e.
           bind_cached (requireFiniteTimestamp (field r ''sealed_at'') ''sealed_at'') (\<lambda>s.
           if field r ''version'' \<noteq> Some (JStr ''1'') then tampered ''payload version invalid''
           else if field r ''credential_material'' = None then tampered ''payload missing credential material''
           else Inr \<lparr>ce_principal_id = p, ce_binding_hash = b, ce_policy_digest = d, ce_permissions_hash = h,
             ce_expires_at = e, ce_sealed_at = s, ce_credential_material = field r ''credential_material''\<rparr>)))))))
   | Inr _ \<Rightarrow> tampered ''payload invalid'')"

record expected_state =
  es_principalId :: string
  es_bindingHash :: string
  es_policyDigest :: string
  es_permissionsHash :: string

definition validateEntryAgainstCurrentState :: "webcrypto \<Rightarrow> cache_entry \<Rightarrow> expected_state \<Rightarrow> int \<Rightarrow> unit cached" where
  "validateEntryAgainstCurrentState cr entry expected now =
     (if ce_expires_at entry \<le> now then Inl (CacheFailure CacheExpired)
      else bind_cached (assertSameField cr (ce_principal_id entry) (es_principalId expected) ''principal_id'') (\<lambda>_.
        bind_cached (assertSameField cr (ce_binding_hash entry) (es_bindingHash expected) ''binding_hash'') (\<lambda>_.
        bind_cached (assertSameField cr (ce_policy_digest entry) (es_policyDigest expected) ''policy_digest'') (\<lambda>_.
        assertSameField cr (ce_permissions_hash entry) (es_permissionsHash expected) ''permissions_hash''))))"

section \<open>Sealing\<close>

record protector =
  pt_scope :: string
  pt_protect :: "bytes \<Rightarrow> bytes cached"
  pt_unprotect :: "bytes \<Rightarrow> bytes cached"

definition sealAgentCredentialCacheEntry :: "protector \<Rightarrow> cache_input \<Rightarrow> int \<Rightarrow> json cached" where
  "sealAgentCredentialCacheEntry p input now =
     (if pt_scope p \<noteq> ''CurrentUser'' then unavailable ''agent credential cache requires DPAPI CurrentUser scope''
      else bind_cached (createAgentCredentialCacheEntry input now) (\<lambda>entry.
        bind_cached (pt_protect p (utf8 (stringify (entry_json entry)))) (\<lambda>ciphertext.
        Inr (JObj [(''version'', JStr ''1''), (''scope'', JStr ''CurrentUser''), (''protected_at'', JNum (ce_sealed_at entry)),
          (''ciphertext_b64'', JStr (buffer_base64 ciphertext))]))))"

definition validateSealedEnvelope :: "json \<Rightarrow> string cached" where
  "validateSealedEnvelope cache =
     (if \<not> is_object cache then tampered ''envelope invalid''
      else if field cache ''version'' \<noteq> Some (JStr ''1'') then tampered ''version invalid''
      else if field cache ''scope'' \<noteq> Some (JStr ''CurrentUser'') then tampered ''scope invalid''
      else bind_cached (requireNonEmptyString (field cache ''ciphertext_b64'') ''ciphertext_b64'') (\<lambda>text.
        bind_cached (requireFiniteTimestamp (field cache ''protected_at'') ''protected_at'') (\<lambda>_. Inr text)))"

definition openAgentCredentialCacheEntry :: "webcrypto \<Rightarrow> protector \<Rightarrow> json \<Rightarrow> expected_state \<Rightarrow> int \<Rightarrow> cache_entry cached" where
  "openAgentCredentialCacheEntry cr p sealedCache expected now =
     bind_cached (validateSealedEnvelope sealedCache) (\<lambda>text.
     if pt_scope p \<noteq> ''CurrentUser'' then unavailable ''agent credential cache requires DPAPI CurrentUser scope''
     else case pt_unprotect p (buffer_from_base64 text) of
       Inl (CacheFailure e) \<Rightarrow> Inl (CacheFailure e)
     | Inl OtherFailure \<Rightarrow> tampered ''agent credential cache could not be unsealed''
     | Inr plaintext \<Rightarrow> (case utf8_text plaintext of
         None \<Rightarrow> tampered ''payload is not valid JSON''
       | Some serialized \<Rightarrow> bind_cached (parseCacheEntry serialized) (\<lambda>entry.
           bind_cached (validateEntryAgainstCurrentState cr entry expected now) (\<lambda>_. Inr entry))))"

section \<open>The store and the cache\<close>

type_synonym cache_store = "(string, json) jsmap"

definition cs_put :: "string \<Rightarrow> json \<Rightarrow> cache_store \<Rightarrow> unit cached \<times> cache_store" where
  "cs_put cacheKey cache st = (case assertCacheKey cacheKey of Inl e \<Rightarrow> (Inl e, st) | Inr k \<Rightarrow> (Inr (), jm_set k cache st))"

definition cs_get :: "string \<Rightarrow> cache_store \<Rightarrow> json option cached" where
  "cs_get cacheKey st = bind_cached (assertCacheKey cacheKey) (\<lambda>k. Inr (jm_get st k))"

definition cache_write :: "protector \<Rightarrow> string \<Rightarrow> cache_input \<Rightarrow> int \<Rightarrow> cache_store \<Rightarrow> json cached \<times> cache_store" where
  "cache_write p cacheKey input now st = (case sealAgentCredentialCacheEntry p input now of
     Inl e \<Rightarrow> (Inl e, st)
   | Inr sealed \<Rightarrow> (case cs_put cacheKey sealed st of (Inl e, st1) \<Rightarrow> (Inl e, st1) | (Inr _, st1) \<Rightarrow> (Inr sealed, st1)))"

definition cache_read :: "webcrypto \<Rightarrow> protector \<Rightarrow> string \<Rightarrow> expected_state \<Rightarrow> int \<Rightarrow> cache_store \<Rightarrow> cache_entry cached" where
  "cache_read cr p cacheKey expected now st = bind_cached (cs_get cacheKey st) (\<lambda>sealed. case sealed of
     None \<Rightarrow> unavailable ''agent credential cache entry unavailable''
   | Some cache \<Rightarrow> openAgentCredentialCacheEntry cr p cache expected now)"

section \<open>The Windows protector\<close>

text \<open>
  \<open>exec\<close> is the PowerShell process: the standard output for an operation and its input in base64, or
  \<open>None\<close> when it fails.
\<close>

definition runDpapi :: "(string \<Rightarrow> string \<Rightarrow> string option) \<Rightarrow> string \<Rightarrow> bytes \<Rightarrow> bytes cached" where
  "runDpapi exec operation input = (case exec operation (buffer_base64 input) of
     None \<Rightarrow> Inl OtherFailure
   | Some stdout \<Rightarrow> let output = js_trim stdout
       in if output = [] then unavailable ''DPAPI returned no output'' else Inr (buffer_from_base64 output))"

definition dpapi_protect :: "(string \<Rightarrow> string \<Rightarrow> string option) \<Rightarrow> string \<Rightarrow> bytes \<Rightarrow> bytes cached" where
  "dpapi_protect exec platform plaintext =
     (if platform \<noteq> ''win32'' then unavailable ''DPAPI CurrentUser protection is only available on Windows''
      else case runDpapi exec ''protect'' plaintext of
        Inr v \<Rightarrow> Inr v
      | Inl (CacheFailure (CacheUnavailable m)) \<Rightarrow> unavailable m
      | Inl _ \<Rightarrow> unavailable ''DPAPI CurrentUser protection failed'')"

definition dpapi_unprotect :: "(string \<Rightarrow> string \<Rightarrow> string option) \<Rightarrow> string \<Rightarrow> bytes \<Rightarrow> bytes cached" where
  "dpapi_unprotect exec platform ciphertext =
     (if platform \<noteq> ''win32'' then unavailable ''DPAPI CurrentUser protection is only available on Windows''
      else case runDpapi exec ''unprotect'' ciphertext of
        Inr v \<Rightarrow> Inr v
      | Inl (CacheFailure (CacheUnavailable m)) \<Rightarrow> unavailable m
      | Inl (CacheFailure (CacheTampered m)) \<Rightarrow> tampered m
      | Inl _ \<Rightarrow> tampered ''DPAPI CurrentUser cache could not be unsealed'')"

definition windows_protector :: "(string \<Rightarrow> string \<Rightarrow> string option) \<Rightarrow> string \<Rightarrow> protector" where
  "windows_protector exec platform =
     \<lparr>pt_scope = ''CurrentUser'', pt_protect = dpapi_protect exec platform, pt_unprotect = dpapi_unprotect exec platform\<rparr>"


section \<open>Laws\<close>

lemma requireNonEmptyString_Inr: "requireNonEmptyString v l = Inr s \<longleftrightarrow> v = Some (JStr s) \<and> js_trim s \<noteq> []"
  by (auto simp: requireNonEmptyString_def split: option.splits json.splits if_splits)

lemma requireFiniteTimestamp_Inr: "requireFiniteTimestamp v l = Inr n \<longleftrightarrow> v = Some (JNum n)"
  by (auto simp: requireFiniteTimestamp_def split: option.splits json.splits)

lemma createEntry_iff:
  "createAgentCredentialCacheEntry input now = Inr e \<longleftrightarrow>
     js_trim (ci_principalId input) \<noteq> [] \<and> js_trim (ci_bindingHash input) \<noteq> [] \<and> js_trim (ci_policyDigest input) \<noteq> []
     \<and> js_trim (ci_permissionsHash input) \<noteq> []
     \<and> (\<exists>m. ci_credentialMaterial input = Some m \<and> e = \<lparr>ce_principal_id = ci_principalId input, ce_binding_hash = ci_bindingHash input,
         ce_policy_digest = ci_policyDigest input, ce_permissions_hash = ci_permissionsHash input,
         ce_expires_at = ci_expiresAt input, ce_sealed_at = now, ce_credential_material = m\<rparr>)"
  by (auto simp: createAgentCredentialCacheEntry_def bind_cached_Inr_iff requireNonEmptyString_Inr requireFiniteTimestamp_Inr
      split: option.splits)

lemma entry_keys: "\<not> is_index_key ''version''" "\<not> is_index_key ''principal_id''" "\<not> is_index_key ''binding_hash''"
  "\<not> is_index_key ''policy_digest''" "\<not> is_index_key ''permissions_hash''" "\<not> is_index_key ''expires_at''"
  "\<not> is_index_key ''sealed_at''" "\<not> is_index_key ''credential_material''"
  by code_simp+

lemma entry_json_wf:
  "(\<And>v. ce_credential_material e = Some v \<Longrightarrow> wf_json v) \<Longrightarrow> wf_json (entry_json e)"
  by (auto simp: entry_json_def obj_order_def entry_keys split: option.splits)

text \<open>The text of an entry reads back as the entry, if its credential material is defined; otherwise it is refused.\<close>

lemma parse_entry:
  assumes "\<And>v. ce_credential_material e = Some v \<Longrightarrow> wf_json v"
    and "js_trim (ce_principal_id e) \<noteq> []" "js_trim (ce_binding_hash e) \<noteq> []" "js_trim (ce_policy_digest e) \<noteq> []"
      "js_trim (ce_permissions_hash e) \<noteq> []"
  shows "parseCacheEntry (stringify (entry_json e))
    = (if ce_credential_material e = None then tampered ''payload missing credential material'' else Inr e)"
proof -
  obtain kvs where kvs: "entry_json e = JObj kvs" by (simp add: entry_json_def)
  have p: "json_parse (stringify (JObj kvs)) = returns (JObj kvs)"
    by (rule json_parse_stringify) (use entry_json_wf [of e, OF assms(1)] kvs in auto)
  have f: "field (JObj kvs) ''principal_id'' = Some (JStr (ce_principal_id e))" "field (JObj kvs) ''binding_hash'' = Some (JStr (ce_binding_hash e))"
    "field (JObj kvs) ''policy_digest'' = Some (JStr (ce_policy_digest e))"
    "field (JObj kvs) ''permissions_hash'' = Some (JStr (ce_permissions_hash e))"
    "field (JObj kvs) ''expires_at'' = Some (JNum (ce_expires_at e))" "field (JObj kvs) ''sealed_at'' = Some (JNum (ce_sealed_at e))"
    "field (JObj kvs) ''version'' = Some (JStr ''1'')" "field (JObj kvs) ''credential_material'' = ce_credential_material e"
    unfolding kvs [symmetric] by (simp_all add: entry_json_def split: option.split)
  show ?thesis unfolding kvs parseCacheEntry_def p
    by (simp add: Let_def f assms(2-5) requireNonEmptyString_def requireFiniteTimestamp_def del: field.simps)
qed

text \<open>What a successful seal hands out, and that opening it runs the protector on exactly what it sealed.\<close>

lemma seal_iff:
  "sealAgentCredentialCacheEntry p input now = Inr sealed \<longleftrightarrow> pt_scope p = ''CurrentUser''
     \<and> (\<exists>e c. createAgentCredentialCacheEntry input now = Inr e \<and> pt_protect p (utf8 (stringify (entry_json e))) = Inr c
       \<and> sealed = JObj [(''version'', JStr ''1''), (''scope'', JStr ''CurrentUser''), (''protected_at'', JNum (ce_sealed_at e)),
          (''ciphertext_b64'', JStr (buffer_base64 c))])"
  by (auto simp: sealAgentCredentialCacheEntry_def bind_cached_Inr_iff)

definition faithful :: "protector \<Rightarrow> bool" where
  "faithful p = (\<forall>x c. pt_protect p x = Inr c \<longrightarrow> pt_unprotect p c = Inr x \<and> js_trim (buffer_base64 c) \<noteq> [])"

lemma open_sealed:
  assumes "sealAgentCredentialCacheEntry p input now = Inr sealed" "faithful p"
    and "\<And>v. ci_credentialMaterial input = Some (Some v) \<Longrightarrow> wf_json v"
  shows "\<exists>e. createAgentCredentialCacheEntry input now = Inr e \<and> openAgentCredentialCacheEntry cr p sealed expected t
    = (if ce_credential_material e = None then tampered ''payload missing credential material''
       else bind_cached (validateEntryAgainstCurrentState cr e expected t) (\<lambda>_. Inr e))"
proof -
  obtain e c where s: "pt_scope p = ''CurrentUser''" "createAgentCredentialCacheEntry input now = Inr e"
      "pt_protect p (utf8 (stringify (entry_json e))) = Inr c"
      "sealed = JObj [(''version'', JStr ''1''), (''scope'', JStr ''CurrentUser''), (''protected_at'', JNum (ce_sealed_at e)),
          (''ciphertext_b64'', JStr (buffer_base64 c))]"
    using assms(1) by (auto simp: seal_iff)
  have u: "pt_unprotect p c = Inr (utf8 (stringify (entry_json e)))" "js_trim (buffer_base64 c) \<noteq> []"
    using assms(2) s(3) by (auto simp: faithful_def)
  have env: "validateSealedEnvelope sealed = Inr (buffer_base64 c)"
    using u(2) by (simp add: validateSealedEnvelope_def s(4) requireNonEmptyString_def requireFiniteTimestamp_def)
  have "parseCacheEntry (stringify (entry_json e))
      = (if ce_credential_material e = None then tampered ''payload missing credential material'' else Inr e)"
    by (rule parse_entry) (use s(2) assms(3) in \<open>auto simp: createEntry_iff\<close>)
  then show ?thesis using s(1,2) env u(1) by (simp add: openAgentCredentialCacheEntry_def)
qed

text \<open>Writes to other keys.\<close>

fun later_writes :: "protector \<Rightarrow> (string \<times> cache_input \<times> int) list \<Rightarrow> cache_store \<Rightarrow> cache_store" where
  "later_writes p [] st = st"
| "later_writes p ((k, i, t) # ws) st = later_writes p ws (snd (cache_write p k i t st))"

lemma write_other: "k \<noteq> key \<Longrightarrow> jm_get (snd (cache_write p k i t st)) key = jm_get st key"
  by (auto simp: cache_write_def cs_put_def assertCacheKey_def split: sum.split)

lemma later_writes_other: "\<forall>(k, i, t) \<in> set ws. k \<noteq> key \<Longrightarrow> jm_get (later_writes p ws st) key = jm_get st key"
  by (induction p ws st rule: later_writes.induct) (auto simp: write_other)

lemma write_stores: "cache_write p key input now st = (Inr sealed, st') \<Longrightarrow>
    sealAgentCredentialCacheEntry p input now = Inr sealed \<and> jm_get st' key = Some sealed \<and> js_trim key \<noteq> []"
  by (auto simp: cache_write_def cs_put_def assertCacheKey_def split: sum.splits if_splits)

lemma read_stored: "js_trim key \<noteq> [] \<Longrightarrow> jm_get st key = Some sealed \<Longrightarrow>
    cache_read cr p key expected t st = openAgentCredentialCacheEntry cr p sealed expected t"
  by (simp add: cache_read_def cs_get_def assertCacheKey_def)

text \<open>
  C31. A sealed credential opens again. After a successful \<open>write\<close> of a defined credential, and any writes
  under other keys, a \<open>read\<close> with the same principal, binding, policy and permissions before the expiry
  returns exactly the entry that was written; at or after the expiry it fails as expired. (The protector
  unseals what it sealed.)
\<close>
theorem cache_roundtrip:
  assumes "cache_write p key input now st = (Inr sealed, st')" "faithful p"
    and "ci_credentialMaterial input = Some (Some v)" "wf_json v" "\<forall>(k, i, t) \<in> set ws. k \<noteq> key"
    and "expected = \<lparr>es_principalId = ci_principalId input, es_bindingHash = ci_bindingHash input,
      es_policyDigest = ci_policyDigest input, es_permissionsHash = ci_permissionsHash input\<rparr>"
  shows "cache_read cr p key expected t (later_writes p ws st') = (if ci_expiresAt input \<le> t then Inl (CacheFailure CacheExpired)
    else Inr \<lparr>ce_principal_id = ci_principalId input, ce_binding_hash = ci_bindingHash input, ce_policy_digest = ci_policyDigest input,
      ce_permissions_hash = ci_permissionsHash input, ce_expires_at = ci_expiresAt input, ce_sealed_at = now,
      ce_credential_material = Some v\<rparr>)"
proof -
  note w = write_stores [OF assms(1)]
  have g: "jm_get (later_writes p ws st') key = Some sealed" using w later_writes_other [OF assms(5)] by simp
  have s: "sealAgentCredentialCacheEntry p input now = Inr sealed" using w by blast
  have wf: "wf_json v'" if "ci_credentialMaterial input = Some (Some v')" for v' using that assms(3,4) by simp
  obtain e where e: "createAgentCredentialCacheEntry input now = Inr e" "openAgentCredentialCacheEntry cr p sealed expected t
      = (if ce_credential_material e = None then tampered ''payload missing credential material''
         else bind_cached (validateEntryAgainstCurrentState cr e expected t) (\<lambda>_. Inr e))"
    using open_sealed [OF s assms(2) wf] by blast
  have "assertSameField cr x x l = Inr ()" if "js_trim x \<noteq> []" for x l
    using that by (simp add: assertSameField_def requireNonEmptyString_def constantTimeStringEqual_def)
  then show ?thesis using read_stored [OF _ g] w e assms(3)
    by (auto simp: createEntry_iff validateEntryAgainstCurrentState_def assms(6))
qed

lemma assertSameField_Inr: "assertSameField cr a x l = Inr u \<longleftrightarrow> js_trim x \<noteq> [] \<and> wc_sha256 cr (utf8 a) = wc_sha256 cr (utf8 x)"
  by (auto simp: assertSameField_def bind_cached_Inr_iff constantTimeStringEqual_def)

definition same_or_collides :: "webcrypto \<Rightarrow> string \<Rightarrow> string \<Rightarrow> bool" where
  "same_or_collides cr a b = (a = b \<or> (utf8 a \<noteq> utf8 b \<and> wc_sha256 cr (utf8 a) = wc_sha256 cr (utf8 b)))"

lemma bind_failure: "bind_cached m f \<noteq> Inl OtherFailure \<longleftrightarrow> m \<noteq> Inl OtherFailure \<and> (\<forall>a. m = Inr a \<longrightarrow> f a \<noteq> Inl OtherFailure)"
  by (cases m) auto

lemma checks_typed: "requireNonEmptyString v l \<noteq> Inl OtherFailure" "requireFiniteTimestamp v l \<noteq> Inl OtherFailure"
  "assertCacheKey k \<noteq> Inl OtherFailure" "assertSameField cr a x l \<noteq> Inl OtherFailure"
  by (auto simp: requireNonEmptyString_def requireFiniteTimestamp_def assertCacheKey_def assertSameField_def bind_cached.simps
      split: option.split json.split)

lemma read_typed: "cache_read cr p key expected t st \<noteq> Inl OtherFailure"
  unfolding cache_read_def cs_get_def openAgentCredentialCacheEntry_def validateSealedEnvelope_def parseCacheEntry_def
    validateEntryAgainstCurrentState_def Let_def
  by (auto simp: bind_failure checks_typed split: option.split sum.split cache_failure.split json.split)

lemma open_Inr:
  assumes "openAgentCredentialCacheEntry cr p sealed expected t = Inr e"
  shows "\<exists>c bytes serialized. validateSealedEnvelope sealed = Inr c \<and> pt_unprotect p (buffer_from_base64 c) = Inr bytes
    \<and> utf8_text bytes = Some serialized \<and> parseCacheEntry serialized = Inr e
    \<and> validateEntryAgainstCurrentState cr e expected t = Inr ()"
proof -
  obtain c where c: "validateSealedEnvelope sealed = Inr c"
    using assms by (auto simp: openAgentCredentialCacheEntry_def bind_cached_Inr_iff)
  obtain bytes where b: "pt_unprotect p (buffer_from_base64 c) = Inr bytes"
    using assms c by (cases "pt_unprotect p (buffer_from_base64 c)")
      (auto simp: openAgentCredentialCacheEntry_def split: if_splits cache_failure.splits)
  obtain serialized where "utf8_text bytes = Some serialized"
    using assms c b by (cases "utf8_text bytes") (auto simp: openAgentCredentialCacheEntry_def split: if_splits)
  then show ?thesis using assms c b by (auto simp: openAgentCredentialCacheEntry_def bind_cached_Inr_iff split: if_splits)
qed

text \<open>
  C30. The cache fails closed. Whatever is in the store, however it was tampered with, and whatever the
  protector does, a \<open>read\<close> either fails with one of the cache's own errors or returns an entry that the
  protector unsealed from the stored envelope, that has not expired, and whose principal, binding,
  policy and permissions are the expected ones (or collide with them under SHA-256).
\<close>
theorem cache_fails_closed:
  "case cache_read cr p key expected t st of
     Inl failure \<Rightarrow> failure \<noteq> OtherFailure
   | Inr e \<Rightarrow> t < ce_expires_at e \<and> ce_credential_material e \<noteq> None
       \<and> same_or_collides cr (ce_principal_id e) (es_principalId expected) \<and> same_or_collides cr (ce_binding_hash e) (es_bindingHash expected)
       \<and> same_or_collides cr (ce_policy_digest e) (es_policyDigest expected)
       \<and> same_or_collides cr (ce_permissions_hash e) (es_permissionsHash expected)
       \<and> (\<exists>sealed c bytes serialized. jm_get st key = Some sealed \<and> field sealed ''ciphertext_b64'' = Some (JStr c)
           \<and> pt_unprotect p (buffer_from_base64 c) = Inr bytes \<and> utf8_text bytes = Some serialized \<and> parseCacheEntry serialized = Inr e)"
proof (cases "cache_read cr p key expected t st")
  case (Inl f)
  then show ?thesis using read_typed [of cr p key expected t st] by auto
next
  case (Inr e)
  then obtain sealed c bytes serialized where o: "jm_get st key = Some sealed" "validateSealedEnvelope sealed = Inr c"
      "pt_unprotect p (buffer_from_base64 c) = Inr bytes" "utf8_text bytes = Some serialized" "parseCacheEntry serialized = Inr e"
      "validateEntryAgainstCurrentState cr e expected t = Inr ()"
    by (auto simp: cache_read_def cs_get_def bind_cached_Inr_iff assertCacheKey_def dest!: open_Inr split: option.splits if_splits)
  have f: "field sealed ''ciphertext_b64'' = Some (JStr c)"
    using o(2) by (auto simp: validateSealedEnvelope_def bind_cached_Inr_iff requireNonEmptyString_Inr split: if_splits)
  have m: "ce_credential_material e \<noteq> None"
    using o(5) by (auto simp: parseCacheEntry_def Let_def bind_cached_Inr_iff split: sum.splits json.splits if_splits)
  have "same_or_collides cr a b" if "wc_sha256 cr (utf8 a) = wc_sha256 cr (utf8 b)" for a b
    using that utf8_inj [of a b] by (auto simp: same_or_collides_def)
  then show ?thesis using Inr o f m
    by (auto simp: validateEntryAgainstCurrentState_def bind_cached_Inr_iff assertSameField_Inr split: if_splits)
qed

text \<open>
  Finding: a credential that is \<open>undefined\<close> is sealed and can never be read. The check at the seal is
  for the property, not for its value; \<open>JSON.stringify\<close> leaves it out, and every later \<open>read\<close> of the key
  reports tampering.
\<close>
theorem undefined_credential_sealed:
  assumes "cache_write p key input now st = (Inr sealed, st')" "faithful p" "ci_credentialMaterial input = Some None"
    and "\<forall>(k, i, t) \<in> set ws. k \<noteq> key"
  shows "cache_read cr p key expected t (later_writes p ws st') = tampered ''payload missing credential material''"
proof -
  note w = write_stores [OF assms(1)]
  have g: "jm_get (later_writes p ws st') key = Some sealed" using w later_writes_other [OF assms(4)] by simp
  have s: "sealAgentCredentialCacheEntry p input now = Inr sealed" using w by blast
  have wf: "wf_json v'" if "ci_credentialMaterial input = Some (Some v')" for v' using that assms(3) by simp
  from open_sealed [OF s assms(2) wf] show ?thesis using read_stored [OF _ g] w assms(3) by (auto simp: createEntry_iff)
qed

section \<open>Witnesses\<close>

text \<open>A protector that seals by prepending a byte.\<close>

definition ac_protector :: protector where
  "ac_protector = \<lparr>pt_scope = ''CurrentUser'', pt_protect = \<lambda>x. Inr (7 # x),
     pt_unprotect = \<lambda>c. case c of [] \<Rightarrow> tampered ''no data'' | b # x \<Rightarrow> if b = 7 then Inr x else tampered ''wrong key''\<rparr>"

lemma b64_head_not_space: "js_trim (buffer_base64 (b # bs)) \<noteq> []"
proof -
  have "\<exists>n ns. b64_groups (map unat (b # bs)) = n # ns" by (cases bs; cases "tl bs") simp_all
  then obtain n ns where n: "b64_groups (map unat (b # bs)) = n # ns" by blast
  then have "n < 64" using b64_groups_bytes_bound [of n "b # bs"] by simp
  then have "\<not> is_space (b64_char n)" by (auto simp: b64_char_def is_space_def)
  then show ?thesis using n by (auto simp: buffer_base64_def btoa_def Let_def comp_def js_trim_def dropWhile_eq_Nil_conv)
qed


lemma ac_faithful: "faithful ac_protector"
  by (simp add: faithful_def ac_protector_def b64_head_not_space)

definition ac_input :: "json option option \<Rightarrow> cache_input" where
  "ac_input m = \<lparr>ci_principalId = ''p'', ci_bindingHash = ''b'', ci_policyDigest = ''d'', ci_permissionsHash = ''h'',
     ci_expiresAt = 10, ci_credentialMaterial = m\<rparr>"

lemma ac_write:
  assumes "m \<noteq> None" obtains sealed st where "cache_write ac_protector ''k'' (ac_input m) 1 [] = (Inr sealed, st)"
proof -
  have n: "js_trim ''p'' \<noteq> []" "js_trim ''b'' \<noteq> []" "js_trim ''d'' \<noteq> []" "js_trim ''h'' \<noteq> []" "js_trim ''k'' \<noteq> []" by code_simp+
  obtain e where "createAgentCredentialCacheEntry (ac_input m) 1 = Inr e"
    using n assms by (auto simp: createEntry_iff ac_input_def)
  then have "\<exists>sealed. sealAgentCredentialCacheEntry ac_protector (ac_input m) 1 = Inr sealed"
    by (simp add: sealAgentCredentialCacheEntry_def ac_protector_def)
  then show ?thesis using n(5) that by (auto simp: cache_write_def cs_put_def assertCacheKey_def)
qed

lemma cache_roundtrip_witness:
  "\<exists>sealed st. cache_write ac_protector ''k'' (ac_input (Some (Some (JNum 3)))) 1 [] = (Inr sealed, st)
    \<and> map_sum id ce_credential_material (cache_read ex_crypto ac_protector ''k''
        \<lparr>es_principalId = ''p'', es_bindingHash = ''b'', es_policyDigest = ''d'', es_permissionsHash = ''h''\<rparr> 5 st) = Inr (Some (JNum 3))"
proof -
  obtain sealed st where w: "cache_write ac_protector ''k'' (ac_input (Some (Some (JNum 3)))) 1 [] = (Inr sealed, st)"
    by (rule ac_write [of "Some (Some (JNum 3))"]) simp
  from cache_roundtrip [OF w ac_faithful, of "JNum 3" "[]"
      "\<lparr>es_principalId = ''p'', es_bindingHash = ''b'', es_policyDigest = ''d'', es_permissionsHash = ''h''\<rparr>" ex_crypto 5] w
  show ?thesis by (simp add: ac_input_def)
qed

lemma undefined_credential_sealed_witness:
  "\<exists>sealed st. cache_write ac_protector ''k'' (ac_input (Some None)) 1 [] = (Inr sealed, st)
    \<and> cache_read ex_crypto ac_protector ''k'' expected 5 st = tampered ''payload missing credential material''"
proof -
  obtain sealed st where w: "cache_write ac_protector ''k'' (ac_input (Some None)) 1 [] = (Inr sealed, st)"
    by (rule ac_write [of "Some None"]) simp
  from undefined_credential_sealed [OF w ac_faithful, of "[]"] w show ?thesis by (simp add: ac_input_def)
qed

end
