(* ===== verification/Text_Laws.thy ===== *)
theory Text_Laws
  imports Text_Decoding Agent_Cache
begin

text \<open>
  The laws of text from the wire: the parser reads a canonical text back to the value it stands for,
  \<open>utf8_decode\<close> undoes the UTF-8 of well-formed text, and base64url decodes through \<open>Buffer.from\<close>.
\<close>

section \<open>Strings and numbers\<close>

definition escape_reads :: "nat \<Rightarrow> bool" where
  "escape_reads n = (case jcs_escape (word_of_nat n) of
     [a, d] \<Rightarrow> a = 0x5C \<and> d \<noteq> 0x75 \<and> d \<noteq> 0x2F \<and> short_escape d = Some (word_of_nat n)
   | [a, b, h1, h2, h3, h4] \<Rightarrow> a = 0x5C \<and> b = 0x75 \<and> hex16 h1 = Some 0 \<and> hex16 h2 = Some 0
       \<and> hex16 h3 = Some (n div 16) \<and> hex16 h4 = Some (n mod 16)
   | _ \<Rightarrow> False)"

lemma escapes_read: "list_all escape_reads ([0..<32] @ [34, 92])"
  by code_simp

lemma escape_cases:
  assumes "escape_reads n"
  obtains (short) d where "jcs_escape (word_of_nat n) = [0x5C, d]" "d \<noteq> 0x75" "d \<noteq> 0x2F" "short_escape d = Some (word_of_nat n)"
  | (long) h1 h2 h3 h4 where "jcs_escape (word_of_nat n) = [0x5C, 0x75, h1, h2, h3, h4]" "hex16 h1 = Some 0" "hex16 h2 = Some 0"
      "hex16 h3 = Some (n div 16)" "hex16 h4 = Some (n mod 16)"
  using assms short long by (auto simp: escape_reads_def split: list.splits)

lemma parse_escape: "parse_string16 (jcs_escape c @ xs) = map_option (apfst (Cons c)) (parse_string16 xs)"
proof (cases "special c")
  case True
  then have "unat c \<in> set ([0..<32] @ [34, 92])" by (auto simp: special_def)
  with escapes_read have "escape_reads (unat c)" by (simp only: list_all_iff)
  then show ?thesis
  proof (cases rule: escape_cases)
    case (short d)
    then show ?thesis by simp
  next
    case (long h1 h2 h3 h4)
    have "4096 * 0 + 256 * 0 + 16 * (unat c div 16) + unat c mod 16 = unat c" by simp
    then have "word_of_nat (4096 * 0 + 256 * 0 + 16 * (unat c div 16) + unat c mod 16) = (word_of_nat (unat c) :: unit16)"
      by (simp only:)
    with long show ?thesis by (simp del: of_nat_add of_nat_mult)
  qed
next
  case False
  then show ?thesis using plain_escape [of c] by (simp add: special_def)
qed

lemma parse_string_quoted: "parse_string16 (concat (map jcs_escape s) @ 0x22 # r) = Some (s, r)"
  by (induction s) (simp_all add: parse_escape)

lemma digit16_char: "digit16 (word_of_nat (code c)) = is_digit c"
  by (simp add: digit16_def is_digit_def word_le_nat_alt)

lemma digits_units: "list_all is_digit ds \<Longrightarrow> list_all digit16 (units ds)"
  by (induction ds) (simp_all add: digit16_char)

lemma units_chars: "map (\<lambda>c. char_of (unat c)) (units s) = s"
  by (induction s) simp_all

lemma stops16_stop: "stop r \<Longrightarrow> stops16 r"
  by (cases r) (auto simp: stops16_def digit16_def)

lemma span_digits16:
  assumes "list_all digit16 ds" "stop r"
  shows "takeWhile digit16 (ds @ r) = ds" "dropWhile digit16 (ds @ r) = r"
  using assms by (cases r; auto simp: list_all_iff digit16_def)+

lemma length_units [simp]: "length (units s) = length s"
  by (simp add: units_def)

lemma hd_units: "s \<noteq> [] \<Longrightarrow> hd (units s) = word_of_nat (code (hd s))"
  by (cases s) simp_all

lemma zero_char: "word_of_nat (code c) = (0x30 :: unit16) \<longleftrightarrow> c = CHR ''0''"
  using unit_of_char_eq [of c "CHR ''0''"] by simp

lemma parse_digits16_dec:
  assumes "stop r"
  shows "parse_digits16 (units (nat_to_dec n) @ r) = Some (n, r)"
proof -
  have "units (nat_to_dec n) \<noteq> []" using nat_to_dec_nonempty [of n] by (cases "nat_to_dec n") simp_all
  moreover have "\<not> (hd (units (nat_to_dec n)) = 0x30 \<and> length (units (nat_to_dec n)) > 1)"
    using nat_to_dec_no_leading_zero [of n] nat_to_dec_nonempty [of n] by (simp add: hd_units zero_char)
  ultimately show ?thesis
    using assms by (simp add: parse_digits16_def Let_def span_digits16 digits_units nat_to_dec_digits stops16_stop units_chars)
qed

lemma parse_number16_dec:
  assumes "stop r"
  shows "parse_number16 (units (int_to_dec i) @ r) = Some (NNum i, r)"
proof (cases "i < 0")
  case True
  with assms show ?thesis by (simp add: parse_number16_def int_to_dec_def parse_digits16_dec)
next
  case False
  obtain c cs where c: "nat_to_dec (nat i) = c # cs" "is_digit c" using nat_to_dec_Cons by blast
  then have "word_of_nat (code c) \<noteq> (0x2D :: unit16)"
    using unit_of_char_eq [of c "CHR ''-''"] by (auto simp: is_digit_def)
  with False c show ?thesis using parse_digits16_dec [OF assms, of "nat i"]
    by (simp add: parse_number16_def int_to_dec_def)
qed

section \<open>Values\<close>

lemma skip16_id: "\<not> ws16 c \<Longrightarrow> skip16 (c # s) = c # s"
  by (simp add: skip16_def)

lemma ws16_punct [simp]: "\<not> ws16 0x2C" "\<not> ws16 0x5D" "\<not> ws16 0x7D" "\<not> ws16 0x3A" "\<not> ws16 0x22" "\<not> ws16 0x5B" "\<not> ws16 0x7B"
  "\<not> ws16 0x6E" "\<not> ws16 0x74" "\<not> ws16 0x66"
  by (simp_all add: ws16_def)

lemma dec_unit_head: "dec_unit c \<Longrightarrow> \<not> ws16 c \<and> c \<notin> {0x5B, 0x7B, 0x22, 0x74, 0x66, 0x6E, 0x5D, 0x7D}"
  by (auto simp: dec_unit_def ws16_def)

definition starts :: "ustr \<Rightarrow> bool" where
  "starts s = (case s of [] \<Rightarrow> False | c # _ \<Rightarrow> \<not> ws16 c \<and> c \<noteq> 0x5D \<and> c \<noteq> 0x7D)"

lemma starts_text: "starts (text_of v @ r)"
proof (cases v)
  case (NNum i)
  obtain c s where "units (int_to_dec i) = c # s" "dec_unit c" by (rule dec_Cons)
  with NNum dec_unit_head [of c] show ?thesis by (simp add: starts_def)
qed (simp_all add: starts_def quoted_def)

lemma skip16_starts: "starts s \<Longrightarrow> skip16 s = s"
  by (cases s) (simp_all add: starts_def skip16_def)

definition reads_back :: "jnorm \<Rightarrow> bool" where
  "reads_back v = (\<forall>r n. stop r \<longrightarrow> 2 * length (text_of v) \<le> n \<longrightarrow> parse_value16 n (text_of v @ r) = Some (v, r))"

lemma reads_backD: "reads_back v \<Longrightarrow> stop r \<Longrightarrow> 2 * length (text_of v) \<le> n \<Longrightarrow> parse_value16 n (text_of v @ r) = Some (v, r)"
  by (simp add: reads_back_def)

lemma commas_Cons2: "commas (x # y # ys) = x @ 0x2C # commas (y # ys)"
  by simp

lemma parse_elems16_back:
  assumes "xs \<noteq> []" "\<forall>x \<in> set xs. reads_back x" "2 * length (commas (map text_of xs)) < n"
  shows "parse_elems16 n (commas (map text_of xs) @ 0x5D # r) = Some (xs, r)"
  using assms
proof (induction xs arbitrary: n rule: induct_list012)
  case (2 x)
  then obtain k where "n = Suc k" by (cases n) auto
  with 2 show ?case by (simp add: reads_backD skip16_id)
next
  case (3 x y ys)
  then obtain k where k: "n = Suc k" by (cases n) auto
  let ?t = "commas (map text_of (y # ys)) @ 0x5D # r"
  have n: "2 * length (text_of x) + 2 * length (commas (map text_of (y # ys))) + 2 < n"
    using "3.prems"(3) by (simp only: list.map commas_Cons2) simp
  have "parse_value16 k (text_of x @ 0x2C # ?t) = Some (x, 0x2C # ?t)"
    using 3 k n by (intro reads_backD) auto
  moreover have "parse_elems16 k ?t = Some (y # ys, r)" using "3.prems" k n by (intro "3.IH"(2)) auto
  moreover have "commas (map text_of (x # y # ys)) @ 0x5D # r = text_of x @ 0x2C # ?t"
    by (simp only: list.map commas_Cons2) simp
  ultimately show ?case by (simp add: k skip16_id del: commas.simps)
qed simp

lemma parse_members16_back:
  assumes "kvs \<noteq> []" "\<forall>(k, v) \<in> set kvs. reads_back v" "2 * length (commas (map member_text kvs)) < n"
  shows "parse_members16 n (commas (map member_text kvs) @ 0x7D # r) = Some (kvs, r)"
  using assms
proof (induction kvs arbitrary: n rule: induct_list012)
  case (2 kv)
  then obtain j k v where "n = Suc j" "kv = (k, v)" by (cases n; cases kv) auto
  with 2 show ?case by (simp add: reads_backD skip16_id quoted_def parse_string_quoted member_text_def)
next
  case (3 kv kw kvs)
  then obtain j k v where j: "n = Suc j" and kv: "kv = (k, v)" by (cases n; cases kv) auto
  let ?t = "commas (map member_text (kw # kvs)) @ 0x7D # r"
  have n: "2 * length (member_text kv) + 2 * length (commas (map member_text (kw # kvs))) + 2 < n"
    using "3.prems"(3) by (simp only: list.map commas_Cons2) simp
  have v: "parse_value16 j (text_of v @ 0x2C # ?t) = Some (v, 0x2C # ?t)"
    using "3.prems" j kv n by (intro reads_backD) (auto simp: member_text_def)
  have m: "parse_members16 j ?t = Some (kw # kvs, r)" using "3.prems" j n by (intro "3.IH"(2)) auto
  have "commas (map member_text (kv # kw # kvs)) @ 0x7D # r
      = 0x22 # concat (map jcs_escape k) @ 0x22 # 0x3A # text_of v @ 0x2C # ?t"
    by (simp only: list.map commas_Cons2 kv) (simp add: member_text_def quoted_def)
  then show ?case using v m by (simp add: j kv skip16_id parse_string_quoted del: commas.simps)
qed simp

lemma reads_back_scalar:
  assumes "text_of v = c # cs" "\<not> ws16 c" "c \<noteq> 0x5B" "c \<noteq> 0x7B"
    and "\<And>r. stop r \<Longrightarrow> parse_scalar16 c (cs @ r) = Some (v, r)"
  shows "reads_back v"
  unfolding reads_back_def
proof (intro allI impI)
  fix r n assume "stop r" "2 * length (text_of v) \<le> n"
  moreover from this assms(1) obtain k where "n = Suc k" by (cases n) auto
  ultimately show "parse_value16 n (text_of v @ r) = Some (v, r)" using assms by (simp add: skip16_id)
qed

text \<open>No object of the value has two properties of one name.\<close>

fun keyed :: "jnorm \<Rightarrow> bool" where
  "keyed (NArr xs) = list_all keyed xs"
| "keyed (NObj ps) = (distinct (map fst ps) \<and> list_all (\<lambda>(k, v). keyed v) ps)"
| "keyed _ = True"

lemma keyed_reads_back: "keyed v \<Longrightarrow> reads_back v"
proof (induction v)
  case NNull
  show ?case by (rule reads_back_scalar) (auto simp: parse_scalar16_def parse_literal16_def)
next
  case (NBool b)
  show ?case by (cases b; rule reads_back_scalar) (auto simp: parse_scalar16_def parse_literal16_def)
next
  case (NNum i)
  obtain c cs where c: "units (int_to_dec i) = c # cs" "dec_unit c" by (rule dec_Cons)
  have "parse_scalar16 c (cs @ r) = Some (NNum i, r)" if "stop r" for r
    using parse_number16_dec [OF that, of i] c(1) dec_unit_head [OF c(2)] by (simp add: parse_scalar16_def)
  then show ?case using c dec_unit_head [OF c(2)] by (intro reads_back_scalar [of _ c cs]) auto
next
  case (NStr s)
  show ?case by (rule reads_back_scalar) (auto simp: parse_scalar16_def quoted_def parse_string_quoted)
next
  case (NArr xs)
  show ?case unfolding reads_back_def
  proof (intro allI impI)
    fix r n assume n: "2 * length (text_of (NArr xs)) \<le> n"
    then obtain k where k: "n = Suc k" by (cases n) auto
    show "parse_value16 n (text_of (NArr xs) @ r) = Some (NArr xs, r)"
    proof (cases xs)
      case Nil
      with k show ?thesis by (simp add: skip16_id)
    next
      case (Cons y ys)
      have st: "starts (commas (map text_of xs) @ 0x5D # r)" using starts_text [of y] Cons by simp
      have "parse_elems16 k (commas (map text_of xs) @ 0x5D # r) = Some (xs, r)"
        using NArr n k Cons by (intro parse_elems16_back) (auto simp: list_all_iff simp del: commas.simps)
      with k st skip16_starts [OF st] show ?thesis
        by (auto simp: skip16_id starts_def simp del: commas.simps split: list.splits)
    qed
  qed
next
  case (NObj kvs)
  show ?case unfolding reads_back_def
  proof (intro allI impI)
    fix r n assume n: "2 * length (text_of (NObj kvs)) \<le> n"
    then obtain k where k: "n = Suc k" by (cases n) auto
    show "parse_value16 n (text_of (NObj kvs) @ r) = Some (NObj kvs, r)"
    proof (cases kvs)
      case Nil
      with k show ?thesis by (simp add: skip16_id)
    next
      case (Cons y ys)
      have st: "starts (commas (map member_text kvs) @ 0x7D # r)"
        using Cons by (simp add: starts_def member_text_def quoted_def)
      have "\<forall>(k, v) \<in> set kvs. reads_back v" using NObj by (fastforce simp: list_all_iff)
      then have m: "parse_members16 k (commas (map member_text kvs) @ 0x7D # r) = Some (kvs, r)"
        using n k Cons by (intro parse_members16_back) (auto simp: text_of_obj simp del: commas.simps text_of.simps)
      have "fold (\<lambda>(k, v) m. jm_set k v m) kvs [] = kvs"
        using fold_jm_set_new [of "[]" kvs] NObj.prems by simp
      with k m st skip16_starts [OF st] show ?thesis
        by (auto simp: text_of_obj skip16_id starts_def simp del: commas.simps text_of.simps split: list.splits)
    qed
  qed
qed

lemma parse_json16_text: "keyed v \<Longrightarrow> parse_json16 (text_of v) = Some v"
  using reads_backD [OF keyed_reads_back, of v "[]" "2 * length (text_of v) + 2"]
  by (simp add: parse_json16_def stop_def skip16_def)

section \<open>UTF-8\<close>

lemma unat_byte_nat [simp]: "n < 256 \<Longrightarrow> unat (word_of_nat n :: byte) = n"
  by (simp add: unsigned_of_nat take_bit_nat_eq_self_iff)

lemma byte_nat_eq: "m < 256 \<Longrightarrow> n < 256 \<Longrightarrow> (word_of_nat m :: byte) = word_of_nat n \<longleftrightarrow> m = n"
  by (metis unat_byte_nat)

lemma utf8_lead_nat:
  assumes "n < 256"
  shows "utf8_lead (word_of_nat n) = (if 194 \<le> n \<and> n \<le> 223 then Some (1, 128, 191, n - 192)
     else if n = 224 then Some (2, 160, 191, 0)
     else if n = 237 then Some (2, 128, 159, 13)
     else if 225 \<le> n \<and> n \<le> 239 then Some (2, 128, 191, n - 224)
     else if n = 240 then Some (3, 144, 191, 0)
     else if 241 \<le> n \<and> n \<le> 243 then Some (3, 128, 191, n - 240)
     else if n = 244 then Some (3, 128, 143, 4)
     else None)"
proof -
  have e: "(word_of_nat n :: byte) = numeral k \<longleftrightarrow> n = numeral k" if "(numeral k :: nat) < 256" for k
    using byte_nat_eq [OF assms that] by simp
  show ?thesis using assms by (simp add: utf8_lead_def word_le_nat_alt e)
qed

lemma utf8_rest_nat:
  assumes "m < 256" "unat lo \<le> m" "m \<le> unat hi"
  shows "utf8_rest (Suc k) lo hi v (word_of_nat m # bs) = utf8_rest k 128 191 (64 * v + (m - 128)) bs"
  using assms by (simp add: word_le_nat_alt)

definition scalar_value :: "nat \<Rightarrow> bool" where
  "scalar_value p = (p < 0xD800 \<or> (0xDFFF < p \<and> p < 0x110000))"

lemma two_bytes: "64 * (p div 64) + p mod 64 = (p :: nat)"
  by simp

lemma three_bytes: "64 * (64 * (p div 4096) + p div 64 mod 64) + p mod 64 = (p :: nat)"
proof -
  have "p div 4096 = p div 64 div 64" by (simp add: div_mult2_eq [symmetric])
  then show ?thesis by simp
qed

lemma four_bytes: "64 * (64 * (64 * (p div 262144) + p div 4096 mod 64) + p div 64 mod 64) + p mod 64 = (p :: nat)"
proof -
  have "p div 262144 = p div 64 div 64 div 64" "p div 4096 = p div 64 div 64" by (simp_all add: div_mult2_eq [symmetric])
  then show ?thesis by simp
qed

lemma utf8_points_lead:
  assumes "128 \<le> n" "n < 256" "utf8_lead (word_of_nat n) = Some (k, lo, hi, v)" "utf8_rest k lo hi v bs = (Some p, r)"
  shows "utf8_points (word_of_nat n # bs) = p # utf8_points r"
  using assms by (simp add: word_less_nat_alt)

lemma lead_three:
  assumes "a \<le> 15" "b < 64" "a = 0 \<Longrightarrow> 32 \<le> b" "a = 13 \<Longrightarrow> b < 32"
  shows "\<exists>lo hi. utf8_lead (word_of_nat (224 + a)) = Some (2, lo, hi, a) \<and> unat lo \<le> 128 + b \<and> 128 + b \<le> unat hi"
proof -
  let ?lo = "if a = 0 then 160 else 128 :: byte" and ?hi = "if a = 13 then 159 else 191 :: byte"
  have "utf8_lead (word_of_nat (224 + a)) = Some (2, ?lo, ?hi, a)"
    using assms(1) by (subst utf8_lead_nat) auto
  moreover have "unat ?lo \<le> 128 + b \<and> 128 + b \<le> unat ?hi" using assms by (auto simp: less_Suc_eq_le)
  ultimately show ?thesis by blast
qed

lemma lead_four:
  assumes "a \<le> 4" "b < 64" "a = 0 \<Longrightarrow> 16 \<le> b" "a = 4 \<Longrightarrow> b < 16"
  shows "\<exists>lo hi. utf8_lead (word_of_nat (240 + a)) = Some (3, lo, hi, a) \<and> unat lo \<le> 128 + b \<and> 128 + b \<le> unat hi"
proof -
  let ?lo = "if a = 0 then 144 else 128 :: byte" and ?hi = "if a = 4 then 143 else 191 :: byte"
  have "utf8_lead (word_of_nat (240 + a)) = Some (3, ?lo, ?hi, a)"
    using assms(1) by (subst utf8_lead_nat) auto
  moreover have "unat ?lo \<le> 128 + b \<and> 128 + b \<le> unat ?hi" using assms by (auto simp: less_Suc_eq_le)
  ultimately show ?thesis by blast
qed

lemma utf8_points_point:
  assumes "scalar_value p"
  shows "utf8_points (utf8_point p @ bs) = p # utf8_points bs"
proof -
  have m: "q mod 64 < 64" for q :: nat by simp
  consider "p < 128" | "128 \<le> p" "p < 2048" | "2048 \<le> p" "p < 65536" | "65536 \<le> p" by linarith
  then show ?thesis
  proof cases
    case 1
    then show ?thesis by (simp add: utf8_point_def utf8_nats_def word_less_nat_alt)
  next
    case 2
    then have d: "2 \<le> p div 64" "p div 64 \<le> 31" by simp_all
    have "utf8_rest 1 128 191 (p div 64) (word_of_nat (128 + p mod 64) # bs) = (Some p, bs)"
      using m [of p] two_bytes [of p] by (simp only: One_nat_def, subst utf8_rest_nat) simp_all
    moreover have "utf8_lead (word_of_nat (192 + p div 64)) = Some (1, 128, 191, p div 64)" using d by (subst utf8_lead_nat) simp_all
    ultimately have "utf8_points (word_of_nat (192 + p div 64) # word_of_nat (128 + p mod 64) # bs) = p # utf8_points bs"
      using d by (intro utf8_points_lead) (simp_all del: of_nat_add utf8_rest.simps)
    with 2 show ?thesis by (simp add: utf8_point_def utf8_nats_def del: of_nat_add)
  next
    case 3
    define a where "a = p div 4096"
    define b where "b = p div 64 mod 64"
    define r where "r = p mod 64"
    have p: "64 * (64 * a + b) + r = p" unfolding a_def b_def r_def by (rule three_bytes)
    then have q: "4096 * a + 64 * b + r = p" by simp
    have r: "r < 64" by (simp add: r_def)
    have ab: "a \<le> 15" "b < 64" using 3 by (simp_all add: a_def b_def)
    have low: "32 \<le> b" if "a = 0" using q 3(1) r that by linarith
    have sur: "b < 32" if "a = 13" proof (rule ccontr)
      assume "\<not> b < 32"
      with q r that ab(2) have "55296 \<le> p" "p \<le> 57343" by linarith+
      with assms show False by (simp add: scalar_value_def)
    qed
    obtain lo hi where l: "utf8_lead (word_of_nat (224 + a)) = Some (2, lo, hi, a)" "unat lo \<le> 128 + b" "128 + b \<le> unat hi"
      using lead_three [OF ab(1,2) low sur] by blast
    have "utf8_rest 2 lo hi a (word_of_nat (128 + b) # word_of_nat (128 + r) # bs) = (Some p, bs)"
      using r ab l(2,3) p by (simp only: numeral_2_eq_2, subst utf8_rest_nat) (simp_all add: utf8_rest_nat del: of_nat_add utf8_rest.simps(3))
    with l(1) ab have "utf8_points (word_of_nat (224 + a) # word_of_nat (128 + b) # word_of_nat (128 + r) # bs) = p # utf8_points bs"
      by (intro utf8_points_lead) (simp_all del: of_nat_add utf8_rest.simps)
    with 3 show ?thesis by (simp add: utf8_point_def utf8_nats_def a_def b_def r_def del: of_nat_add)
  next
    case 4
    define a where "a = p div 262144"
    define b where "b = p div 4096 mod 64"
    define c where "c = p div 64 mod 64"
    define r where "r = p mod 64"
    have p: "64 * (64 * (64 * a + b) + c) + r = p" unfolding a_def b_def c_def r_def by (rule four_bytes)
    then have q: "262144 * a + 4096 * b + 64 * c + r = p" by simp
    have r: "r < 64" by (simp add: r_def)
    have p2: "p < 1114112" using assms 4 by (simp add: scalar_value_def)
    have abc: "b < 64" "c < 64" by (simp_all add: b_def c_def)
    then have a: "a \<le> 4" using q p2 by linarith
    have low: "16 \<le> b" if "a = 0" using q 4 r that abc by linarith
    have high: "b < 16" if "a = 4" using q p2 that by linarith
    obtain lo hi where l: "utf8_lead (word_of_nat (240 + a)) = Some (3, lo, hi, a)" "unat lo \<le> 128 + b" "128 + b \<le> unat hi"
      using lead_four [OF a abc(1) low high] by blast
    have "utf8_rest 3 lo hi a (word_of_nat (128 + b) # word_of_nat (128 + c) # word_of_nat (128 + r) # bs) = (Some p, bs)"
      using r abc l(2,3) p by (simp only: numeral_3_eq_3, subst utf8_rest_nat) (simp_all add: utf8_rest_nat del: of_nat_add utf8_rest.simps(3))
    with l(1) a have "utf8_points (word_of_nat (240 + a) # word_of_nat (128 + b) # word_of_nat (128 + c) # word_of_nat (128 + r) # bs)
        = p # utf8_points bs" by (intro utf8_points_lead) (simp_all del: of_nat_add utf8_rest.simps)
    with 4 show ?thesis by (simp add: utf8_point_def utf8_nats_def a_def b_def c_def r_def del: of_nat_add)
  qed
qed

lemma unit_bound: "unat (c :: unit16) < 65536"
  using unat_unit [of c] by simp

lemma code_points_back:
  assumes "well_formed s"
  shows "list_all scalar_value (code_points s) \<and> concat (map point_units (code_points s)) = s"
  using assms
proof (induction s rule: code_points.induct)
  have one: "scalar_value (single_point c) \<and> point_units (single_point c) = [c]" if "\<not> high_surrogate c" "\<not> low_surrogate c" for c
    using that unit_bound [of c]
    by (auto simp: single_point_def scalar_value_def point_units_def high_surrogate_def low_surrogate_def word_le_nat_alt)
  {
    case (2 c)
    with one show ?case by simp
  next
    case (3 c d s)
    show ?case
    proof (cases "high_surrogate c")
      case True
      with 3(3) have ld: "low_surrogate d" "well_formed s" by simp_all
      have r: "0xD800 \<le> unat c" "unat c \<le> 0xDBFF" "0xDC00 \<le> unat d" "unat d \<le> 0xDFFF"
        using True ld by (simp_all add: high_surrogate_def low_surrogate_def word_le_nat_alt)
      define x y where "x = unat c - 0xD800" and "y = unat d - 0xDC00"
      have xy: "unat c = 55296 + x" "unat d = 56320 + y" "x < 1024" "y < 1024" using r by (simp_all add: x_def y_def)
      have pp: "pair_point c d = 65536 + (x * 1024 + y)" by (simp add: pair_point_def x_def y_def)
      have "(x * 1024 + y) div 1024 = x" "(x * 1024 + y) mod 1024 = y" using xy by simp_all
      then have "point_units (pair_point c d) = [word_of_nat (unat c), word_of_nat (unat d)]"
        unfolding point_units_def pp xy by simp
      moreover have "scalar_value (pair_point c d)" unfolding scalar_value_def pp using xy by simp
      ultimately show ?thesis using 3 True ld by simp
    next
      case False
      with 3 one [of c] show ?thesis by (simp split: if_splits)
    qed
  }
qed simp

lemma utf8_points_concat: "list_all scalar_value ps \<Longrightarrow> utf8_points (concat (map utf8_point ps)) = ps"
  by (induction ps) (simp_all add: utf8_points_point)

lemma utf8_decode_units: "well_formed s \<Longrightarrow> utf8_decode (utf8_units s) = s"
  using code_points_back [of s] by (simp add: utf8_decode_def utf8_units_def utf8_points_concat)

section \<open>base64url through Buffer\<close>

lemma buffer_from_b64url [simp]: "buffer_from_base64 (b64url bs) = bs"
proof -
  have plus: "b64_val (CHR ''+'') = Some 62" "b64_val (CHR ''/'') = Some 63" by code_simp+
  have v: "buffer_val (url_char (b64_char n)) = Some n" if "n < 64" for n
    using that b64_val_char [of n] plus by (auto simp: buffer_val_def url_char_def simp del: b64_val_char)
  have "List.map_filter buffer_val (map (\<lambda>n. url_char (b64_char n)) ns) = ns" if "\<forall>n \<in> set ns. n < 64" for ns
    using that by (induction ns) (auto simp: List.map_filter_def v)
  moreover have "\<forall>y \<in> set (b64_groups (map unat bs)). y < 64" using b64_groups_bytes_bound by blast
  ultimately show ?thesis by (simp add: buffer_from_base64_def b64url_alt comp_def b64_ungroup_groups)
qed

end
