(* ===== verification/Http_Outbox.thy ===== *)
theory Http_Outbox
  imports Durable_Laws Text_Laws
begin

text \<open>
  \<^verbatim>\<open>packages/server/src/http-outbox-transport.ts\<close>: the authenticated HTTP hop from a publisher to a
  receiver. Header values, paths and identifiers of keys are strings of 8-bit characters, as Node hands
  them over; bodies are bytes. The network, the acknowledgement verifier, the resolution of keys and the
  receiver of a record are parameters; the attestation of the nonce table's catalog is a flag of the
  transaction. Secrets are bytes. The race of an exchange with its deadline is an outcome of the network or of
  the reply's stream. Times are whole milliseconds.
\<close>

section \<open>Constants and framing\<close>

definition REQ_DOMAIN :: ustr where "REQ_DOMAIN = units ''BPCv1-req''"

definition ACK_DOMAIN :: ustr where "ACK_DOMAIN = units ''BPCv1-ack''"

definition CONTENT_TYPE :: string where "CONTENT_TYPE = ''application/json''"

definition DEFAULT_FRESHNESS_MS :: int where "DEFAULT_FRESHNESS_MS = 30000"

definition DEFAULT_MAX_BODY_BYTES :: int where "DEFAULT_MAX_BODY_BYTES = 64 * 1024"

definition DEFAULT_NONCE_RETENTION_MS :: int where "DEFAULT_NONCE_RETENTION_MS = 120000"

definition DEFAULT_MAX_CLOCK_SKEW_MS :: int where "DEFAULT_MAX_CLOCK_SKEW_MS = 5000"

definition DEFAULT_NONCE_SAFETY_MS :: int where "DEFAULT_NONCE_SAFETY_MS = 30000"

definition NONCE_RE :: "string \<Rightarrow> bool" where
  "NONCE_RE s = (16 \<le> length s \<and> length s \<le> 128 \<and> list_all (\<lambda>c. is_alnum c \<or> c \<in> set ''_-'') s)"

definition KEY_ID_RE :: "string \<Rightarrow> bool" where
  "KEY_ID_RE s = (1 \<le> length s \<and> length s \<le> 64 \<and> list_all (\<lambda>c. is_alnum c \<or> c \<in> set ''._-'') s)"

text \<open>\<open>frame\<close> is the length-prefixed framing of the contract; \<open>Buffer.from\<close> encodes the strings as UTF-8.\<close>

definition transport_hmac :: "webcrypto \<Rightarrow> bytes \<Rightarrow> ustr list \<Rightarrow> bytes throws" where
  "transport_hmac cr secret parts = and_then (frames parts) (\<lambda>msg. returns (wc_hmac cr secret msg))"

definition hex_sha256 :: "webcrypto \<Rightarrow> bytes \<Rightarrow> string" where
  "hex_sha256 cr b = concat (map hex_byte (wc_sha256 cr b))"

definition ctEqualB64u :: "string \<Rightarrow> bytes \<Rightarrow> bool" where
  "ctEqualB64u a expected = (buffer_from_base64 a = expected)"

definition toSecret :: "bytes \<Rightarrow> string \<Rightarrow> bytes throws" where
  "toSecret s label = (if length s < 32 then throw (label @ '' must be >= 32 bytes'') else returns s)"

definition posInt :: "int \<Rightarrow> string \<Rightarrow> int throws" where
  "posInt n label = (if \<not> is_safe_integer n \<or> n < 1 then throw (label @ '' must be a positive safe integer'') else returns n)"

definition isJsonMime :: "string option \<Rightarrow> bool" where
  "isJsonMime ct = (case ct of None \<Rightarrow> False
   | Some s \<Rightarrow> map to_lower (js_trim (takeWhile (\<lambda>c. c \<noteq> CHR '';'') s)) = CONTENT_TYPE)"

text \<open>A receipt from a parsed reply: exactly its nine members, each of its type.\<close>

definition member_string :: "(ustr \<times> jnorm) list \<Rightarrow> string \<Rightarrow> ustr option" where
  "member_string ps k = (case map_of ps (units k) of Some (NStr s) \<Rightarrow> Some s | _ \<Rightarrow> None)"

definition strictReceipt :: "jnorm \<Rightarrow> ack_receipt throws" where
  "strictReceipt v = (case v of
     NObj ps \<Rightarrow> if length ps \<noteq> 9 then throw ''receipt has an invalid key set''
       else (case (member_string ps ''streamId'', member_string ps ''sourceEpoch'', map_of ps (units ''sequence''), member_string ps ''opDigest'') of
         (Some st, Some e, Some (NNum n), Some d) \<Rightarrow>
           (case (member_string ps ''decision'', member_string ps ''receiverId'', member_string ps ''keyId'',
               member_string ps ''issuedAt'', member_string ps ''signature'') of
             (Some dec, Some rc, Some k, Some iss, Some sg) \<Rightarrow> returns \<lparr>ar_streamId = st, ar_sourceEpoch = e, ar_sequence = n,
               ar_opDigest = d, ar_decision = dec, ar_receiverId = rc, ar_keyId = k, ar_issuedAt = iss, ar_signature = sg\<rparr>
           | _ \<Rightarrow> throw ''receipt member of the wrong type'')
       | _ \<Rightarrow> throw ''receipt member of the wrong type'')
   | _ \<Rightarrow> throw ''receipt has an invalid key set'')"

section \<open>The nonce store\<close>

record nonce_options =
  no_retentionMs :: int
  no_maxClockSkewMs :: int

definition new_nonce_store :: "nonce_options \<Rightarrow> nonce_options throws" where
  "new_nonce_store opts = and_then (posInt (no_retentionMs opts) ''retentionMs'') (\<lambda>_.
     and_then (posInt (no_maxClockSkewMs opts) ''maxClockSkewMs'') (\<lambda>_. returns opts))"

text \<open>
  The session of a transaction, whether the catalog attestation holds, and the readings of the clock of the
  database and of the store's own clock.
\<close>

record nonce_env =
  ne_tx :: tx_env
  ne_attested :: bool
  ne_dbNow :: int
  ne_appNow :: int

definition enterAndAttest :: "string \<Rightarrow> nonce_env \<Rightarrow> unit outcome" where
  "enterAndAttest schema env =
     then_do (ensure (map to_lower (ss_isolation (te_session (ne_tx env))) = ''serializable'') ''replay-nonce transaction must be SERIALIZABLE'') (\<lambda>_.
     then_do (ensure (ss_current_schema (te_session (ne_tx env)) = schema) ''replay-nonce schema context mismatch'') (\<lambda>_.
     ensure (ne_attested env) ''replay-nonce table attestation failed''))"

type_synonym nonce_table = "(string, int) jsmap"

definition checkAndStore :: "string \<Rightarrow> nonce_options \<Rightarrow> nonce_env \<Rightarrow> string \<Rightarrow> nonce_table \<Rightarrow> bool outcome \<times> nonce_table" where
  "checkAndStore schema opts env nonce = transaction (ne_tx env) (\<lambda>table.
     then_do (enterAndAttest schema env) (\<lambda>_.
     then_do (ensure (is_safe_integer (ne_appNow env) \<and> \<bar>ne_dbNow env - ne_appNow env\<bar> \<le> no_maxClockSkewMs opts)
       ''replay-nonce store: DB/app clock skew exceeds the allowed bound (fail closed)'') (\<lambda>_.
     let pruned = jm_keep (\<lambda>k expires. \<not> expires < ne_dbNow env) table
     in Inr (if jm_get pruned nonce \<noteq> None then (False, pruned)
             else (True, jm_set nonce (ne_dbNow env + no_retentionMs opts) pruned)))))"

text \<open>The store of the tests: an entry lives until its expiry is reached.\<close>

definition mem_replay_checkAndStore :: "int \<Rightarrow> int \<Rightarrow> string \<Rightarrow> nonce_table \<Rightarrow> bool \<times> nonce_table" where
  "mem_replay_checkAndStore retentionMs t nonce seen =
     (let pruned = jm_keep (\<lambda>k expires. \<not> expires \<le> t) seen
      in if jm_get pruned nonce \<noteq> None then (False, pruned) else (True, jm_set nonce (t + retentionMs) pruned))"

section \<open>The receiver\<close>

datatype body_event = Data bytes | EndOfBody | BodyError | BodyTimeout

text \<open>The first event that settles the promise; \<open>None\<close> is a request still being read.\<close>

fun readBodyCapped :: "nat \<Rightarrow> nat \<Rightarrow> bytes \<Rightarrow> body_event list \<Rightarrow> (string + bytes) option" where
  "readBodyCapped maxBytes sofar chunks [] = None"
| "readBodyCapped maxBytes sofar chunks (Data c # es) =
     (if maxBytes < sofar + length c then Some (Inl ''too large'')
      else readBodyCapped maxBytes (sofar + length c) (chunks @ c) es)"
| "readBodyCapped maxBytes sofar chunks (EndOfBody # es) = Some (Inr chunks)"
| "readBodyCapped maxBytes sofar chunks (BodyError # es) = Some (Inl ''error'')"
| "readBodyCapped maxBytes sofar chunks (BodyTimeout # es) = Some (Inl ''timeout'')"

record http_request =
  hr_method :: string
  hr_url :: string
  hr_contentType :: "string option"
  hr_keyId :: "string option"
  hr_timestamp :: "string option"
  hr_nonce :: "string option"
  hr_signature :: "string option"
  hr_body :: "body_event list"

text \<open>What is sent: a status and the canonical text of an object.\<close>

type_synonym http_reply = "int \<times> ustr"

definition send_reply :: "int \<Rightarrow> jsval \<Rightarrow> http_reply throws" where
  "send_reply status obj = and_then (canonicalize_value obj) (\<lambda>payload. returns (status, payload))"

definition error_body :: "string \<Rightarrow> jsval" where
  "error_body message = data_props [(''error'', VStr (units message))]"

text \<open>\<open>rc_durable\<close>: the store came from \<open>PgReplayNonceStore.open\<close> (or the maker of the tests), which registers it.\<close>

record receiver_options =
  rc_expectedPath :: string
  rc_resolveRequestKey :: "string \<Rightarrow> bytes option"
  rc_responseKeyId :: string
  rc_responseSecret :: bytes
  rc_schema :: string
  rc_nonceStore :: nonce_options
  rc_durable :: bool
  rc_freshnessMs :: int
  rc_nonceSafetyMs :: int
  rc_maxBodyBytes :: int
  rc_bodyReadMs :: int

definition new_receiver :: "receiver_options \<Rightarrow> receiver_options throws" where
  "new_receiver opts =
     and_then (posInt (rc_freshnessMs opts) ''freshnessMs'') (\<lambda>freshnessMs.
     and_then (posInt (rc_nonceSafetyMs opts) ''nonceSafetyMs'') (\<lambda>safetyMs.
     and_then (posInt (rc_maxBodyBytes opts) ''maxBodyBytes'') (\<lambda>_.
     and_then (posInt (rc_bodyReadMs opts) ''bodyReadMs'') (\<lambda>_.
     if \<not> rc_durable opts then throw ''nonceStore is not a durable attested replay authority''
     else if take 1 (rc_expectedPath opts) \<noteq> ''/'' then throw ''expectedPath must be an absolute request path''
     else if \<not> KEY_ID_RE (rc_responseKeyId opts) then throw ''invalid responseKeyId''
     else and_then (toSecret (rc_responseSecret opts) ''responseSecret'') (\<lambda>_.
       let guaranteed = no_retentionMs (rc_nonceStore opts) - 2 * no_maxClockSkewMs (rc_nonceStore opts)
       in if guaranteed < 2 * freshnessMs + safetyMs then throw ''nonce retention too small'' else returns opts)))))"

definition timestamp_re :: "string \<Rightarrow> bool" where
  "timestamp_re s = (s = ''0'' \<or> (1 \<le> length s \<and> length s \<le> 16 \<and> list_all is_digit s \<and> hd s \<noteq> CHR ''0''))"

text \<open>
  The handler up to the nonce: the body with the nonce and the digest of an authenticated request, or the
  status and error of the reply.
\<close>

definition authenticate ::
    "webcrypto \<Rightarrow> receiver_options \<Rightarrow> nonce_env \<Rightarrow> int \<Rightarrow> http_request \<Rightarrow> nonce_table
       \<Rightarrow> ((int \<times> string) + bytes \<times> string \<times> string) option \<times> nonce_table" where
  "authenticate cr opts env now req table =
     (if hr_method req \<noteq> ''POST'' then (Some (Inl (405, ''method not allowed'')), table)
      else if hr_url req \<noteq> rc_expectedPath opts then (Some (Inl (404, ''not found'')), table)
      else if \<not> isJsonMime (hr_contentType req) then (Some (Inl (415, ''unsupported media type'')), table)
      else case readBodyCapped (nat (rc_maxBodyBytes opts)) 0 [] (hr_body req) of
        None \<Rightarrow> (None, table)
      | Some (Inl e) \<Rightarrow> (Some (Inl (if e = ''timeout'' then 408 else 413, ''body read failed'')), table)
      | Some (Inr body) \<Rightarrow>
        (case (hr_keyId req, hr_timestamp req, hr_nonce req, hr_signature req) of
          (Some keyId, Some ts, Some nonce, Some sig) \<Rightarrow>
            if ts = [] \<or> sig = [] \<or> \<not> KEY_ID_RE keyId \<or> \<not> NONCE_RE nonce then (Some (Inl (401, ''unauthenticated'')), table)
            else (case rc_resolveRequestKey opts keyId of
              None \<Rightarrow> (Some (Inl (401, ''unknown key'')), table)
            | Some secret \<Rightarrow>
                if length secret < 32 then (Some (Inl (500, ''ingest failed'')), table)
                else if \<not> timestamp_re ts then (Some (Inl (401, ''stale or invalid timestamp'')), table)
                else if \<not> is_safe_integer (int (dec_to_nat ts)) \<or> \<not> is_safe_integer now
                  \<or> rc_freshnessMs opts < \<bar>now - int (dec_to_nat ts)\<bar>
                then (Some (Inl (401, ''stale or invalid timestamp'')), table)
                else let bodyDigest = hex_sha256 cr body
                  in (case transport_hmac cr secret [REQ_DOMAIN, units keyId, units ''POST'', units (hr_url req), units ts,
                        units nonce, units bodyDigest] of
                    Inl e \<Rightarrow> (Some (Inl (500, ''ingest failed'')), table)
                  | Inr expected \<Rightarrow>
                      if \<not> ctEqualB64u sig expected then (Some (Inl (401, ''bad signature'')), table)
                      else (case checkAndStore (rc_schema opts) (rc_nonceStore opts) env nonce table of
                        (Inl e, table1) \<Rightarrow> (Some (Inl (500, ''ingest failed'')), table1)
                      | (Inr False, table1) \<Rightarrow> (Some (Inl (401, ''replay'')), table1)
                      | (Inr True, table1) \<Rightarrow> (Some (Inr (body, nonce, bodyDigest)), table1))))
        | _ \<Rightarrow> (Some (Inl (401, ''unauthenticated'')), table)))"

definition envelope_value :: "string \<Rightarrow> string \<Rightarrow> string \<Rightarrow> ack_receipt \<Rightarrow> string \<Rightarrow> jsval" where
  "envelope_value keyId nonce bodyDigest receipt sig = data_props [(''v'', VStr ACK_DOMAIN), (''keyId'', VStr (units keyId)),
     (''challenge'', VStr (units nonce)), (''requestDigest'', VStr (units bodyDigest)), (''receipt'', receipt_value receipt),
     (''sig'', VStr (units sig))]"

definition ack_parts :: "string \<Rightarrow> string \<Rightarrow> string \<Rightarrow> string \<Rightarrow> ustr \<Rightarrow> ustr list" where
  "ack_parts keyId nonce bodyDigest path receiptText = [ACK_DOMAIN, units keyId, units nonce, units bodyDigest, units path, receiptText]"

definition signed_envelope :: "webcrypto \<Rightarrow> receiver_options \<Rightarrow> string \<Rightarrow> string \<Rightarrow> string \<Rightarrow> ack_receipt \<Rightarrow> jsval throws" where
  "signed_envelope cr opts path nonce bodyDigest receipt =
     and_then (canonicalize_value (receipt_value receipt)) (\<lambda>receiptText.
     and_then (transport_hmac cr (rc_responseSecret opts) (ack_parts (rc_responseKeyId opts) nonce bodyDigest path receiptText)) (\<lambda>mac.
     returns (envelope_value (rc_responseKeyId opts) nonce bodyDigest receipt (b64url mac))))"

text \<open>
  The whole handler. \<open>receive\<close> is handed the parsed object and acts on \<open>'w\<close>; \<open>None\<close> is a rejection. A reply
  whose text cannot be made becomes a 500, and if that fails too there is none.
\<close>

definition reply_or_500 :: "http_reply throws \<Rightarrow> http_reply option" where
  "reply_or_500 r = (case r of Inr v \<Rightarrow> Some v
   | Inl e \<Rightarrow> (case send_reply 500 (error_body ''ingest failed'') of Inr v \<Rightarrow> Some v | Inl e \<Rightarrow> None))"

definition handle_request ::
    "webcrypto \<Rightarrow> receiver_options \<Rightarrow> (jnorm \<Rightarrow> 'w \<Rightarrow> ack_receipt option \<times> 'w) \<Rightarrow> nonce_env \<Rightarrow> int \<Rightarrow> http_request \<Rightarrow> nonce_table \<Rightarrow> 'w
       \<Rightarrow> http_reply option \<times> nonce_table \<times> 'w" where
  "handle_request cr opts receive env now req table w =
     (case authenticate cr opts env now req table of
        (None, table1) \<Rightarrow> (None, table1, w)
      | (Some (Inl (status, message)), table1) \<Rightarrow> (reply_or_500 (send_reply status (error_body message)), table1, w)
      | (Some (Inr (body, nonce, bodyDigest)), table1) \<Rightarrow>
          (case parse_json16 (utf8_decode body) of
             None \<Rightarrow> (reply_or_500 (send_reply 400 (error_body ''invalid json'')), table1, w)
           | Some (NObj ps) \<Rightarrow>
               (case receive (NObj ps) w of
                  (None, w1) \<Rightarrow> (reply_or_500 (send_reply 500 (error_body ''ingest failed'')), table1, w1)
                | (Some receipt, w1) \<Rightarrow>
                    (reply_or_500 (and_then (signed_envelope cr opts (hr_url req) nonce bodyDigest receipt) (send_reply 200)), table1, w1))
           | Some _ \<Rightarrow> (reply_or_500 (send_reply 400 (error_body ''invalid record'')), table1, w)))"


section \<open>The client\<close>

text \<open>An \<open>OutboxTransportError\<close> that may not or may be retried, or any other error.\<close>

datatype transport_error = Terminal string | Transient string | Thrown string

type_synonym 'a transported = "transport_error + 'a"

fun then_transport :: "'a transported \<Rightarrow> ('a \<Rightarrow> 'b transported) \<Rightarrow> 'b transported" where
  "then_transport (Inl e) f = Inl e"
| "then_transport (Inr v) f = f v"

lemma then_transport_Inr_iff: "then_transport m f = Inr b \<longleftrightarrow> (\<exists>a. m = Inr a \<and> f a = Inr b)"
  by (cases m) auto

definition thrown :: "'a throws \<Rightarrow> 'a transported" where
  "thrown m = (case m of Inl e \<Rightarrow> Inl (Thrown e) | Inr v \<Rightarrow> Inr v)"

lemma thrown_Inr_iff [simp]: "thrown m = Inr v \<longleftrightarrow> m = returns v"
  by (simp add: thrown_def split: sum.split)

definition require_terminal :: "bool \<Rightarrow> string \<Rightarrow> unit transported" where
  "require_terminal b message = (if b then Inr () else Inl (Terminal message))"

lemma require_terminal_iff [simp]: "require_terminal b message = Inr u \<longleftrightarrow> b"
  by (simp add: require_terminal_def)

definition classifyStatus :: "int \<Rightarrow> transport_error" where
  "classifyStatus status = (if 500 \<le> status \<or> status = 408 \<or> status = 429 then Transient ''transport received HTTP status''
     else Terminal ''transport received HTTP status'')"

text \<open>One \<open>read()\<close> of the reply's stream; the response of the network, or the error of \<open>fetch\<close>, or the deadline.\<close>

datatype read_event = Chunk bytes | ReadDone | ReadFailed | ReadAborted

record fetch_response =
  fr_status :: int
  fr_contentType :: "string option"
  fr_contentLength :: "int option"
  fr_body :: "read_event list option"

datatype fetch_result = Response fetch_response | FetchThrew "transport_error option" | DeadlineExceeded

fun readCapped :: "nat \<Rightarrow> nat \<Rightarrow> bytes \<Rightarrow> read_event list \<Rightarrow> bytes transported option" where
  "readCapped maxBytes sofar chunks [] = None"
| "readCapped maxBytes sofar chunks (Chunk c # es) =
     (if maxBytes < sofar + length c then Some (Inl (Terminal ''transport reply too large''))
      else readCapped maxBytes (sofar + length c) (chunks @ c) es)"
| "readCapped maxBytes sofar chunks (ReadDone # es) = Some (Inr chunks)"
| "readCapped maxBytes sofar chunks (ReadFailed # es) = Some (Inl (Thrown ''read failed''))"
| "readCapped maxBytes sofar chunks (ReadAborted # es) = Some (Inl (Transient ''transport aborted''))"

datatype ack_verification = Verified | VerifierUnavailable | VerificationFailed

record transport_options =
  tp_url_path :: string
  tp_requestKeyId :: string
  tp_requestSecret :: bytes
  tp_resolveResponseKey :: "string \<Rightarrow> bytes option"
  tp_verify :: "ack_receipt \<Rightarrow> outbox_record \<Rightarrow> ack_verification"
  tp_timeoutMs :: int
  tp_maxResponseBytes :: int
  tp_maxRequestBytes :: int

text \<open>The constructor after the URL was parsed: \<open>protocol\<close>, credentials and fragment are what it found.\<close>

definition new_transport_options :: "string \<Rightarrow> bool \<Rightarrow> bool \<Rightarrow> transport_options \<Rightarrow> transport_options throws" where
  "new_transport_options protocol credentials fragment opts =
     (if \<not> KEY_ID_RE (tp_requestKeyId opts) then throw ''invalid requestKeyId''
      else if protocol \<noteq> ''http:'' \<and> protocol \<noteq> ''https:'' then throw ''transport url must be http(s)''
      else if credentials then throw ''transport url must not embed credentials''
      else if fragment then throw ''transport url must not contain a fragment''
      else and_then (toSecret (tp_requestSecret opts) ''requestSecret'') (\<lambda>_.
        and_then (posInt (tp_timeoutMs opts) ''timeoutMs'') (\<lambda>_.
        and_then (posInt (tp_maxResponseBytes opts) ''maxResponseBytes'') (\<lambda>_.
        and_then (posInt (tp_maxRequestBytes opts) ''maxRequestBytes'') (\<lambda>_. returns opts)))))"

record reply_envelope =
  re_keyId :: string
  re_receipt :: jnorm
  re_sig :: ustr

text \<open>
  The identifier of a response key and the signature of an envelope are JavaScript strings. The model takes an
  identifier with units beyond 8 bits to resolve to no key, and a signature with such units to be wrong.
\<close>

definition latin :: "ustr \<Rightarrow> string option" where
  "latin u = (if list_all (\<lambda>c. unat c < 256) u then Some (map (\<lambda>c. char_of (unat c)) u) else None)"

definition verifyEnvelope ::
    "webcrypto \<Rightarrow> transport_options \<Rightarrow> ustr \<Rightarrow> outbox_record \<Rightarrow> string \<Rightarrow> string \<Rightarrow> ack_receipt transported" where
  "verifyEnvelope cr opts txt rec sentNonce sentBodyDigest =
     (case parse_json16 txt of
        Some (NObj ps) \<Rightarrow>
          (case (member_string ps ''keyId'', member_string ps ''challenge'', member_string ps ''requestDigest'', member_string ps ''sig'',
              map_of ps (units ''receipt'')) of
             (Some keyId, Some challenge, Some requestDigest, Some sig, Some receiptValue) \<Rightarrow>
               then_transport (require_terminal (length ps = 6 \<and> map_of ps (units ''v'') = Some (NStr ACK_DOMAIN)) ''transport reply envelope malformed'') (\<lambda>_.
               then_transport (require_terminal (challenge = units sentNonce \<and> requestDigest = units sentBodyDigest)
                 ''transport reply not bound to this request attempt'') (\<lambda>_.
               case (case latin keyId of None \<Rightarrow> None | Some k \<Rightarrow> map_option (Pair k) (tp_resolveResponseKey opts k)) of
                 None \<Rightarrow> Inl (Terminal ''transport reply signed under an unknown response key'')
               | Some (k, secret) \<Rightarrow>
                   then_transport (thrown (toSecret secret ''resolved response secret'')) (\<lambda>respSecret.
                   case strictReceipt receiptValue of
                     Inl e \<Rightarrow> Inl (Terminal ''transport reply receipt malformed'')
                   | Inr receipt \<Rightarrow>
                       then_transport (thrown (canonicalize_value (receipt_value receipt))) (\<lambda>receiptText.
                       then_transport (thrown (transport_hmac cr respSecret (ack_parts k sentNonce sentBodyDigest (tp_url_path opts) receiptText))) (\<lambda>mac.
                       then_transport (require_terminal (case latin sig of None \<Rightarrow> False | Some s \<Rightarrow> ctEqualB64u s mac)
                         ''transport reply envelope MAC invalid'') (\<lambda>_.
                       then_transport (require_terminal (ar_streamId receipt = oh_streamId rec \<and> ar_sourceEpoch receipt = oh_sourceEpoch rec
                           \<and> ar_sequence receipt = oh_sequence rec \<and> ar_opDigest receipt = oh_opDigest rec)
                         ''transport reply does not bind to the delivered record'') (\<lambda>_.
                       case tp_verify opts receipt rec of
                         Verified \<Rightarrow> Inr receipt
                       | VerifierUnavailable \<Rightarrow> Inl (Transient ''transport reply ack verifier unavailable'')
                       | VerificationFailed \<Rightarrow> Inl (Terminal ''transport reply ack signature/authorization invalid''))))))))
           | _ \<Rightarrow> Inl (Terminal ''transport reply envelope malformed''))
      | Some _ \<Rightarrow> Inl (Terminal ''transport reply envelope malformed'')
      | None \<Rightarrow> Inl (Terminal ''transport reply is not valid JSON''))"

definition read_reply :: "webcrypto \<Rightarrow> transport_options \<Rightarrow> fetch_response \<Rightarrow> outbox_record \<Rightarrow> string \<Rightarrow> string \<Rightarrow> ack_receipt transported" where
  "read_reply cr opts res rec nonce bodyDigest =
     (if fr_status res \<noteq> 200 then Inl (classifyStatus (fr_status res))
      else if \<not> isJsonMime (fr_contentType res) then Inl (Terminal ''transport reply is not application/json'')
      else if (case fr_contentLength res of None \<Rightarrow> False | Some n \<Rightarrow> tp_maxResponseBytes opts < n) then Inl (Terminal ''transport reply too large'')
      else case fr_body res of
        None \<Rightarrow> Inl (Terminal ''transport response has no readable body stream'')
      | Some es \<Rightarrow> (case readCapped (nat (tp_maxResponseBytes opts)) 0 [] es of
          None \<Rightarrow> Inl (Transient ''transport deadline exceeded'')
        | Some b \<Rightarrow> then_transport b (\<lambda>bytes. verifyEnvelope cr opts (utf8_decode bytes) rec nonce bodyDigest)))"

definition signed_request :: "transport_options \<Rightarrow> string \<Rightarrow> string \<Rightarrow> bytes \<Rightarrow> bytes \<Rightarrow> http_request" where
  "signed_request opts ts nonce mac body = \<lparr>hr_method = ''POST'', hr_url = tp_url_path opts, hr_contentType = Some CONTENT_TYPE,
     hr_keyId = Some (tp_requestKeyId opts), hr_timestamp = Some ts, hr_nonce = Some nonce, hr_signature = Some (b64url mac),
     hr_body = [Data body, EndOfBody]\<rparr>"

text \<open>\<open>net\<close> is \<open>fetch\<close>: it takes the request to the other side and acts on the world \<open>'w\<close>.\<close>

definition deliverAndAwaitAck ::
    "webcrypto \<Rightarrow> transport_options \<Rightarrow> string \<Rightarrow> int \<Rightarrow> (http_request \<Rightarrow> 'w \<Rightarrow> fetch_result \<times> 'w) \<Rightarrow> outbox_record \<Rightarrow> 'w
       \<Rightarrow> ack_receipt transported \<times> 'w" where
  "deliverAndAwaitAck cr opts nonce now net rec w =
     (case canonicalize_value (record_value rec) of
        Inl e \<Rightarrow> (Inl (Thrown e), w)
      | Inr body \<Rightarrow>
        let bytes = utf8_units body; captured = rec\<lparr>or_mutation := plain (normal (or_mutation rec))\<rparr>; bodyDigest = hex_sha256 cr bytes;
            ts = int_to_dec now
        in if tp_maxRequestBytes opts < int (length bytes) then (Inl (Terminal ''request body exceeds maxRequestBytes''), w)
           else if \<not> NONCE_RE nonce then (Inl (Terminal ''nonce generator produced an invalid nonce''), w)
           else if \<not> is_safe_integer now then (Inl (Terminal ''clock produced a non-integer timestamp''), w)
           else (case transport_hmac cr (tp_requestSecret opts) [REQ_DOMAIN, units (tp_requestKeyId opts), units ''POST'',
                units (tp_url_path opts), units ts, units nonce, units bodyDigest] of
             Inl e \<Rightarrow> (Inl (Thrown e), w)
           | Inr mac \<Rightarrow>
               (case net (signed_request opts ts nonce mac bytes) w of
                  (FetchThrew (Some e), w1) \<Rightarrow> (Inl e, w1)
                | (FetchThrew None, w1) \<Rightarrow> (Inl (Transient ''transport request failed''), w1)
                | (DeadlineExceeded, w1) \<Rightarrow> (Inl (Transient ''transport deadline exceeded''), w1)
                | (Response res, w1) \<Rightarrow> (read_reply cr opts res captured nonce bodyDigest, w1))))"

text \<open>What the publisher sees of it.\<close>

definition as_reply :: "ack_receipt transported \<Rightarrow> transport_reply" where
  "as_reply r = (case r of Inr receipt \<Rightarrow> Delivered receipt | Inl (Terminal m) \<Rightarrow> FailedTerminally | Inl _ \<Rightarrow> Failed)"

definition http_transport ::
    "webcrypto \<Rightarrow> transport_options \<Rightarrow> string \<Rightarrow> int \<Rightarrow> (http_request \<Rightarrow> 'w \<Rightarrow> fetch_result \<times> 'w) \<Rightarrow> outbox_record \<Rightarrow> 'w
       \<Rightarrow> transport_reply \<times> 'w" where
  "http_transport cr opts nonce now net rec w = apfst as_reply (deliverAndAwaitAck cr opts nonce now net rec w)"

end
