(* ===== verification/Http_Laws.thy ===== *)
theory Http_Laws
  imports Http_Outbox
begin

text \<open>
  The HTTP hop of the outbox: a request is accepted at most once, an acknowledgement is bound to the attempt
  it answers, and over a network that delivers, the exchange completes.
\<close>

section \<open>A request is accepted at most once\<close>

text \<open>The nonce is in the table until the time \<open>E\<close> at least.\<close>

definition burnt :: "int \<Rightarrow> string \<Rightarrow> nonce_table \<Rightarrow> bool" where
  "burnt E n table = (jm_wf table \<and> (\<exists>x. jm_get table n = Some x \<and> E \<le> x))"

lemma store_body:
  assumes "checkAndStore schema opts env n table = (r, table')" "jm_wf table"
  shows "table' = table
    \<or> (table' = jm_keep (\<lambda>k expires. \<not> expires < ne_dbNow env) table \<and> r \<noteq> Inr True)
    \<or> (table' = jm_set n (ne_dbNow env + no_retentionMs opts) (jm_keep (\<lambda>k expires. \<not> expires < ne_dbNow env) table)
        \<and> jm_get (jm_keep (\<lambda>k expires. \<not> expires < ne_dbNow env) table) n = None
        \<and> is_safe_integer (ne_appNow env) \<and> \<bar>ne_dbNow env - ne_appNow env\<bar> \<le> no_maxClockSkewMs opts)"
  using assms(1)
  by (auto simp: checkAndStore_def transaction_def ensure_def Let_def then_do_Inr_iff split: sum.splits commit.splits if_splits)

lemma store_keeps:
  assumes "burnt E n table" "ne_dbNow env \<le> E"
  shows "burnt E n (snd (checkAndStore schema opts env m table))"
proof -
  obtain r table' where s: "checkAndStore schema opts env m table = (r, table')" by fastforce
  have "burnt E n (jm_keep (\<lambda>k expires. \<not> expires < ne_dbNow env) table)"
    using assms by (auto simp: burnt_def map_of_jm_keep)
  with store_body [OF s] assms(1) have "burnt E n table'" by (auto simp: burnt_def)
  with s show ?thesis by simp
qed

lemma store_fresh:
  assumes "checkAndStore schema opts env n table = (Inr True, table')" "jm_wf table"
  shows "burnt (ne_dbNow env + no_retentionMs opts) n table' \<and> \<bar>ne_dbNow env - ne_appNow env\<bar> \<le> no_maxClockSkewMs opts"
  using assms
  by (auto simp: checkAndStore_def transaction_def ensure_def Let_def then_do_Inr_iff burnt_def
      split: sum.splits commit.splits if_splits)

lemma store_replay:
  assumes "burnt E n table" "ne_dbNow env \<le> E"
  shows "checkAndStore schema opts env n table \<noteq> (Inr True, table')"
proof
  assume s: "checkAndStore schema opts env n table = (Inr True, table')"
  have "jm_get (jm_keep (\<lambda>k expires. \<not> expires < ne_dbNow env) table) n \<noteq> None"
    using assms by (auto simp: burnt_def map_of_jm_keep)
  with s show False
    by (auto simp: checkAndStore_def transaction_def ensure_def Let_def then_do_Inr_iff split: sum.splits commit.splits if_splits)
qed

lemma authenticate_table:
  obtains "snd (authenticate cr opts env now req table) = table"
  | n where "snd (authenticate cr opts env now req table) = snd (checkAndStore (rc_schema opts) (rc_nonceStore opts) env n table)"
proof -
  have "snd (authenticate cr opts env now req table) = table
    \<or> (\<exists>n. hr_nonce req = Some n \<and> snd (authenticate cr opts env now req table)
         = snd (checkAndStore (rc_schema opts) (rc_nonceStore opts) env n table))"
    by (auto simp: authenticate_def Let_def split: option.splits sum.splits prod.splits bool.splits)
  then show thesis using that by blast
qed

text \<open>What an accepted request proved.\<close>

lemma authenticated:
  assumes "authenticate cr opts env now req table = (Some (Inr (body, nonce, bodyDigest)), table')"
  obtains keyId ts sig secret mac where "hr_method req = ''POST''" "hr_url req = rc_expectedPath opts"
    "hr_keyId req = Some keyId" "hr_timestamp req = Some ts" "hr_nonce req = Some nonce" "hr_signature req = Some sig"
    "readBodyCapped (nat (rc_maxBodyBytes opts)) 0 [] (hr_body req) = Some (Inr body)" "bodyDigest = hex_sha256 cr body"
    "rc_resolveRequestKey opts keyId = Some secret" "\<bar>now - int (dec_to_nat ts)\<bar> \<le> rc_freshnessMs opts"
    "transport_hmac cr secret [REQ_DOMAIN, units keyId, units ''POST'', units (hr_url req), units ts, units nonce, units bodyDigest]
      = returns mac" "ctEqualB64u sig mac"
    "checkAndStore (rc_schema opts) (rc_nonceStore opts) env nonce table = (Inr True, table')"
  using assms
  by (auto simp: authenticate_def Let_def split: if_splits option.splits sum.splits prod.splits bool.splits)

text \<open>Requests that reach receivers on one table, each with its receiver, transaction and clock.\<close>

definition ingest :: "webcrypto \<Rightarrow> nonce_table \<Rightarrow> receiver_options \<times> nonce_env \<times> int \<times> http_request \<Rightarrow> nonce_table" where
  "ingest cr table e = (case e of (opts, env, now, req) \<Rightarrow> snd (authenticate cr opts env now req table))"

lemma burnt_ingest:
  assumes "burnt E n table" "ne_dbNow (fst (snd e)) \<le> E"
  shows "burnt E n (ingest cr table e)"
  by (rule authenticate_table [of cr "fst e" "fst (snd e)" "fst (snd (snd e))" "snd (snd (snd e))" table])
    (use assms store_keeps in \<open>simp_all add: ingest_def case_prod_unfold\<close>)

lemma burnt_run: "burnt E n table \<Longrightarrow> list_all (\<lambda>e. ne_dbNow (fst (snd e)) \<le> E) es \<Longrightarrow> burnt E n (foldl (ingest cr) table es)"
  by (induction es arbitrary: table) (simp_all add: burnt_ingest)

text \<open>
  A request is accepted at most once. Once a receiver whose options were checked by the constructor has
  accepted a nonce with a timestamp, it accepts no later request with this nonce and this timestamp, a byte for
  byte replay included, whatever requests other receivers handle on the same table in between: if the store
  reads the clock of the receiver, and the clock of the database is at no transaction in between ahead of the
  last one by more than the safety margin.
\<close>
theorem request_accepted_once:
  assumes "new_receiver opts = returns opts'" "jm_wf table"
    and "authenticate cr opts env now req table = (Some (Inr a), table1)" "ne_appNow env = now"
    and "list_all (\<lambda>e. ne_dbNow (fst (snd e)) \<le> ne_dbNow env2 + rc_nonceSafetyMs opts) es" "table2 = foldl (ingest cr) table1 es"
    and "hr_nonce req2 = hr_nonce req" "hr_timestamp req2 = hr_timestamp req" "ne_appNow env2 = now2"
  shows "fst (authenticate cr opts env2 now2 req2 table2) \<noteq> Some (Inr b)"
proof
  assume "fst (authenticate cr opts env2 now2 req2 table2) = Some (Inr b)"
  then obtain body2 nonce2 d2 table3 where a2: "authenticate cr opts env2 now2 req2 table2 = (Some (Inr (body2, nonce2, d2)), table3)"
    by (metis prod.collapse)
  obtain body nonce d where a1: "authenticate cr opts env now req table = (Some (Inr (body, nonce, d)), table1)"
    using assms(3) by (metis prod.collapse)
  obtain ts where 1: "hr_timestamp req = Some ts" "hr_nonce req = Some nonce" "\<bar>now - int (dec_to_nat ts)\<bar> \<le> rc_freshnessMs opts"
    "checkAndStore (rc_schema opts) (rc_nonceStore opts) env nonce table = (Inr True, table1)"
    by (rule authenticated [OF a1]) blast
  obtain ts2 where "hr_timestamp req2 = Some ts2" "hr_nonce req2 = Some nonce2" "\<bar>now2 - int (dec_to_nat ts2)\<bar> \<le> rc_freshnessMs opts"
    "checkAndStore (rc_schema opts) (rc_nonceStore opts) env2 nonce2 table2 = (Inr True, table3)"
    by (rule authenticated [OF a2]) blast
  with 1 assms(7,8) have 2: "\<bar>now2 - int (dec_to_nat ts)\<bar> \<le> rc_freshnessMs opts"
    "checkAndStore (rc_schema opts) (rc_nonceStore opts) env2 nonce table2 = (Inr True, table3)" by simp_all
  let ?E = "ne_dbNow env + no_retentionMs (rc_nonceStore opts)" and ?skew = "no_maxClockSkewMs (rc_nonceStore opts)"
  note f = store_fresh [OF 1(4) assms(2)]
  have k: "2 * rc_freshnessMs opts + rc_nonceSafetyMs opts \<le> no_retentionMs (rc_nonceStore opts) - 2 * ?skew" "0 < rc_nonceSafetyMs opts"
    using assms(1) by (auto simp: new_receiver_def posInt_def toSecret_def and_then_Inr_iff Let_def split: if_splits)
  have db2: "\<bar>ne_dbNow env2 - now2\<bar> \<le> ?skew"
    using 2(2) assms(9) by (auto simp: checkAndStore_def transaction_def ensure_def Let_def then_do_Inr_iff
        split: sum.splits commit.splits if_splits)
  have late: "ne_dbNow env2 + rc_nonceSafetyMs opts \<le> ?E" using f k(1) 1(3) 2(1) db2 assms(4) by linarith
  then have "list_all (\<lambda>e. ne_dbNow (fst (snd e)) \<le> ?E) es"
    using assms(5) by (auto simp: list_all_iff)
  then have "burnt ?E nonce table2" unfolding assms(6) using f by (blast intro: burnt_run)
  with late k(2) store_replay [of ?E nonce table2 env2] 2(2) show False by simp
qed

section \<open>A signed request is accepted\<close>

lemma timestamp_re_dec:
  assumes "0 \<le> t" "is_safe_integer t"
  shows "timestamp_re (int_to_dec t) \<and> int_to_dec t \<noteq> [] \<and> int (dec_to_nat (int_to_dec t)) = t"
proof -
  obtain c cs where c: "nat_to_dec (nat t) = c # cs" using nat_to_dec_Cons by blast
  have "nat t < 10 ^ 16" using assms by (simp add: is_safe_integer_def MAX_SAFE_INTEGER_def)
  then have "length (nat_to_dec (nat t)) \<le> 16" by (subst length_nat_to_dec) simp_all
  moreover have "nat_to_dec (nat t) = ''0''" if "hd (nat_to_dec (nat t)) = CHR ''0''"
    using nat_to_dec_no_leading_zero [of "nat t"] that c by (cases cs) auto
  ultimately have "timestamp_re (nat_to_dec (nat t))"
    using nat_to_dec_digits [of "nat t"] c by (auto simp: timestamp_re_def)
  with assms(1) c show ?thesis by (metis dec_to_nat_of_dec int_nat_eq int_to_dec_def list.distinct(1) not_less)
qed

lemma json_mime [simp]: "isJsonMime (Some CONTENT_TYPE)"
  by code_simp

text \<open>
  What the transport sends is accepted by a receiver that serves its path, resolves its key to its secret, reads a
  close clock, and whose store takes the nonce; and the receiver handles the bytes that were sent.
\<close>
theorem signed_request_accepted:
  assumes "KEY_ID_RE (tp_requestKeyId t)" "NONCE_RE nonce" "0 \<le> ts" "is_safe_integer ts" "32 \<le> length (tp_requestSecret t)"
    and "transport_hmac cr (tp_requestSecret t) [REQ_DOMAIN, units (tp_requestKeyId t), units ''POST'',
          units (tp_url_path t), units (int_to_dec ts), units nonce, units (hex_sha256 cr body)] = returns mac" "mac \<noteq> []"
    and "rc_expectedPath opts = tp_url_path t" "rc_resolveRequestKey opts (tp_requestKeyId t) = Some (tp_requestSecret t)"
    and "int (length body) \<le> rc_maxBodyBytes opts" "is_safe_integer now" "\<bar>now - ts\<bar> \<le> rc_freshnessMs opts"
    and "checkAndStore (rc_schema opts) (rc_nonceStore opts) env nonce table = (Inr True, table')"
  shows "authenticate cr opts env now (signed_request t (int_to_dec ts) nonce mac body) table
    = (Some (Inr (body, nonce, hex_sha256 cr body)), table')"
proof -
  have b: "readBodyCapped (nat (rc_maxBodyBytes opts)) 0 [] [Data body, EndOfBody] = Some (Inr body)"
    using assms(10) by simp
  have "b64url mac \<noteq> []" using assms(7) buffer_from_b64url [of mac] by (auto simp: buffer_from_base64_def)
  then have k: "\<not> (int_to_dec ts = [] \<or> b64url mac = [] \<or> \<not> KEY_ID_RE (tp_requestKeyId t) \<or> \<not> NONCE_RE nonce)"
    "\<not> length (tp_requestSecret t) < 32" "timestamp_re (int_to_dec ts)" "int (dec_to_nat (int_to_dec ts)) = ts"
    "\<not> rc_freshnessMs opts < \<bar>now - ts\<bar>" "ctEqualB64u (b64url mac) mac"
    using assms timestamp_re_dec [OF assms(3,4)] by (simp_all add: ctEqualB64u_def)
  show ?thesis
    unfolding authenticate_def signed_request_def http_request.simps assms(8) b json_mime option.case sum.case prod.case assms(9) Let_def
    by (simp only: k json_mime assms(4,11) assms(6) assms(13) simp_thms if_True if_False sum.case prod.case bool.case)
qed

section \<open>An acknowledgement is bound to its attempt\<close>

lemma envelope_bound:
  assumes "verifyEnvelope cr t s rec nonce bodyDigest = Inr receipt"
  obtains ps k secret mac sg receiptText where "parse_json16 s = Some (NObj ps)"
    "map_of ps (units ''challenge'') = Some (NStr (units nonce))" "map_of ps (units ''requestDigest'') = Some (NStr (units bodyDigest))"
    "map_of ps (units ''sig'') = Some (NStr sg)" "tp_resolveResponseKey t k = Some secret" "32 \<le> length secret"
    "canonicalize_value (receipt_value receipt) = returns receiptText"
    "transport_hmac cr secret (ack_parts k nonce bodyDigest (tp_url_path t) receiptText) = returns mac"
    "\<exists>a. latin sg = Some a \<and> buffer_from_base64 a = mac"
    "ar_streamId receipt = oh_streamId rec" "ar_sourceEpoch receipt = oh_sourceEpoch rec"
    "ar_sequence receipt = oh_sequence rec" "ar_opDigest receipt = oh_opDigest rec" "tp_verify t receipt rec = Verified"
  using assms
  by (auto simp: verifyEnvelope_def member_string_def then_transport_Inr_iff toSecret_def ctEqualB64u_def
      split: option.splits jnorm.splits if_splits sum.splits ack_verification.splits)

text \<open>
  A delivery that reports a receipt was answered with status 200 by an envelope that names this attempt's nonce and the
  digest of this attempt's body, whose MAC under a known response key of at least 32 bytes covers both, the path
  and the receipt; the receipt names the record that was sent and the verifier accepted it. Any other reply of
  the network is an error, never a receipt.
\<close>
theorem ack_is_bound:
  assumes "deliverAndAwaitAck cr t nonce now net rec w = (Inr receipt, w')"
  obtains body res ps k secret mac sg receiptText req es bytes where "canonicalize_value (record_value rec) = returns body"
    "net req w = (Response res, w')" "hr_nonce req = Some nonce" "hr_body req = [Data (utf8_units body), EndOfBody]"
    "fr_status res = 200" "fr_body res = Some es" "readCapped (nat (tp_maxResponseBytes t)) 0 [] es = Some (Inr bytes)"
    "parse_json16 (utf8_decode bytes) = Some (NObj ps)" "map_of ps (units ''challenge'') = Some (NStr (units nonce))"
    "map_of ps (units ''requestDigest'') = Some (NStr (units (hex_sha256 cr (utf8_units body))))"
    "map_of ps (units ''sig'') = Some (NStr sg)" "tp_resolveResponseKey t k = Some secret" "32 \<le> length secret"
    "transport_hmac cr secret (ack_parts k nonce (hex_sha256 cr (utf8_units body)) (tp_url_path t) receiptText) = returns mac"
    "canonicalize_value (receipt_value receipt) = returns receiptText" "\<exists>a. latin sg = Some a \<and> buffer_from_base64 a = mac"
    "ar_streamId receipt = oh_streamId rec" "ar_sourceEpoch receipt = oh_sourceEpoch rec"
    "ar_sequence receipt = oh_sequence rec" "ar_opDigest receipt = oh_opDigest rec"
proof -
  let ?rec = "rec\<lparr>or_mutation := plain (normal (or_mutation rec))\<rparr>"
  obtain body m res where 1: "canonicalize_value (record_value rec) = returns body"
    "net (signed_request t (int_to_dec now) nonce m (utf8_units body)) w = (Response res, w')"
    "read_reply cr t res ?rec nonce (hex_sha256 cr (utf8_units body)) = Inr receipt"
    using assms by (auto simp: deliverAndAwaitAck_def Let_def split: sum.splits if_splits prod.splits fetch_result.splits option.splits)
  obtain es bytes where 2: "fr_status res = 200" "fr_body res = Some es"
    "readCapped (nat (tp_maxResponseBytes t)) 0 [] es = Some (Inr bytes)"
    "verifyEnvelope cr t (utf8_decode bytes) ?rec nonce (hex_sha256 cr (utf8_units body)) = Inr receipt"
    using 1(3) by (auto simp: read_reply_def then_transport_Inr_iff split: if_splits option.splits)
  show thesis
    by (rule envelope_bound [OF 2(4)], rule that [OF 1(1,2) _ _ 2(1,2,3)]) (simp_all add: signed_request_def)
qed

text \<open>The publisher is told of a delivery only by such an acknowledgement.\<close>

corollary delivered_is_acknowledged:
  "fst (http_transport cr t nonce now net rec w) = Delivered receipt
    \<longleftrightarrow> fst (deliverAndAwaitAck cr t nonce now net rec w) = Inr receipt"
  by (simp add: http_transport_def as_reply_def split: sum.split transport_error.split)

end
