(* ===== verification/Spec2Isabelle.thy ===== *)
theory Spec2Isabelle
  imports Examples Errors Replication Principal_Laws Governed_Laws Durable_Examples Http_Laws
begin

text \<open>
  A verification library for the BPC protocol (Bound Pair Credentials), the TypeScript packages
  \<^verbatim>\<open>packages/core\<close>, \<^verbatim>\<open>packages/server\<close> and \<^verbatim>\<open>packages/client-sdk\<close>.

  The program. A client holds a P-256 key and a user secret. \<open>prepareRegistration\<close> sends the public
  key and a key derived from the secret; an operator approves, and the server's registry stores the
  pair. For every request the client signs a canonical payload (method, path, body hash, nonce,
  timestamp, pair, an HMAC of the secret); \<open>verifyBPCRequest\<close> checks limits, pair status, payload,
  signature, consumes the nonce, claims one use of the pair atomically and hands the application a
  snapshot. Around it stand an anomaly engine (shadow state, tarpit, threat score), a hash-chained
  audit log, key rotation, guards for the loss of Redis state, replication and a failover transport.

  Theories, in the order of the code they model:
  \<^item> \<open>Prelude\<close>: results of functions that throw, the JavaScript \<open>Map\<close> in insertion order, string
    functions, decimal numerals, and the locale \<open>inv_machine\<close> (a step function with an invariant).
  \<^item> \<open>Encoding\<close>, \<open>Json\<close>, \<open>Json_Laws\<close>: \<^verbatim>\<open>encoding.ts\<close> over \<open>btoa\<close>/\<open>atob\<close> and UTF-8; JSON text,
    \<^verbatim>\<open>canonical.ts\<close>; the round trips and the uniqueness of the canonical form.
  \<^item> \<open>Core\<close>: \<^verbatim>\<open>hmac.ts\<close>, \<^verbatim>\<open>crypto.ts\<close>, \<^verbatim>\<open>secret.ts\<close>, \<^verbatim>\<open>nonce.ts\<close>, the redaction of
    \<^verbatim>\<open>runtime-capture.ts\<close>. WebCrypto is the record \<open>webcrypto\<close>, a parameter everywhere.
  \<^item> \<open>Store\<close>: \<^verbatim>\<open>types.ts\<close>, \<^verbatim>\<open>store.ts\<close>, \<open>MemoryPairStore\<close>; locales \<open>kv_store\<close>, \<open>pair_store\<close>.
  \<^item> \<open>Nonce\<close>, \<open>Rate_Limiter\<close>, \<open>Anomaly\<close>, \<open>Audit_Log\<close>, \<open>Continuity\<close>: one per file of the server
    (\<^verbatim>\<open>memory-store.ts\<close> and \<^verbatim>\<open>redis-nonce.ts\<close>, \<^verbatim>\<open>rate-limiter.ts\<close>, \<^verbatim>\<open>anomaly.ts\<close>, \<^verbatim>\<open>audit.ts\<close>,
    \<^verbatim>\<open>redis-continuity.ts\<close> and \<^verbatim>\<open>rollback-checkpoint.ts\<close>), with the locales \<open>nonce_backend\<close>,
    \<open>counter_store\<close> and \<open>hash_chain\<close>, each interpreted on the model.
  \<^item> \<open>Registry\<close>: \<^verbatim>\<open>registry.ts\<close>, every operation a function on the record \<open>registry\<close>; runs of it.
  \<^item> \<open>Middleware\<close>: \<^verbatim>\<open>middleware.ts\<close>. \<open>verifyBPCRequest\<close> is four phases (\<open>admit\<close>, \<open>check_payload\<close>,
    \<open>consume_nonce\<close>, \<open>claim_use\<close>) with arbitrary functions of other requests and operators between
    them; \<open>authentic\<close> is the specification of an authorised request. \<open>Verifier\<close>: whole runs.
  \<^item> \<open>Client\<close>: \<^verbatim>\<open>client.ts\<close>, \<^verbatim>\<open>registration.ts\<close>, \<^verbatim>\<open>failover-transport.ts\<close>. \<open>Rotation\<close>:
    \<^verbatim>\<open>rotation.ts\<close>. \<open>Examples\<close>: concrete runs that witness the hypotheses of the theorems.
  \<^item> \<open>Promotion\<close>: \<^verbatim>\<open>promotion.ts\<close> and \<^verbatim>\<open>admin.ts\<close>. \<open>Errors\<close>: the table of \<^verbatim>\<open>errors.ts\<close> against the answers of
    the verifier. \<open>Hex\<close>: hexadecimal text.
  \<^item> \<open>Replica_Envelope\<close> (\<^verbatim>\<open>replica-envelope.ts\<close>, locale \<open>apply_guard\<close>), \<open>Replica_Receiver\<close>
    (\<^verbatim>\<open>replica-receiver.ts\<close>, locale \<open>replica_receiver\<close>), \<open>Replication\<close> (\<^verbatim>\<open>replicating-store.ts\<close> and the
    primary, the link and the replica as one transition system): the replica holds a prefix of the
    primary's writes under any schedule.
  \<^item> \<open>Principal\<close>, \<open>Principal_Laws\<close>: \<^verbatim>\<open>principal-session.ts\<close>, the ledger of agent principals and the
    sealed cache of the fallback authorization.
  \<^item> \<open>Utf16\<close> (JavaScript strings as UTF-16 code units, UTF-8, the locale \<open>prefix_code\<close>), \<open>Outbox_Contract\<close>
    (\<^verbatim>\<open>ha-outbox-contract.ts\<close>), \<open>Outbox_Text\<close> (the canonical text), \<open>Outbox_Laws\<close> (the digests).
  \<^item> \<open>Governed\<close>, \<open>Governed_Laws\<close>: \<^verbatim>\<open>redis-governed.ts\<close>, the two Lua scripts on the keys of a namespace, the gate
    of a process, and what holds over histories of scripts with losses of all data.
  \<^item> \<open>Durable_Outbox\<close>: \<^verbatim>\<open>ha-outbox-pg.ts\<close>, the tables as the record \<open>ha_db\<close>, every SQL statement a function
    on it, \<open>critical\<close> the transaction around a body (committed, not committed, committed unseen).
    \<open>Durable_Laws\<close>: its lemmas. \<open>Durable_System\<close>: writers, publishers, an untrusted network, receivers and
    promotions as one event system, its invariant \<open>sys_inv\<close> and its refinement of a replicated log
    \<open>spec_step\<close>. \<open>Durable_Delivery\<close>: a drain ends and delivers. \<open>Durable_Fencing\<close>: promotions, and a
    mutation that blocks its stream. \<open>Durable_Examples\<close>: a deployment in which these theorems are applied.
  \<^item> \<open>Agent_Cache\<close>: \<^verbatim>\<open>agent-cache.ts\<close>, the sealed credential cache over a parameter protector.
  \<^item> \<open>Text_Decoding\<close>, \<open>Text_Laws\<close>: UTF-8 and JSON text from the wire, inverse to the canonical text.
    \<open>Http_Outbox\<close>: \<^verbatim>\<open>http-outbox-transport.ts\<close>, the transport, the receiver's handler and its nonce store
    over a parameter network. \<open>Http_Laws\<close>: a request is accepted at most once, a well-made one is accepted, and
    an acknowledgement is bound to the attempt it answers.
  \<^item> This theory: properties of the client, the registry and the verifier together.

  Correspondence. A class is a record of its fields, a method a function that takes the clock reading
  and the random bytes it uses as arguments and returns its result with the new state; \<open>throw\<close> and a
  rejected promise are \<open>Inl\<close>. Numbers are \<open>int\<close> where the code requires safe integers or counts
  small ones (safe-integer tests are written out), \<open>rat\<close> for the decayed score, 8- and 32-bit words
  in the codec and the comparison loop. JSON numbers are integers. Strings are lists of 8-bit
  characters, in the outbox contract and its transport lists of 16-bit code units. The parser of JSON takes fuel: twice the length of the text plus two is enough, which
  \<open>Json_Laws\<close> proves. \<open>drain_loop\<close> takes the environments of its turns as a list and is \<open>None\<close> when the list ends
  first; one turn more than there are unacknowledged rows is enough (\<open>drain_delivers\<close>). Loops over stored entries
  are recursion on the lists; nothing else needs fuel.

  What the lemmas show. Per component: the laws of its interface, an invariant kept by every
  operation (\<open>reg_wf\<close>, \<open>log_ok\<close>, \<open>rate_inv\<close>, \<open>counters_nonneg\<close>, \<open>closed_until\<close>, \<open>endpoint_urls\<close>), its
  behaviour on every branch, and the theorems numbered C1 and up.

  Not modelled. WebCrypto, Redis, PostgreSQL, the network, the file system and timers are parameters
  or arguments. \<open>generateKeypair\<close>, the Argon2 helpers, runtime metadata, the key files, the browser
  database, the HTTP wiring of \<^verbatim>\<open>index.ts\<close>, demos and drills are I/O around the core. Of the durable outbox
  the query that digests the catalog, the migration from schema version 2, the opaque transaction
  handles and deadlines are left out: they belong to the database and to the caller's process. Not
  modelled are \<open>registerAllGhostPairs\<close> (three concurrent \<open>registerGhostPair\<close>), \<open>PgAuditLog\<close> and the other
  SQL wrappers, the catalog queries that attest the nonce table of the HTTP transport (a flag of the model),
  and the stored procedures of \<^verbatim>\<open>bpc-ha-final.ts\<close>.
\<close>

section \<open>From enrolment to an accepted request\<close>

text \<open>
  What the server's state must allow for a source, independently of the pair: the limiters have
  room, the source is not in shadow state for the pair, and its verdict is not a denial.
\<close>

definition source_admitted :: "server_config \<Rightarrow> bpc_request \<Rightarrow> int \<Rightarrow> 'n server \<Rightarrow> bool" where
  "source_admitted cfg req now srv =
     (limiter_allows now (''ip:'' @ source_ip req) (present (rq_ip req)) (srv_ipLimiter srv)
      \<and> limiter_allows now (''pair:'' @ pair_id req) (present (rq_pairId req)) (srv_rateLimiter srv)
      \<and> \<not> shadowed (pair_id req) (source_ip req) srv
      \<and> (tarpit_enabled cfg \<and> source_ip req \<noteq> ''unknown'' \<longrightarrow>
          fst (getVerdict now (pair_id req) (source_ip req) (recordRequest now (rq_pairId req) (srv_anomaly srv)))
            \<in> {Clean, Suspicious}))"

text \<open>The client whose registration was approved under the identifier \<open>i\<close>.\<close>

definition enrolled_client :: "string \<Rightarrow> string \<Rightarrow> key \<Rightarrow> string \<Rightarrow> bpc_client" where
  "enrolled_client url i sk secret = \<lparr>cl_serverUrl = url, cl_pairId = i, cl_privateKey = sk, cl_secret = secret\<rparr>"

definition key_pair :: "webcrypto \<Rightarrow> json \<Rightarrow> key \<Rightarrow> bool" where
  "key_pair cr pubJwk sk = (\<exists>jwk key. canonicalAuthorizationJwk pubJwk = returns jwk
     \<and> importPublicKeyFromJwk cr jwk = returns key \<and> (\<forall>m. wc_verify cr key (wc_sign cr sk m) m))"

definition fits_limits :: "signed_headers \<Rightarrow> bool" where
  "fits_limits h = (0 < length (sh_signedData h) \<and> length (sh_signedData h) \<le> MAX_SIGNED_DATA_LEN
     \<and> 0 < length (sh_signature h) \<and> length (sh_signature h) \<le> MAX_SIGNATURE_LEN)"

lemma prepared_registration:
  assumes "prepareRegistration cr pubJwk nm secret scope mode = returns g"
  shows "rg_pubJwk g = pubJwk" "hashSecret cr secret = returns (rg_secretHash g)" "rg_scope g = scope"
    "rg_expiresAt g = None" "rg_maxRequests g = None" "rg_kind g = None"
  using assms by (auto simp: prepareRegistration_def and_then_Inr_iff split: sum.splits)

lemma registered_pair:
  assumes "reg_wf r" "registerDirect t0 rand1 rand2 g r = (returns i, r')"
  shows "i = generateId ''pair'' rand2" "ms_get (reg_store r') i = Some (approved_pair t0 i g)" "reg_wf r'"
proof -
  have res: "registrable g (generateId ''pair'' rand2) r" "i = generateId ''pair'' rand2"
    "ms_get (reg_store r') i = Some (approved_pair t0 i g)"
    using registerDirect_result [OF assms(1) refl assms(2)] by (auto split: if_splits)
  then show "i = generateId ''pair'' rand2" "ms_get (reg_store r') i = Some (approved_pair t0 i g)" by simp_all
  obtain token r1 where s: "requestPairing t0 rand1 g r = (returns token, r1)" "approvePairing t0 rand2 token r1 = (returns i, r')"
    using assms(2) by (auto simp: registerDirect_def split: prod.splits sum.splits)
  have "reg_wf r1" using reg_step_wf [OF assms(1), of "EvRequest t0 rand1 g"] s(1) by simp
  from reg_step_wf [OF this, of "EvApprove t0 rand2 token"] s(2) show "reg_wf r'" by simp
qed

lemma enrolled_paired:
  assumes "prepareRegistration cr pubJwk nm secret scope mode = returns g" "key_pair cr pubJwk sk"
  shows "paired cr (enrolled_client url i sk secret) (approved_pair t0 i g)"
  using assms(2) prepared_registration [OF assms(1)]
  by (simp add: paired_def enrolled_client_def approved_pair_def key_pair_def)

lemma wire_header_error:
  assumes "method \<in> set ALLOWED_METHODS" "fits_limits h" "sh_pairIdHeader h = generateId ''pair'' rand"
    "sh_version h = BPC_PROTOCOL_VERSION"
  shows "header_error (wire_request h method path bh ip) = None"
proof -
  have "list_all is_b64url_char (generateId ''pair'' rand)"
    by (rule generateId_chars) (simp add: is_b64url_char_def is_alnum_def is_lower_def)
  moreover have "length (generateId ''pair'' rand) \<le> 64" using length_generateId_le [of "''pair''" rand] by simp
  moreover have "generateId ''pair'' rand \<noteq> []" by (simp add: generateId_def)
  ultimately show ?thesis
    using assms by (auto simp: header_error_def wire_request_def present_def opt_length_def fits_limits_def
        MAX_PAIR_ID_LEN_def pair_id_def)
qed

lemma scope_methods: "SCOPE_ALLOWED_METHODS scope = Some ms \<Longrightarrow> m \<in> set ms \<Longrightarrow> m \<in> set ALLOWED_METHODS \<and> is_ascii m"
  by (auto simp: SCOPE_ALLOWED_METHODS_def ALLOWED_METHODS_def is_ascii_def split: if_splits)

lemma signed_header_fields:
  "signRequest cr cl nonce ts method path body = returns h
     \<Longrightarrow> sh_pairIdHeader h = cl_pairId cl \<and> sh_version h = BPC_PROTOCOL_VERSION"
  by (auto simp: signRequest_def and_then_Inr_iff Let_def)

lemma reg_run_wf: "reg_wf r \<Longrightarrow> reg_wf (foldl reg_step r es)"
  by (induction es arbitrary: r) (simp_all add: reg_step_wf)

text \<open>
  C1. An enrolled client is served. A client prepares a registration with its secret and public key, the
  registry approves it, and any registry operations follow that leave its pair as it was approved. Then
  the client signs a request with the identifier it received. The verifier accepts it, and its snapshot
  names the pair and its scope, under these conditions: the method is one of the scope, the path is ASCII,
  the nonce is an ASCII UUID, the signed data contains no forbidden key text and the headers are within
  their limits; the limiters and the anomaly engine admit the source; the timestamp is within the window,
  the nonce is fresh and the continuity gate is open; the HMAC has 32 bytes, the lockout count is positive
  and the clock reading of the claim a safe non-negative integer; and nothing interferes between the
  phases of the verification.
\<close>
theorem enrolled_client_is_served:
  assumes "prepareRegistration cr pubJwk nm secret scope mode = returns g" "key_pair cr pubJwk sk"
    and "reg_wf r" "registerDirect t0 rand1 rand2 g r = (returns i, r1)"
    and "srv_registry srv = foldl reg_step r1 es" "ms_get (reg_store (srv_registry srv)) i = ms_get (reg_store r1) i"
    and "signRequest cr (enrolled_client url i sk secret) nonce ts method path body = returns h" "body_hash cr body = returns bh"
    and "SCOPE_ALLOWED_METHODS scope = Some ms" "method \<in> set ms" "UUID_RE nonce" "is_ascii nonce" "is_ascii path"
    and "fits_limits h" "and_then (b64url_atob (sh_signedData h)) assertNoForbiddenKeys = returns ()"
    and "\<And>k d. length (wc_hmac cr k d) = 32" "0 < (case sc_lockoutCount cfg of None \<Rightarrow> 10 | Some n \<Rightarrow> n)"
    and "source_admitted cfg (wire_request h method path bh ip) (tm_admit tm) srv"
    and "\<bar>tm_check tm - ts\<bar> \<le> sc_sigWindowMs cfg" "is_safe_integer (tm_claim tm)" "0 \<le> tm_claim tm"
    and "consume (tm_consume tm) nonce (srv_nonces srv) = (Inr False, ns)"
    and "case srv_guard srv of None \<Rightarrow> True | Some gd \<Rightarrow> assertAcceptable (tm_consume tm) gd = Inr ()"
  shows "\<exists>res. fst (verifyBPCRequest cr cfg consume (wire_request h method path bh ip) tm no_interference srv) = returns res
    \<and> vr_ok res \<and> vr_pairId res = Some i \<and> map_option snap_scope (vr_snapshot res) = Some scope"
proof -
  let ?req = "wire_request h method path bh ip"
  let ?p = "approved_pair t0 i g"
  note r1 = registered_pair [OF assms(3,4)]
  have reg: "i = generateId ''pair'' rand2" "ms_get (reg_store (srv_registry srv)) i = Some (approved_pair t0 i g)"
    "reg_wf (srv_registry srv)"
    using r1 assms(5,6) reg_run_wf [OF r1(3), of es] by simp_all
  note g = prepared_registration [OF assms(1)]
  have fields: "sh_pairIdHeader h = i" "sh_version h = BPC_PROTOCOL_VERSION"
    using signed_header_fields [OF assms(7)] by (simp_all add: enrolled_client_def)
  have m: "method \<in> set ALLOWED_METHODS" "is_ascii method" using scope_methods [OF assms(9,10)] by simp_all
  have p: "sp_id ?p = i" "sp_scope ?p = scope" "sp_status ?p = Active" "kind_of (sp_kind ?p) = Legitimate"
    "sp_failedSigs ?p = 0" "sp_expiresAt ?p = None" "\<not> cap_reached (sp_maxRequests ?p) (sp_requests ?p)"
    using g by (simp_all add: approved_pair_def kind_of_def cap_reached_def)
  obtain auth where auth: "captureAuthorizationContext ?p = returns auth"
    using assms(2) g(1) by (auto simp: captureAuthorizationContext_def key_pair_def approved_pair_def)
  have "is_ascii (generateId ''pair'' rand2)"
    using generateId_chars [of "''pair''" rand2]
    by (auto simp: is_ascii_def list_all_iff is_b64url_char_def is_alnum_def is_lower_def is_upper_def is_digit_def)
  then have idok: "is_ascii (cl_pairId (enrolled_client url i sk secret))" using reg(1) by (simp add: enrolled_client_def)
  obtain payload where au: "authentic cr (sc_sigWindowMs cfg) ?req ?p (tm_check tm) payload nonce ts"
    using client_authentic [OF assms(7,8) enrolled_paired [OF assms(1,2)] assms(16,11,19) _ assms(10,13) m(2) assms(12) idok assms(15)]
      assms(9) p(2) by metis
  have hdr: "header_error ?req = None" using wire_header_error [OF m(1) assms(14)] fields reg(1) by metis
  have ids: "pair_id ?req = i" "rq_pairId ?req = Some i" using fields by (simp_all add: wire_request_def pair_id_def)
  have adm: "admissible cfg ?req (tm_admit tm) srv ?p"
    using assms(17,18) hdr p reg(2) ids by (simp add: admissible_def source_admitted_def reg_get_def)
  obtain d where "fst (verifyBPCRequest cr cfg consume ?req tm no_interference srv) = returns (accepted ?req auth (tm_check tm) d)"
    using complete_run [where consume = consume, OF adm auth au assms(22,23) reg(3) _ assms(20,21)] p(6)
    by (auto simp: time_expired_at_def)
  then show ?thesis using ids capture_fields(3) [OF auth] p(2) by (simp add: accepted_def snapshot_of_def)
qed


section \<open>A concrete enrolment\<close>

definition ex_enrolment :: pair_registration where
  "ex_enrolment = \<lparr>rg_name = ''ci'', rg_scope = ''read'', rg_mode = ''production'',
     rg_secretHash = replicate 43 (CHR ''A''), rg_pubJwk = ex_jwk, rg_expiresAt = None,
     rg_maxRequests = None, rg_kind = None, rg_canaryClass = None\<rparr>"

abbreviation new_id :: string where
  "new_id \<equiv> ''pair_0000000000000000''"

lemma new_id_ok: "generateId ''pair'' (replicate 16 0) = new_id" "example_id new_id"
  by code_simp (simp add: example_id_def)

lemma ex_prepared: "prepareRegistration toy_crypto ex_jwk ''ci'' ''Secret-Secret-12'' ''read'' ''production'' = returns ex_enrolment"
proof -
  have "validateSecret ''Secret-Secret-12'' = returns ()" by code_simp
  then show ?thesis by (simp add: prepareRegistration_def hashSecret_def zeros_b64url ex_enrolment_def)
qed

definition ex_enrolled :: "nonce_mem server" where
  "ex_enrolled = ex_server\<lparr>srv_registry := snd (registerDirect 1 [] (replicate 16 0) ex_enrolment ex_registry)\<rparr>"

lemma ex_enrolled_fields [simp]: "srv_anomaly ex_enrolled = empty_anomaly" "srv_nonces ex_enrolled = []"
  "srv_ipLimiter ex_enrolled = None" "srv_rateLimiter ex_enrolled = None" "srv_guard ex_enrolled = None"
  by (simp_all add: ex_enrolled_def ex_server_def)

lemma ex_registered: "registerDirect 1 [] (replicate 16 0) ex_enrolment ex_registry = (returns new_id, srv_registry ex_enrolled)"
proof -
  let ?r = "registerDirect 1 [] (replicate 16 0) ex_enrolment ex_registry"
  have "registrable ex_enrolment new_id ex_registry"
    by (simp add: registrable_def validateRegistration_def MIN_SECRET_HASH_LEN_def MAX_NAME_LEN_def
        ALLOWED_SCOPES_def ALLOWED_MODES_def active_count_def ms_list_def jm_has_def ex_registry_def ex_enrolment_def)
       (simp add: ex_jwk_def)
  then have "fst ?r = returns new_id"
    using registerDirect_result [OF ex_wf(1) new_id_ok(1) [symmetric] prod.collapse [symmetric],
      where now = 1 and ?rand1.0 = "[]" and g = ex_enrolment] by simp
  then show ?thesis by (simp add: ex_enrolled_def prod_eq_iff)
qed

abbreviation enrolled_request :: bpc_request where
  "enrolled_request \<equiv> wire_request (headers_of new_id) ''GET'' ''/x'' EMPTY_BODY_HASH (Some ''9'')"

lemma enrolled_client_is_served_witness:
  "\<exists>res. fst (verifyBPCRequest toy_crypto DEFAULT_SERVER_CONFIG (mem_consume 120000) enrolled_request ex_time no_interference ex_enrolled)
     = returns res \<and> vr_ok res"
proof -
  have kp: "key_pair toy_crypto ex_jwk ''k''" by (simp add: key_pair_def importPublicKeyFromJwk_def)
  have cl: "enrolled_client ''https://h'' new_id ''k'' ''Secret-Secret-12'' = client_of new_id"
    by (simp add: enrolled_client_def client_of_def)
  obtain ns where n: "mem_consume 120000 8 ex_nonce [] = (Inr False, ns)" using ex_consume by blast
  have ids: "pair_id enrolled_request = new_id" "rq_pairId enrolled_request = Some new_id" "source_ip enrolled_request = ''9''"
    by (simp_all add: wire_request_def pair_id_def source_ip_def headers_of_def)
  have v: "fst (getVerdict 6 new_id ''9'' (recordRequest 6 (Some new_id) empty_anomaly)) = Clean" by code_simp
  have "source_admitted DEFAULT_SERVER_CONFIG enrolled_request (tm_admit ex_time) ex_enrolled"
    unfolding source_admitted_def ids
    by (simp add: limiter_allows_def shadowed_def isInShadowState_def jm_has_def ex_time_def v) (simp add: empty_anomaly_def)
  note served = enrolled_client_is_served [where consume = "mem_consume 120000" and ns = ns and bh = EMPTY_BODY_HASH
      and ms = "[''GET'', ''HEAD'', ''OPTIONS'']", OF ex_prepared kp ex_wf(1) ex_registered foldl_Nil [symmetric] refl
      ex_sign [OF new_id_ok(2), folded cl] _ _ _ ex_nonce_ok _ _ headers_of_allowed [OF new_id_ok(2)] _ _ this]
  have "\<exists>res. fst (verifyBPCRequest toy_crypto DEFAULT_SERVER_CONFIG (mem_consume 120000) enrolled_request ex_time no_interference ex_enrolled)
     = returns res \<and> vr_ok res \<and> vr_pairId res = Some new_id \<and> map_option snap_scope (vr_snapshot res) = Some ''read''"
  proof (rule served)
    show "fits_limits (headers_of new_id)"
      using headers_of_fit [OF new_id_ok(2)] by (simp add: fits_limits_def MAX_SIGNED_DATA_LEN_def MAX_SIGNATURE_LEN_def)
    show "mem_consume 120000 (tm_consume ex_time) ex_nonce (srv_nonces ex_enrolled) = (Inr False, ns)"
      unfolding ex_time_def timing.simps ex_enrolled_fields by (rule n)
    show "\<bar>tm_check ex_time - 5\<bar> \<le> sc_sigWindowMs DEFAULT_SERVER_CONFIG" by (simp add: ex_time_def DEFAULT_SERVER_CONFIG_def)
  qed (simp_all add: body_hash_def SCOPE_ALLOWED_METHODS_def is_ascii_def DEFAULT_SERVER_CONFIG_def ex_time_def
      is_safe_integer_def MAX_SAFE_INTEGER_def)
  then show ?thesis by blast
qed

end
